(* ===== verification/Prelude.thy ===== *)
theory Prelude
  imports Complex_Main "HOL-Library.Multiset"
begin

text \<open>
  Shared vocabulary of the development: the named collections the component theories add
  their facts to, the error monad in which every Python operation that can raise is written,
  and generic lemmas on lists, maps and stable sorting.
\<close>

named_theorems rounding_simps "evaluation of the rounding functions at representable values"
named_theorems str_simps "facts on the Python string helpers"
named_theorems json_simps "facts on dynamically typed payload values"
named_theorems table_simps "facts on database tables with a unique key"
named_theorems inv_intros "preservation of component invariants by their operations"

subsection \<open>The error monad\<close>

text \<open>
  \<open>Inl e\<close> is a raised exception, \<open>Inr v\<close> a returned value. \<open>sbind\<close> sequences two statements:
  the second one runs only when the first one returned.
\<close>

fun sbind :: "'e + 'a \<Rightarrow> ('a \<Rightarrow> 'e + 'b) \<Rightarrow> 'e + 'b" where
  "sbind (Inl e) f = Inl e"
| "sbind (Inr v) f = f v"

lemma sbind_Inr_iff [simp]: "sbind m f = Inr b \<longleftrightarrow> (\<exists>a. m = Inr a \<and> f a = Inr b)"
  by (cases m) auto

lemma sbind_Inl_iff: "sbind m f = Inl e \<longleftrightarrow> m = Inl e \<or> (\<exists>a. m = Inr a \<and> f a = Inl e)"
  by (cases m) auto

lemma sbind_assoc: "sbind (sbind m f) g = sbind m (\<lambda>a. sbind (f a) g)"
  by (cases m) auto

lemma sbind_cong [fundef_cong]:
  "m = n \<Longrightarrow> (\<And>v. n = Inr v \<Longrightarrow> f v = g v) \<Longrightarrow> sbind m f = sbind n g"
  by (cases n) auto

text \<open>A loop body that may raise, run over a list: the first exception ends the loop.\<close>

fun smap :: "('a \<Rightarrow> 'e + 'b) \<Rightarrow> 'a list \<Rightarrow> 'e + 'b list" where
  "smap f [] = Inr []"
| "smap f (x # xs) = sbind (f x) (\<lambda>y. sbind (smap f xs) (\<lambda>ys. Inr (y # ys)))"

lemma smap_length: "smap f xs = Inr ys \<Longrightarrow> length ys = length xs"
  by (induction xs arbitrary: ys) auto

lemma smap_total: "(\<And>x. x \<in> set xs \<Longrightarrow> f x = Inr (g x)) \<Longrightarrow> smap f xs = Inr (map g xs)"
  by (induction xs) auto

subsection \<open>Lists\<close>

lemma distinct_map_filter_eq:
  "distinct (map f xs) \<Longrightarrow> x \<in> set xs \<Longrightarrow> y \<in> set xs \<Longrightarrow> f x = f y \<Longrightarrow> x = y"
  by (auto simp: distinct_map inj_on_def)

lemma sum_list_filter_partition:
  fixes f :: "'a \<Rightarrow> 'b::comm_monoid_add"
  shows "sum_list (map f (filter P xs)) + sum_list (map f (filter (\<lambda>x. \<not> P x) xs)) =
    sum_list (map f xs)"
  by (induction xs) (auto simp: algebra_simps)

lemma length_filter_partition:
  "length (filter P xs) + length (filter (\<lambda>x. \<not> P x) xs) = length xs"
  by (induction xs) auto

text \<open>Looking up a row of a table by its key.\<close>

lemma list_ex_key [table_simps]: "list_ex (\<lambda>s. f s = k) t \<longleftrightarrow> k \<in> set (map f t)"
  by (induction t) auto

lemma find_key_None [table_simps]: "List.find (\<lambda>s. f s = k) t = None \<longleftrightarrow> k \<notin> set (map f t)"
  by (induction t) auto

lemma find_key_Some: "List.find (\<lambda>s. f s = k) t = Some r \<Longrightarrow> r \<in> set t \<and> f r = k"
  by (induction t) (auto split: if_splits)

lemma find_key_distinct: "distinct (map f t) \<Longrightarrow> r \<in> set t \<Longrightarrow> List.find (\<lambda>s. f s = f r) t = Some r"
  by (induction t) auto

text \<open>
  Stable sorting: the model of Python's \<open>sorted(key=...)\<close> is \<^const>\<open>sort_key\<close>. The head of the
  sorted list is a minimum, and it does not depend on the input order as soon as its key is
  strictly below the key of the runner-up.
\<close>

lemma sort_key_hd_least:
  assumes "sort_key k xs = y # ys" and "x \<in> set xs"
  shows "k y \<le> k x"
proof -
  have "sorted (map k (y # ys))" using assms(1) by (metis sorted_sort_key)
  moreover have "x \<in> set (y # ys)" using assms by (metis set_sort)
  ultimately show ?thesis by auto
qed

lemma sort_key_mem: "sort_key k xs = y # ys \<Longrightarrow> y \<in> set xs"
  by (metis list.set_intros(1) set_sort)

lemma sort_key_Nil_iff [simp]: "sort_key k xs = [] \<longleftrightarrow> xs = []"
  by (metis length_sort length_0_conv)

lemma sort_key_strict_head:
  assumes xs: "sort_key k xs = y # z # zs" and lt: "k y < k z" and x: "x \<in> set xs" and ne: "x \<noteq> y"
  shows "k y < k x"
proof -
  have "sorted (map k (y # z # zs))" using xs by (metis sorted_sort_key)
  moreover have "x \<in> set (z # zs)" using xs x ne by (metis set_sort set_ConsD)
  ultimately show ?thesis using lt by auto
qed

lemma map_sort_key: "map k (sort_key k xs) = sort (map k xs)"
  by (rule properties_for_sort [symmetric]) simp_all

lemma sort_key_perm_keys:
  assumes "mset xs = mset ys"
  shows "map k (sort_key k xs) = map k (sort_key k ys)"
proof -
  have "mset (map k xs) = mset (map k ys)" using assms by simp
  then have "sort (map k xs) = sort (map k ys)"
    by (metis properties_for_sort sorted_sort mset_sort)
  then show ?thesis by (simp add: map_sort_key)
qed

end
