(* ===== verification/PyNum.thy ===== *)
theory PyNum
  imports Prelude "HOL-Library.Log_Nat"
begin

text \<open>
  The numbers of the program. Python's \<open>int\<close> is \<^typ>\<open>int\<close>; a finite \<open>decimal.Decimal\<close> or
  \<open>float\<close> is the rational number it denotes, and every arithmetic operation is the exact
  operation followed by the rounding the language prescribes: the default decimal context
  rounds to 28 significant decimal digits, a binary64 float to 53 significant bits, both half
  to even; \<open>quantize\<close> and \<open>round(x, n)\<close> round to a fixed number of places, half to even. The
  exponent range is unbounded here: no value of this program comes near 2 to the 1024 or
  1e999999, and no quantity it computes is subnormal.

  The locale \<open>rounding\<close> states what every such rounding promises (it is monotone, idempotent,
  odd, and fixes 0 and 1); it is interpreted on binary64 (\<open>fl\<close>), the decimal context (\<open>dec\<close>)
  and fixed-point rounding (\<open>quant\<close>).
\<close>

subsection \<open>Round half to even\<close>

definition rhe_pick :: "int \<Rightarrow> rat \<Rightarrow> int" where
  "rhe_pick f d = (if d < 1/2 then f else if d > 1/2 then f + 1 else if even f then f else f + 1)"

definition rhe :: "rat \<Rightarrow> int" where
  "rhe x = rhe_pick \<lfloor>x\<rfloor> (x - of_int \<lfloor>x\<rfloor>)"

lemma rhe_of_int [simp]: "rhe (of_int n) = n"
  by (simp add: rhe_def rhe_pick_def)

lemma rhe_0 [simp]: "rhe 0 = 0"
  using rhe_of_int [of 0] by simp

lemma rhe_error: "\<bar>of_int (rhe x) - x\<bar> \<le> 1/2"
proof -
  have "of_int \<lfloor>x\<rfloor> \<le> x" "x < of_int \<lfloor>x\<rfloor> + 1" by linarith+
  then show ?thesis by (auto simp: rhe_def rhe_pick_def abs_le_iff)
qed

lemma rhe_cases: "rhe x = \<lfloor>x\<rfloor> \<or> rhe x = \<lfloor>x\<rfloor> + 1"
  by (auto simp: rhe_def rhe_pick_def)

lemma rhe_mono: assumes "x \<le> y" shows "rhe x \<le> rhe y"
proof (cases "\<lfloor>x\<rfloor> = \<lfloor>y\<rfloor>")
  case True
  with assms show ?thesis by (auto simp: rhe_def rhe_pick_def)
next
  case False
  with assms have "\<lfloor>x\<rfloor> + 1 \<le> \<lfloor>y\<rfloor>" by (metis floor_mono add1_zle_eq order_le_less)
  then show ?thesis using rhe_cases [of x] rhe_cases [of y] by linarith
qed

lemma rhe_uminus: "rhe (- x) = - rhe x"
proof (cases "x = of_int \<lfloor>x\<rfloor>")
  case True
  then show ?thesis by (metis of_int_minus rhe_of_int)
next
  case False
  then have f: "\<lfloor>- x\<rfloor> = - \<lfloor>x\<rfloor> - 1"
    by (simp add: floor_minus ceiling_altdef)
  then have d: "- x - of_int \<lfloor>- x\<rfloor> = 1 - (x - of_int \<lfloor>x\<rfloor>)" by simp
  show ?thesis unfolding rhe_def rhe_pick_def d unfolding f by auto
qed

lemma rhe_le_of_int: "x \<le> of_int n \<Longrightarrow> rhe x \<le> n"
  using rhe_mono [of x "of_int n"] by simp

lemma rhe_ge_of_int: "of_int n \<le> x \<Longrightarrow> n \<le> rhe x"
  using rhe_mono [of "of_int n" x] by simp

subsection \<open>Scale of a number\<close>

text \<open>Number of digits of a non-negative integer in base \<open>b\<close>, on integers so that it evaluates.\<close>

function ndig :: "int \<Rightarrow> int \<Rightarrow> int" where
  "ndig b n = (if n \<le> 0 \<or> b \<le> 1 then 0 else 1 + ndig b (n div b))"
  by pat_completeness auto
termination
  by (relation "measure (\<lambda>(b, n). nat n)") (auto simp: nat_mono_iff int_div_less_self)

declare ndig.simps [simp del]

lemma ndig_floorlog: "ndig (int b) (int n) = int (floorlog b n)"
proof (induction n rule: less_induct)
  case (less n)
  show ?case
  proof (cases "0 < n \<and> 1 < b")
    case True
    then have "ndig (int b) (int (n div b)) = int (floorlog b (n div b))"
      by (intro less) (auto intro: div_less_dividend)
    with True show ?thesis
      by (simp add: ndig.simps [of "int b" "int n"] compute_floorlog [of b n] zdiv_int)
  next
    case False
    then show ?thesis by (auto simp: ndig.simps [of "int b" "int n"] compute_floorlog [of b n])
  qed
qed

definition ilog :: "nat \<Rightarrow> rat \<Rightarrow> int" where
  "ilog b x = (if 1 \<le> x then ndig (int b) \<lfloor>x\<rfloor> - 1 else - ndig (int b) (\<lceil>1 / x\<rceil> - 1))"

lemma ilog_floorlog:
  assumes "0 < x"
  shows "ilog b x = (if 1 \<le> x then int (floorlog b (nat \<lfloor>x\<rfloor>)) - 1
     else - int (floorlog b (nat (\<lceil>1 / x\<rceil> - 1))))"
proof -
  have "int (nat \<lfloor>x\<rfloor>) = \<lfloor>x\<rfloor>" "int (nat (\<lceil>1 / x\<rceil> - 1)) = \<lceil>1 / x\<rceil> - 1"
    using assms by auto
  then show ?thesis by (simp add: ilog_def flip: ndig_floorlog)
qed

lemma ilog_lower_upper_ge1:
  assumes b: "1 < b" and x: "1 \<le> x"
  shows "of_nat b powi ilog b x \<le> x \<and> x < of_nat b powi (ilog b x + 1)"
proof -
  define n where "n = nat \<lfloor>x\<rfloor>"
  have n: "0 < n" "of_nat n \<le> x" "x < of_nat n + 1"
    using x by (auto simp: n_def) linarith+
  define k where "k = floorlog b n"
  have k: "b ^ (k - 1) \<le> n" "n < b ^ k"
    using floorlog_bounds [of n b] n b by (auto simp: k_def)
  have k0: "0 < k" using k n by (cases k) auto
  have "of_nat b powi (int k - 1) = (of_nat (b ^ (k - 1)) :: rat)"
    using k0 by (cases k) (simp_all add: power_int_def)
  moreover have "of_nat b powi int k = (of_nat (b ^ k) :: rat)"
    by (simp add: power_int_def)
  moreover have "(of_nat (b ^ (k - 1)) :: rat) \<le> x"
    using k(1) n(2) by (meson of_nat_le_iff order_trans)
  moreover have "(of_nat n :: rat) + 1 \<le> of_nat (b ^ k)"
    using k(2) by (metis Suc_leI of_nat_Suc of_nat_le_iff add.commute)
  ultimately show ?thesis using n x by (simp add: ilog_floorlog n_def [symmetric] k_def [symmetric])
qed

lemma ilog_lower_upper_lt1:
  assumes b: "1 < b" and x: "0 < x" "x < 1"
  shows "of_nat b powi ilog b x \<le> x \<and> x < of_nat b powi (ilog b x + 1)"
proof -
  define m where "m = nat (\<lceil>1 / x\<rceil> - 1)"
  define k where "k = floorlog b m"
  have c: "1 < 1 / x" using x by simp
  then have c2: "2 \<le> \<lceil>1 / x\<rceil>" by linarith
  have m: "0 < m" "of_nat m < 1 / x" "1 / x \<le> of_nat m + 1"
    using c2 by (auto simp: m_def) linarith+
  have k: "b ^ (k - 1) \<le> m" "m < b ^ k"
    using floorlog_bounds [of m b] m b by (auto simp: k_def)
  have k0: "0 < k" using k m by (cases k) auto
  have lo: "1 / x \<le> of_nat b ^ k"
  proof -
    have "(of_nat m :: rat) + 1 \<le> of_nat (b ^ k)"
      using k(2) by (metis Suc_leI of_nat_Suc of_nat_le_iff add.commute)
    with m show ?thesis by simp
  qed
  have hi: "of_nat b ^ (k - 1) < 1 / x"
  proof -
    have "(of_nat (b ^ (k - 1)) :: rat) \<le> of_nat m" using k(1) by (simp only: of_nat_le_iff)
    also note m(2)
    finally show ?thesis by simp
  qed
  have "ilog b x = - int k" using x by (simp add: ilog_floorlog m_def k_def)
  moreover have "(of_nat b :: rat) powi (- int k) \<le> x"
    using lo x b by (simp add: power_int_minus field_simps)
  moreover have "x < of_nat b powi (- int k + 1)"
  proof -
    have "(of_nat b :: rat) powi (- int k + 1) = inverse (of_nat b ^ (k - 1))"
      using k0 by (cases k) (simp_all add: power_int_minus power_int_def power_inverse)
    moreover have "x < inverse (of_nat b ^ (k - 1))" using hi x b by (simp add: field_simps)
    ultimately show ?thesis by simp
  qed
  ultimately show ?thesis by simp
qed

lemma ilog_bounds:
  "1 < b \<Longrightarrow> 0 < x \<Longrightarrow> of_nat b powi ilog b x \<le> x \<and> x < of_nat b powi (ilog b x + 1)"
  using ilog_lower_upper_ge1 [of b x] ilog_lower_upper_lt1 [of b x] by linarith

lemma ilog_mono:
  assumes b: "1 < b" and x: "0 < x" and le: "x \<le> y"
  shows "ilog b x \<le> ilog b y"
proof (rule ccontr)
  assume "\<not> ilog b x \<le> ilog b y"
  then have "ilog b y + 1 \<le> ilog b x" by simp
  then have "(of_nat b :: rat) powi (ilog b y + 1) \<le> of_nat b powi ilog b x"
    using b by (intro power_int_increasing) auto
  then have "y < x" using ilog_bounds [OF b x] ilog_bounds [OF b, of y] x le by linarith
  then show False using le by simp
qed

subsection \<open>Rounding to a number of significant digits\<close>

definition round_to_unit :: "rat \<Rightarrow> rat \<Rightarrow> rat" where
  "round_to_unit u x = of_int (rhe (x / u)) * u"

definition round_sig :: "nat \<Rightarrow> nat \<Rightarrow> rat \<Rightarrow> rat" where
  "round_sig b p x = (if x = 0 then 0 else
     round_to_unit ((of_nat b :: rat) powi (ilog b \<bar>x\<bar> - int p + 1)) x)"

lemma round_sig_0 [simp]: "round_sig b p 0 = 0"
  by (simp add: round_sig_def)

lemma round_sig_uminus: "round_sig b p (- x) = - round_sig b p x"
  by (simp add: round_sig_def round_to_unit_def rhe_uminus)

text \<open>The rounded value of a positive number stays in the closed binade (decade) of the number.\<close>

lemma round_sig_binade:
  assumes b: "1 < b" and p: "0 < p" and x: "0 < x"
  shows "of_nat b powi ilog b x \<le> round_sig b p x"
    and "round_sig b p x \<le> of_nat b powi (ilog b x + 1)"
proof -
  define B :: rat where "B = of_nat b"
  define E where "E = ilog b x"
  define u where "u = B powi (E - int p + 1)"
  have B: "1 < B" using b by (simp add: B_def)
  have u: "0 < u" using B by (simp add: u_def)
  have r: "round_sig b p x = of_int (rhe (x / u)) * u"
    using x by (simp add: round_sig_def u_def B_def E_def round_to_unit_def)
  have bounds: "B powi E \<le> x" "x < B powi (E + 1)"
    using ilog_bounds [OF b x] by (auto simp: B_def E_def)
  have lo: "of_int (int b ^ (p - 1)) * u = B powi E"
  proof -
    have "of_int (int b ^ (p - 1)) = B powi (int p - 1)"
      using p B by (cases p) (simp_all add: B_def power_int_def)
    then show ?thesis using B by (simp add: u_def power_int_add [symmetric])
  qed
  have hi: "of_int (int b ^ p) * u = B powi (E + 1)"
  proof -
    have "of_int (int b ^ p) = B powi int p" by (simp add: B_def power_int_def)
    then have "of_int (int b ^ p) * u = B powi int p * B powi (E - int p + 1)"
      by (simp only: u_def)
    also have "\<dots> = B powi (int p + (E - int p + 1))"
      using B by (intro power_int_add [symmetric]) auto
    finally show ?thesis by (simp add: algebra_simps)
  qed
  have "of_int (int b ^ (p - 1)) \<le> x / u" using bounds(1) lo u by (simp add: field_simps)
  then have "int b ^ (p - 1) \<le> rhe (x / u)" by (rule rhe_ge_of_int)
  then have "(of_int (int b ^ (p - 1)) :: rat) \<le> of_int (rhe (x / u))" by (simp only: of_int_le_iff)
  then have "of_int (int b ^ (p - 1)) * u \<le> of_int (rhe (x / u)) * u"
    using u by (intro mult_right_mono) auto
  then show "of_nat b powi ilog b x \<le> round_sig b p x"
    unfolding lo by (simp add: r B_def E_def)
  have "x / u \<le> of_int (int b ^ p)" using bounds(2) hi u by (simp add: field_simps)
  then have "rhe (x / u) \<le> int b ^ p" by (rule rhe_le_of_int)
  then have "(of_int (rhe (x / u)) :: rat) \<le> of_int (int b ^ p)" by (simp only: of_int_le_iff)
  then have "of_int (rhe (x / u)) * u \<le> of_int (int b ^ p) * u"
    using u by (intro mult_right_mono) auto
  then show "round_sig b p x \<le> of_nat b powi (ilog b x + 1)"
    unfolding hi by (simp add: r B_def E_def)
qed

lemma round_sig_pos:
  "1 < b \<Longrightarrow> 0 < p \<Longrightarrow> 0 < x \<Longrightarrow> 0 < round_sig b p x"
  using round_sig_binade(1) [of b p x] zero_less_power_int [of "of_nat b :: rat" "ilog b x"]
  by (metis of_nat_0_less_iff order_less_le_trans order_less_trans zero_less_one)

lemma round_sig_mono_pos:
  assumes b: "1 < b" and p: "0 < p" and x: "0 < x" and le: "x \<le> y"
  shows "round_sig b p x \<le> round_sig b p y"
proof (cases "ilog b x = ilog b y")
  case True
  define u :: rat where "u = of_nat b powi (ilog b x - int p + 1)"
  have u: "0 < u" using b by (simp add: u_def)
  have "x / u \<le> y / u" using le u by (simp add: divide_right_mono)
  then have "of_int (rhe (x / u)) \<le> (of_int (rhe (y / u)) :: rat)"
    by (simp only: of_int_le_iff rhe_mono)
  then have "of_int (rhe (x / u)) * u \<le> of_int (rhe (y / u)) * u"
    using u by (intro mult_right_mono) auto
  then show ?thesis using x le True by (simp add: round_sig_def round_to_unit_def u_def)
next
  case False
  with ilog_mono [OF b x le] have "ilog b x + 1 \<le> ilog b y" by simp
  then have "(of_nat b :: rat) powi (ilog b x + 1) \<le> of_nat b powi ilog b y"
    using b by (intro power_int_increasing) auto
  moreover have "0 < y" using x le by simp
  ultimately show ?thesis
    using round_sig_binade(2) [OF b p x] round_sig_binade(1) [OF b p, of y] by linarith
qed

lemma round_sig_mono:
  assumes b: "1 < b" and p: "0 < p" and le: "x \<le> y"
  shows "round_sig b p x \<le> round_sig b p y"
proof -
  consider "0 < x" | "x \<le> 0" "0 \<le> y" | "y < 0" by linarith
  then show ?thesis
  proof cases
    case 1
    then show ?thesis using round_sig_mono_pos [OF b p _ le] by simp
  next
    case 2
    have "round_sig b p x \<le> 0"
      using 2(1) round_sig_pos [OF b p, of "- x"] by (cases "x = 0") (auto simp: round_sig_uminus)
    moreover have "0 \<le> round_sig b p y"
      using 2(2) round_sig_pos [OF b p, of y] by (cases "y = 0") auto
    ultimately show ?thesis by simp
  next
    case 3
    then have "round_sig b p (- y) \<le> round_sig b p (- x)"
      using round_sig_mono_pos [OF b p, of "- y" "- x"] le by simp
    then show ?thesis by (simp add: round_sig_uminus)
  qed
qed

text \<open>
  A number is representable with \<open>p\<close> digits in base \<open>b\<close> when it is an integer of at most \<open>p\<close>
  digits scaled by a power of the base. Rounding fixes exactly such numbers and only returns
  such numbers.
\<close>

definition representable :: "nat \<Rightarrow> nat \<Rightarrow> rat \<Rightarrow> bool" where
  "representable b p x \<longleftrightarrow> (\<exists>m e. x = of_int m * of_nat b powi e \<and> \<bar>m\<bar> \<le> int b ^ p)"

lemma round_sig_fixes_scaled:
  assumes b: "1 < b" and p: "0 < p" and m: "\<bar>m\<bar> < int b ^ p"
  shows "round_sig b p (of_int m * of_nat b powi e) = of_int m * of_nat b powi e"
proof (cases "m = 0")
  case False
  define B :: rat where "B = of_nat b"
  define x where "x = of_int m * B powi e"
  define E where "E = ilog b \<bar>x\<bar>"
  have B: "1 < B" using b by (simp add: B_def)
  have x: "x \<noteq> 0" using False B by (simp add: x_def)
  have ax: "\<bar>x\<bar> = of_int \<bar>m\<bar> * B powi e" using B by (simp add: x_def abs_mult)
  have "B powi E \<le> \<bar>x\<bar>" using ilog_bounds [OF b, of "\<bar>x\<bar>"] x by (simp add: E_def B_def)
  also have "\<bar>x\<bar> < of_int (int b ^ p) * B powi e"
    unfolding ax using m B by (intro mult_strict_right_mono) (simp_all only: of_int_less_iff, simp)
  also have "\<dots> = B powi int p * B powi e" by (simp add: B_def)
  also have "\<dots> = B powi (int p + e)" using B by (intro power_int_add [symmetric]) auto
  finally have lt: "B powi E < B powi (int p + e)" .
  have "E < int p + e"
  proof (rule ccontr)
    assume "\<not> E < int p + e"
    then have "B powi (int p + e) \<le> B powi E" using B by (intro power_int_increasing) auto
    then show False using lt by simp
  qed
  define k where "k = nat (e - (E - int p + 1))"
  have k: "e = (E - int p + 1) + int k" using \<open>E < int p + e\<close> by (simp add: k_def)
  define u where "u = B powi (E - int p + 1)"
  have u: "u \<noteq> 0" using B by (simp add: u_def)
  have "B powi e = B powi (E - int p + 1) * B powi int k"
    unfolding k using B by (intro power_int_add) auto
  then have xu: "x / u = of_int (m * int b ^ k)" using u b by (simp add: x_def u_def B_def)
  have "round_sig b p x = of_int (rhe (x / u)) * u"
    using x by (simp add: round_sig_def round_to_unit_def u_def E_def B_def)
  also have "\<dots> = x / u * u" unfolding xu by (simp only: rhe_of_int)
  finally show ?thesis using u by (simp add: x_def B_def)
qed simp

lemma round_sig_representable:
  assumes b: "1 < b" and p: "0 < p" and r: "representable b p x"
  shows "round_sig b p x = x"
proof -
  obtain m e where x: "x = of_int m * of_nat b powi e" and m: "\<bar>m\<bar> \<le> int b ^ p"
    using r by (auto simp: representable_def)
  show ?thesis
  proof (cases "\<bar>m\<bar> < int b ^ p")
    case True
    then show ?thesis unfolding x by (rule round_sig_fixes_scaled [OF b p])
  next
    case False
    with m have am: "\<bar>m\<bar> = int b ^ p" by simp
    then have "m = sgn m * int b ^ p" by (metis mult_sgn_abs)
    then have "(of_int m :: rat) = of_int (sgn m) * of_nat b ^ p" by (metis of_int_mult of_int_power of_int_of_nat_eq)
    then have "x = of_int (sgn m) * of_nat b powi (int p + e)"
      using b by (simp add: x power_int_add)
    moreover have "\<bar>sgn m\<bar> < int b ^ p"
    proof -
      have "\<bar>sgn m\<bar> \<le> 1" by (simp add: sgn_if)
      also have "1 < int b ^ p" using b p by simp
      finally show ?thesis .
    qed
    ultimately show ?thesis using round_sig_fixes_scaled [OF b p] by metis
  qed
qed

lemma representable_round_sig:
  assumes b: "1 < b" and p: "0 < p"
  shows "representable b p (round_sig b p x)"
proof (cases "x = 0")
  case True
  then have "round_sig b p x = of_int 0 * of_nat b powi 0" by simp
  then show ?thesis unfolding representable_def by (metis abs_zero of_nat_0_le_iff of_nat_power)
next
  case False
  define E where "E = ilog b \<bar>x\<bar>"
  define u where "u = (of_nat b :: rat) powi (E - int p + 1)"
  have u: "0 < u" using b by (simp add: u_def)
  have r: "round_sig b p x = of_int (rhe (x / u)) * u"
    using False by (simp add: round_sig_def round_to_unit_def u_def E_def)
  have "\<bar>x\<bar> < of_nat b powi (E + 1)" using ilog_bounds [OF b, of "\<bar>x\<bar>"] False by (simp add: E_def)
  also have "\<dots> = of_nat b powi int p * u"
    using b by (simp only: u_def) (subst power_int_add [symmetric], auto simp: algebra_simps)
  finally have "\<bar>x / u\<bar> \<le> of_int (int b ^ p)" using u by (simp add: abs_divide field_simps)
  then have "x / u \<le> of_int (int b ^ p)" "of_int (- (int b ^ p)) \<le> x / u"
    by (auto simp: abs_le_iff simp del: abs_divide)
  then have "\<bar>rhe (x / u)\<bar> \<le> int b ^ p"
    using rhe_le_of_int rhe_ge_of_int by (metis abs_le_iff minus_le_iff)
  then show ?thesis unfolding representable_def r u_def by blast
qed

lemma round_sig_idem:
  "1 < b \<Longrightarrow> 0 < p \<Longrightarrow> round_sig b p (round_sig b p x) = round_sig b p x"
  by (simp add: round_sig_representable representable_round_sig)

lemma representable_of_int: "\<bar>m\<bar> \<le> int b ^ p \<Longrightarrow> representable b p (of_int m)"
  unfolding representable_def by (intro exI [of _ m] exI [of _ 0]) simp

lemma representable_scaled:
  "\<bar>m\<bar> \<le> int b ^ p \<Longrightarrow> representable b p (of_int m / of_nat b ^ k)"
  unfolding representable_def
  by (intro exI [of _ m] exI [of _ "- int k"]) (simp add: power_int_minus divide_inverse)

subsection \<open>The interface of a rounding\<close>

locale rounding =
  fixes rnd :: "rat \<Rightarrow> rat"
  assumes mono: "x \<le> y \<Longrightarrow> rnd x \<le> rnd y"
    and idem: "rnd (rnd x) = rnd x"
    and odd: "rnd (- x) = - rnd x"
    and zero: "rnd 0 = 0"
    and one: "rnd 1 = 1"
begin

lemma nonneg: "0 \<le> x \<Longrightarrow> 0 \<le> rnd x"
  using mono [of 0 x] zero by simp

lemma nonpos: "x \<le> 0 \<Longrightarrow> rnd x \<le> 0"
  using mono [of x 0] zero by simp

lemma le_one: "x \<le> 1 \<Longrightarrow> rnd x \<le> 1"
  using mono [of x 1] one by simp

lemma le_fixed: "x \<le> y \<Longrightarrow> rnd y = y \<Longrightarrow> rnd x \<le> y"
  using mono [of x y] by simp

lemma ge_fixed: "y \<le> x \<Longrightarrow> rnd y = y \<Longrightarrow> y \<le> rnd x"
  using mono [of y x] by simp

text \<open>A rounded ratio of a part to its whole, and a rounded complement, stay in the unit interval.\<close>

lemma ratio_unit: "0 \<le> a \<Longrightarrow> a \<le> b \<Longrightarrow> 0 < b \<Longrightarrow> 0 \<le> rnd (a / b) \<and> rnd (a / b) \<le> 1"
  by (auto intro: nonneg le_one)

lemma complement_unit: "0 \<le> x \<Longrightarrow> x \<le> 1 \<Longrightarrow> 0 \<le> rnd (1 - x) \<and> rnd (1 - x) \<le> 1"
  by (auto intro: nonneg le_one)

lemma sign_pos: "0 < rnd x \<Longrightarrow> 0 < x"
  using nonpos [of x] by linarith

end

subsection \<open>Binary64, the decimal context, fixed-point rounding\<close>

definition fl :: "rat \<Rightarrow> rat" where
  "fl x = round_sig 2 53 x"

definition dec :: "rat \<Rightarrow> rat" where
  "dec x = round_sig 10 28 x"

definition quant :: "nat \<Rightarrow> rat \<Rightarrow> rat" where
  "quant k x = of_int (rhe (x * 10 ^ k)) / 10 ^ k"

lemma quant_of_scaled: "quant k (of_int n / 10 ^ k) = of_int n / 10 ^ k"
  by (simp add: quant_def)

lemma quant_of_int [simp]: "quant k (of_int n) = of_int n"
proof -
  have "(of_int n :: rat) * 10 ^ k = of_int (n * 10 ^ k)" by simp
  then have "rhe (of_int n * 10 ^ k) = n * 10 ^ k" by (metis rhe_of_int)
  then show ?thesis by (simp add: quant_def)
qed

interpretation fl: rounding fl
proof
  show "fl x \<le> fl y" if "x \<le> y" for x y unfolding fl_def by (rule round_sig_mono) (use that in auto)
  show "fl (fl x) = fl x" for x unfolding fl_def by (rule round_sig_idem) auto
  show "fl (- x) = - fl x" for x unfolding fl_def by (rule round_sig_uminus)
  show "fl 0 = 0" by (simp add: fl_def)
  show "fl 1 = 1" unfolding fl_def
    using round_sig_representable [of 2 53 1] representable_of_int [of 1 2 53] by simp
qed

interpretation dec: rounding dec
proof
  show "dec x \<le> dec y" if "x \<le> y" for x y unfolding dec_def by (rule round_sig_mono) (use that in auto)
  show "dec (dec x) = dec x" for x unfolding dec_def by (rule round_sig_idem) auto
  show "dec (- x) = - dec x" for x unfolding dec_def by (rule round_sig_uminus)
  show "dec 0 = 0" by (simp add: dec_def)
  show "dec 1 = 1" unfolding dec_def
    using round_sig_representable [of 10 28 1] representable_of_int [of 1 10 28] by simp
qed

interpretation quant: rounding "quant k" for k
proof
  show "quant k x \<le> quant k y" if "x \<le> y" for x y
    unfolding quant_def using that
    by (intro divide_right_mono) (simp_all add: rhe_mono mult_right_mono)
  show "quant k (quant k x) = quant k x" for x
    by (simp add: quant_def)
  show "quant k (- x) = - quant k x" for x
    by (simp add: quant_def rhe_uminus)
  show "quant k 0 = 0" using quant_of_int [of k 0] by simp
  show "quant k 1 = 1" using quant_of_int [of k 1] by simp
qed

lemmas rounding_basic [rounding_simps] = fl.zero fl.one dec.zero dec.one quant.zero quant.one
  fl.idem dec.idem quant.idem

lemma quant_error: "\<bar>quant k x - x\<bar> \<le> 1 / (2 * 10 ^ k)"
proof -
  have "quant k x - x = (of_int (rhe (x * 10 ^ k)) - x * 10 ^ k) / 10 ^ k"
    by (simp add: quant_def field_simps)
  then have "\<bar>quant k x - x\<bar> = \<bar>of_int (rhe (x * 10 ^ k)) - x * 10 ^ k\<bar> / 10 ^ k" by simp
  also have "\<dots> \<le> 1 / 2 / 10 ^ k" by (intro divide_right_mono rhe_error) simp
  finally show ?thesis by simp
qed

lemma fl_int: "\<bar>n\<bar> \<le> 2 ^ 53 \<Longrightarrow> fl (of_int n) = of_int n"
  unfolding fl_def by (intro round_sig_representable representable_of_int) auto

lemma fl_dyadic: "\<bar>n\<bar> \<le> 2 ^ 53 \<Longrightarrow> fl (of_int n / 2 ^ k) = of_int n / 2 ^ k"
  unfolding fl_def using representable_scaled [of n 2 53 k]
  by (intro round_sig_representable) auto

lemma dec_scaled: "\<bar>n\<bar> \<le> 10 ^ 28 \<Longrightarrow> dec (of_int n / 10 ^ k) = of_int n / 10 ^ k"
  unfolding dec_def using representable_scaled [of n 10 28 k]
  by (intro round_sig_representable) auto

lemma dec_int: "\<bar>n\<bar> \<le> 10 ^ 28 \<Longrightarrow> dec (of_int n) = of_int n"
  using dec_scaled [of n 0] by simp

subsection \<open>PostgreSQL \<open>NUMERIC\<close> columns\<close>

text \<open>A value stored in a \<open>NUMERIC(p, k)\<close> column is rounded to \<open>k\<close> places, halves away from zero.\<close>

definition pg_round :: "nat \<Rightarrow> rat \<Rightarrow> rat" where
  "pg_round k x = (if x < 0 then - of_int \<lfloor>- x * 10 ^ k + 1 / 2\<rfloor> / 10 ^ k
     else of_int \<lfloor>x * 10 ^ k + 1 / 2\<rfloor> / 10 ^ k)"

lemma pg_round_scaled: "pg_round k (of_int n / 10 ^ k) = of_int n / 10 ^ k"
proof -
  have half: "\<lfloor>of_int m + (1 / 2 :: rat)\<rfloor> = m" for m by linarith
  show ?thesis
  proof (cases "n < 0")
    case True
    then have "(of_int n :: rat) / 10 ^ k < 0" by (simp add: divide_neg_pos)
    then show ?thesis using half [of "- n"] by (simp add: pg_round_def)
  next
    case False
    then have "\<not> (of_int n :: rat) / 10 ^ k < 0" by (simp add: not_less)
    then show ?thesis using half [of n] by (simp add: pg_round_def)
  qed
qed

lemma pg_round_int [simp]: "pg_round k (of_int n) = of_int n"
  using pg_round_scaled [of k "n * 10 ^ k"] by simp

lemma pg_round_nonneg: "0 \<le> x \<Longrightarrow> 0 \<le> pg_round k x"
  by (simp add: pg_round_def)

lemma pg_round_error: "\<bar>pg_round k x - x\<bar> \<le> 1 / (2 * 10 ^ k)"
proof -
  have fl: "\<bar>of_int \<lfloor>y + 1 / 2\<rfloor> - y\<bar> \<le> 1 / 2" for y :: rat by linarith
  have p: "(0::rat) < 10 ^ k" by simp
  have "\<bar>of_int \<lfloor>y * 10 ^ k + 1 / 2\<rfloor> / 10 ^ k - y\<bar> \<le> 1 / (2 * 10 ^ k)" for y :: rat
  proof -
    have "of_int \<lfloor>y * 10 ^ k + 1 / 2\<rfloor> / 10 ^ k - y = (of_int \<lfloor>y * 10 ^ k + 1 / 2\<rfloor> - y * 10 ^ k) / 10 ^ k"
      using p by (simp add: field_simps)
    then have "\<bar>of_int \<lfloor>y * 10 ^ k + 1 / 2\<rfloor> / 10 ^ k - y\<bar> = \<bar>of_int \<lfloor>y * 10 ^ k + 1 / 2\<rfloor> - y * 10 ^ k\<bar> / 10 ^ k"
      using p by (simp add: abs_divide)
    also have "\<dots> \<le> (1 / 2) / 10 ^ k" using fl [of "y * 10 ^ k"] by (rule divide_right_mono) simp
    also have "\<dots> = 1 / (2 * 10 ^ k)" by simp
    finally show ?thesis .
  qed
  from this [of x] this [of "- x"] show ?thesis by (auto simp: pg_round_def)
qed

end
