(* ===== verification/PyJson.thy ===== *)
theory PyJson
  imports PyStr
begin

text \<open>
  Dynamically typed values (\<open>Any\<close>), as \<open>json.loads\<close> builds them, with the operations the code
  applies to them: truthiness, \<open>dict.get\<close>, \<open>str()\<close>, and \<open>Decimal(str(v))\<close>. An operation on a
  value of the wrong type is the exception Python raises. A dictionary is the association list
  of its (distinct) keys.
\<close>

datatype exc =
    PermanentEventError string
  | AttributeError
  | TypeError
  | KeyError string
  | ValueError string
  | InvalidOperation
  | ZeroDivisionError
  | SchemaError string
  | IntegrityError
  | DatabaseError
  | KafkaDeliveryError
  | HTTPException nat string
  | RuntimeError string
  | OverflowError

datatype json =
    JNull
  | JBool bool
  | JInt int
  | JFloat rat
  | JNonFinite string
  | JStr string
  | JList "json list"
  | JObj "(string \<times> json) list"

subsection \<open>Truthiness and lookup\<close>

fun truthy :: "json \<Rightarrow> bool" where
  "truthy JNull = False"
| "truthy (JBool b) = b"
| "truthy (JInt i) = (i \<noteq> 0)"
| "truthy (JFloat x) = (x \<noteq> 0)"
| "truthy (JNonFinite s) = True"
| "truthy (JStr s) = (s \<noteq> [])"
| "truthy (JList xs) = (xs \<noteq> [])"
| "truthy (JObj kvs) = (kvs \<noteq> [])"

definition jor :: "json \<Rightarrow> json \<Rightarrow> json" where
  "jor a b = (if truthy a then a else b)"

text \<open>\<open>d.get(k)\<close> is \<open>None\<close> for an absent key and raises on anything that is not a dictionary.\<close>

definition dict_get :: "(string \<times> json) list \<Rightarrow> string \<Rightarrow> json" where
  "dict_get kvs k = (case map_of kvs k of None \<Rightarrow> JNull | Some v \<Rightarrow> v)"

fun jget :: "json \<Rightarrow> string \<Rightarrow> exc + json" where
  "jget (JObj kvs) k = Inr (dict_get kvs k)"
| "jget _ k = Inl AttributeError"

text \<open>\<open>d[k]\<close> on a dictionary.\<close>

definition dict_item :: "(string \<times> json) list \<Rightarrow> string \<Rightarrow> exc + json" where
  "dict_item kvs k = (case map_of kvs k of None \<Rightarrow> Inl (KeyError k) | Some v \<Rightarrow> Inr v)"

fun is_obj :: "json \<Rightarrow> bool" where
  "is_obj (JObj kvs) = True"
| "is_obj _ = False"

text \<open>A value used as \<open>str | None\<close>: the string methods called on it raise on any other type.\<close>

fun as_opt_str :: "json \<Rightarrow> exc + string option" where
  "as_opt_str JNull = Inr None"
| "as_opt_str (JStr s) = Inr (Some s)"
| "as_opt_str _ = Inl AttributeError"

lemma truthy_jor [json_simps]: "truthy (jor a b) \<longleftrightarrow> truthy a \<or> truthy b"
  by (simp add: jor_def)

lemma jget_Inr_iff [json_simps]: "jget j k = Inr v \<longleftrightarrow> (\<exists>kvs. j = JObj kvs \<and> v = dict_get kvs k)"
  by (cases j) auto

lemma is_obj_iff [json_simps]: "is_obj j \<longleftrightarrow> (\<exists>kvs. j = JObj kvs)"
  by (cases j) auto

subsection \<open>Shortest decimal of a float\<close>

text \<open>
  \<open>repr\<close> of a float is the shortest decimal that reads back as the same float, the closest
  one when there are two. The search lowers the unit of the last digit from the leading digit
  on; 17 digits always suffice for binary64, so the last step takes the 17-digit value.
\<close>

definition short_cand :: "rat \<Rightarrow> int \<Rightarrow> rat \<Rightarrow> int \<Rightarrow> (int \<times> int) option" where
  "short_cand x e u lo = (if fl (of_int lo * u) = x \<and> (rhe (x / u) = lo \<or> fl (of_int (lo + 1) * u) \<noteq> x)
     then Some (lo, e) else if fl (of_int (lo + 1) * u) = x then Some (lo + 1, e) else None)"

definition short_at :: "rat \<Rightarrow> int \<Rightarrow> rat \<Rightarrow> (int \<times> int) option" where
  "short_at x e u = short_cand x e u \<lfloor>x / u\<rfloor>"

fun shortest_from :: "rat \<Rightarrow> int \<Rightarrow> nat \<Rightarrow> int \<times> int" where
  "shortest_from x e 0 = (rhe (x / 10 powi e), e)"
| "shortest_from x e (Suc more) = (case short_at x e (10 powi e) of
     Some r \<Rightarrow> r | None \<Rightarrow> shortest_from x (e - 1) more)"

definition shortest :: "rat \<Rightarrow> int \<times> int" where
  "shortest x = shortest_from x (ilog 10 x) 16"

definition decimal_of_float :: "rat \<Rightarrow> rat" where
  "decimal_of_float x = (if x = 0 then 0
     else let (c, e) = shortest \<bar>x\<bar> in sgn x * of_int c * 10 powi e)"

definition float_repr :: "rat \<Rightarrow> string" where
  "float_repr x = (if x = 0 then ''0.0'' else
     let (c, e) = shortest \<bar>x\<bar>;
         all_digits = show_nat c;
         ds = rev (dropWhile (\<lambda>d. d = CHR ''0'') (rev all_digits));
         decpt = int (length all_digits) + e;
         n = int (length ds);
         body = (if decpt \<le> -4 \<or> 16 < decpt then
                   take 1 ds @ (if 1 < n then CHR ''.'' # drop 1 ds else []) @ ''e'' @
                   (let x10 = decpt - 1; m = show_nat \<bar>x10\<bar> in
                     (if x10 < 0 then ''-'' else ''+'') @ (if length m < 2 then CHR ''0'' # m else m))
                 else if decpt \<le> 0 then ''0.'' @ replicate (nat (- decpt)) (CHR ''0'') @ ds
                 else if n \<le> decpt then ds @ replicate (nat (decpt - n)) (CHR ''0'') @ ''.0''
                 else take (nat decpt) ds @ CHR ''.'' # drop (nat decpt) ds)
     in if x < 0 then CHR ''-'' # body else body)"

subsection \<open>str() of a value\<close>

definition hex_digit :: "nat \<Rightarrow> char" where
  "hex_digit d = (if d < 10 then char_of (48 + d) else char_of (87 + d))"

definition repr_char :: "char \<Rightarrow> char \<Rightarrow> string" where
  "repr_char q c = (if c = q \<or> c = CHR 0x5C then [CHR 0x5C, c]
     else if code c = 10 then [CHR 0x5C, CHR ''n'']
     else if code c = 13 then [CHR 0x5C, CHR ''r'']
     else if code c = 9 then [CHR 0x5C, CHR ''t'']
     else if code c < 32 \<or> code c = 127
       then [CHR 0x5C, CHR ''x'', hex_digit (code c div 16), hex_digit (code c mod 16)]
     else [c])"

definition repr_str :: "string \<Rightarrow> string" where
  "repr_str s = (let q = (if CHR 0x27 \<in> set s \<and> CHR 0x22 \<notin> set s then CHR 0x22 else CHR 0x27)
     in q # concat (map (repr_char q) s) @ [q])"

fun py_repr :: "json \<Rightarrow> string" where
  "py_repr JNull = ''None''"
| "py_repr (JBool b) = (if b then ''True'' else ''False'')"
| "py_repr (JInt i) = show_int i"
| "py_repr (JFloat x) = float_repr x"
| "py_repr (JNonFinite s) = s"
| "py_repr (JStr s) = repr_str s"
| "py_repr (JList xs) = ''['' @ py_join '', '' (map py_repr xs) @ '']''"
| "py_repr (JObj kvs) = ''{'' @ py_join '', ''
     (map (\<lambda>kv. repr_str (fst kv) @ '': '' @ py_repr (snd kv)) kvs) @ ''}''"

fun py_str :: "json \<Rightarrow> string" where
  "py_str (JStr s) = s"
| "py_str j = py_repr j"

subsection \<open>Decimal(str)\<close>

datatype decval = DFinite rat | DInf bool | DNaN

definition parse_exponent :: "string \<Rightarrow> int option" where
  "parse_exponent s = (case s of
     [] \<Rightarrow> Some 0
   | c # r \<Rightarrow> if c = CHR ''e'' \<or> c = CHR ''E'' then
       (let neg = (r \<noteq> [] \<and> hd r = CHR ''-'');
            ds = (if r \<noteq> [] \<and> (hd r = CHR ''-'' \<or> hd r = CHR ''+'') then tl r else r)
        in if py_isdigit ds then Some (if neg then - read_nat ds else read_nat ds)
           else None)
     else None)"

definition parse_number :: "string \<Rightarrow> rat option" where
  "parse_number s = (let i = takeWhile is_digit s; r = dropWhile is_digit s;
     dot = (r \<noteq> [] \<and> hd r = CHR ''.'');
     f = (if dot then takeWhile is_digit (tl r) else []);
     r2 = (if dot then dropWhile is_digit (tl r) else r)
     in if i = [] \<and> f = [] then None
        else map_option (\<lambda>e. of_int (read_nat (i @ f)) * 10 powi (e - int (length f)))
               (parse_exponent r2))"

definition parse_special :: "bool \<Rightarrow> string \<Rightarrow> decval option" where
  "parse_special neg s = (let t = py_lower s; d = (if t \<noteq> [] \<and> hd t = CHR ''s'' then tl t else t) in
     if t = ''inf'' \<or> t = ''infinity'' then Some (DInf neg)
     else if take 3 d = ''nan'' \<and> list_all is_digit (drop 3 d) then Some DNaN else None)"

definition parse_decimal :: "string \<Rightarrow> decval option" where
  "parse_decimal s = (let t = replace_char (CHR ''_'') [] (py_strip s);
     neg = (t \<noteq> [] \<and> hd t = CHR ''-'');
     u = (if t \<noteq> [] \<and> (hd t = CHR ''-'' \<or> hd t = CHR ''+'') then tl t else t)
     in case parse_number u of
          Some x \<Rightarrow> Some (DFinite (if neg then - x else x))
        | None \<Rightarrow> parse_special neg u)"

lemma takeWhile_all: "list_all P xs \<Longrightarrow> takeWhile P xs = xs \<and> dropWhile P xs = []"
  by (induction xs) auto

lemma digit_not_special:
  "is_digit c \<Longrightarrow> c \<noteq> CHR ''_'' \<and> c \<noteq> CHR ''-'' \<and> c \<noteq> CHR ''+'' \<and> \<not> is_space c"
  by (auto simp: is_digit_def is_space_def code_def)

lemma parse_number_digits:
  assumes "list_all is_digit s" "s \<noteq> []"
  shows "parse_number s = Some (of_int (read_nat s))"
proof -
  have tw: "takeWhile is_digit s = s" and dw: "dropWhile is_digit s = []"
    using takeWhile_all [OF assms(1)] by auto
  show ?thesis unfolding parse_number_def Let_def tw dw using assms(2)
    by (simp add: parse_exponent_def)
qed

lemma replace_char_absent: "c \<notin> set s \<Longrightarrow> replace_char c r s = s"
  by (induction s) (auto simp: replace_char_def)

text \<open>\<open>Decimal(str(i))\<close> is exact for every integer.\<close>

lemma parse_decimal_nat:
  assumes n: "0 \<le> n"
  shows "parse_decimal (show_nat n) = Some (DFinite (of_int n))"
proof -
  let ?s = "show_nat n"
  have d: "\<And>c. c \<in> set ?s \<Longrightarrow> is_digit c" using show_nat_digits [OF n] by (simp add: list_all_iff)
  have strip: "py_strip ?s = ?s"
    using d digit_not_special by (intro py_strip_fixed) (meson hd_in_set last_in_set show_nat_nonempty)
  have repl: "replace_char (CHR ''_'') [] ?s = ?s"
    using d digit_not_special by (intro replace_char_absent) blast
  have hd: "hd ?s \<noteq> CHR ''-'' \<and> hd ?s \<noteq> CHR ''+''"
    using d [of "hd ?s"] digit_not_special by (meson hd_in_set show_nat_nonempty)
  show ?thesis
    using hd by (simp add: parse_decimal_def Let_def strip repl parse_number_digits [OF show_nat_digits [OF n]]
        read_show_nat [OF n])
qed

lemma parse_decimal_int: "parse_decimal (show_int i) = Some (DFinite (of_int i))"
proof (cases "i < 0")
  case True
  define s where "s = show_nat (- i)"
  have d: "list_all is_digit s" using True by (simp add: s_def show_nat_digits)
  have s: "s \<noteq> []" by (simp add: s_def)
  have mem: "\<And>c. c \<in> set s \<Longrightarrow> is_digit c" using d by (simp add: list_all_iff)
  have strip: "py_strip (CHR ''-'' # s) = CHR ''-'' # s"
    using s mem digit_not_special last_in_set [OF s]
    by (intro py_strip_fixed) (auto simp: is_space_def code_def)
  have repl: "replace_char (CHR ''_'') [] (CHR ''-'' # s) = CHR ''-'' # s"
    using mem digit_not_special by (intro replace_char_absent) fastforce
  show ?thesis
    using True by (simp add: show_int_def s_def [symmetric] parse_decimal_def Let_def strip repl
        parse_number_digits [OF d s]) (simp add: s_def read_show_nat)
next
  case False
  then show ?thesis by (simp add: show_int_def parse_decimal_nat)
qed

end
