(* ===== verification/Pii.thy ===== *)
theory Pii
  imports PyJson
begin

text \<open>
  \<open>src/engine/pii.py\<close>: display masking, narration scrubbing and name tokenisation. Regular
  expression substitution is \<open>resub\<close>, a left-to-right scan over a matcher that sees the
  previous character (for the lookbehind) and the rest of the text. The keyed HMAC of
  \<open>tokenize_name\<close> is the parameter \<open>hmac\<close>.
\<close>

subsection \<open>Substitution with a matcher\<close>

type_synonym matcher = "char option \<Rightarrow> string \<Rightarrow> nat option"

function resub :: "matcher \<Rightarrow> string \<Rightarrow> char option \<Rightarrow> string \<Rightarrow> string" where
  "resub m rep prev [] = []"
| "resub m rep prev (c # cs) = (case m prev (c # cs) of
     Some (Suc n) \<Rightarrow> rep @ resub m rep (Some (last (c # take n cs))) (drop n cs)
   | _ \<Rightarrow> c # resub m rep (Some c) cs)"
  by pat_completeness auto
termination
  by (relation "measure (\<lambda>(m, rep, prev, s). length s)") auto

definition digit_prev :: "char option \<Rightarrow> bool" where
  "digit_prev p \<longleftrightarrow> (case p of None \<Rightarrow> False | Some c \<Rightarrow> is_digit c)"

text \<open>\<open>(?<!\d)\d{n}(?!\d)\<close>: a maximal run of exactly \<open>n\<close> digits.\<close>

definition digits_match :: "nat \<Rightarrow> matcher" where
  "digits_match n prev s = (if \<not> digit_prev prev \<and> length (takeWhile is_digit s) = n
     then Some n else None)"

definition bvn_match :: matcher where
  "bvn_match = digits_match 11"

definition nuban_match :: matcher where
  "nuban_match = digits_match 10"

text \<open>\<open>(?<!\d)(?:\+?234|0)[789][01]\d{8}(?!\d)\<close>\<close>

definition phone_tail :: "string \<Rightarrow> bool" where
  "phone_tail r \<longleftrightarrow> 10 \<le> length r \<and> r ! 0 \<in> {CHR ''7'', CHR ''8'', CHR ''9''} \<and>
     r ! 1 \<in> {CHR ''0'', CHR ''1''} \<and> list_all is_digit (take 8 (drop 2 r)) \<and>
     (drop 10 r = [] \<or> \<not> is_digit (r ! 10))"

definition phone_match :: matcher where
  "phone_match prev s = (if digit_prev prev then None
     else if take 4 s = ''+234'' \<and> phone_tail (drop 4 s) then Some 14
     else if take 3 s = ''234'' \<and> phone_tail (drop 3 s) then Some 13
     else if take 1 s = ''0'' \<and> phone_tail (drop 1 s) then Some 11
     else None)"

text \<open>
  \<open>[a-zA-Z0-9._%+-]+@[a-zA-Z0-9.-]+\.[a-zA-Z]{2,}\<close>: the greedy domain part backtracks to the
  last dot that is followed by at least two letters.
\<close>

definition is_alpha :: "char \<Rightarrow> bool" where
  "is_alpha c \<longleftrightarrow> is_upper c \<or> is_lower c"

definition is_local :: "char \<Rightarrow> bool" where
  "is_local c \<longleftrightarrow> is_alpha c \<or> is_digit c \<or> c \<in> set ''._%+-''"

definition is_domain :: "char \<Rightarrow> bool" where
  "is_domain c \<longleftrightarrow> is_alpha c \<or> is_digit c \<or> c \<in> set ''.-''"

definition email_domain :: "string \<Rightarrow> nat option" where
  "email_domain d = map_option (\<lambda>k. k + 1 + length (takeWhile is_alpha (drop (k + 1) d)))
     (List.find (\<lambda>k. d ! k = CHR ''.'' \<and> 2 \<le> length (takeWhile is_alpha (drop (k + 1) d)))
        (rev [1..<length d]))"

definition email_match :: matcher where
  "email_match prev s = (let l = takeWhile is_local s; r = dropWhile is_local s in
     if l = [] \<or> r = [] \<or> hd r \<noteq> CHR ''@'' then None
     else map_option (\<lambda>n. length l + 1 + n) (email_domain (takeWhile is_domain (tl r))))"

subsection \<open>Display masking\<close>

definition mask_account_number :: "string option \<Rightarrow> string option" where
  "mask_account_number account = (case account of None \<Rightarrow> None | Some raw \<Rightarrow>
     let a = py_strip raw in
     if a = [] then None
     else if length a = 10 \<and> py_isdigit a
       then Some (take 2 a @ replicate 6 (CHR ''*'') @ drop (length a - 2) a)
     else if 4 \<le> length a
       then Some (take 2 a @ replicate (length a - 4) (CHR ''*'') @ drop (length a - 2) a)
     else Some ''****'')"

definition mask_word :: "string \<Rightarrow> string" where
  "mask_word part = (if length part \<le> 1 then part else hd part # replicate (length part - 1) (CHR ''*''))"

definition mask_name :: "string option \<Rightarrow> string option" where
  "mask_name name = (case name of None \<Rightarrow> None | Some raw \<Rightarrow>
     let n = py_strip raw in
     if n = [] then None else Some (py_join '' '' (map mask_word (py_split n))))"

definition mask_bvn :: "string option \<Rightarrow> string option" where
  "mask_bvn bvn = (case bvn of None \<Rightarrow> None | Some raw \<Rightarrow>
     let b = py_strip raw in
     if length b < 4 then Some ''***''
     else Some (replicate (length b - 4) (CHR ''*'') @ drop (length b - 4) b))"

definition mask_phone :: "string option \<Rightarrow> string option" where
  "mask_phone phone = (case phone of None \<Rightarrow> None | Some raw \<Rightarrow>
     let p = py_strip raw in
     if length p < 6 then Some ''****''
     else Some (take 4 p @ replicate (length p - 6) (CHR ''*'') @ drop (length p - 2) p))"

subsection \<open>Narration scrubbing\<close>

definition scrub_text :: "string \<Rightarrow> string" where
  "scrub_text t = resub nuban_match ''[REDACTED-ACCOUNT]'' None
     (resub bvn_match ''[REDACTED-BVN]'' None
       (resub phone_match ''[REDACTED-PHONE]'' None
         (resub email_match ''[REDACTED-EMAIL]'' None t)))"

definition scrub_narration :: "string option \<Rightarrow> string option" where
  "scrub_narration narration = (case narration of None \<Rightarrow> None | Some raw \<Rightarrow>
     let t = py_strip raw in if t = [] then None else Some (take 500 (scrub_text t)))"

subsection \<open>Name tokens\<close>

definition name_stopwords :: "string list" where
  "name_stopwords = [''MR'', ''MRS'', ''MS'', ''MISS'', ''DR'', ''CHIEF'', ''ALH'', ''ALHAJI'',
     ''ALHAJA'', ''ENGR'', ''PASTOR'', ''PROF'', ''HON'', ''SIR'', ''TRF'', ''TRANSFER'', ''FROM'',
     ''FRM'', ''NIP'', ''MOB'', ''FT'', ''TO'', ''LTD'', ''LIMITED'', ''ENT'', ''ENTERPRISE'',
     ''ENTERPRISES'', ''VENTURES'', ''NIG'', ''NIGERIA'', ''PLC'', ''CO'', ''AND'']"

text \<open>\<open>[^A-Z0-9 ]+\<close>, each run replaced by one blank.\<close>

definition is_name_char :: "char \<Rightarrow> bool" where
  "is_name_char c \<longleftrightarrow> is_upper c \<or> is_digit c \<or> c = CHR '' ''"

fun sub_non_alnum :: "bool \<Rightarrow> string \<Rightarrow> string" where
  "sub_non_alnum in_run [] = []"
| "sub_non_alnum in_run (c # cs) = (if is_name_char c then c # sub_non_alnum False cs
     else if in_run then sub_non_alnum True cs else CHR '' '' # sub_non_alnum True cs)"

definition keep_word :: "string \<Rightarrow> bool" where
  "keep_word t \<longleftrightarrow> t \<notin> set name_stopwords \<and> 1 < length t"

definition normalise_name_tokens :: "string option \<Rightarrow> string list" where
  "normalise_name_tokens name = (case name of None \<Rightarrow> [] | Some n \<Rightarrow>
     if n = [] then [] else
     sort (remdups (filter keep_word (py_split (sub_non_alnum False (py_upper n))))))"

definition tokenize_name ::
  "(string \<Rightarrow> string \<Rightarrow> string) \<Rightarrow> string \<Rightarrow> string option \<Rightarrow> string list" where
  "tokenize_name hmac key name =
     sort (remdups (map (\<lambda>w. take 32 (hmac key w)) (normalise_name_tokens name)))"

text \<open>The Dice coefficient is a float division of two integers.\<close>

definition name_token_similarity :: "string list option \<Rightarrow> string list option \<Rightarrow> rat option" where
  "name_token_similarity a b = (case (a, b) of
     (Some (x # xs), Some (y # ys)) \<Rightarrow>
       (let set_a = remdups (x # xs); set_b = remdups (y # ys);
            overlap = length (filter (\<lambda>t. t \<in> set set_b) set_a);
            shorter = min (length set_a) (length set_b)
        in if 2 \<le> shorter \<and> overlap = shorter then Some 1
           else Some (fl (of_nat (2 * overlap) / of_nat (length set_a + length set_b))))
   | _ \<Rightarrow> None)"

subsection \<open>Runs of digits\<close>

text \<open>The lengths of the maximal runs of digits of a text, \<open>k\<close> digits being already read.\<close>

fun digit_runs :: "nat \<Rightarrow> string \<Rightarrow> nat list" where
  "digit_runs k [] = (if k = 0 then [] else [k])"
| "digit_runs k (c # cs) = (if is_digit c then digit_runs (Suc k) cs
     else if k = 0 then digit_runs 0 cs else k # digit_runs 0 cs)"

lemma digit_runs_split:
  "digit_runs k s = (if k + length (takeWhile is_digit s) = 0 then []
     else [k + length (takeWhile is_digit s)]) @ digit_runs 0 (dropWhile is_digit s)"
  by (induction k s rule: digit_runs.induct) auto

lemma digit_runs_label: "list_all (\<lambda>c. \<not> is_digit c) rep \<Longrightarrow> digit_runs 0 (rep @ s) = digit_runs 0 s"
  by (induction rep) auto

text \<open>One redaction pass removes exactly the runs of the given length, and adds none.\<close>

lemma digit_runs_resub_aux:
  assumes rep: "list_all (\<lambda>c. \<not> is_digit c) rep" and n: "0 < n"
    and st: "(\<not> digit_prev prev \<and> j = 0) \<or> (digit_prev prev \<and> j + length (takeWhile is_digit s) \<noteq> n)"
  shows "digit_runs j (resub (digits_match n) rep prev s) = filter (\<lambda>r. r \<noteq> n) (digit_runs j s)"
  using st
proof (induction s arbitrary: prev j rule: length_induct)
  case (1 s)
  show ?case
  proof (cases s)
    case Nil
    then show ?thesis using "1.prems" n by auto
  next
    case (Cons c cs)
    show ?thesis
    proof (cases "digits_match n prev s")
      case None
      then have step: "resub (digits_match n) rep prev (c # cs) =
          c # resub (digits_match n) rep (Some c) cs"
        by (simp add: Cons)
      have tw: "j + length (takeWhile is_digit s) \<noteq> n"
        using None "1.prems" by (auto simp: digits_match_def split: if_splits)
      have IH: "digit_runs i (resub (digits_match n) rep (Some c) cs) = filter (\<lambda>r. r \<noteq> n) (digit_runs i cs)"
        if "(\<not> is_digit c \<and> i = 0) \<or> (is_digit c \<and> i + length (takeWhile is_digit cs) \<noteq> n)" for i
        using that by (intro "1.IH" [rule_format]) (auto simp: Cons digit_prev_def)
      show ?thesis
      proof (cases "is_digit c")
        case True
        then have "Suc j + length (takeWhile is_digit cs) \<noteq> n" using tw by (simp add: Cons)
        with True show ?thesis by (simp add: step Cons IH del: resub.simps)
      next
        case False
        then have "j \<noteq> n" using tw by (simp add: Cons)
        with False show ?thesis by (simp add: step Cons IH del: resub.simps)
      qed
    next
      case (Some m)
      then have m: "m = n" "\<not> digit_prev prev" "length (takeWhile is_digit s) = n"
        by (auto simp: digits_match_def split: if_splits)
      obtain k where k: "n = Suc k" using n by (cases n) auto
      have c: "is_digit c" using m(3) n by (auto simp: Cons split: if_splits)
      have len: "length (takeWhile is_digit cs) = k" using m(3) k c by (simp add: Cons)
      have dig: "take k cs = takeWhile is_digit cs" using len by (metis takeWhile_eq_take)
      have rest: "drop k cs = dropWhile is_digit cs" using len by (metis dropWhile_eq_drop)
      define d where "d = last (c # take k cs)"
      have d: "is_digit d"
        unfolding d_def using c dig by (metis last.simps last_in_set set_takeWhileD)
      have stop: "takeWhile is_digit (drop k cs) = []"
        unfolding rest by (metis dropWhile_hd list.exhaust takeWhile.simps)
      have IH: "digit_runs 0 (resub (digits_match n) rep (Some d) (drop k cs)) =
          filter (\<lambda>r. r \<noteq> n) (digit_runs 0 (drop k cs))"
        using d n stop by (intro "1.IH" [rule_format]) (simp_all add: Cons digit_prev_def)
      have j: "j = 0" using "1.prems" m(2) by simp
      have "resub (digits_match n) rep prev s = rep @ resub (digits_match n) rep (Some d) (drop k cs)"
        using Some m(1) k by (simp add: Cons d_def)
      then have "digit_runs j (resub (digits_match n) rep prev s) =
          filter (\<lambda>r. r \<noteq> n) (digit_runs 0 (drop k cs))"
        by (simp only: j digit_runs_label [OF rep] IH)
      also have "\<dots> = filter (\<lambda>r. r \<noteq> n) (digit_runs j s)"
        using c len k by (subst (2) digit_runs_split) (simp add: Cons j rest)
      finally show ?thesis .
    qed
  qed
qed

lemma digit_runs_resub:
  "list_all (\<lambda>c. \<not> is_digit c) rep \<Longrightarrow> 0 < n \<Longrightarrow>
   digit_runs 0 (resub (digits_match n) rep None s) = filter (\<lambda>r. r \<noteq> n) (digit_runs 0 s)"
  by (rule digit_runs_resub_aux) (auto simp: digit_prev_def)

lemma scrub_text_runs: "10 \<notin> set (digit_runs 0 (scrub_text t)) \<and> 11 \<notin> set (digit_runs 0 (scrub_text t))"
proof -
  have "list_all (\<lambda>c. \<not> is_digit c) ''[REDACTED-ACCOUNT]''" "list_all (\<lambda>c. \<not> is_digit c) ''[REDACTED-BVN]''"
    by (simp_all add: is_digit_def code_def)
  then show ?thesis by (simp add: scrub_text_def bvn_match_def nuban_match_def digit_runs_resub)
qed

subsection \<open>Words\<close>

lemma py_split_aux_word:
  "list_all (\<lambda>c. \<not> is_space c) u \<Longrightarrow> py_split_aux w (u @ s) = py_split_aux (rev u @ w) s"
  by (induction u arbitrary: w) auto

definition is_word :: "string \<Rightarrow> bool" where
  "is_word w \<longleftrightarrow> w \<noteq> [] \<and> list_all (\<lambda>c. \<not> is_space c) w"

lemma is_space_blank [simp]: "is_space (CHR '' '')"
  by (simp add: is_space_def code_def)

lemma py_split_join: "list_all is_word ws \<Longrightarrow> py_split (py_join '' '' ws) = ws"
proof (induction "'' ''" ws rule: py_join.induct)
  case (3 x y xs)
  then have x: "x \<noteq> []" "list_all (\<lambda>c. \<not> is_space c) x" by (auto simp: is_word_def)
  have "py_split (py_join '' '' (y # xs)) = y # xs" using 3 by simp
  then show ?case using py_split_aux_word [OF x(2), of "[]"] x(1) by (simp add: py_split_def)
next
  case (2 x)
  then have "x \<noteq> []" "list_all (\<lambda>c. \<not> is_space c) x" by (auto simp: is_word_def)
  then show ?case using py_split_aux_word [of x "[]" "[]"] by (simp add: py_split_def)
qed (simp add: py_split_def)

lemma py_split_aux_words:
  "list_all (\<lambda>c. \<not> is_space c) w \<Longrightarrow> list_all is_word (py_split_aux w s)"
  by (induction w s rule: py_split_aux.induct) (simp_all add: is_word_def)

lemma py_split_words: "list_all is_word (py_split s)"
  by (simp add: py_split_def py_split_aux_words)

subsection \<open>Masking\<close>

lemma is_word_mask: "is_word w \<Longrightarrow> is_word (mask_word w)"
  by (cases w) (auto simp: is_word_def mask_word_def list_all_iff is_space_def code_def)

lemma mask_name_words:
  "mask_name (Some s) = Some m \<Longrightarrow> py_split m = map mask_word (py_split (py_strip s))"
  using py_split_words [of "py_strip s"]
  by (auto simp: mask_name_def Let_def list_all_iff is_word_mask split: if_splits
      intro!: py_split_join)

lemma mask_account_shape:
  assumes "mask_account_number account = Some m"
  shows "\<not> (length m = 10 \<and> py_isdigit m)"
proof
  assume m: "length m = 10 \<and> py_isdigit m"
  obtain raw where raw: "account = Some raw" using assms by (cases account) (auto simp: mask_account_number_def)
  have "CHR ''*'' \<in> set m"
    using assms m by (auto simp: raw mask_account_number_def Let_def split: if_splits)
  then show False using m by (auto simp: py_isdigit_def list_all_iff is_digit_def code_def)
qed

lemma mask_account_number_four:
  "length (py_strip s) = 4 \<Longrightarrow> mask_account_number (Some s) = Some (py_strip s)"
proof -
  assume l: "length (py_strip s) = 4"
  then have "take 2 (py_strip s) @ drop 2 (py_strip s) = py_strip s" by simp
  then show ?thesis using l by (auto simp: mask_account_number_def Let_def)
qed

subsection \<open>Name tokens\<close>

lemma sort_remdups_eq_iff:
  fixes xs ys :: "'a::linorder list"
  shows "sort (remdups xs) = sort (remdups ys) \<longleftrightarrow> set xs = set ys"
proof
  assume "sort (remdups xs) = sort (remdups ys)"
  then show "set xs = set ys" by (metis set_remdups set_sort)
next
  assume "set xs = set ys"
  then show "sort (remdups xs) = sort (remdups ys)"
    by (intro sorted_distinct_set_unique) auto
qed

lemma py_upper_join: "py_upper (py_join '' '' ws) = py_join '' '' (map py_upper ws)"
  by (induction "'' ''" ws rule: py_join.induct)
    (auto simp: py_upper_def to_upper_def is_lower_def code_def)

lemma sub_non_alnum_id: "list_all is_name_char s \<Longrightarrow> sub_non_alnum False s = s"
  by (induction s) auto

lemma list_all_join: "P (CHR '' '') \<Longrightarrow> list_all (list_all P) ws \<Longrightarrow> list_all P (py_join '' '' ws)"
  by (induction "'' ''" ws rule: py_join.induct) auto

definition is_alnum_word :: "string \<Rightarrow> bool" where
  "is_alnum_word w \<longleftrightarrow> w \<noteq> [] \<and> list_all (\<lambda>c. is_alpha c \<or> is_digit c) w"

lemma alnum_word_upper:
  assumes "is_alnum_word w"
  shows "is_word (py_upper w)" and "list_all is_name_char (py_upper w)"
  using assms
  by (auto simp: is_alnum_word_def is_word_def py_upper_def list_all_iff is_name_char_def
      is_alpha_def is_upper_def is_lower_def is_digit_def is_space_def code_to_upper)

lemma normalise_name_words:
  assumes "list_all is_alnum_word ws" "ws \<noteq> []"
  shows "normalise_name_tokens (Some (py_join '' '' ws)) =
    sort (remdups (filter keep_word (map py_upper ws)))"
proof -
  have ne: "py_join '' '' ws \<noteq> []"
    using assms by (cases ws; cases "tl ws") (auto simp: is_alnum_word_def)
  have "list_all is_word (map py_upper ws)" "list_all (list_all is_name_char) (map py_upper ws)"
    using assms(1) by (induction ws) (auto simp: alnum_word_upper)
  then have "py_split (sub_non_alnum False (py_upper (py_join '' '' ws))) = map py_upper ws"
    by (simp add: py_upper_join sub_non_alnum_id list_all_join is_name_char_def py_split_join)
  then show ?thesis using ne by (simp add: normalise_name_tokens_def)
qed

lemma normalise_name_sorted:
  "sorted (normalise_name_tokens a) \<and> distinct (normalise_name_tokens a)"
  by (auto simp: normalise_name_tokens_def split: option.splits)

lemma tokenize_name_eq_iff:
  assumes "inj_on (\<lambda>w. take 32 (hmac key w))
    (set (normalise_name_tokens a) \<union> set (normalise_name_tokens b))"
  shows "tokenize_name hmac key a = tokenize_name hmac key b \<longleftrightarrow>
    normalise_name_tokens a = normalise_name_tokens b"
proof -
  let ?f = "\<lambda>w. take 32 (hmac key w)"
  have "tokenize_name hmac key a = tokenize_name hmac key b \<longleftrightarrow>
      ?f ` set (normalise_name_tokens a) = ?f ` set (normalise_name_tokens b)"
    by (simp add: tokenize_name_def sort_remdups_eq_iff)
  also have "\<dots> \<longleftrightarrow> set (normalise_name_tokens a) = set (normalise_name_tokens b)"
    using inj_on_Un_image_eq_iff [OF assms] by simp
  also have "\<dots> \<longleftrightarrow> normalise_name_tokens a = normalise_name_tokens b"
    using normalise_name_sorted [of a] normalise_name_sorted [of b]
    by (metis sorted_distinct_set_unique)
  finally show ?thesis .
qed

subsection \<open>Similarity\<close>

lemma overlap_card: "length (filter (\<lambda>t. t \<in> set (remdups ys)) (remdups xs)) = card (set xs \<inter> set ys)"
proof -
  have "set (filter (\<lambda>t. t \<in> set ys) (remdups xs)) = set xs \<inter> set ys" by auto
  then show ?thesis by (metis distinct_card distinct_filter distinct_remdups set_remdups)
qed

lemma similarity_unfold:
  assumes "a \<noteq> []" "b \<noteq> []"
  shows "name_token_similarity (Some a) (Some b) =
    (let n = card (set a); m = card (set b); k = card (set a \<inter> set b) in
     if 2 \<le> min n m \<and> k = min n m then Some 1 else Some (fl (of_nat (2 * k) / of_nat (n + m))))"
proof -
  have "name_token_similarity (Some a) (Some b) =
    (let set_a = remdups a; set_b = remdups b;
         overlap = length (filter (\<lambda>t. t \<in> set set_b) set_a);
         shorter = min (length set_a) (length set_b)
     in if 2 \<le> shorter \<and> overlap = shorter then Some 1
        else Some (fl (of_nat (2 * overlap) / of_nat (length set_a + length set_b))))"
    using assms by (cases a; cases b) (simp_all only: name_token_similarity_def prod.case option.case list.case)
  then show ?thesis unfolding Let_def overlap_card length_remdups_card_conv .
qed

lemma similarity_unit:
  assumes "name_token_similarity a b = Some r"
  shows "0 \<le> r \<and> r \<le> 1"
proof -
  obtain xs ys where a: "a = Some xs" "xs \<noteq> []" and b: "b = Some ys" "ys \<noteq> []"
    using assms by (auto simp: name_token_similarity_def split: option.splits list.splits prod.splits)
  let ?n = "card (set xs)" and ?m = "card (set ys)" and ?k = "card (set xs \<inter> set ys)"
  have k: "?k \<le> ?n" "?k \<le> ?m" by (auto intro: card_mono)
  have pos: "0 < ?n" using a(2) by (simp add: card_gt_0_iff)
  have "(0::rat) \<le> of_nat (2 * ?k)" "(of_nat (2 * ?k) :: rat) \<le> of_nat (?n + ?m)"
    "(0::rat) < of_nat (?n + ?m)"
    using k pos by (simp_all only: of_nat_le_iff of_nat_0_le_iff of_nat_0_less_iff)
  then show ?thesis
    using fl.ratio_unit [of "of_nat (2 * ?k)" "of_nat (?n + ?m)"] assms
    by (auto simp: a b similarity_unfold Let_def split: if_splits)
qed

lemma similarity_sym: "name_token_similarity a b = name_token_similarity b a"
proof (cases "(\<exists>xs. a = Some xs \<and> xs \<noteq> []) \<and> (\<exists>ys. b = Some ys \<and> ys \<noteq> [])")
  case True
  then show ?thesis
    by (auto simp: similarity_unfold Int_commute Let_def add.commute min.commute)
next
  case False
  then have "name_token_similarity a b = None" "name_token_similarity b a = None"
    by (auto simp: name_token_similarity_def split: option.splits list.splits)
  then show ?thesis by simp
qed

end
