(* ===== verification/Clock.thy ===== *)
theory Clock
  imports PyJson
begin

text \<open>
  \<open>datetime\<close>, \<open>date\<close>, \<open>time\<close> and \<open>timedelta\<close>. An aware datetime is the number of microseconds
  since 1970-01-01T00:00Z, a timedelta a number of microseconds, a date a number of days since
  the epoch, a wall-clock time the microseconds since midnight. West Africa Time is UTC+1.
  \<open>from_isoformat\<close> is \<open>datetime.fromisoformat\<close>; it returns the wall-clock reading with its
  offset, if there is one.
\<close>

type_synonym time = int
type_synonym span = int
type_synonym date = int

abbreviation us_second :: int where "us_second \<equiv> 1000000"
abbreviation us_minute :: int where "us_minute \<equiv> 60 * us_second"
abbreviation us_hour :: int where "us_hour \<equiv> 3600 * us_second"
abbreviation us_day :: int where "us_day \<equiv> 86400 * us_second"

definition total_seconds :: "span \<Rightarrow> rat" where
  "total_seconds d = fl (of_int d / 10 ^ 6)"

text \<open>
  \<open>timedelta(hours=h)\<close> with a float number of hours: the whole hours are exact, the fraction is
  scaled in binary64 and rounded half-even to a microsecond.
\<close>

definition py_trunc :: "rat \<Rightarrow> int" where
  "py_trunc x = (if x < 0 then \<lceil>x\<rceil> else \<lfloor>x\<rfloor>)"

definition hours_span :: "rat \<Rightarrow> span" where
  "hours_span h = py_trunc h * us_hour + rhe (fl (of_int us_hour * (h - of_int (py_trunc h))))"

lemma hours_span_nonneg: "0 \<le> h \<Longrightarrow> 0 \<le> hours_span h"
proof -
  assume "0 \<le> h"
  then have "0 \<le> \<lfloor>h\<rfloor>" "0 \<le> h - of_int \<lfloor>h\<rfloor>" by (auto simp: le_floor_iff)
  then have "0 \<le> fl (of_int us_hour * (h - of_int \<lfloor>h\<rfloor>))" by (intro fl.nonneg mult_nonneg_nonneg) auto
  then have "0 \<le> rhe (fl (of_int us_hour * (h - of_int \<lfloor>h\<rfloor>)))" using rhe_ge_of_int [of 0] by simp
  then show ?thesis using \<open>0 \<le> h\<close> \<open>0 \<le> \<lfloor>h\<rfloor>\<close> by (simp add: hours_span_def py_trunc_def)
qed

lemma hours_span_whole: "hours_span (of_int n) = n * us_hour"
  by (simp add: hours_span_def py_trunc_def fl.zero)

definition wat :: "time \<Rightarrow> time" where
  "wat t = t + us_hour"

definition utc_of_wat :: "time \<Rightarrow> time" where
  "utc_of_wat t = t - us_hour"

definition date_of :: "time \<Rightarrow> date" where
  "date_of t = t div us_day"

definition clock_of :: "time \<Rightarrow> int" where
  "clock_of t = t mod us_day"

text \<open>Monday is 0; 1970-01-01 was a Thursday.\<close>

definition weekday :: "date \<Rightarrow> int" where
  "weekday d = (d + 3) mod 7"

lemma weekday_range: "0 \<le> weekday d \<and> weekday d < 7"
  by (simp add: weekday_def)

lemma weekday_add: "weekday (d + k) = (weekday d + k) mod 7"
  by (simp add: weekday_def mod_simps algebra_simps)

lemma date_clock: "us_day * date_of t + clock_of t = t"
  by (simp add: date_of_def clock_of_def)

lemma clock_range: "0 \<le> clock_of t \<and> clock_of t < us_day"
  by (simp add: clock_of_def)

lemma date_of_eq: "0 \<le> r \<Longrightarrow> r < us_day \<Longrightarrow> date_of (us_day * d + r) = d"
  by (simp add: date_of_def div_mult_self4)

lemma utc_wat [simp]: "wat (utc_of_wat t) = t" "utc_of_wat (wat t) = t"
  by (simp_all add: wat_def utc_of_wat_def)

lemma total_seconds_mono: "a \<le> b \<Longrightarrow> total_seconds a \<le> total_seconds b"
  by (simp add: total_seconds_def fl.mono divide_right_mono)

lemma total_seconds_nonneg: "0 \<le> a \<Longrightarrow> 0 \<le> total_seconds a"
  by (simp add: total_seconds_def fl.nonneg)

text \<open>Whole seconds are exact, so a comparison against them is exact too.\<close>

lemma total_seconds_whole: "\<bar>s\<bar> \<le> 2 ^ 53 \<Longrightarrow> total_seconds (s * us_second) = of_int s"
  by (simp add: total_seconds_def fl_int)

subsection \<open>The calendar\<close>

definition is_leap :: "int \<Rightarrow> bool" where
  "is_leap y \<longleftrightarrow> y mod 4 = 0 \<and> (y mod 100 \<noteq> 0 \<or> y mod 400 = 0)"

definition days_in_month :: "int \<Rightarrow> int \<Rightarrow> int" where
  "days_in_month y m = (if m = 2 then (if is_leap y then 29 else 28)
     else if m \<in> {4, 6, 9, 11} then 30 else 31)"

definition days_before_year :: "int \<Rightarrow> int" where
  "days_before_year y = (y - 1) * 365 + (y - 1) div 4 - (y - 1) div 100 + (y - 1) div 400"

definition days_before_month :: "int \<Rightarrow> int \<Rightarrow> int" where
  "days_before_month y m = sum_list (map (days_in_month y) [1..m - 1])"

definition epoch_ordinal :: int where
  "epoch_ordinal = 719163"

definition date_from :: "int \<Rightarrow> int \<Rightarrow> int \<Rightarrow> date option" where
  "date_from y m d = (if 1 \<le> y \<and> y \<le> 9999 \<and> 1 \<le> m \<and> m \<le> 12 \<and> 1 \<le> d \<and> d \<le> days_in_month y m
     then Some (days_before_year y + days_before_month y m + d - epoch_ordinal) else None)"

text \<open>The Monday of ISO week 1, and the date of a week and weekday of a year.\<close>

definition iso_week1_monday :: "int \<Rightarrow> date" where
  "iso_week1_monday y = (let first = days_before_year y + 1 - epoch_ordinal; w = weekday first;
     monday = first - w in if 3 < w then monday + 7 else monday)"

definition date_from_week :: "int \<Rightarrow> int \<Rightarrow> int \<Rightarrow> date option" where
  "date_from_week y w d = (let first = weekday (days_before_year y + 1 - epoch_ordinal);
       long = (first = 3 \<or> first = 2 \<and> is_leap y)
     in if 1 \<le> y \<and> y \<le> 9999 \<and> 1 \<le> w \<and> (w < 53 \<or> w = 53 \<and> long) \<and> 1 \<le> d \<and> d \<le> 7
        then Some (iso_week1_monday y + (w - 1) * 7 + d - 1) else None)"

definition min_time :: time where
  "min_time = (days_before_year 1 + 1 - epoch_ordinal) * us_day"

definition max_time :: time where
  "max_time = (days_before_year 10000 + 1 - epoch_ordinal) * us_day - 1"

subsection \<open>ISO 8601\<close>

definition digits :: "string \<Rightarrow> int option" where
  "digits s = (if py_isdigit s then Some (read_nat s) else None)"

definition slice :: "string \<Rightarrow> nat \<Rightarrow> nat \<Rightarrow> string" where
  "slice s i j = take (j - i) (drop i s)"

definition iso_separator :: "string \<Rightarrow> nat option" where
  "iso_separator s = (
     if length s = 7 then Some 7
     else if s ! 4 = CHR ''-'' then
       (if s ! 5 = CHR ''W'' then
          (if 8 < length s \<and> s ! 8 = CHR ''-'' then
             (if length s = 9 then None
              else if 10 < length s \<and> is_digit (s ! 10) then Some 8 else Some 10)
           else Some 8)
        else Some 10)
     else if s ! 4 = CHR ''W'' then
       (let k = 7 + length (takeWhile is_digit (drop 7 s)) in
        if k < 9 then Some k else if k mod 2 = 0 then Some 7 else Some 8)
     else Some 8)"

definition iso_date :: "string \<Rightarrow> date option" where
  "iso_date s = (case digits (take 4 s) of None \<Rightarrow> None | Some y \<Rightarrow>
     let sep = (slice s 4 5 = ''-''); pos = (if sep then 5 else 4)
     in if slice s pos (pos + 1) = ''W'' then
          (case digits (slice s (pos + 1) (pos + 3)) of None \<Rightarrow> None | Some w \<Rightarrow>
             if length s \<le> pos + 3 then date_from_week y w 1
             else if (slice s (pos + 3) (pos + 4) = ''-'') \<noteq> sep then None
             else (case digits (drop (pos + (if sep then 4 else 3)) s) of
                     None \<Rightarrow> None | Some d \<Rightarrow> date_from_week y w d))
        else
          (case digits (slice s pos (pos + 2)) of None \<Rightarrow> None | Some m \<Rightarrow>
             if (slice s (pos + 2) (pos + 3) = ''-'') \<noteq> sep then None
             else (let p = pos + (if sep then 3 else 2) in
                   if length (slice s p (p + 2)) < 2 then None
                   else case digits (slice s p (p + 2)) of None \<Rightarrow> None | Some d \<Rightarrow> date_from y m d)))"

text \<open>\<open>HH[:MM[:SS[.ffffff]]]\<close>, or the same without colons. The fraction is cut at microseconds.\<close>

definition iso_fraction :: "string \<Rightarrow> int option" where
  "iso_fraction s = (case s of [] \<Rightarrow> Some 0 | c # f \<Rightarrow>
     if c \<noteq> CHR ''.'' \<and> c \<noteq> CHR '','' then None
     else map_option (\<lambda>v. if length f < 6 then v * 10 ^ (6 - length f) else v)
        (if list_all is_digit f then digits (take 6 f) else None))"

fun iso_fields :: "nat \<Rightarrow> bool option \<Rightarrow> string \<Rightarrow> (int list \<times> string) option" where
  "iso_fields 0 sep s = Some ([], s)"
| "iso_fields (Suc k) sep s = (if length s < 2 then None else
     case digits (take 2 s) of None \<Rightarrow> None | Some v \<Rightarrow>
       let rest = drop 2 s; sep' = (case sep of None \<Rightarrow> take 1 rest = '':'' | Some b \<Rightarrow> b)
       in if rest = [] \<or> k = 0 then Some ([v], rest)
          else if sep' \<and> take 1 rest \<noteq> '':'' then None
          else map_option (\<lambda>(vs, r). (v # vs, r))
                 (iso_fields k (Some sep') (if sep' then drop 1 rest else rest)))"

definition iso_clock :: "string \<Rightarrow> (int \<times> int \<times> int \<times> int) option" where
  "iso_clock s = (case iso_fields 3 None s of None \<Rightarrow> None | Some (vs, rest) \<Rightarrow>
     map_option (\<lambda>f. (vs ! 0, if 1 < length vs then vs ! 1 else 0,
        if 2 < length vs then vs ! 2 else 0, f)) (iso_fraction rest))"

definition clock_span :: "int \<times> int \<times> int \<times> int \<Rightarrow> span" where
  "clock_span = (\<lambda>(h, m, s, f). h * us_hour + m * us_minute + s * us_second + f)"

definition iso_tz_index :: "string \<Rightarrow> nat option" where
  "iso_tz_index s = (if CHR ''-'' \<in> set s then Some (length (takeWhile (\<lambda>c. c \<noteq> CHR ''-'') s))
     else if CHR ''+'' \<in> set s then Some (length (takeWhile (\<lambda>c. c \<noteq> CHR ''+'') s))
     else if CHR ''Z'' \<in> set s then Some (length (takeWhile (\<lambda>c. c \<noteq> CHR ''Z'') s))
     else None)"

definition iso_offset :: "char \<Rightarrow> string \<Rightarrow> span option" where
  "iso_offset sign s = (if sign = CHR ''Z'' then (if s = [] then Some 0 else None)
     else if length s \<in> {0, 1, 3} then None
     else case iso_clock s of None \<Rightarrow> None | Some c \<Rightarrow>
       let d = clock_span c in if us_day \<le> d then None
       else Some (if sign = CHR ''-'' then - d else d))"

definition iso_time :: "string \<Rightarrow> (span \<times> span option) option" where
  "iso_time s = (if length s < 2 then None else
     let i = iso_tz_index s; body = (case i of None \<Rightarrow> s | Some k \<Rightarrow> take k s)
     in case iso_clock body of None \<Rightarrow> None | Some (h, m, sec, f) \<Rightarrow>
        if 24 \<le> h \<or> 60 \<le> m \<or> 60 \<le> sec then None
        else case i of None \<Rightarrow> Some (clock_span (h, m, sec, f), None)
           | Some k \<Rightarrow> map_option (\<lambda>d. (clock_span (h, m, sec, f), Some d)) (iso_offset (s ! k) (drop (k + 1) s)))"

definition from_isoformat :: "string \<Rightarrow> (time \<times> span option) option" where
  "from_isoformat s = (if length s < 7 then None else
     case iso_separator s of None \<Rightarrow> None | Some p \<Rightarrow>
     case iso_date (take p s) of None \<Rightarrow> None | Some d \<Rightarrow>
       if drop (p + 1) s = [] then Some (d * us_day, None)
       else map_option (\<lambda>(c, off). (d * us_day + c, off)) (iso_time (drop (p + 1) s)))"

end
