(* ===== verification/Matching.thy ===== *)
theory Matching
  imports Pii Clock
begin

text \<open>
  \<open>src/engine/matching.py\<close>: the two-tier matching engine, with \<open>match_all\<close> of
  \<open>src/flows/matching_flow.py\<close>. Scores are binary64 and relative deltas 28-digit decimals,
  rounded operation by operation as in the code. The locale \<open>guarded_choice\<close> is the contract
  both tiers implement: the best candidate wins, and only when it is clearly better than the
  runner-up; both tiers are interpretations of it.
\<close>

subsection \<open>Choosing the best candidate, or refusing to\<close>

locale guarded_choice =
  fixes key :: "'a \<Rightarrow> rat" and close :: "rat \<Rightarrow> rat \<Rightarrow> bool"
  assumes not_close_less: "x \<le> y \<Longrightarrow> \<not> close x y \<Longrightarrow> x < y"
begin

definition pick :: "'a list \<Rightarrow> 'a option" where
  "pick xs = (case sort_key key xs of
     [] \<Rightarrow> None
   | [x] \<Rightarrow> Some x
   | x # y # zs \<Rightarrow> if close (key x) (key y) then None else Some x)"

lemma pick_unique_least:
  assumes "pick xs = Some x"
  shows "x \<in> set xs \<and> (\<forall>y \<in> set xs. y \<noteq> x \<longrightarrow> key x < key y)"
proof (cases "sort_key key xs")
  case (Cons z zs)
  have z: "z = x" using assms Cons by (auto simp: pick_def split: list.splits if_splits)
  have mem: "x \<in> set xs" using sort_key_mem [OF Cons] z by simp
  show ?thesis
  proof (cases zs)
    case Nil
    then have "set xs = {x}" using Cons z by (metis list.set(1) list.simps(15) set_sort)
    then show ?thesis by simp
  next
    case (Cons y ys)
    have sorted: "sort_key key xs = x # y # ys" using \<open>sort_key key xs = z # zs\<close> Cons z by simp
    have nc: "\<not> close (key x) (key y)" using assms by (auto simp: pick_def sorted split: if_splits)
    have "y \<in> set xs" by (metis list.set_intros(1) list.set_intros(2) set_sort sorted)
    then have "key x < key y"
      by (rule not_close_less [OF sort_key_hd_least [OF sorted] nc])
    then show ?thesis using mem sort_key_strict_head [OF sorted] by blast
  qed
qed (use assms in \<open>auto simp: pick_def\<close>)

text \<open>The choice depends on the candidates, never on the order they were loaded in.\<close>

lemma pick_perm:
  assumes "mset xs = mset ys"
  shows "pick xs = pick ys"
proof -
  have keys: "map key (sort_key key xs) = map key (sort_key key ys)"
    using assms by (rule sort_key_perm_keys)
  have set: "set xs = set ys" using assms by (metis set_mset_mset)
  have one: "pick us = Some x \<Longrightarrow> mset us = mset vs \<Longrightarrow> pick vs = Some x" for us vs x
  proof -
    assume u: "pick us = Some x" and uv: "mset us = mset vs"
    have ks: "map key (sort_key key us) = map key (sort_key key vs)"
      using uv by (rule sort_key_perm_keys)
    obtain v vs' where v: "sort_key key vs = v # vs'"
      using u uv by (cases "sort_key key vs") (auto simp: pick_def)
    obtain w ws where w: "sort_key key us = w # ws"
      using u by (cases "sort_key key us") (auto simp: pick_def)
    have "w = x" using u w by (auto simp: pick_def split: list.splits if_splits)
    then have kv: "key v = key x" using ks v w by simp
    have "v \<in> set us" using sort_key_mem [OF v] uv by (metis set_mset_mset)
    then have vx: "v = x" using pick_unique_least [OF u] kv by (metis less_irrefl)
    show "pick vs = Some x"
    proof (cases vs')
      case Nil
      then show ?thesis using v vx by (simp add: pick_def)
    next
      case (Cons a as)
      then obtain b bs where "ws = b # bs" "key b = key a" using ks v w by (cases ws) auto
      then have "\<not> close (key x) (key a)"
        using u w \<open>w = x\<close> by (auto simp: pick_def split: if_splits)
      then show ?thesis using Cons v vx by (simp add: pick_def)
    qed
  qed
  show ?thesis
    using one [OF _ assms] one [OF _ assms [symmetric]] by (metis option.exhaust)
qed

text \<open>A near tie at the top is refused.\<close>

lemma pick_tie_refused:
  assumes "x \<in> set xs" "y \<in> set xs" "x \<noteq> y" "key x = key y" "\<And>z. z \<in> set xs \<Longrightarrow> key x \<le> key z"
  shows "pick xs = None"
proof (rule ccontr)
  assume "pick xs \<noteq> None"
  then obtain z where "pick xs = Some z" by auto
  from pick_unique_least [OF this] assms show False
    by (metis less_irrefl less_le_not_le)
qed

end

subsection \<open>Configuration and candidates\<close>

record match_config =
  primary_time_window :: span
  probabilistic_threshold :: rat
  probabilistic_time_window :: span
  amount_tolerance_pct :: rat
  weight_amount :: rat
  weight_time :: rat
  weight_name :: rat
  weight_bank :: rat
  fx_variance_threshold_pct :: rat
  ambiguity_margin :: rat

definition DEFAULT_CONFIG :: match_config where
  "DEFAULT_CONFIG = \<lparr>primary_time_window = 72 * us_hour, probabilistic_threshold = fl (75 / 100),
     probabilistic_time_window = 168 * us_hour, amount_tolerance_pct = 5 / 100,
     weight_amount = fl (40 / 100), weight_time = fl (25 / 100), weight_name = fl (25 / 100),
     weight_bank = fl (10 / 100), fx_variance_threshold_pct = 5 / 1000,
     ambiguity_margin = fl (5 / 100)\<rparr>"

record candidate =
  c_id :: nat
  c_psp :: string
  c_type :: string
  c_amount :: rat
  c_currency :: string
  c_initiated :: time
  c_settled :: "time option"
  c_tokens :: "string list option"
  c_beneficiary_bank :: "string option"
  c_sender_bank :: "string option"
  already_matched :: bool

datatype strategy = EXACT_PRIMARY | PROBABILISTIC_SECONDARY | UNMATCHED

datatype match_evidence =
    NoEvidence
  | TiedCandidates "nat list"
  | CloseRunnerUp rat rat "nat list"
  | ExactEvidence rat nat
  | ScoreEvidence rat rat rat rat rat

record match_result =
  source_transaction_id :: nat
  matched_transaction_id :: "nat option"
  mr_strategy :: strategy
  confidence_score :: rat
  confidence_evidence :: match_evidence
  amount_delta_ngn :: "rat option"
  is_within_fx_threshold :: bool

text \<open>\<open>confidence_evidence.get("ambiguous")\<close>\<close>

fun ambiguous :: "match_evidence \<Rightarrow> bool" where
  "ambiguous (TiedCandidates _) = True"
| "ambiguous (CloseRunnerUp _ _ _) = True"
| "ambiguous _ = False"

record evidence =
  amount_score :: rat
  time_score :: rat
  name_score :: rat
  bank_score :: rat
  amount_delta_pct :: rat
  time_delta_seconds :: rat
  name_similarity :: "rat option"
  bank_match :: bool

subsection \<open>Evidence\<close>

definition are_complementary_types :: "string \<Rightarrow> string \<Rightarrow> bool" where
  "are_complementary_types a b \<longleftrightarrow> {a, b} = {''credit'', ''debit''}"

definition eligible :: "candidate \<Rightarrow> candidate \<Rightarrow> bool" where
  "eligible source c \<longleftrightarrow> c_id c \<noteq> c_id source \<and> c_psp c \<noteq> c_psp source \<and> \<not> already_matched c \<and>
     are_complementary_types (c_type source) (c_type c)"

definition time_delta :: "candidate \<Rightarrow> candidate \<Rightarrow> rat" where
  "time_delta a b = \<bar>total_seconds (c_initiated a - c_initiated b)\<bar>"

definition relative_delta :: "rat \<Rightarrow> rat \<Rightarrow> rat" where
  "relative_delta a b = dec (\<bar>dec (a - b)\<bar> / a)"

definition amount_score_of :: "rat \<Rightarrow> rat \<Rightarrow> rat \<Rightarrow> rat" where
  "amount_score_of a b tol = (if 0 < a then
     (let d = relative_delta a b in
      if d = 0 then 1 else if 0 < tol \<and> d \<le> tol then fl (dec (1 - dec (d / tol))) else 0)
     else 0)"

definition time_score_of :: "rat \<Rightarrow> rat \<Rightarrow> exc + rat" where
  "time_score_of td win = (if td \<le> win then
     (if win = 0 then Inl ZeroDivisionError else Inr (max 0 (fl (1 - fl (td / win)))))
     else Inr 0)"

definition no_tokens :: "string list option \<Rightarrow> bool" where
  "no_tokens t \<longleftrightarrow> t = None \<or> t = Some []"

definition name_score_of :: "string list option \<Rightarrow> string list option \<Rightarrow> rat" where
  "name_score_of a b = (case name_token_similarity a b of
     Some s \<Rightarrow> s
   | None \<Rightarrow> if no_tokens a \<and> no_tokens b then 1 / 2 else fl (1 / 5))"

text \<open>\<open>beneficiary_bank_code or sender_bank_code\<close>, and its truth value.\<close>

definition bank_of :: "candidate \<Rightarrow> string option" where
  "bank_of c = (if c_beneficiary_bank c \<noteq> None \<and> c_beneficiary_bank c \<noteq> Some [] then c_beneficiary_bank c
     else c_sender_bank c)"

definition has_bank :: "candidate \<Rightarrow> bool" where
  "has_bank c \<longleftrightarrow> bank_of c \<noteq> None \<and> bank_of c \<noteq> Some []"

definition bank_score_of :: "candidate \<Rightarrow> candidate \<Rightarrow> rat" where
  "bank_score_of a b = (if has_bank a \<and> has_bank b then (if bank_of a = bank_of b then 1 else 0)
     else if \<not> has_bank a \<and> \<not> has_bank b then 1 / 2 else 0)"

definition compute_confidence_evidence :: "candidate \<Rightarrow> candidate \<Rightarrow> match_config \<Rightarrow> exc + evidence" where
  "compute_confidence_evidence source c config = (
     let td = time_delta source c; win = total_seconds (probabilistic_time_window config) in
     sbind (time_score_of td win) (\<lambda>ts.
     Inr \<lparr>amount_score = amount_score_of (c_amount source) (c_amount c) (amount_tolerance_pct config),
       time_score = ts,
       name_score = name_score_of (c_tokens source) (c_tokens c),
       bank_score = bank_score_of source c,
       amount_delta_pct = (if 0 < c_amount source then fl (relative_delta (c_amount source) (c_amount c)) else 0),
       time_delta_seconds = td,
       name_similarity = name_token_similarity (c_tokens source) (c_tokens c),
       bank_match = (has_bank source \<and> has_bank c \<and> bank_of source = bank_of c)\<rparr>))"

definition weighted_score :: "match_config \<Rightarrow> evidence \<Rightarrow> rat" where
  "weighted_score config ev =
     fl (fl (fl (fl (amount_score ev * weight_amount config) + fl (time_score ev * weight_time config)) +
       fl (name_score ev * weight_name config)) + fl (bank_score ev * weight_bank config))"

text \<open>\<open>round(x, 4)\<close>\<close>

definition round4 :: "rat \<Rightarrow> rat" where
  "round4 x = fl (quant 4 x)"

subsection \<open>The two tiers\<close>

definition unmatched :: "candidate \<Rightarrow> strategy \<Rightarrow> match_evidence \<Rightarrow> match_result" where
  "unmatched source st ev = \<lparr>source_transaction_id = c_id source, matched_transaction_id = None,
     mr_strategy = st, confidence_score = 0, confidence_evidence = ev, amount_delta_ngn = None,
     is_within_fx_threshold = False\<rparr>"

definition find_primary_match :: "candidate \<Rightarrow> candidate list \<Rightarrow> match_config \<Rightarrow> match_result" where
  "find_primary_match source cs config = (
     let window = total_seconds (primary_time_window config);
         exact = sort_key fst (map (\<lambda>c. (time_delta source c, c))
           (filter (\<lambda>c. eligible source c \<and> c_amount c = c_amount source) cs));
         exact = filter (\<lambda>p. fst p \<le> window) exact
     in case exact of
          [] \<Rightarrow> unmatched source EXACT_PRIMARY NoEvidence
        | (td, best) # rest \<Rightarrow>
            if rest \<noteq> [] \<and> td = fst (hd rest)
            then unmatched source EXACT_PRIMARY (TiedCandidates (map (c_id \<circ> snd) (take 5 exact)))
            else \<lparr>source_transaction_id = c_id source, matched_transaction_id = Some (c_id best),
              mr_strategy = EXACT_PRIMARY, confidence_score = 1,
              confidence_evidence = ExactEvidence td (length exact), amount_delta_ngn = Some 0,
              is_within_fx_threshold = True\<rparr>)"

definition score_candidates ::
  "candidate \<Rightarrow> candidate list \<Rightarrow> match_config \<Rightarrow> exc + (rat \<times> candidate \<times> evidence) list" where
  "score_candidates source cs config = (
     let window = total_seconds (probabilistic_time_window config) in
     sbind (smap (\<lambda>c. sbind (compute_confidence_evidence source c config) (\<lambda>ev. Inr (c, ev)))
       (filter (\<lambda>c. eligible source c \<and> \<not> time_delta source c > window) cs)) (\<lambda>evs.
     Inr (map (\<lambda>(c, ev). (weighted_score config ev, c, ev))
       (filter (\<lambda>(c, ev). amount_score ev \<noteq> 0) evs))))"

definition prob_close :: "rat \<Rightarrow> rat \<Rightarrow> rat \<Rightarrow> bool" where
  "prob_close margin x y \<longleftrightarrow> fl (- x - - y) < margin"

definition find_probabilistic_match ::
  "candidate \<Rightarrow> candidate list \<Rightarrow> match_config \<Rightarrow> exc + match_result" where
  "find_probabilistic_match source cs config = sbind (score_candidates source cs config) (\<lambda>scored0.
     let scored = sort_key (\<lambda>t. - fst t) scored0 in
     case scored of
       [] \<Rightarrow> Inr (unmatched source PROBABILISTIC_SECONDARY NoEvidence)
     | (best_score, best, ev) # rest \<Rightarrow>
         if best_score < probabilistic_threshold config
         then Inr (unmatched source PROBABILISTIC_SECONDARY NoEvidence)
         else if rest \<noteq> [] \<and> fl (best_score - fst (hd rest)) < ambiguity_margin config
         then Inr (unmatched source PROBABILISTIC_SECONDARY
           (CloseRunnerUp (round4 best_score) (round4 (fst (hd rest)))
             (map (c_id \<circ> fst \<circ> snd) (take 5 scored))))
         else
           let delta = \<bar>dec (c_amount source - c_amount best)\<bar>;
               delta_pct = (if 0 < c_amount source then dec (delta / c_amount source) else 0)
           in Inr \<lparr>source_transaction_id = c_id source, matched_transaction_id = Some (c_id best),
                mr_strategy = PROBABILISTIC_SECONDARY, confidence_score = round4 best_score,
                confidence_evidence = ScoreEvidence (round4 (amount_score ev)) (round4 (time_score ev))
                  (round4 (name_score ev)) (round4 (bank_score ev)) (time_delta_seconds ev),
                amount_delta_ngn = Some delta,
                is_within_fx_threshold = (delta_pct \<le> fx_variance_threshold_pct config)\<rparr>)"

definition run_matching :: "candidate \<Rightarrow> candidate list \<Rightarrow> match_config \<Rightarrow> exc + match_result" where
  "run_matching source cs config = (
     let primary = find_primary_match source cs config in
     if matched_transaction_id primary \<noteq> None then Inr primary
     else if ambiguous (confidence_evidence primary)
     then Inr (unmatched source UNMATCHED (confidence_evidence primary))
     else sbind (find_probabilistic_match source cs config) (\<lambda>prob.
       if matched_transaction_id prob \<noteq> None then Inr prob
       else Inr (unmatched source UNMATCHED (confidence_evidence prob))))"

text \<open>The loop of \<open>match_all\<close>; the first argument is the list the candidates are taken from.\<close>

fun match_loop ::
  "match_config \<Rightarrow> candidate list \<Rightarrow> nat set \<Rightarrow> candidate list \<Rightarrow> exc + match_result list" where
  "match_loop config all matched [] = Inr []"
| "match_loop config all matched (source # rest) = (
     if c_id source \<in> matched then match_loop config all matched rest
     else sbind (run_matching source (filter (\<lambda>c. c_id c \<notin> matched) all) config) (\<lambda>result.
       case matched_transaction_id result of
         None \<Rightarrow> match_loop config all matched rest
       | Some m \<Rightarrow> sbind (match_loop config all (matched \<union> {c_id source, m}) rest)
           (\<lambda>pairs. Inr (result # pairs))))"

definition match_all :: "candidate list \<Rightarrow> match_config \<Rightarrow> exc + match_result list" where
  "match_all cs config = match_loop config cs {} cs"

subsection \<open>Completeness of the choice\<close>

context guarded_choice
begin

lemma pick_strict_least:
  assumes "distinct xs" "x \<in> set xs" "\<And>y. y \<in> set xs \<Longrightarrow> y \<noteq> x \<Longrightarrow> key x < key y \<and> \<not> close (key x) (key y)"
  shows "pick xs = Some x"
proof (cases "sort_key key xs")
  case Nil
  then show ?thesis using assms(2) by simp
next
  case (Cons z zs)
  have "z \<in> set xs" using sort_key_mem [OF Cons] .
  moreover have "key z \<le> key x" using sort_key_hd_least [OF Cons assms(2)] .
  ultimately have z: "z = x" using assms(3) by fastforce
  have "distinct (z # zs)" "set (z # zs) = set xs"
    using assms(1) Cons by (metis distinct_sort, metis set_sort)
  then have "y \<in> set zs \<Longrightarrow> y \<in> set xs \<and> y \<noteq> x" for y using z by auto
  then show ?thesis using Cons z assms(3) by (cases zs) (auto simp: pick_def)
qed

end

subsection \<open>Both tiers are guarded choices\<close>

interpretation primary: guarded_choice fst "(=)"
  by unfold_locales simp

lemma prob_guard: "0 < m \<Longrightarrow> guarded_choice (prob_close m)"
proof
  fix x y :: rat
  assume "0 < m" "x \<le> y" "\<not> prob_close m x y"
  then have "0 < fl (- x - - y)" by (simp add: prob_close_def)
  then show "x < y" using fl.sign_pos by fastforce
qed

lemma default_margin_pos: "0 < ambiguity_margin DEFAULT_CONFIG"
  by (simp add: DEFAULT_CONFIG_def fl_def round_sig_pos)

interpretation secondary: guarded_choice "\<lambda>t. - fst t" "prob_close (ambiguity_margin DEFAULT_CONFIG)"
  by (rule prob_guard [OF default_margin_pos])

definition exact_pool :: "candidate \<Rightarrow> candidate list \<Rightarrow> match_config \<Rightarrow> (rat \<times> candidate) list" where
  "exact_pool source cs config = filter (\<lambda>p. fst p \<le> total_seconds (primary_time_window config))
     (map (\<lambda>c. (time_delta source c, c)) (filter (\<lambda>c. eligible source c \<and> c_amount c = c_amount source) cs))"

lemma exact_pool_mem:
  "p \<in> set (exact_pool source cs config) \<longleftrightarrow> (\<exists>c \<in> set cs. p = (time_delta source c, c) \<and>
     eligible source c \<and> c_amount c = c_amount source \<and>
     time_delta source c \<le> total_seconds (primary_time_window config))"
  by (auto simp: exact_pool_def)

lemma find_primary_cases:
  "case primary.pick (exact_pool source cs config) of
     Some p \<Rightarrow> find_primary_match source cs config =
       \<lparr>source_transaction_id = c_id source, matched_transaction_id = Some (c_id (snd p)),
        mr_strategy = EXACT_PRIMARY, confidence_score = 1,
        confidence_evidence = ExactEvidence (fst p) (length (exact_pool source cs config)),
        amount_delta_ngn = Some 0, is_within_fx_threshold = True\<rparr>
   | None \<Rightarrow> \<exists>ev. find_primary_match source cs config = unmatched source EXACT_PRIMARY ev \<and>
       (ambiguous ev \<longleftrightarrow> exact_pool source cs config \<noteq> [])"
proof -
  let ?pool = "exact_pool source cs config"
  have s: "filter (\<lambda>p. fst p \<le> total_seconds (primary_time_window config))
      (sort_key fst (map (\<lambda>c. (time_delta source c, c))
        (filter (\<lambda>c. eligible source c \<and> c_amount c = c_amount source) cs))) = sort_key fst ?pool"
    by (simp add: exact_pool_def filter_sort)
  have len: "length (sort_key fst ?pool) = length ?pool" by simp
  show ?thesis
  proof (cases "sort_key fst ?pool")
    case Nil
    then show ?thesis
      by (auto simp: find_primary_match_def s primary.pick_def Let_def)
  next
    case (Cons p rest)
    then have ne: "?pool \<noteq> []" by auto
    show ?thesis
      using Cons len ne
      by (cases rest) (auto simp: find_primary_match_def s primary.pick_def Let_def split: prod.splits)
  qed
qed

subsection \<open>The scored candidates of the second tier\<close>

definition window_ok :: "match_config \<Rightarrow> bool" where
  "window_ok config \<longleftrightarrow> 0 < probabilistic_time_window config"

lemma window_pos: "window_ok config \<Longrightarrow> 0 < total_seconds (probabilistic_time_window config)"
  by (simp add: window_ok_def total_seconds_def fl_def round_sig_pos)

definition evidence_of :: "candidate \<Rightarrow> match_config \<Rightarrow> candidate \<Rightarrow> evidence" where
  "evidence_of source config c = projr (compute_confidence_evidence source c config)"

lemma compute_total:
  "window_ok config \<Longrightarrow> compute_confidence_evidence source c config = Inr (evidence_of source config c)"
  using window_pos [of config]
  by (auto simp: evidence_of_def compute_confidence_evidence_def Let_def time_score_of_def)

definition in_pool :: "candidate \<Rightarrow> match_config \<Rightarrow> candidate \<Rightarrow> bool" where
  "in_pool source config c \<longleftrightarrow> eligible source c \<and>
     time_delta source c \<le> total_seconds (probabilistic_time_window config) \<and>
     amount_score (evidence_of source config c) \<noteq> 0"

definition scored :: "candidate \<Rightarrow> match_config \<Rightarrow> candidate \<Rightarrow> rat \<times> candidate \<times> evidence" where
  "scored source config c = (weighted_score config (evidence_of source config c), c, evidence_of source config c)"

definition score_pool :: "candidate \<Rightarrow> candidate list \<Rightarrow> match_config \<Rightarrow> (rat \<times> candidate \<times> evidence) list" where
  "score_pool source cs config = map (scored source config) (filter (in_pool source config) cs)"

lemma score_candidates_total:
  assumes "window_ok config"
  shows "score_candidates source cs config = Inr (score_pool source cs config)"
proof -
  let ?f = "\<lambda>c. sbind (compute_confidence_evidence source c config) (\<lambda>ev. Inr (c, ev))"
  let ?g = "\<lambda>c. (c, evidence_of source config c)"
  have "smap ?f xs = Inr (map ?g xs)" for xs
    by (rule smap_total) (simp add: compute_total [OF assms])
  moreover have "filter (in_pool source config) cs = filter (\<lambda>c. amount_score (evidence_of source config c) \<noteq> 0)
      (filter (\<lambda>c. eligible source c \<and> \<not> time_delta source c > total_seconds (probabilistic_time_window config)) cs)"
    unfolding filter_filter by (rule filter_cong) (auto simp: in_pool_def)
  ultimately show ?thesis
    by (simp add: score_candidates_def Let_def score_pool_def filter_map comp_def scored_def)
qed

definition prob_result :: "candidate \<Rightarrow> match_config \<Rightarrow> rat \<times> candidate \<times> evidence \<Rightarrow> match_result" where
  "prob_result source config = (\<lambda>(s, best, ev).
     let delta = \<bar>dec (c_amount source - c_amount best)\<bar>;
         delta_pct = (if 0 < c_amount source then dec (delta / c_amount source) else 0) in
     \<lparr>source_transaction_id = c_id source, matched_transaction_id = Some (c_id best),
      mr_strategy = PROBABILISTIC_SECONDARY, confidence_score = round4 s,
      confidence_evidence = ScoreEvidence (round4 (amount_score ev)) (round4 (time_score ev))
        (round4 (name_score ev)) (round4 (bank_score ev)) (time_delta_seconds ev),
      amount_delta_ngn = Some delta,
      is_within_fx_threshold = (delta_pct \<le> fx_variance_threshold_pct config)\<rparr>)"

lemma find_probabilistic_cases:
  assumes w: "window_ok config" and m: "0 < ambiguity_margin config"
  shows "case guarded_choice.pick (\<lambda>t. - fst t) (prob_close (ambiguity_margin config)) (score_pool source cs config) of
     Some t \<Rightarrow> if fst t < probabilistic_threshold config
       then find_probabilistic_match source cs config = Inr (unmatched source PROBABILISTIC_SECONDARY NoEvidence)
       else find_probabilistic_match source cs config = Inr (prob_result source config t)
   | None \<Rightarrow> \<exists>ev. find_probabilistic_match source cs config = Inr (unmatched source PROBABILISTIC_SECONDARY ev)"
proof -
  let ?pool = "score_pool source cs config"
  note pick = guarded_choice.pick_def [OF prob_guard [OF m]]
  show ?thesis
  proof (cases "sort_key (\<lambda>t. - fst t) ?pool")
    case Nil
    then show ?thesis
      by (auto simp: find_probabilistic_match_def score_candidates_total [OF w] pick)
  next
    case (Cons p rest)
    obtain s b ev where p: "p = (s, b, ev)" by (cases p)
    show ?thesis
    proof (cases rest)
      case Nil
      then show ?thesis using Cons
        by (simp add: find_probabilistic_match_def score_candidates_total [OF w] pick p prob_result_def Let_def)
    next
      case (Cons q qs)
      then show ?thesis using \<open>sort_key (\<lambda>t. - fst t) ?pool = p # rest\<close>
        by (auto simp: find_probabilistic_match_def score_candidates_total [OF w] pick p prob_result_def
            prob_close_def Let_def)
    qed
  qed
qed


subsection \<open>The outcome of the two tiers\<close>

text \<open>What a run decides, without the listing of the candidates it refused.\<close>

definition outcome :: "match_result \<Rightarrow> nat \<times> nat option \<times> strategy \<times> rat \<times> rat option \<times> bool" where
  "outcome r = (source_transaction_id r, matched_transaction_id r, mr_strategy r, confidence_score r,
     amount_delta_ngn r, is_within_fx_threshold r)"

lemma outcome_unmatched [simp]: "outcome (unmatched s st ev) = (c_id s, None, st, 0, None, False)"
  by (simp add: outcome_def unmatched_def)

lemma unmatched_sel [simp]:
  "matched_transaction_id (unmatched s st ev) = None" "source_transaction_id (unmatched s st ev) = c_id s"
  "confidence_evidence (unmatched s st ev) = ev" "confidence_score (unmatched s st ev) = 0"
  "mr_strategy (unmatched s st ev) = st"
  by (simp_all add: unmatched_def)

definition config_ok :: "match_config \<Rightarrow> bool" where
  "config_ok config \<longleftrightarrow> window_ok config \<and> 0 < ambiguity_margin config"

abbreviation best_scored :: "candidate \<Rightarrow> candidate list \<Rightarrow> match_config \<Rightarrow> (rat \<times> candidate \<times> evidence) option" where
  "best_scored source cs config \<equiv>
     guarded_choice.pick (\<lambda>t. - fst t) (prob_close (ambiguity_margin config)) (score_pool source cs config)"

definition decision ::
  "candidate \<Rightarrow> candidate list \<Rightarrow> match_config \<Rightarrow> nat \<times> nat option \<times> strategy \<times> rat \<times> rat option \<times> bool" where
  "decision source cs config = (case primary.pick (exact_pool source cs config) of
       Some p \<Rightarrow> (c_id source, Some (c_id (snd p)), EXACT_PRIMARY, 1, Some 0, True)
     | None \<Rightarrow> if exact_pool source cs config \<noteq> [] then (c_id source, None, UNMATCHED, 0, None, False)
       else case best_scored source cs config of
           Some t \<Rightarrow> if fst t < probabilistic_threshold config then (c_id source, None, UNMATCHED, 0, None, False)
             else outcome (prob_result source config t)
         | None \<Rightarrow> (c_id source, None, UNMATCHED, 0, None, False))"

lemma run_matching_decision:
  assumes ok: "config_ok config"
  shows "\<exists>r. run_matching source cs config = Inr r \<and> outcome r = decision source cs config"
proof (cases "primary.pick (exact_pool source cs config)")
  case (Some p)
  then show ?thesis
    using find_primary_cases [of source cs config]
    by (simp add: run_matching_def Let_def outcome_def decision_def)
next
  case None
  then obtain ev where p: "find_primary_match source cs config = unmatched source EXACT_PRIMARY ev"
    and a: "ambiguous ev \<longleftrightarrow> exact_pool source cs config \<noteq> []"
    using find_primary_cases [of source cs config] by auto
  have m: "matched_transaction_id (prob_result source config t) \<noteq> None" for t
    by (simp add: prob_result_def Let_def split_def)
  have d: "decision source cs config = (if exact_pool source cs config \<noteq> []
      then (c_id source, None, UNMATCHED, 0, None, False)
      else case best_scored source cs config of
           Some t \<Rightarrow> if fst t < probabilistic_threshold config then (c_id source, None, UNMATCHED, 0, None, False)
             else outcome (prob_result source config t)
         | None \<Rightarrow> (c_id source, None, UNMATCHED, 0, None, False))"
    by (simp add: decision_def None)
  show ?thesis
  proof (cases "exact_pool source cs config = []")
    case False
    then show ?thesis using a d by (simp add: run_matching_def p)
  next
    case True
    note probs = find_probabilistic_cases [of config source cs]
    show ?thesis
    proof (cases "best_scored source cs config")
      case (Some t)
      then show ?thesis
        using probs ok a m [of t] True
        by (cases "fst t < probabilistic_threshold config")
          (simp_all add: d run_matching_def p config_ok_def)
    next
      case b: None
      then obtain ev' where "find_probabilistic_match source cs config =
          Inr (unmatched source PROBABILISTIC_SECONDARY ev')"
        using probs ok by (auto simp: config_ok_def)
      then show ?thesis using a True by (simp add: b d run_matching_def p)
    qed
  qed
qed

lemma run_matching_outcome:
  "config_ok config \<Longrightarrow> run_matching source cs config = Inr r \<Longrightarrow> outcome r = decision source cs config"
  using run_matching_decision [of config source cs] by auto

lemma mset_exact_pool: "mset cs = mset ds \<Longrightarrow> mset (exact_pool s cs c) = mset (exact_pool s ds c)"
  by (simp add: exact_pool_def)

lemma mset_score_pool: "mset cs = mset ds \<Longrightarrow> mset (score_pool s cs c) = mset (score_pool s ds c)"
  by (simp add: score_pool_def)

lemma decision_order_free:
  assumes ok: "config_ok config" and perm: "mset cs = mset ds"
  shows "decision source cs config = decision source ds config"
proof -
  have 1: "primary.pick (exact_pool source cs config) = primary.pick (exact_pool source ds config)"
    by (rule primary.pick_perm [OF mset_exact_pool [OF perm]])
  have 2: "best_scored source cs config = best_scored source ds config"
    using ok by (intro guarded_choice.pick_perm prob_guard mset_score_pool perm) (simp add: config_ok_def)
  have 3: "exact_pool source cs config = [] \<longleftrightarrow> exact_pool source ds config = []"
    using mset_exact_pool [OF perm, of source config] by (metis mset_zero_iff)
  show ?thesis unfolding decision_def 1 2 3 ..
qed

text \<open>A returned match, by the tier that found it.\<close>

definition exact_match :: "candidate \<Rightarrow> candidate list \<Rightarrow> match_config \<Rightarrow> candidate \<Rightarrow> bool" where
  "exact_match source cs config c \<longleftrightarrow> c \<in> set cs \<and> eligible source c \<and> c_amount c = c_amount source \<and>
     time_delta source c \<le> total_seconds (primary_time_window config) \<and>
     (\<forall>d \<in> set cs. d \<noteq> c \<and> eligible source d \<and> c_amount d = c_amount source \<longrightarrow>
        time_delta source c < time_delta source d)"

definition likely_match :: "candidate \<Rightarrow> candidate list \<Rightarrow> match_config \<Rightarrow> candidate \<Rightarrow> bool" where
  "likely_match source cs config c \<longleftrightarrow> c \<in> set cs \<and> in_pool source config c \<and>
     probabilistic_threshold config \<le> weighted_score config (evidence_of source config c) \<and>
     (\<forall>d \<in> set cs. d \<noteq> c \<and> in_pool source config d \<longrightarrow>
        weighted_score config (evidence_of source config d) < weighted_score config (evidence_of source config c))"

lemma primary_pick_exact:
  assumes "primary.pick (exact_pool source cs config) = Some p"
  shows "exact_match source cs config (snd p)"
proof -
  have u: "p \<in> set (exact_pool source cs config)"
    "\<And>q. q \<in> set (exact_pool source cs config) \<Longrightarrow> q \<noteq> p \<Longrightarrow> fst p < fst q"
    using primary.pick_unique_least [OF assms] by auto
  obtain c where c: "c \<in> set cs" "p = (time_delta source c, c)" "eligible source c" "c_amount c = c_amount source"
    "time_delta source c \<le> total_seconds (primary_time_window config)"
    using u(1) by (auto simp: exact_pool_mem)
  have "time_delta source c < time_delta source d"
    if d: "d \<in> set cs" "d \<noteq> c" "eligible source d" "c_amount d = c_amount source" for d
  proof (cases "time_delta source d \<le> total_seconds (primary_time_window config)")
    case True
    then have "(time_delta source d, d) \<in> set (exact_pool source cs config)"
      using d by (auto simp: exact_pool_mem)
    then show ?thesis using u(2) c(2) d(2) by fastforce
  qed (use c(5) in linarith)
  then show ?thesis using c by (auto simp: exact_match_def)
qed

lemma best_scored_likely:
  assumes ok: "config_ok config" and pick: "best_scored source cs config = Some t"
    and thr: "\<not> fst t < probabilistic_threshold config"
  shows "likely_match source cs config (fst (snd t)) \<and> t = scored source config (fst (snd t))"
proof -
  have guard: "guarded_choice (prob_close (ambiguity_margin config))"
    using ok by (intro prob_guard) (simp add: config_ok_def)
  have u: "t \<in> set (score_pool source cs config)"
    "\<And>q. q \<in> set (score_pool source cs config) \<Longrightarrow> q \<noteq> t \<Longrightarrow> fst q < fst t"
    using guarded_choice.pick_unique_least [OF guard pick] by auto
  obtain c where c: "c \<in> set cs" "in_pool source config c" "t = scored source config c"
    using u(1) by (auto simp: score_pool_def)
  have "weighted_score config (evidence_of source config d) < weighted_score config (evidence_of source config c)"
    if "d \<in> set cs" "d \<noteq> c" "in_pool source config d" for d
    using u(2) [of "scored source config d"] that c(3) by (auto simp: score_pool_def scored_def)
  then show ?thesis using c thr by (auto simp: likely_match_def scored_def not_less)
qed


lemma decision_source: "fst (decision source cs config) = c_id source"
  by (auto simp: decision_def outcome_def prob_result_def Let_def split: option.splits)

lemma run_matching_source:
  "config_ok config \<Longrightarrow> run_matching source cs config = Inr r \<Longrightarrow> source_transaction_id r = c_id source"
  using run_matching_outcome [of config source cs r] decision_source [of source cs config]
  by (metis fst_conv outcome_def)

lemma run_matching_match:
  assumes ok: "config_ok config" and run: "run_matching source cs config = Inr r"
    and m: "matched_transaction_id r = Some m"
  shows "\<exists>c. c_id c = m \<and>
    (exact_match source cs config c \<and> mr_strategy r = EXACT_PRIMARY \<and> confidence_score r = 1 \<and>
       amount_delta_ngn r = Some 0 \<or>
     likely_match source cs config c \<and> exact_pool source cs config = [] \<and>
       mr_strategy r = PROBABILISTIC_SECONDARY \<and>
       confidence_score r = round4 (weighted_score config (evidence_of source config c)) \<and>
       amount_delta_ngn r = Some \<bar>dec (c_amount source - c_amount c)\<bar>)"
proof -
  have d: "decision source cs config = outcome r" using run_matching_outcome [OF ok run] by simp
  show ?thesis
  proof (cases "primary.pick (exact_pool source cs config)")
    case (Some p)
    then show ?thesis
      using d m primary_pick_exact [OF Some] by (auto simp: decision_def outcome_def)
  next
    case None
    then obtain t where e: "exact_pool source cs config = []" and t: "best_scored source cs config = Some t"
      "\<not> fst t < probabilistic_threshold config" and o: "outcome r = outcome (prob_result source config t)"
      using d m by (auto simp: decision_def outcome_def split: if_splits option.splits)
    show ?thesis
      using best_scored_likely [OF ok t] e o m
      by (cases t, intro exI [of _ "fst (snd t)"]) (auto simp: outcome_def prob_result_def Let_def scored_def)
  qed
qed

lemma match_eligible:
  "exact_match source cs config c \<or> likely_match source cs config c \<Longrightarrow> c \<in> set cs \<and> eligible source c"
  by (auto simp: exact_match_def likely_match_def in_pool_def)

text \<open>The primary tier misses nothing: a unique closest exact counterpart is matched.\<close>

lemma exact_match_found:
  assumes ok: "config_ok config" and "distinct cs" and e: "exact_match source cs config c"
    and run: "run_matching source cs config = Inr r"
  shows "matched_transaction_id r = Some (c_id c) \<and> mr_strategy r = EXACT_PRIMARY"
proof -
  let ?pool = "exact_pool source cs config"
  have d: "distinct ?pool"
    using assms(2) by (auto simp: exact_pool_def distinct_map inj_on_def)
  have c: "(time_delta source c, c) \<in> set ?pool" using e by (auto simp: exact_pool_mem exact_match_def)
  have "primary.pick ?pool = Some (time_delta source c, c)"
    using e by (intro primary.pick_strict_least d c) (auto simp: exact_pool_mem exact_match_def)
  then show ?thesis
    using run_matching_outcome [OF ok run] by (simp add: decision_def outcome_def)
qed

subsection \<open>Scores\<close>

lemma relative_delta_nonneg: "0 < a \<Longrightarrow> 0 \<le> relative_delta a b"
  by (simp add: relative_delta_def dec.nonneg)

lemma amount_score_unit: "0 \<le> amount_score_of a b tol \<and> amount_score_of a b tol \<le> 1"
proof -
  have "0 \<le> dec (d / tol) \<and> dec (d / tol) \<le> 1" if "0 \<le> d" "0 < tol" "d \<le> tol" for d
    using dec.ratio_unit that by blast
  then have "0 \<le> dec (1 - dec (d / tol)) \<and> dec (1 - dec (d / tol)) \<le> 1" if "0 \<le> d" "0 < tol" "d \<le> tol" for d
    using dec.complement_unit that by blast
  then have "0 \<le> fl (dec (1 - dec (d / tol))) \<and> fl (dec (1 - dec (d / tol))) \<le> 1" if "0 \<le> d" "0 < tol" "d \<le> tol" for d
    using fl.nonneg fl.le_one that by blast
  then show ?thesis using relative_delta_nonneg [of a b] by (auto simp: amount_score_of_def Let_def)
qed

lemma amount_score_within:
  "amount_score_of a b tol \<noteq> 0 \<Longrightarrow> 0 < a \<and> (relative_delta a b = 0 \<or> 0 < tol \<and> relative_delta a b \<le> tol)"
  by (auto simp: amount_score_of_def Let_def split: if_splits)

lemma time_score_unit: "time_score_of td win = Inr t \<Longrightarrow> 0 \<le> td \<Longrightarrow> 0 \<le> t \<and> t \<le> 1"
proof -
  assume t: "time_score_of td win = Inr t" and td: "0 \<le> td"
  have "fl (1 - fl (td / win)) \<le> 1" if "td \<le> win" "win \<noteq> 0"
  proof -
    have "0 \<le> fl (td / win) \<and> fl (td / win) \<le> 1" using that td by (intro fl.ratio_unit) auto
    then show ?thesis using fl.complement_unit by blast
  qed
  then show ?thesis using t by (auto simp: time_score_of_def split: if_splits)
qed

lemma name_score_unit: "0 \<le> name_score_of a b \<and> name_score_of a b \<le> 1"
  using similarity_unit [of a b] fl.nonneg [of "1/5"] fl.le_one [of "1/5"]
  by (auto simp: name_score_of_def split: option.splits)

lemma bank_score_unit: "0 \<le> bank_score_of a b \<and> bank_score_of a b \<le> 1"
  by (simp add: bank_score_of_def)

definition evidence_ok :: "evidence \<Rightarrow> bool" where
  "evidence_ok ev \<longleftrightarrow> list_all (\<lambda>s. 0 \<le> s \<and> s \<le> 1) [amount_score ev, time_score ev, name_score ev, bank_score ev]"

lemma evidence_unit:
  assumes "window_ok config"
  shows "evidence_ok (evidence_of source config c)"
proof -
  obtain t where t: "time_score_of (time_delta source c) (total_seconds (probabilistic_time_window config)) = Inr t"
    using window_pos [OF assms] by (cases "time_score_of (time_delta source c) (total_seconds (probabilistic_time_window config))")
      (auto simp: time_score_of_def split: if_splits)
  have "0 \<le> time_delta source c" by (simp add: time_delta_def)
  then have "0 \<le> t \<and> t \<le> 1" by (rule time_score_unit [OF t])
  then show ?thesis
    using amount_score_unit name_score_unit bank_score_unit
    by (simp add: evidence_ok_def evidence_of_def compute_confidence_evidence_def Let_def t)
qed

lemma evidence_amount:
  "window_ok config \<Longrightarrow> amount_score (evidence_of source config c) =
     amount_score_of (c_amount source) (c_amount c) (amount_tolerance_pct config)"
  using window_pos [of config]
  by (auto simp: evidence_of_def compute_confidence_evidence_def Let_def time_score_of_def)

text \<open>The weights are binary64 values that sum to one in the order the code adds them.\<close>

definition weights_ok :: "match_config \<Rightarrow> bool" where
  "weights_ok config \<longleftrightarrow> list_all (\<lambda>w. 0 \<le> w \<and> fl w = w)
      [weight_amount config, weight_time config, weight_name config, weight_bank config] \<and>
    fl (fl (fl (weight_amount config + weight_time config) + weight_name config) + weight_bank config) = 1"

lemma default_weights_ok: "weights_ok DEFAULT_CONFIG"
  by code_simp

lemma fl_weight: "0 \<le> s \<Longrightarrow> s \<le> 1 \<Longrightarrow> 0 \<le> w \<Longrightarrow> fl w = w \<Longrightarrow> 0 \<le> fl (s * w) \<and> fl (s * w) \<le> w"
  by (simp add: fl.nonneg fl.le_fixed mult_left_le_one_le)

lemma weighted_score_unit:
  assumes w: "weights_ok config"
    and e: "evidence_ok ev"
  shows "0 \<le> weighted_score config ev \<and> weighted_score config ev \<le> 1"
proof -
  let ?a = "fl (amount_score ev * weight_amount config)" and ?t = "fl (time_score ev * weight_time config)"
    and ?n = "fl (name_score ev * weight_name config)" and ?b = "fl (bank_score ev * weight_bank config)"
  have a: "0 \<le> ?a \<and> ?a \<le> weight_amount config" and t: "0 \<le> ?t \<and> ?t \<le> weight_time config"
    and n: "0 \<le> ?n \<and> ?n \<le> weight_name config" and b: "0 \<le> ?b \<and> ?b \<le> weight_bank config"
    by (rule fl_weight; use w e in \<open>simp add: weights_ok_def evidence_ok_def\<close>)+
  have 1: "0 \<le> fl (?a + ?t)" "fl (?a + ?t) \<le> fl (weight_amount config + weight_time config)"
    using a t by (auto intro: fl.nonneg fl.mono)
  have 2: "0 \<le> fl (fl (?a + ?t) + ?n)"
    "fl (fl (?a + ?t) + ?n) \<le> fl (fl (weight_amount config + weight_time config) + weight_name config)"
    using 1 n by (auto intro!: fl.nonneg fl.mono)
  have "0 \<le> weighted_score config ev" using 2(1) b by (simp add: weighted_score_def fl.nonneg)
  moreover have "weighted_score config ev \<le>
      fl (fl (fl (weight_amount config + weight_time config) + weight_name config) + weight_bank config)"
    unfolding weighted_score_def by (rule fl.mono [OF add_mono [OF 2(2) conjunct2 [OF b]]])
  ultimately show ?thesis using w by (simp add: weights_ok_def)
qed

lemma round4_unit: "0 \<le> x \<Longrightarrow> x \<le> 1 \<Longrightarrow> 0 \<le> round4 x \<and> round4 x \<le> 1"
  by (simp add: round4_def fl.nonneg fl.le_one quant.nonneg quant.le_one)

lemma confidence_unit:
  assumes ok: "config_ok config" "weights_ok config" and run: "run_matching source cs config = Inr r"
  shows "0 \<le> confidence_score r \<and> confidence_score r \<le> 1"
proof (cases "matched_transaction_id r")
  case None
  have m: "matched_transaction_id (prob_result source config t) = Some (c_id (fst (snd t)))" for t
    by (simp add: prob_result_def Let_def split_def)
  have "fst (snd (decision source cs config)) = None \<Longrightarrow> fst (snd (snd (snd (decision source cs config)))) = 0"
    using m by (auto simp: decision_def outcome_def split: option.splits if_splits)
  then have "confidence_score r = 0"
    using run_matching_outcome [OF ok(1) run] None by (metis fst_conv snd_conv outcome_def)
  then show ?thesis by simp
next
  case (Some m)
  have "window_ok config" using ok by (simp add: config_ok_def)
  from weighted_score_unit [OF ok(2) evidence_unit [OF this]] round4_unit
  show ?thesis using run_matching_match [OF ok(1) run Some] by fastforce
qed

subsection \<open>One run over all candidates\<close>

definition pair_ids :: "match_result \<Rightarrow> nat list" where
  "pair_ids r = source_transaction_id r # (case matched_transaction_id r of None \<Rightarrow> [] | Some m \<Rightarrow> [m])"

definition sound_pair :: "candidate list \<Rightarrow> match_config \<Rightarrow> match_result \<Rightarrow> bool" where
  "sound_pair cs config r \<longleftrightarrow> (\<exists>a \<in> set cs. \<exists>b \<in> set cs. source_transaction_id r = c_id a \<and>
     matched_transaction_id r = Some (c_id b) \<and> eligible a b \<and>
     (c_amount a = c_amount b \<and> time_delta a b \<le> total_seconds (primary_time_window config) \<or>
      in_pool a config b \<and>
        probabilistic_threshold config \<le> weighted_score config (evidence_of a config b)))"

lemma match_loop_sound:
  assumes ok: "config_ok config"
  shows "match_loop config all M rest = Inr ps \<Longrightarrow> set rest \<subseteq> set all \<Longrightarrow>
    distinct (concat (map pair_ids ps)) \<and> set (concat (map pair_ids ps)) \<inter> M = {} \<and>
    (\<forall>r \<in> set ps. sound_pair all config r)"
proof (induction rest arbitrary: M ps)
  case (Cons s rest)
  show ?case
  proof (cases "c_id s \<in> M")
    case True
    then show ?thesis using Cons by simp
  next
    case False
    let ?avail = "filter (\<lambda>c. c_id c \<notin> M) all"
    obtain r where run: "run_matching s ?avail config = Inr r"
      using run_matching_decision [OF ok] by blast
    show ?thesis
    proof (cases "matched_transaction_id r")
      case None
      then show ?thesis using Cons False run by simp
    next
      case (Some m)
      then obtain ps' where ps: "ps = r # ps'" and rec: "match_loop config all (M \<union> {c_id s, m}) rest = Inr ps'"
        using Cons.prems(1) False run by auto
      have src: "source_transaction_id r = c_id s" by (rule run_matching_source [OF ok run])
      obtain c where c: "c_id c = m" "exact_match s ?avail config c \<or> likely_match s ?avail config c"
        using run_matching_match [OF ok run Some] by blast
      have el: "c \<in> set ?avail" "eligible s c" using match_eligible [OF c(2)] by auto
      have "sound_pair all config r"
        unfolding sound_pair_def using c el src Some Cons.prems(2)
        by (intro bexI [of _ s] bexI [of _ c]) (auto simp: exact_match_def likely_match_def)
      moreover have "m \<notin> M" "c_id s \<noteq> m" using el c(1) by (auto simp: eligible_def)
      ultimately show ?thesis
        using Cons.IH [OF rec] Cons.prems(2) False Some src by (auto simp: ps pair_ids_def)
    qed
  qed
qed auto

lemma match_loop_total: "config_ok config \<Longrightarrow> \<exists>ps. match_loop config all M rest = Inr ps"
proof (induction rest arbitrary: M)
  case (Cons s rest)
  obtain r where "run_matching s (filter (\<lambda>c. c_id c \<notin> M) all) config = Inr r"
    using run_matching_decision [OF Cons.prems] by blast
  then show ?case
    using Cons.IH [OF Cons.prems, of M] Cons.IH [OF Cons.prems, of "M \<union> {c_id s, the (matched_transaction_id r)}"]
    by (cases "matched_transaction_id r") auto
qed simp

lemma match_loop_confidence:
  assumes ok: "config_ok config" "weights_ok config"
  shows "match_loop config all M rest = Inr ps \<Longrightarrow> r \<in> set ps \<Longrightarrow> 0 \<le> confidence_score r \<and> confidence_score r \<le> 1"
proof (induction rest arbitrary: M ps)
  case (Cons s rest)
  then show ?case
    using confidence_unit [OF ok] by (auto split: if_splits option.splits)
qed simp

subsection \<open>Properties\<close>

definition example_credit :: candidate where
  "example_credit = \<lparr>c_id = 1, c_psp = ''paystack'', c_type = ''credit'', c_amount = 50000,
     c_currency = ''NGN'', c_initiated = 0, c_settled = None, c_tokens = Some [],
     c_beneficiary_bank = None, c_sender_bank = None, already_matched = False\<rparr>"

definition example_debit :: candidate where
  "example_debit = \<lparr>c_id = 2, c_psp = ''flutterwave'', c_type = ''debit'', c_amount = 50000,
     c_currency = ''NGN'', c_initiated = us_hour, c_settled = None, c_tokens = Some [],
     c_beneficiary_bank = None, c_sender_bank = None, already_matched = False\<rparr>"

definition example_near :: candidate where
  "example_near = example_debit\<lparr>c_id := 3, c_amount := 49900, c_initiated := 2 * us_hour\<rparr>"

lemma default_config_ok: "config_ok DEFAULT_CONFIG"
  unfolding config_ok_def window_ok_def using default_margin_pos by (simp add: DEFAULT_CONFIG_def)

text \<open>
  C1 One-to-one matching (C-004): a run over any list of candidates ends without an exception, no
  transaction occurs twice in the returned pairs, and every pair joins two loaded transactions of
  opposite directions on different PSPs that either have the same amount within the primary
  window or score at least the threshold within the tolerance and window of the second tier.
\<close>

theorem match_all_one_to_one:
  assumes "config_ok config"
  shows "\<exists>ps. match_all cs config = Inr ps \<and> distinct (concat (map pair_ids ps)) \<and>
    (\<forall>r \<in> set ps. \<exists>a \<in> set cs. \<exists>b \<in> set cs.
      source_transaction_id r = c_id a \<and> matched_transaction_id r = Some (c_id b) \<and>
      c_id a \<noteq> c_id b \<and> c_psp a \<noteq> c_psp b \<and> {c_type a, c_type b} = {''credit'', ''debit''} \<and>
      (c_amount a = c_amount b \<and> time_delta a b \<le> total_seconds (primary_time_window config) \<or>
       in_pool a config b \<and>
         probabilistic_threshold config \<le> weighted_score config (evidence_of a config b)))"
proof -
  obtain ps where ps: "match_loop config cs {} cs = Inr ps" using match_loop_total [OF assms] by blast
  have s: "distinct (concat (map pair_ids ps))" "\<And>r. r \<in> set ps \<Longrightarrow> sound_pair cs config r"
    using match_loop_sound [OF assms ps] by auto
  have "\<exists>a \<in> set cs. \<exists>b \<in> set cs.
      source_transaction_id r = c_id a \<and> matched_transaction_id r = Some (c_id b) \<and>
      c_id a \<noteq> c_id b \<and> c_psp a \<noteq> c_psp b \<and> {c_type a, c_type b} = {''credit'', ''debit''} \<and>
      (c_amount a = c_amount b \<and> time_delta a b \<le> total_seconds (primary_time_window config) \<or>
       in_pool a config b \<and>
         probabilistic_threshold config \<le> weighted_score config (evidence_of a config b))"
    if "r \<in> set ps" for r
    using s(2) [OF that] unfolding sound_pair_def eligible_def are_complementary_types_def by metis
  then show ?thesis using ps s(1) unfolding match_all_def by blast
qed

theorem match_all_one_to_one_witness:
  "\<exists>ps. match_all [example_credit, example_debit] DEFAULT_CONFIG = Inr ps \<and> distinct (concat (map pair_ids ps))"
  using match_all_one_to_one [OF default_config_ok, of "[example_credit, example_debit]"] by blast

text \<open>
  C9 Matching does not depend on query order: for the same candidates in any order a source gets
  the same counterpart, tier, confidence, delta and FX flag.
\<close>

theorem matching_order_free:
  assumes "config_ok config" and "mset cs = mset ds"
  shows "\<exists>r r'. run_matching source cs config = Inr r \<and> run_matching source ds config = Inr r' \<and>
    outcome r = outcome r'"
  using run_matching_decision [OF assms(1), of source cs] run_matching_decision [OF assms(1), of source ds]
    decision_order_free [OF assms, of source] by metis

theorem matching_order_free_witness:
  "\<exists>r r'. run_matching example_credit [example_debit, example_near] DEFAULT_CONFIG = Inr r \<and>
    run_matching example_credit [example_near, example_debit] DEFAULT_CONFIG = Inr r' \<and> outcome r = outcome r'"
  by (rule matching_order_free [OF default_config_ok]) simp

text \<open>
  C31 Confidence is a probability: with the rounding of binary64 taken into account, every pair a
  run returns has a score in the range the CHECK constraint of the pairs table demands.
\<close>

theorem match_all_confidence:
  assumes "config_ok config" and "weights_ok config" and "match_all cs config = Inr ps" and "r \<in> set ps"
  shows "0 \<le> confidence_score r \<and> confidence_score r \<le> 1"
  using assms match_loop_confidence unfolding match_all_def by blast

lemma example_run: "case match_all [example_credit, example_debit] DEFAULT_CONFIG of
    Inr [r] \<Rightarrow> pair_ids r = [1, 2] | _ \<Rightarrow> False"
  by code_simp

theorem match_all_confidence_witness:
  "\<exists>r. match_all [example_credit, example_debit] DEFAULT_CONFIG = Inr [r] \<and> pair_ids r = [1, 2] \<and>
    confidence_score r \<le> 1"
proof -
  obtain r where r: "match_all [example_credit, example_debit] DEFAULT_CONFIG = Inr [r]" "pair_ids r = [1, 2]"
    using example_run by (auto split: sum.splits list.splits)
  from match_all_confidence [OF default_config_ok default_weights_ok r(1), of r] r show ?thesis by simp
qed

text \<open>
  The primary tier misses nothing: an eligible candidate of the same amount inside the window
  that is strictly closer in time than every other one is the match.
\<close>

theorem primary_match_complete:
  assumes "config_ok config" and "distinct cs" and "exact_match source cs config c"
  shows "\<exists>r. run_matching source cs config = Inr r \<and> matched_transaction_id r = Some (c_id c) \<and>
    mr_strategy r = EXACT_PRIMARY"
  using run_matching_decision [OF assms(1), of source cs] exact_match_found [OF assms] by blast

theorem primary_match_complete_witness:
  "\<exists>r. run_matching example_credit [example_debit, example_near] DEFAULT_CONFIG = Inr r \<and>
    matched_transaction_id r = Some 2"
proof -
  have d: "distinct [example_debit, example_near]" by (simp add: example_near_def example_debit_def)
  have e: "exact_match example_credit [example_debit, example_near] DEFAULT_CONFIG example_debit"
    by code_simp
  have "c_id example_debit = 2" by (simp add: example_debit_def)
  with primary_match_complete [OF default_config_ok d e] show ?thesis by auto
qed

text \<open>
  Ties are refused: when two different exact-amount counterparts are equally close in time and
  none is closer, the source stays unmatched, and the second tier is not asked.
\<close>

theorem exact_tie_unmatched:
  assumes "config_ok config" and "b \<in> set cs" and "c \<in> set cs" and "b \<noteq> c"
    and "eligible source b" and "eligible source c"
    and "c_amount b = c_amount source" and "c_amount c = c_amount source"
    and "time_delta source b = time_delta source c"
    and "time_delta source b \<le> total_seconds (primary_time_window config)"
    and "\<forall>d \<in> set cs. eligible source d \<and> c_amount d = c_amount source \<longrightarrow>
      time_delta source b \<le> time_delta source d"
  shows "\<exists>r. run_matching source cs config = Inr r \<and> matched_transaction_id r = None \<and> mr_strategy r = UNMATCHED"
proof -
  let ?pool = "exact_pool source cs config"
  have mem: "(time_delta source b, b) \<in> set ?pool" "(time_delta source c, c) \<in> set ?pool"
    using assms by (auto simp: exact_pool_mem)
  have "primary.pick ?pool = None"
    using assms by (intro primary.pick_tie_refused [OF mem]) (auto simp: exact_pool_mem)
  moreover have "?pool \<noteq> []" using mem by auto
  ultimately have "decision source cs config = (c_id source, None, UNMATCHED, 0, None, False)"
    by (simp add: decision_def)
  then show ?thesis
    using run_matching_decision [OF assms(1), of source cs] by (auto simp: outcome_def)
qed

theorem exact_tie_unmatched_witness:
  "\<exists>r. run_matching example_credit [example_debit, example_debit\<lparr>c_id := 3\<rparr>] DEFAULT_CONFIG = Inr r \<and>
    matched_transaction_id r = None"
proof -
  have "example_debit \<noteq> example_debit\<lparr>c_id := 3\<rparr>" by (simp add: example_debit_def)
  moreover have "time_delta example_credit example_debit \<le> total_seconds (primary_time_window DEFAULT_CONFIG)"
    by code_simp
  moreover have "eligible example_credit example_debit" by code_simp
  ultimately show ?thesis
    using exact_tie_unmatched [OF default_config_ok, of example_debit
      "[example_debit, example_debit\<lparr>c_id := 3\<rparr>]" "example_debit\<lparr>c_id := 3\<rparr>" example_credit]
    by (auto simp: example_credit_def example_debit_def time_delta_def eligible_def)
qed

text \<open>
  What a probabilistic match guarantees: the relative amount difference is zero or within the
  tolerance, the times are within the secondary window, the score reaches the threshold and
  beats every other candidate, and there was no exact-amount candidate.
\<close>

theorem probabilistic_match_bounds:
  assumes "config_ok config" and "run_matching source cs config = Inr r"
    and "mr_strategy r = PROBABILISTIC_SECONDARY"
  shows "\<exists>c \<in> set cs. matched_transaction_id r = Some (c_id c) \<and> eligible source c \<and> 0 < c_amount source \<and>
    (relative_delta (c_amount source) (c_amount c) = 0 \<or>
     relative_delta (c_amount source) (c_amount c) \<le> amount_tolerance_pct config) \<and>
    time_delta source c \<le> total_seconds (probabilistic_time_window config) \<and>
    probabilistic_threshold config \<le> weighted_score config (evidence_of source config c) \<and>
    (\<forall>d \<in> set cs. d \<noteq> c \<and> in_pool source config d \<longrightarrow>
       weighted_score config (evidence_of source config d) < weighted_score config (evidence_of source config c)) \<and>
    exact_pool source cs config = []"
proof -
  have w: "window_ok config" using assms(1) by (simp add: config_ok_def)
  have "matched_transaction_id r \<noteq> None"
    using run_matching_outcome [OF assms(1,2)] assms(3)
    by (auto simp: decision_def outcome_def prob_result_def Let_def split: option.splits if_splits)
  then obtain m where "matched_transaction_id r = Some m" by auto
  from run_matching_match [OF assms(1,2) this] assms(3) obtain c where
    c: "matched_transaction_id r = Some (c_id c)" "likely_match source cs config c" "exact_pool source cs config = []"
    using \<open>matched_transaction_id r = Some m\<close> by auto
  have "amount_score_of (c_amount source) (c_amount c) (amount_tolerance_pct config) \<noteq> 0"
    using c(2) evidence_amount [OF w, of source c] by (simp add: likely_match_def in_pool_def)
  from amount_score_within [OF this] c show ?thesis
    by (intro bexI [of _ c]) (auto simp: likely_match_def in_pool_def)
qed

definition example_late :: candidate where
  "example_late = example_debit\<lparr>c_initiated := 84 * us_hour\<rparr>"

definition lenient_config :: match_config where
  "lenient_config = DEFAULT_CONFIG\<lparr>probabilistic_threshold := 0\<rparr>"

lemma lenient_ok: "config_ok lenient_config" "weights_ok lenient_config"
  using default_config_ok default_weights_ok
  by (simp_all add: lenient_config_def config_ok_def window_ok_def weights_ok_def)

lemma example_late_delta: "time_delta example_credit example_late = 302400"
  using total_seconds_whole [of "- 302400"]
  by (simp add: time_delta_def example_credit_def example_late_def example_debit_def)

lemma example_late_run:
  "\<exists>r. run_matching example_credit [example_late] lenient_config = Inr r \<and>
    mr_strategy r = PROBABILISTIC_SECONDARY"
proof -
  have win: "total_seconds (primary_time_window lenient_config) = 259200"
    "total_seconds (probabilistic_time_window lenient_config) = 604800"
    using total_seconds_whole [of 259200] total_seconds_whole [of 604800]
    by (simp_all add: lenient_config_def DEFAULT_CONFIG_def)
  have e: "exact_pool example_credit [example_late] lenient_config = []"
    using example_late_delta by (simp add: exact_pool_def win)
  have w: "window_ok lenient_config" using lenient_ok(1) by (simp add: config_ok_def)
  have "amount_score_of (c_amount example_credit) (c_amount example_late) tol = 1" for tol
    by (simp add: amount_score_of_def relative_delta_def dec.zero Let_def example_credit_def
        example_late_def example_debit_def)
  then have "in_pool example_credit lenient_config example_late"
    using example_late_delta by (auto simp: in_pool_def win evidence_amount [OF w] eligible_def
        are_complementary_types_def example_credit_def example_late_def example_debit_def)
  then have "score_pool example_credit [example_late] lenient_config = [scored example_credit lenient_config example_late]"
    by (simp add: score_pool_def)
  then have b: "best_scored example_credit [example_late] lenient_config =
      Some (scored example_credit lenient_config example_late)"
    using lenient_ok(1) by (simp add: guarded_choice.pick_def [OF prob_guard] config_ok_def)
  have "\<not> fst (scored example_credit lenient_config example_late) < probabilistic_threshold lenient_config"
    using weighted_score_unit [OF lenient_ok(2) evidence_unit [OF w]]
    by (simp add: scored_def not_less) (simp add: lenient_config_def)
  then have "decision example_credit [example_late] lenient_config =
      outcome (prob_result example_credit lenient_config (scored example_credit lenient_config example_late))"
    by (simp add: decision_def e b primary.pick_def)
  then show ?thesis
    using run_matching_decision [OF lenient_ok(1), of example_credit "[example_late]"]
    by (auto simp: outcome_def prob_result_def Let_def split_def)
qed

theorem probabilistic_match_bounds_witness:
  "\<exists>r. run_matching example_credit [example_late] lenient_config = Inr r \<and>
    matched_transaction_id r = Some (c_id example_late)"
proof -
  obtain r where r: "run_matching example_credit [example_late] lenient_config = Inr r"
    "mr_strategy r = PROBABILISTIC_SECONDARY"
    using example_late_run by blast
  from probabilistic_match_bounds [OF lenient_ok(1) r] r show ?thesis by auto
qed

end
