(* ===== verification/Settlement.thy ===== *)
theory Settlement
  imports Clock
begin

text \<open>
  \<open>src/engine/settlement.py\<close>: the expected settlement time of a transaction, from the table
  \<open>silver_psp_settlement_windows\<close>, a list of rows.
\<close>

record settlement_window =
  w_psp :: string
  w_type :: string
  w_tier :: string
  settlement_lag_hours :: rat
  settlement_days :: string
  cutoff_time_wat :: "int option"
  effective_from :: date
  effective_until :: "date option"

definition window_applies :: "string \<Rightarrow> string \<Rightarrow> string \<Rightarrow> date \<Rightarrow> settlement_window \<Rightarrow> bool" where
  "window_applies psp ty tier d w \<longleftrightarrow> w_psp w = psp \<and> w_type w = ty \<and> w_tier w = tier \<and>
     effective_from w \<le> d \<and> (case effective_until w of None \<Rightarrow> True | Some u \<Rightarrow> d < u)"

definition find_window ::
  "settlement_window list \<Rightarrow> string \<Rightarrow> string \<Rightarrow> string \<Rightarrow> date \<Rightarrow> settlement_window option" where
  "find_window ws psp ty tier d =
     (case sort_key (\<lambda>w. - effective_from w) (filter (window_applies psp ty tier d) ws) of
        [] \<Rightarrow> None | w # _ \<Rightarrow> Some w)"

definition skip_weekends :: "time \<Rightarrow> time" where
  "skip_weekends dt = (let local = wat dt; d = weekday (date_of local) in
     if d < 5 then dt else
     let days_ahead = 7 - d; monday = (date_of local + days_ahead) * us_day + 9 * us_hour
     in utc_of_wat monday)"

definition after_cutoff :: "settlement_window \<Rightarrow> time \<Rightarrow> bool" where
  "after_cutoff w initiated = (case cutoff_time_wat w of None \<Rightarrow> False
     | Some c \<Rightarrow> c < clock_of (wat initiated))"

definition compute_expected_settlement ::
  "settlement_window list \<Rightarrow> string \<Rightarrow> string \<Rightarrow> time \<Rightarrow> string \<Rightarrow> time option" where
  "compute_expected_settlement ws psp ty initiated tier = (
     case find_window ws psp ty tier (date_of initiated) of None \<Rightarrow> None
     | Some w \<Rightarrow>
       let lag_hours = fl (settlement_lag_hours w);
           extra = (if after_cutoff w initiated then 24 else 0);
           expected = initiated + hours_span (fl (lag_hours + extra))
       in Some (if settlement_days w = ''business'' then skip_weekends expected else expected))"

subsection \<open>Weekends\<close>

lemma skip_weekends_weekday: "weekday (date_of (wat (skip_weekends dt))) < 5"
proof (cases "weekday (date_of (wat dt)) < 5")
  case True
  then show ?thesis by (simp add: skip_weekends_def Let_def)
next
  case False
  let ?d = "date_of (wat dt)"
  let ?m = "?d + (7 - weekday ?d)"
  have "date_of (?m * us_day + 9 * us_hour) = ?m" using date_of_eq [of "9 * us_hour" ?m] by (simp add: mult.commute)
  moreover have "weekday ?m = 0" by (simp add: weekday_add)
  ultimately show ?thesis using False by (simp add: skip_weekends_def Let_def)
qed

lemma skip_weekends_moves:
  assumes "\<not> weekday (date_of (wat dt)) < 5"
  shows "dt < skip_weekends dt" "skip_weekends dt \<le> dt + 2 * us_day + 9 * us_hour"
    "clock_of (wat (skip_weekends dt)) = 9 * us_hour" "weekday (date_of (wat (skip_weekends dt))) = 0"
proof -
  let ?d = "date_of (wat dt)"
  have w: "5 \<le> weekday ?d" "weekday ?d \<le> 6" using assms weekday_range [of ?d] by auto
  have eq: "skip_weekends dt = (?d + (7 - weekday ?d)) * us_day + 9 * us_hour - us_hour"
    using assms by (simp add: skip_weekends_def Let_def utc_of_wat_def)
  have dt: "dt = us_day * ?d + clock_of (wat dt) - us_hour" using date_clock [of "wat dt"] by (simp add: wat_def)
  have c: "0 \<le> clock_of (wat dt)" "clock_of (wat dt) < us_day" using clock_range by blast+
  show "dt < skip_weekends dt" "skip_weekends dt \<le> dt + 2 * us_day + 9 * us_hour"
    using eq dt c w by (auto simp: algebra_simps)
  have "wat (skip_weekends dt) = us_day * (?d + (7 - weekday ?d)) + 9 * us_hour"
    using eq by (simp add: wat_def algebra_simps)
  then have m: "date_of (wat (skip_weekends dt)) = ?d + (7 - weekday ?d)"
    by (simp only: date_of_eq)
  show "weekday (date_of (wat (skip_weekends dt))) = 0" by (simp add: m weekday_add)
  show "clock_of (wat (skip_weekends dt)) = 9 * us_hour"
    using date_clock [of "wat (skip_weekends dt)"]
    unfolding m unfolding \<open>wat (skip_weekends dt) = _\<close> by linarith
qed

lemma skip_weekends_ge: "dt \<le> skip_weekends dt"
  using skip_weekends_moves(1) [of dt] by (cases "weekday (date_of (wat dt)) < 5") (auto simp: skip_weekends_def Let_def)

subsection \<open>The window that applies\<close>

lemma find_window_Some:
  assumes "find_window ws psp ty tier d = Some w"
  shows "w \<in> set ws" "window_applies psp ty tier d w"
    "\<And>v. v \<in> set ws \<Longrightarrow> window_applies psp ty tier d v \<Longrightarrow> effective_from v \<le> effective_from w"
proof -
  obtain rest where s: "sort_key (\<lambda>w. - effective_from w) (filter (window_applies psp ty tier d) ws) = w # rest"
    using assms by (auto simp: find_window_def split: list.splits)
  show "w \<in> set ws" "window_applies psp ty tier d w" using sort_key_mem [OF s] by auto
  show "effective_from v \<le> effective_from w" if "v \<in> set ws" "window_applies psp ty tier d v" for v
    using sort_key_hd_least [OF s, of v] that by simp
qed

lemma find_window_None:
  "find_window ws psp ty tier d = None \<longleftrightarrow> (\<forall>w \<in> set ws. \<not> window_applies psp ty tier d w)"
proof -
  have "find_window ws psp ty tier d = None \<longleftrightarrow> filter (window_applies psp ty tier d) ws = []"
    by (auto simp: find_window_def split: list.split)
  then show ?thesis by (simp add: filter_empty_conv)
qed

text \<open>The delay a window adds to the initiation time, before weekends are skipped.\<close>

definition base_delay :: "settlement_window \<Rightarrow> time \<Rightarrow> span" where
  "base_delay w initiated = hours_span (fl (fl (settlement_lag_hours w) + (if after_cutoff w initiated then 24 else 0)))"

lemma compute_expected_unfold:
  "compute_expected_settlement ws psp ty initiated tier = map_option (\<lambda>w.
     if settlement_days w = ''business'' then skip_weekends (initiated + base_delay w initiated)
     else initiated + base_delay w initiated) (find_window ws psp ty tier (date_of initiated))"
  by (simp add: compute_expected_settlement_def base_delay_def Let_def split: option.splits)

lemma base_delay_nonneg: "0 \<le> settlement_lag_hours w \<Longrightarrow> 0 \<le> base_delay w initiated"
  unfolding base_delay_def by (intro hours_span_nonneg fl.nonneg) (simp add: fl.nonneg)

lemma base_delay_whole:
  assumes "settlement_lag_hours w = of_int n" "\<bar>n\<bar> \<le> 1000"
  shows "base_delay w initiated = (n + (if after_cutoff w initiated then 24 else 0)) * us_hour"
proof -
  have "fl (of_int n) = of_int n" using assms(2) by (intro fl_int) simp
  moreover have "fl (of_int (n + 24)) = of_int (n + 24)" using assms(2) by (intro fl_int) simp
  ultimately show ?thesis
    using hours_span_whole [of n] hours_span_whole [of "n + 24"] by (simp add: base_delay_def assms(1))
qed

subsection \<open>Properties\<close>

definition example_window :: settlement_window where
  "example_window = \<lparr>w_psp = ''flutterwave'', w_type = ''debit'', w_tier = ''standard'',
     settlement_lag_hours = 24, settlement_days = ''business'', cutoff_time_wat = Some (18 * us_hour),
     effective_from = 20454, effective_until = None\<rparr>"

text \<open>
  A business-day window never promises settlement on a weekend: the expected time falls on
  Monday to Friday in Lagos, is not before the initiation plus the lag of the window, and
  exceeds it by less than two days and nine hours, the gap to Monday 09:00.
\<close>

theorem expected_settlement_business:
  assumes "find_window ws psp ty tier (date_of initiated) = Some w"
    and "settlement_days w = ''business''"
  shows "\<exists>t. compute_expected_settlement ws psp ty initiated tier = Some t \<and>
    weekday (date_of (wat t)) < 5 \<and>
    initiated + base_delay w initiated \<le> t \<and>
    t \<le> initiated + base_delay w initiated + 2 * us_day + 9 * us_hour"
proof -
  let ?e = "initiated + base_delay w initiated"
  have "skip_weekends ?e \<le> ?e + 2 * us_day + 9 * us_hour"
    using skip_weekends_moves(2) [of ?e]
    by (cases "weekday (date_of (wat ?e)) < 5") (auto simp: skip_weekends_def Let_def)
  then show ?thesis
    using assms skip_weekends_weekday [of ?e] skip_weekends_ge [of ?e]
    by (auto simp: compute_expected_unfold)
qed

theorem expected_settlement_business_witness:
  "\<exists>t. compute_expected_settlement [example_window] ''flutterwave'' ''debit'' 1777000000000000 ''standard'' = Some t \<and>
    weekday (date_of (wat t)) < 5"
proof -
  have "find_window [example_window] ''flutterwave'' ''debit'' ''standard'' (date_of 1777000000000000) = Some example_window"
    by code_simp
  moreover have "settlement_days example_window = ''business''" by (simp add: example_window_def)
  ultimately show ?thesis using expected_settlement_business by blast
qed

text \<open>
  The settlement window used is the right one: it is configured for the PSP, type and tier, its
  date range covers the initiation date, and no other such window starts later; there is no
  expected time exactly when no configured window covers the date.
\<close>

theorem expected_settlement_window:
  "case find_window ws psp ty tier (date_of initiated) of
     Some w \<Rightarrow> w \<in> set ws \<and> window_applies psp ty tier (date_of initiated) w \<and>
       (\<forall>v \<in> set ws. window_applies psp ty tier (date_of initiated) v \<longrightarrow> effective_from v \<le> effective_from w) \<and>
       compute_expected_settlement ws psp ty initiated tier \<noteq> None
   | None \<Rightarrow> (\<forall>w \<in> set ws. \<not> window_applies psp ty tier (date_of initiated) w) \<and>
       compute_expected_settlement ws psp ty initiated tier = None"
proof (cases "find_window ws psp ty tier (date_of initiated)")
  case None
  then show ?thesis using find_window_None [of ws psp ty tier "date_of initiated"]
    by (simp add: compute_expected_unfold)
next
  case (Some w)
  then show ?thesis using find_window_Some [OF Some] by (simp add: compute_expected_unfold)
qed

theorem expected_settlement_window_witness:
  "find_window [example_window] ''flutterwave'' ''debit'' ''standard'' 20600 = Some example_window \<and>
    compute_expected_settlement [example_window] ''flutterwave'' ''debit'' (20600 * us_day) ''standard'' \<noteq> None"
proof -
  have d: "date_of (20600 * us_day) = 20600" by (simp add: date_of_def)
  have f: "find_window [example_window] ''flutterwave'' ''debit'' ''standard'' 20600 = Some example_window"
    by code_simp
  then show ?thesis
    using expected_settlement_window [of "[example_window]" "''flutterwave''" "''debit''" "''standard''" "20600 * us_day"]
    unfolding d f by simp
qed

end
