(* ===== verification/Discrepancy.thy ===== *)
theory Discrepancy
  imports Clock
begin

text \<open>
  \<open>src/engine/discrepancy.py\<close>: the classification of reconciliation anomalies. Amounts are
  decimals with 28-digit arithmetic; hours are binary64. Amounts kept as strings in the evidence
  are kept as numbers. Severities are ordered, from low to critical.
\<close>

datatype discrepancy_type =
  MISSING_SETTLEMENT | AMOUNT_MISMATCH | FX_VARIANCE | DUPLICATE_CREDIT | LATE_SETTLEMENT

fun type_value :: "discrepancy_type \<Rightarrow> string" where
  "type_value MISSING_SETTLEMENT = ''missing_settlement''"
| "type_value AMOUNT_MISMATCH = ''amount_mismatch''"
| "type_value FX_VARIANCE = ''fx_variance''"
| "type_value DUPLICATE_CREDIT = ''duplicate_credit''"
| "type_value LATE_SETTLEMENT = ''late_settlement''"

datatype severity = LOW | MEDIUM | HIGH | CRITICAL

fun severity_rank :: "severity \<Rightarrow> nat" where
  "severity_rank LOW = 0"
| "severity_rank MEDIUM = 1"
| "severity_rank HIGH = 2"
| "severity_rank CRITICAL = 3"

instantiation severity :: linorder
begin

definition less_eq_severity :: "severity \<Rightarrow> severity \<Rightarrow> bool" where
  "less_eq_severity a b \<longleftrightarrow> severity_rank a \<le> severity_rank b"

definition less_severity :: "severity \<Rightarrow> severity \<Rightarrow> bool" where
  "less_severity a b \<longleftrightarrow> severity_rank a < severity_rank b"

instance
proof
  fix a b :: severity
  show "a \<le> b \<Longrightarrow> b \<le> a \<Longrightarrow> a = b"
    by (cases a; cases b) (simp_all add: less_eq_severity_def)
qed (auto simp: less_eq_severity_def less_severity_def)

end

datatype disc_evidence =
    NoExpectedTime rat
  | NotYetDue
  | Overdue time rat rat
  | WithinThreshold rat
  | AmountEvidence rat rat rat rat "rat option" string
  | DuplicateEvidence string int rat rat
  | LateEvidence time time rat rat

record discrepancy_result =
  discrepancy_type :: "discrepancy_type option"
  dr_severity :: "severity option"
  estimated_exposure_ngn :: rat
  dr_evidence :: disc_evidence
  requires_action :: bool

definition AMOUNT_THRESHOLD_PCT :: rat where
  "AMOUNT_THRESHOLD_PCT = 5 / 1000"

definition FX_EXPLANATION_TOLERANCE_PCT :: rat where
  "FX_EXPLANATION_TOLERANCE_PCT = 25 / 10000"

subsection \<open>Amounts\<close>

definition delta_of :: "rat \<Rightarrow> rat \<Rightarrow> rat" where
  "delta_of a b = \<bar>dec (a - b)\<bar>"

definition delta_pct_of :: "rat \<Rightarrow> rat \<Rightarrow> rat" where
  "delta_pct_of a b = (if 0 < a then dec (delta_of a b / a) else 0)"

definition classify_amount_delta :: "rat \<Rightarrow> rat \<Rightarrow> rat option \<Rightarrow> string option \<times> bool" where
  "classify_amount_delta a b fx = (if b = 0 then (Some ''MISSING_SETTLEMENT'', False) else
     let p = delta_pct_of a b in
     if p \<le> AMOUNT_THRESHOLD_PCT then (None, True)
     else if (case fx of None \<Rightarrow> False
         | Some v \<Rightarrow> 0 < v \<and> \<bar>dec (p - v)\<bar> \<le> FX_EXPLANATION_TOLERANCE_PCT)
     then (Some ''FX_VARIANCE'', False)
     else (Some ''AMOUNT_MISMATCH'', False))"

definition type_of_value :: "string \<Rightarrow> exc + discrepancy_type" where
  "type_of_value s = (case List.find (\<lambda>t. type_value t = s)
       [MISSING_SETTLEMENT, AMOUNT_MISMATCH, FX_VARIANCE, DUPLICATE_CREDIT, LATE_SETTLEMENT] of
     Some t \<Rightarrow> Inr t | None \<Rightarrow> Inl (ValueError s))"

text \<open>\<open>f"{float(x):.4f}"\<close>: the exact binary value rounded half-even.\<close>

definition shown :: "nat \<Rightarrow> rat \<Rightarrow> rat" where
  "shown k x = quant k (fl x)"

definition fx_variance_of :: "rat option \<Rightarrow> rat option \<Rightarrow> rat option" where
  "fx_variance_of ra rb = (case (ra, rb) of
     (Some a, Some b) \<Rightarrow> if a \<noteq> 0 \<and> b \<noteq> 0 \<and> 0 < a then Some (dec (\<bar>dec (a - b)\<bar> / a)) else None
   | _ \<Rightarrow> None)"

definition classify_amount_discrepancy ::
  "rat \<Rightarrow> rat \<Rightarrow> rat option \<Rightarrow> rat option \<Rightarrow> exc + discrepancy_result" where
  "classify_amount_discrepancy a b fx_rate_a fx_rate_b = (
     let delta = delta_of a b; delta_pct = delta_pct_of a b;
         fx_variance = fx_variance_of fx_rate_a fx_rate_b
     in case fst (classify_amount_delta a b fx_variance) of
       None \<Rightarrow> Inr \<lparr>discrepancy_type = None, dr_severity = None, estimated_exposure_ngn = 0,
           dr_evidence = WithinThreshold (shown 4 delta_pct), requires_action = False\<rparr>
     | Some c \<Rightarrow> sbind (type_of_value (py_lower c)) (\<lambda>ty.
         Inr \<lparr>discrepancy_type = Some ty,
           dr_severity = Some (if ty = FX_VARIANCE then LOW else if 1 / 100 < delta_pct then HIGH else MEDIUM),
           estimated_exposure_ngn = delta,
           dr_evidence = AmountEvidence a b delta (shown 4 delta_pct)
             (case fx_variance of None \<Rightarrow> None | Some v \<Rightarrow> if v \<noteq> 0 then Some (shown 6 v) else None) c,
           requires_action = (ty \<noteq> FX_VARIANCE)\<rparr>))"

subsection \<open>Settlements and duplicates\<close>

definition hours_of :: "span \<Rightarrow> rat" where
  "hours_of d = fl (total_seconds d / 3600)"

definition overdue_severity :: "rat \<Rightarrow> severity" where
  "overdue_severity h = (if 48 < h then CRITICAL else if 24 < h then HIGH else MEDIUM)"

definition classify_missing_settlement :: "rat \<Rightarrow> time option \<Rightarrow> time \<Rightarrow> discrepancy_result" where
  "classify_missing_settlement amount expected now = (case expected of
     None \<Rightarrow> \<lparr>discrepancy_type = Some MISSING_SETTLEMENT, dr_severity = Some HIGH,
       estimated_exposure_ngn = amount, dr_evidence = NoExpectedTime amount, requires_action = True\<rparr>
   | Some e \<Rightarrow>
       if total_seconds (now - e) \<le> 0
       then \<lparr>discrepancy_type = None, dr_severity = None, estimated_exposure_ngn = 0,
         dr_evidence = NotYetDue, requires_action = False\<rparr>
       else \<lparr>discrepancy_type = Some MISSING_SETTLEMENT,
         dr_severity = Some (overdue_severity (hours_of (now - e))),
         estimated_exposure_ngn = amount,
         dr_evidence = Overdue e (fl (quant 2 (hours_of (now - e)))) amount, requires_action = True\<rparr>)"

definition classify_duplicate_credit :: "string \<Rightarrow> int \<Rightarrow> rat \<Rightarrow> discrepancy_result" where
  "classify_duplicate_credit ref n amount =
     \<lparr>discrepancy_type = Some DUPLICATE_CREDIT, dr_severity = Some CRITICAL,
      estimated_exposure_ngn = dec (amount * of_int (n - 1)),
      dr_evidence = DuplicateEvidence ref n amount (dec (amount * of_int (n - 1))), requires_action = True\<rparr>"

definition late_severity :: "rat \<Rightarrow> severity" where
  "late_severity h = (if h < 1 then LOW else if h < 24 then MEDIUM else HIGH)"

definition classify_late_settlement :: "rat \<Rightarrow> time \<Rightarrow> time \<Rightarrow> discrepancy_result" where
  "classify_late_settlement amount expected settled = (
     let h = hours_of (settled - expected) in
     \<lparr>discrepancy_type = Some LATE_SETTLEMENT, dr_severity = Some (late_severity h),
      estimated_exposure_ngn = 0,
      dr_evidence = LateEvidence expected settled (fl (quant 2 h)) amount, requires_action = (24 < h)\<rparr>)"

subsection \<open>Amount classification\<close>

lemma delta_nonneg: "0 \<le> delta_of a b" "0 \<le> delta_pct_of a b"
  by (simp_all add: delta_of_def delta_pct_of_def dec.nonneg)

lemma type_of_value_upper [simp]:
  "type_of_value (py_lower ''MISSING_SETTLEMENT'') = Inr MISSING_SETTLEMENT"
  "type_of_value (py_lower ''FX_VARIANCE'') = Inr FX_VARIANCE"
  "type_of_value (py_lower ''AMOUNT_MISMATCH'') = Inr AMOUNT_MISMATCH"
  by code_simp+

definition fx_explains :: "rat \<Rightarrow> rat option \<Rightarrow> bool" where
  "fx_explains p fx = (case fx of None \<Rightarrow> False
     | Some v \<Rightarrow> 0 < v \<and> \<bar>dec (p - v)\<bar> \<le> FX_EXPLANATION_TOLERANCE_PCT)"

lemma classify_amount_cases:
  "\<exists>r. classify_amount_discrepancy a b ra rb = Inr r \<and> 0 \<le> estimated_exposure_ngn r \<and>
    (let p = delta_pct_of a b; fx = fx_variance_of ra rb in
     if b = 0 then discrepancy_type r = Some MISSING_SETTLEMENT \<and> estimated_exposure_ngn r = delta_of a b \<and>
       dr_severity r = Some (if 1 / 100 < p then HIGH else MEDIUM) \<and> requires_action r
     else if p \<le> AMOUNT_THRESHOLD_PCT then discrepancy_type r = None \<and> dr_severity r = None \<and>
       estimated_exposure_ngn r = 0 \<and> \<not> requires_action r
     else if fx_explains p fx then discrepancy_type r = Some FX_VARIANCE \<and> dr_severity r = Some LOW \<and>
       estimated_exposure_ngn r = delta_of a b \<and> \<not> requires_action r
     else discrepancy_type r = Some AMOUNT_MISMATCH \<and> estimated_exposure_ngn r = delta_of a b \<and>
       dr_severity r = Some (if 1 / 100 < p then HIGH else MEDIUM) \<and> requires_action r)"
  using delta_nonneg(1) [of a b]
  by (auto simp: classify_amount_discrepancy_def classify_amount_delta_def fx_explains_def Let_def)

subsection \<open>Hours and severities\<close>

lemma hours_mono: "a \<le> b \<Longrightarrow> hours_of a \<le> hours_of b"
  by (simp add: hours_of_def fl.mono total_seconds_mono divide_right_mono)

lemma hours_whole: "\<bar>n\<bar> \<le> 1000000 \<Longrightarrow> hours_of (n * us_hour) = of_int n"
proof -
  assume n: "\<bar>n\<bar> \<le> 1000000"
  have "total_seconds (n * us_hour) = of_int (n * 3600)"
    using total_seconds_whole [of "n * 3600"] n by (simp add: mult.assoc)
  then show ?thesis using n by (simp add: hours_of_def fl_int)
qed

lemma hours_just_above: "24 < hours_of (24 * us_hour + 1)" "48 < hours_of (48 * us_hour + 1)"
  "0 < total_seconds 1"
  by code_simp+

text \<open>Rounding never moves a duration across one of the thresholds of the code.\<close>

lemma hours_less_24: "24 < hours_of d \<longleftrightarrow> 24 * us_hour < d"
  using hours_mono [of d "24 * us_hour"] hours_mono [of "24 * us_hour + 1" d] hours_just_above(1) hours_whole [of 24]
  by force

lemma hours_less_48: "48 < hours_of d \<longleftrightarrow> 48 * us_hour < d"
  using hours_mono [of d "48 * us_hour"] hours_mono [of "48 * us_hour + 1" d] hours_just_above(2) hours_whole [of 48]
  by force

lemma total_seconds_pos: "0 < total_seconds d \<longleftrightarrow> 0 < d"
  using total_seconds_mono [of d 0] total_seconds_mono [of 1 d] hours_just_above(3)
  by (cases "0 < d") (auto simp: total_seconds_def fl.zero)

lemma overdue_severity_exact:
  "overdue_severity (hours_of d) = (if 48 * us_hour < d then CRITICAL else if 24 * us_hour < d then HIGH else MEDIUM)"
  by (simp add: overdue_severity_def hours_less_24 hours_less_48)

lemma missing_severity:
  "dr_severity (classify_missing_settlement amount (Some e) now) =
    (if now \<le> e then None else Some (if e + 48 * us_hour < now then CRITICAL
       else if e + 24 * us_hour < now then HIGH else MEDIUM))"
  using total_seconds_pos [of "now - e"]
  by (auto simp: classify_missing_settlement_def overdue_severity_exact not_less)

subsection \<open>Properties\<close>

text \<open>
  The amount classification, on every branch: nothing within half a percent, FX variance (low, no
  action) when the rate movement explains the difference to a quarter of a percent, a missing
  settlement when nothing arrived, otherwise a mismatch, high above one percent; the exposure
  is the difference and never negative, and the classification never raises.
\<close>

theorem amount_discrepancy_branches:
  "\<exists>r. classify_amount_discrepancy a b ra rb = Inr r \<and> 0 \<le> estimated_exposure_ngn r \<and>
    (let p = delta_pct_of a b; fx = fx_variance_of ra rb in
     if b = 0 then discrepancy_type r = Some MISSING_SETTLEMENT \<and> estimated_exposure_ngn r = delta_of a b \<and>
       dr_severity r = Some (if 1 / 100 < p then HIGH else MEDIUM) \<and> requires_action r
     else if p \<le> 5 / 1000 then discrepancy_type r = None \<and> dr_severity r = None \<and>
       estimated_exposure_ngn r = 0 \<and> \<not> requires_action r
     else if (\<exists>v. fx = Some v \<and> 0 < v \<and> \<bar>dec (p - v)\<bar> \<le> 25 / 10000)
     then discrepancy_type r = Some FX_VARIANCE \<and> dr_severity r = Some LOW \<and>
       estimated_exposure_ngn r = delta_of a b \<and> \<not> requires_action r
     else discrepancy_type r = Some AMOUNT_MISMATCH \<and> estimated_exposure_ngn r = delta_of a b \<and>
       dr_severity r = Some (if 1 / 100 < p then HIGH else MEDIUM) \<and> requires_action r)"
proof -
  have "fx_explains p fx \<longleftrightarrow> (\<exists>v. fx = Some v \<and> 0 < v \<and> \<bar>dec (p - v)\<bar> \<le> 25 / 10000)" for p fx
    by (simp add: fx_explains_def FX_EXPLANATION_TOLERANCE_PCT_def split: option.splits)
  then show ?thesis
    using classify_amount_cases [of a b ra rb] by (simp only: AMOUNT_THRESHOLD_PCT_def)
qed

text \<open>
  Overdue settlements escalate exactly at 24 and 48 hours: despite the float arithmetic on
  seconds and hours, the severity changes at the exact microsecond, and nothing is raised
  before the expected time has passed.
\<close>

theorem missing_settlement_severity:
  "dr_severity (classify_missing_settlement amount (Some e) now) =
     (if now \<le> e then None else Some (if e + 48 * us_hour < now then CRITICAL
       else if e + 24 * us_hour < now then HIGH else MEDIUM)) \<and>
   (discrepancy_type (classify_missing_settlement amount (Some e) now) = None \<longleftrightarrow> now \<le> e)"
  using total_seconds_pos [of "now - e"] missing_severity [of amount e now]
  by (simp add: classify_missing_settlement_def not_less [symmetric])

end
