(* ===== verification/Idempotency.thy ===== *)
theory Idempotency
  imports Clock
begin

text \<open>
  \<open>src/engine/idempotency.py\<close>: the idempotency key and its registry. The table
  \<open>silver_idempotency_keys\<close> is a map from the key (its primary key) to the rest of the row; the
  upsert is one atomic statement. The locale \<open>dedup_store\<close> is the contract every layer that
  deduplicates relies on: a store reports an insertion as new exactly when the key was absent.
\<close>

subsection \<open>Stores that deduplicate on a key\<close>

locale dedup_store =
  fixes put :: "'k \<Rightarrow> 'a \<Rightarrow> 's \<Rightarrow> 's \<times> bool"
    and keys :: "'s \<Rightarrow> 'k set"
  assumes put_new: "snd (put k a s) \<longleftrightarrow> k \<notin> keys s"
    and put_keys: "keys (fst (put k a s)) = insert k (keys s)"
begin

fun put_all :: "('k \<times> 'a) list \<Rightarrow> 's \<Rightarrow> 's \<times> bool list" where
  "put_all [] s = (s, [])"
| "put_all (x # xs) s = (let (s1, n) = put (fst x) (snd x) s; (s2, ns) = put_all xs s1 in (s2, n # ns))"

lemma put_all_Cons:
  "put_all (x # xs) s = (fst (put_all xs (fst (put (fst x) (snd x) s))),
     snd (put (fst x) (snd x) s) # snd (put_all xs (fst (put (fst x) (snd x) s))))"
  by (simp add: Let_def split_def)

lemma put_all_keys: "keys (fst (put_all xs s)) = keys s \<union> fst ` set xs"
  by (induction xs arbitrary: s) (auto simp: put_all_Cons put_keys simp del: put_all.simps(2))

lemma put_all_length: "length (snd (put_all xs s)) = length xs"
  by (induction xs arbitrary: s) (simp_all add: put_all_Cons del: put_all.simps(2))

text \<open>Over any sequence of insertions a key is new once, at its first occurrence, or never.\<close>

lemma put_all_new:
  "length (filter (\<lambda>xn. fst (fst xn) = k \<and> snd xn) (zip xs (snd (put_all xs s)))) =
     (if k \<in> fst ` set xs \<and> k \<notin> keys s then 1 else 0)"
proof (induction xs arbitrary: s)
  case (Cons x xs)
  define s1 where "s1 = fst (put (fst x) (snd x) s)"
  have "snd (put_all (x # xs) s) = (fst x \<notin> keys s) # snd (put_all xs s1)"
    by (simp add: put_all_Cons put_new s1_def del: put_all.simps(2))
  moreover have "keys s1 = insert (fst x) (keys s)" by (simp add: s1_def put_keys)
  ultimately show ?case using Cons [of s1] by (cases "fst x = k") auto
qed simp

lemma put_twice: "\<not> snd (put k b (fst (put k a s)))"
  by (simp add: put_new put_keys)

end

subsection \<open>The key\<close>

definition build_idempotency_key :: "string \<Rightarrow> string \<Rightarrow> string \<Rightarrow> string" where
  "build_idempotency_key psp_name psp_transaction_ref event_type =
     py_join '':'' [py_strip (py_lower psp_name), py_strip psp_transaction_ref,
       py_strip (py_lower event_type)]"

lemma build_key_append:
  "build_idempotency_key p r e =
     py_strip (py_lower p) @ CHR '':'' # py_strip r @ CHR '':'' # py_strip (py_lower e)"
  by (simp add: build_idempotency_key_def)

lemma build_key_case_insensitive:
  "build_idempotency_key (py_lower p) r (py_lower e) = build_idempotency_key p r e"
  by (simp add: build_key_append str_simps)

lemma build_key_normalised:
  "build_idempotency_key (py_strip p) (py_strip r) (py_strip e) = build_idempotency_key p r e"
  by (simp add: build_key_append py_strip_lower [symmetric] str_simps)

lemma split_at_first:
  assumes "c \<notin> set u" "c \<notin> set v" "u @ c # x = v @ c # y"
  shows "u = v \<and> x = y"
proof -
  have cut: "takeWhile (\<lambda>d. d \<noteq> c) (w @ c # z) = w" if "c \<notin> set w" for w z
    using that by (induction w) auto
  have "u = v" using cut [OF assms(1), of x] cut [OF assms(2), of y] by (simp only: assms(3))
  then show ?thesis using assms(3) by simp
qed

lemma split_at_last:
  assumes "c \<notin> set x" "c \<notin> set y" "u @ c # x = v @ c # y"
  shows "u = v \<and> x = y"
proof -
  have "rev (u @ c # x) = rev (v @ c # y)" using assms(3) by simp
  then have "rev x @ c # rev u = rev y @ c # rev v" by simp
  from split_at_first [OF _ _ this] assms(1,2) show ?thesis by simp
qed

text \<open>
  Two events have the same key exactly when they agree on the three components the key is
  built from. PSP names and event names contain no colon; the reference may contain any.
\<close>

lemma colon_to_lower: "to_lower c = CHR '':'' \<longleftrightarrow> c = CHR '':''"
proof -
  have "code (CHR '':'') = 58" by (simp add: code_def)
  then have "code (to_lower c) = 58 \<longleftrightarrow> code c = 58" by (auto simp: code_to_lower is_upper_def)
  then show ?thesis using \<open>code (CHR '':'') = 58\<close> by (simp only: code_eq_iff)
qed

lemma build_key_eq_iff:
  assumes "CHR '':'' \<notin> set p" "CHR '':'' \<notin> set q" "CHR '':'' \<notin> set e" "CHR '':'' \<notin> set f"
  shows "build_idempotency_key p r e = build_idempotency_key q s f \<longleftrightarrow>
    py_strip (py_lower p) = py_strip (py_lower q) \<and> py_strip r = py_strip s \<and>
    py_strip (py_lower e) = py_strip (py_lower f)"
    (is "?l \<longleftrightarrow> ?r")
proof
  have no: "CHR '':'' \<notin> set (py_strip (py_lower x))" if x: "CHR '':'' \<notin> set x" for x
  proof
    assume "CHR '':'' \<in> set (py_strip (py_lower x))"
    then have "CHR '':'' \<in> set (py_lower x)" using set_py_strip by (rule rev_subsetD)
    then obtain c where "c \<in> set x" "to_lower c = CHR '':''" unfolding py_lower_def set_map by (elim imageE) simp
    with x show False by (simp only: colon_to_lower)
  qed
  assume ?l
  then have eq: "py_strip (py_lower p) @ CHR '':'' # py_strip r @ CHR '':'' # py_strip (py_lower e) =
      py_strip (py_lower q) @ CHR '':'' # py_strip s @ CHR '':'' # py_strip (py_lower f)"
    by (simp add: build_key_append)
  from split_at_first [OF no [OF assms(1)] no [OF assms(2)] eq]
  have 1: "py_strip (py_lower p) = py_strip (py_lower q)"
    and 2: "py_strip r @ CHR '':'' # py_strip (py_lower e) = py_strip s @ CHR '':'' # py_strip (py_lower f)"
    by auto
  from 1 split_at_last [OF no [OF assms(3)] no [OF assms(4)] 2] show ?r by simp
next
  assume ?r then show ?l by (simp add: build_key_append)
qed

subsection \<open>The registry\<close>

record idem_row =
  first_seen_at :: time
  occurrence_count :: nat
  last_seen_at :: time
  canonical_tx_id :: "nat option"

type_synonym idem_table = "string \<rightharpoonup> idem_row"

definition check_and_register_idempotency_key ::
  "string \<Rightarrow> time \<Rightarrow> idem_table \<Rightarrow> idem_table \<times> bool \<times> nat" where
  "check_and_register_idempotency_key key now t = (case t key of
     None \<Rightarrow> (t(key \<mapsto> \<lparr>first_seen_at = now, occurrence_count = 1, last_seen_at = now,
       canonical_tx_id = None\<rparr>), True, 1)
   | Some r \<Rightarrow> (t(key \<mapsto> r\<lparr>occurrence_count := occurrence_count r + 1, last_seen_at := now\<rparr>),
       False, occurrence_count r + 1))"

definition link_idempotency_key_to_transaction :: "string \<Rightarrow> nat \<Rightarrow> idem_table \<Rightarrow> idem_table" where
  "link_idempotency_key_to_transaction key tx t = (case t key of None \<Rightarrow> t
     | Some r \<Rightarrow> t(key \<mapsto> r\<lparr>canonical_tx_id := Some tx\<rparr>))"

definition idem_put :: "string \<Rightarrow> time \<Rightarrow> idem_table \<Rightarrow> idem_table \<times> bool" where
  "idem_put key now t = (let (t', is_new, n) = check_and_register_idempotency_key key now t in (t', is_new))"

interpretation registry: dedup_store idem_put dom
  by unfold_locales
    (auto simp: idem_put_def check_and_register_idempotency_key_def split: option.splits)

lemma register_new: "fst (snd (check_and_register_idempotency_key key now t)) \<longleftrightarrow> t key = None"
  by (simp add: check_and_register_idempotency_key_def split: option.splits)

lemma register_dom: "dom (fst (check_and_register_idempotency_key key now t)) = insert key (dom t)"
  by (auto simp: check_and_register_idempotency_key_def split: option.splits)

lemma register_other:
  "k \<noteq> key \<Longrightarrow> fst (check_and_register_idempotency_key key now t) k = t k"
  by (simp add: check_and_register_idempotency_key_def split: option.splits)

lemma link_dom: "dom (link_idempotency_key_to_transaction key tx t) = dom t"
  by (auto simp: link_idempotency_key_to_transaction_def split: option.splits)

text \<open>The counter of a key is the number of times it was registered.\<close>

definition count_of :: "idem_table \<Rightarrow> string \<Rightarrow> nat" where
  "count_of t k = (case t k of None \<Rightarrow> 0 | Some r \<Rightarrow> occurrence_count r)"

lemma count_register:
  "count_of (fst (check_and_register_idempotency_key key now t)) k =
     count_of t k + (if k = key then 1 else 0)"
  by (simp add: count_of_def check_and_register_idempotency_key_def split: option.splits)

lemma count_put_all:
  "count_of (fst (registry.put_all xs t)) k = count_of t k + count_list (map fst xs) k"
proof (induction xs arbitrary: t)
  case (Cons x xs)
  have eq: "fst (idem_put (fst x) (snd x) t) = fst (check_and_register_idempotency_key (fst x) (snd x) t)"
    by (simp add: idem_put_def split_def Let_def)
  show ?case
    using Cons by (simp add: registry.put_all_Cons eq count_register del: registry.put_all.simps(2))
qed simp

end
