(* ===== verification/Normaliser.thy ===== *)
theory Normaliser
  imports Idempotency Pii
begin

text \<open>
  \<open>src/engine/normaliser.py\<close> and \<open>convert_to_ngn\<close> of \<open>src/engine/fx.py\<close>: from a PSP payload to
  the canonical Silver record. A payload is a dictionary; everything read from it is a
  dynamically typed value until the code converts it. Identifiers, the clock and the HMAC are
  arguments. Exception messages keep their fixed text, without the interpolated values.
\<close>

subsection \<open>Which events become transactions\<close>

record disposition =
  process :: bool
  d_transaction_type :: "string option"
  d_settlement_status :: "string option"
  reason :: "string option"

definition skip :: "string \<Rightarrow> disposition" where
  "skip r = \<lparr>process = False, d_transaction_type = None, d_settlement_status = None, reason = Some r\<rparr>"

definition accept :: "string \<Rightarrow> string \<Rightarrow> disposition" where
  "accept ty st = \<lparr>process = True, d_transaction_type = Some ty, d_settlement_status = Some st,
     reason = None\<rparr>"

definition PAYSTACK_EVENTS :: "(string \<times> string \<times> string) list" where
  "PAYSTACK_EVENTS = [(''charge.success'', ''credit'', ''settled''),
     (''transfer.success'', ''debit'', ''settled''),
     (''transfer.failed'', ''debit'', ''failed''),
     (''transfer.reversed'', ''reversal'', ''reversed'')]"

definition FLUTTERWAVE_EVENTS :: "(string \<times> string) list" where
  "FLUTTERWAVE_EVENTS = [(''charge.completed'', ''credit''), (''transfer.completed'', ''debit'')]"

definition FLUTTERWAVE_STATUS :: "(string \<times> string) list" where
  "FLUTTERWAVE_STATUS = [(''successful'', ''settled''), (''success'', ''settled''),
     (''failed'', ''failed''), (''pending'', ''pending''), (''new'', ''pending'')]"

definition classify_event :: "string \<Rightarrow> string \<Rightarrow> (string \<times> json) list \<Rightarrow> disposition" where
  "classify_event psp_name event_type payload = (case dict_get payload ''data'' of
     JObj data \<Rightarrow>
       if psp_name = ''paystack'' then
         (case map_of PAYSTACK_EVENTS event_type of
            None \<Rightarrow> skip (''unhandled paystack event '' @ repr_str event_type)
          | Some (ty, st) \<Rightarrow> accept ty st)
       else if psp_name = ''flutterwave'' then
         (case map_of FLUTTERWAVE_EVENTS event_type of
            None \<Rightarrow> skip (''unhandled flutterwave event '' @ repr_str event_type)
          | Some ty \<Rightarrow>
              let status = py_lower (case map_of data ''status'' of None \<Rightarrow> '''' | Some v \<Rightarrow> py_str v)
              in (case map_of FLUTTERWAVE_STATUS status of
                    None \<Rightarrow> skip (''unrecognised flutterwave status '' @ repr_str status)
                  | Some st \<Rightarrow>
                      if ty = ''credit'' \<and> st \<noteq> ''settled''
                      then skip (''flutterwave charge not successful ('' @ status @ '')'')
                      else accept ty st))
       else skip (''no normaliser for PSP '' @ repr_str psp_name)
   | _ \<Rightarrow> skip ''payload has no data object'')"

subsection \<open>Field conversions\<close>

text \<open>
  \<open>_decimal\<close>. Decimals are exact rationals: \<open>Decimal(str)\<close> never rounds. Dividing rounds to the
  28 digits of the context.
\<close>

definition decimal_field :: "json \<Rightarrow> exc + rat" where
  "decimal_field v = (case v of
     JNull \<Rightarrow> Inl (PermanentEventError ''missing or not numeric'')
   | JBool b \<Rightarrow> Inl (PermanentEventError ''missing or not numeric'')
   | _ \<Rightarrow> (case parse_decimal (py_str v) of
       None \<Rightarrow> Inl (PermanentEventError ''not a number'')
     | Some (DFinite x) \<Rightarrow> Inr x
     | Some _ \<Rightarrow> Inl (PermanentEventError ''not finite'')))"

definition require_str :: "(string \<times> json) list \<Rightarrow> string \<Rightarrow> exc + string" where
  "require_str data field = (let v = dict_get data field in
     if \<not> truthy v \<or> py_strip (py_str v) = [] then Inl (PermanentEventError ''field is required'')
     else Inr (py_strip (py_str v)))"

definition parse_timestamp :: "json \<Rightarrow> exc + time" where
  "parse_timestamp ts = (if \<not> truthy ts then Inl (PermanentEventError ''event has no timestamp'')
     else case from_isoformat (replace_char (CHR ''Z'') ''+00:00'' (py_str ts)) of
         None \<Rightarrow> Inl (PermanentEventError ''unparseable timestamp'')
       | Some (t, None) \<Rightarrow> Inl (PermanentEventError ''timestamp without timezone'')
       | Some (t, Some off) \<Rightarrow>
           if min_time \<le> t - off \<and> t - off \<le> max_time then Inr (t - off) else Inl OverflowError)"

definition convert_to_ngn :: "rat \<Rightarrow> string \<Rightarrow> rat \<Rightarrow> exc + rat" where
  "convert_to_ngn amount_raw currency_raw fx_rate = (
     if py_upper currency_raw = ''NGN'' then Inr amount_raw
     else if fx_rate \<le> 0 then Inl (ValueError ''FX rate must be positive'')
     else let q = quant 6 (dec (amount_raw / fx_rate))
          in if 10 ^ 22 \<le> \<bar>q\<bar> then Inl InvalidOperation else Inr q)"

definition to_ngn ::
  "rat \<Rightarrow> string \<Rightarrow> nat option \<Rightarrow> rat option \<Rightarrow> exc + (rat \<times> nat option \<times> rat option)" where
  "to_ngn amount_raw currency_raw snapshot applied = (
     if currency_raw = ''NGN'' then Inr (amount_raw, None, None)
     else case applied of
         None \<Rightarrow> Inl (PermanentEventError ''FX rate required for non-NGN currency'')
       | Some rate \<Rightarrow> sbind (convert_to_ngn amount_raw currency_raw rate)
           (\<lambda>ngn. Inr (ngn, snapshot, applied)))"

text \<open>\<open>v or {}\<close> and \<open>" ".join(p for p in (a, b) if p) or None\<close>.\<close>

definition or_dict :: "json \<Rightarrow> json" where
  "or_dict v = jor v (JObj [])"

fun join_strs :: "json list \<Rightarrow> exc + string list" where
  "join_strs [] = Inr []"
| "join_strs (JStr s # vs) = sbind (join_strs vs) (\<lambda>ss. Inr (s # ss))"
| "join_strs (v # vs) = Inl TypeError"

definition join_names :: "json \<Rightarrow> json \<Rightarrow> exc + json" where
  "join_names a b = sbind (join_strs (filter truthy [a, b]))
     (\<lambda>ss. Inr (let s = py_join '' '' ss in if s = [] then JNull else JStr s))"

definition extract_paystack_narration :: "(string \<times> json) list \<Rightarrow> string option" where
  "extract_paystack_narration data = (case dict_get data ''metadata'' of
     JObj metadata \<Rightarrow> (case dict_get metadata ''custom_fields'' of
       JList (JObj f # fs) \<Rightarrow> (case dict_get f ''value'' of JNull \<Rightarrow> None | v \<Rightarrow> Some (py_str v))
     | _ \<Rightarrow> None)
   | _ \<Rightarrow> None)"

subsection \<open>The canonical record\<close>

record canonical =
  tx_id :: nat
  idempotency_key :: string
  bronze_ingestion_id :: nat
  psp_name :: string
  psp_transaction_ref :: string
  psp_event_type :: string
  psp_event_received_at :: time
  transaction_type :: string
  amount_raw :: rat
  currency_raw :: string
  amount_ngn :: rat
  fx_rate_snapshot_id :: "nat option"
  fx_rate_applied :: "rat option"
  sender_account_masked :: "string option"
  sender_bank_code :: json
  sender_bank_name :: json
  beneficiary_account_masked :: "string option"
  beneficiary_bank_code :: json
  beneficiary_bank_name :: json
  beneficiary_name_masked :: "string option"
  counterparty_name_tokens :: "string list"
  narration :: "string option"
  initiated_at :: time
  settled_at :: "time option"
  expected_settlement_at :: "time option"
  settlement_status :: string
  has_pii_masked :: bool
  psp_metadata :: "(string \<times> json) list"
  processed_by_run_id :: nat

text \<open>What the caller supplies beside the payload, and the random, clock and key sources.\<close>

record norm_env =
  e_bronze_id :: nat
  e_run_id :: nat
  e_snapshot :: "nat option"
  e_rate :: "rat option"
  e_expected :: "time option"
  e_new_id :: nat
  e_now :: time
  e_hmac :: "string \<Rightarrow> string \<Rightarrow> string"
  e_key :: string

text \<open>The counterparty as read from the payload.\<close>

record counterparty =
  cp_name :: json
  cp_account :: json
  cp_bank_code :: json
  cp_bank_name :: json

definition canonical_record ::
  "norm_env \<Rightarrow> string \<Rightarrow> string \<Rightarrow> string \<Rightarrow> disposition \<Rightarrow> rat \<Rightarrow> string \<Rightarrow> rat \<Rightarrow> nat option \<Rightarrow>
   rat option \<Rightarrow> counterparty \<Rightarrow> json \<Rightarrow> time \<Rightarrow> time option \<Rightarrow> (string \<times> json) list \<Rightarrow>
   exc + canonical" where
  "canonical_record env psp reference event_type disp raw currency ngn snapshot applied cp narr
     initiated settled metadata = (
     if raw \<le> 0 then Inl (PermanentEventError ''non-positive amount'') else
     sbind (as_opt_str (cp_account cp)) (\<lambda>account.
     sbind (as_opt_str (cp_name cp)) (\<lambda>name.
     sbind (as_opt_str narr) (\<lambda>text.
     Inr \<lparr>tx_id = e_new_id env,
       idempotency_key = build_idempotency_key psp reference event_type,
       bronze_ingestion_id = e_bronze_id env,
       psp_name = psp,
       psp_transaction_ref = reference,
       psp_event_type = event_type,
       psp_event_received_at = e_now env,
       transaction_type = the (d_transaction_type disp),
       amount_raw = raw,
       currency_raw = currency,
       amount_ngn = ngn,
       fx_rate_snapshot_id = snapshot,
       fx_rate_applied = applied,
       sender_account_masked = None,
       sender_bank_code = JNull,
       sender_bank_name = JNull,
       beneficiary_account_masked = mask_account_number account,
       beneficiary_bank_code = cp_bank_code cp,
       beneficiary_bank_name = cp_bank_name cp,
       beneficiary_name_masked = mask_name name,
       counterparty_name_tokens = tokenize_name (e_hmac env) (e_key env) name,
       narration = scrub_narration text,
       initiated_at = initiated,
       settled_at = settled,
       expected_settlement_at = e_expected env,
       settlement_status = the (d_settlement_status disp),
       has_pii_masked = True,
       psp_metadata = metadata,
       processed_by_run_id = e_run_id env\<rparr>))))"

subsection \<open>The two normalisers\<close>

text \<open>\<open>payload["event"]\<close>, used as a dictionary key: a list or a dictionary cannot be hashed.\<close>

definition event_of :: "(string \<times> json) list \<Rightarrow> exc + string" where
  "event_of payload = sbind (dict_item payload ''event'') (\<lambda>v. case v of
     JStr s \<Rightarrow> Inr s
   | _ \<Rightarrow> if \<not> is_obj (dict_get payload ''data'')
       then Inl (PermanentEventError ''payload has no data object'')
       else (case v of JList _ \<Rightarrow> Inl TypeError | JObj _ \<Rightarrow> Inl TypeError
         | _ \<Rightarrow> Inl (PermanentEventError ''unhandled event'')))"

definition the_dict :: "json \<Rightarrow> (string \<times> json) list" where
  "the_dict j = (case j of JObj d \<Rightarrow> d | _ \<Rightarrow> [])"

definition currency_of :: "(string \<times> json) list \<Rightarrow> string" where
  "currency_of data = py_upper (py_str (jor (dict_get data ''currency'') (JStr ''NGN'')))"

definition settled_time :: "disposition \<Rightarrow> time \<Rightarrow> time option" where
  "settled_time disp t = (if d_settlement_status disp = Some ''settled'' then Some t else None)"

definition refused :: "disposition \<Rightarrow> exc" where
  "refused disp = PermanentEventError (case reason disp of None \<Rightarrow> ''event not processable'' | Some r \<Rightarrow> r)"

definition paystack_payer :: "(string \<times> json) list \<Rightarrow> exc + counterparty" where
  "paystack_payer data = (
     let auth = or_dict (dict_get data ''authorization'');
         customer = or_dict (dict_get data ''customer'') in
     sbind (jget customer ''first_name'') (\<lambda>first.
     sbind (jget customer ''last_name'') (\<lambda>last.
     sbind (join_names first last) (\<lambda>customer_name.
     sbind (jget auth ''sender_name'') (\<lambda>sender_name.
     sbind (jget auth ''account_name'') (\<lambda>account_name.
     sbind (jget auth ''sender_bank_account_number'') (\<lambda>sender_account.
     sbind (jget auth ''account_number'') (\<lambda>account_number.
     sbind (jget auth ''bank_code'') (\<lambda>bank_code.
     sbind (jget auth ''sender_bank'') (\<lambda>sender_bank.
     sbind (jget auth ''bank'') (\<lambda>bank.
     Inr \<lparr>cp_name = jor (jor sender_name account_name) customer_name,
       cp_account = jor sender_account account_number,
       cp_bank_code = bank_code,
       cp_bank_name = jor sender_bank bank\<rparr>)))))))))))"

definition paystack_recipient :: "(string \<times> json) list \<Rightarrow> exc + counterparty" where
  "paystack_recipient data = (
     let recipient = or_dict (dict_get data ''recipient'') in
     sbind (jget recipient ''details'') (\<lambda>d.
     let details = or_dict d in
     sbind (jget details ''account_name'') (\<lambda>account_name.
     sbind (jget recipient ''name'') (\<lambda>name.
     sbind (jget details ''account_number'') (\<lambda>account_number.
     sbind (jget details ''bank_code'') (\<lambda>bank_code.
     sbind (jget details ''bank_name'') (\<lambda>bank_name.
     Inr \<lparr>cp_name = jor account_name name, cp_account = account_number,
       cp_bank_code = bank_code, cp_bank_name = bank_name\<rparr>)))))))"

definition fees_kobo :: "json \<Rightarrow> json" where
  "fees_kobo fees = (case fees of JInt i \<Rightarrow> JInt i | JBool b \<Rightarrow> JInt (if b then 1 else 0) | _ \<Rightarrow> JNull)"

definition normalise_paystack_event :: "norm_env \<Rightarrow> (string \<times> json) list \<Rightarrow> exc + canonical" where
  "normalise_paystack_event env payload = sbind (event_of payload) (\<lambda>event_type.
     let disp = classify_event ''paystack'' event_type payload in
     if \<not> process disp then Inl (refused disp) else
     let data = the_dict (dict_get payload ''data'') in
     sbind (require_str data ''reference'') (\<lambda>reference.
     sbind (decimal_field (dict_get data ''amount'')) (\<lambda>kobo.
     let raw = dec (kobo / 100); currency = currency_of data in
     sbind (to_ngn raw currency (e_snapshot env) (e_rate env)) (\<lambda>(ngn, snapshot, applied).
     sbind (parse_timestamp (jor (jor (dict_get data ''paid_at'') (dict_get data ''created_at''))
       (dict_get data ''createdAt''))) (\<lambda>initiated.
     sbind (if d_transaction_type disp = Some ''credit'' then paystack_payer data
       else paystack_recipient data) (\<lambda>cp.
     canonical_record env ''paystack'' reference event_type disp raw currency ngn snapshot applied cp
       (case extract_paystack_narration data of None \<Rightarrow> JNull | Some s \<Rightarrow> JStr s)
       initiated (settled_time disp initiated)
       [(''channel'', dict_get data ''channel''), (''fees_kobo'', fees_kobo (dict_get data ''fees'')),
        (''paystack_id'', dict_get data ''id''), (''status'', dict_get data ''status'')]))))))"

definition flutterwave_reference :: "(string \<times> json) list \<Rightarrow> string" where
  "flutterwave_reference data =
     py_strip (py_str (jor (jor (dict_get data ''tx_ref'') (dict_get data ''reference'')) (JStr '''')))"

definition flutterwave_counterparty :: "(string \<times> json) list \<Rightarrow> exc + counterparty" where
  "flutterwave_counterparty data = (
     let account = or_dict (dict_get data ''account''); customer = or_dict (dict_get data ''customer'') in
     sbind (jget account ''account_name'') (\<lambda>account_name.
     sbind (if truthy (jor account_name (dict_get data ''full_name'')) then Inr JNull
       else jget customer ''name'') (\<lambda>customer_name.
     sbind (jget account ''account_number'') (\<lambda>account_number.
     sbind (jget account ''bank_code'') (\<lambda>bank_code.
     sbind (jget account ''bank'') (\<lambda>bank.
     Inr \<lparr>cp_name = jor (jor account_name (dict_get data ''full_name'')) customer_name,
       cp_account = jor account_number (dict_get data ''account_number''),
       cp_bank_code = jor bank_code (dict_get data ''bank_code''),
       cp_bank_name = jor bank (dict_get data ''bank_name'')\<rparr>))))))"

definition opt_str_field :: "(string \<times> json) list \<Rightarrow> string \<Rightarrow> json" where
  "opt_str_field data k = (case dict_get data k of JNull \<Rightarrow> JNull | v \<Rightarrow> JStr (py_str v))"

definition normalise_flutterwave_event :: "norm_env \<Rightarrow> (string \<times> json) list \<Rightarrow> exc + canonical" where
  "normalise_flutterwave_event env payload = sbind (event_of payload) (\<lambda>event_type.
     let disp = classify_event ''flutterwave'' event_type payload in
     if \<not> process disp then Inl (refused disp) else
     let data = the_dict (dict_get payload ''data''); reference = flutterwave_reference data in
     if reference = [] then Inl (PermanentEventError ''flutterwave event has no tx_ref/reference'') else
     sbind (decimal_field (dict_get data ''amount'')) (\<lambda>raw.
     let currency = currency_of data in
     sbind (to_ngn raw currency (e_snapshot env) (e_rate env)) (\<lambda>(ngn, snapshot, applied).
     sbind (parse_timestamp (dict_get data ''created_at'')) (\<lambda>initiated.
     sbind (flutterwave_counterparty data) (\<lambda>cp.
     canonical_record env ''flutterwave'' reference event_type disp raw currency ngn snapshot applied cp
       (dict_get data ''narration'') initiated (settled_time disp initiated)
       [(''flw_ref'', dict_get data ''flw_ref''), (''app_fee'', opt_str_field data ''app_fee''),
        (''merchant_fee'', opt_str_field data ''merchant_fee''),
        (''flutterwave_id'', dict_get data ''id''), (''status'', dict_get data ''status'')])))))"

definition NORMALISERS :: "string \<Rightarrow> (norm_env \<Rightarrow> (string \<times> json) list \<Rightarrow> exc + canonical) option" where
  "NORMALISERS psp = (if psp = ''paystack'' then Some normalise_paystack_event
     else if psp = ''flutterwave'' then Some normalise_flutterwave_event else None)"

subsection \<open>What a normaliser returns\<close>

text \<open>What \<open>canonical_record\<close> returns, field by field.\<close>

lemma canonical_record_Inr:
  assumes "canonical_record env psp reference event_type disp raw currency ngn snapshot applied cp narr
     initiated settled metadata = Inr r"
  shows "0 < raw" "psp_name r = psp" "psp_transaction_ref r = reference" "psp_event_type r = event_type"
    "idempotency_key r = build_idempotency_key psp reference event_type"
    "transaction_type r = the (d_transaction_type disp)"
    "settlement_status r = the (d_settlement_status disp)"
    "amount_raw r = raw" "currency_raw r = currency" "amount_ngn r = ngn"
    "fx_rate_snapshot_id r = snapshot" "fx_rate_applied r = applied"
    "initiated_at r = initiated" "settled_at r = settled" "has_pii_masked r"
    "expected_settlement_at r = e_expected env" "tx_id r = e_new_id env"
    "bronze_ingestion_id r = e_bronze_id env" "processed_by_run_id r = e_run_id env"
    "sender_account_masked r = None"
    "\<exists>a. beneficiary_account_masked r = mask_account_number a"
    "\<exists>n. beneficiary_name_masked r = mask_name n \<and>
      counterparty_name_tokens r = tokenize_name (e_hmac env) (e_key env) n"
    "\<exists>t. narration r = scrub_narration t"
  using assms by (auto simp: canonical_record_def split: if_splits)

definition event_outcomes :: "(string \<times> string) list" where
  "event_outcomes = [(''credit'', ''settled''), (''debit'', ''settled''), (''debit'', ''failed''),
     (''debit'', ''pending''), (''reversal'', ''reversed'')]"

lemma classify_event_outcome:
  assumes "process (classify_event psp ev payload)"
  shows "\<exists>ty st. (ty, st) \<in> set event_outcomes \<and>
    classify_event psp ev payload = accept ty st \<and> is_obj (dict_get payload ''data'')"
proof -
  have ps: "map_of PAYSTACK_EVENTS ev = Some (ty, st) \<Longrightarrow> (ty, st) \<in> set event_outcomes" for ty st
    by (drule map_of_SomeD) (auto simp: PAYSTACK_EVENTS_def event_outcomes_def)
  have fw: "map_of FLUTTERWAVE_EVENTS ev = Some ty \<Longrightarrow> ty \<in> {''credit'', ''debit''}" for ty
    by (drule map_of_SomeD) (auto simp: FLUTTERWAVE_EVENTS_def)
  have fs: "map_of FLUTTERWAVE_STATUS x = Some st \<Longrightarrow> st \<in> {''settled'', ''failed'', ''pending''}" for x st
    by (drule map_of_SomeD) (auto simp: FLUTTERWAVE_STATUS_def)
  have both: "ty \<in> {''credit'', ''debit''} \<Longrightarrow> st \<in> {''settled'', ''failed'', ''pending''} \<Longrightarrow>
      \<not> (ty = ''credit'' \<and> st \<noteq> ''settled'') \<Longrightarrow> (ty, st) \<in> set event_outcomes" for ty st
    by (auto simp: event_outcomes_def)
  show ?thesis
    using assms ps both [OF fw fs]
    by (auto simp: classify_event_def skip_def accept_def Let_def
        split: json.splits if_splits option.splits)
qed

text \<open>The shape every record a normaliser returns has.\<close>

definition amounts_ok :: "norm_env \<Rightarrow> canonical \<Rightarrow> bool" where
  "amounts_ok env r \<longleftrightarrow> 0 < amount_raw r \<and>
     (if currency_raw r = ''NGN'' then amount_ngn r = amount_raw r \<and> fx_rate_snapshot_id r = None \<and> fx_rate_applied r = None
      else \<exists>rate. e_rate env = Some rate \<and> fx_rate_applied r = Some rate \<and> fx_rate_snapshot_id r = e_snapshot env \<and>
        convert_to_ngn (amount_raw r) (currency_raw r) rate = Inr (amount_ngn r))"

definition outcome_ok :: "canonical \<Rightarrow> bool" where
  "outcome_ok r \<longleftrightarrow> (transaction_type r, settlement_status r) \<in> set event_outcomes \<and>
     settled_at r = (if settlement_status r = ''settled'' then Some (initiated_at r) else None)"

definition pii_ok :: "canonical \<Rightarrow> bool" where
  "pii_ok r \<longleftrightarrow> has_pii_masked r \<and> sender_account_masked r = None \<and>
     (\<forall>m \<in> set_option (beneficiary_account_masked r). \<not> (length m = 10 \<and> py_isdigit m))"

definition normalised_ok :: "norm_env \<Rightarrow> canonical \<Rightarrow> bool" where
  "normalised_ok env r \<longleftrightarrow> amounts_ok env r \<and> outcome_ok r \<and> pii_ok r \<and> 
     psp_name r \<in> {''paystack'', ''flutterwave''} \<and> psp_transaction_ref r \<noteq> [] \<and>
     idempotency_key r = build_idempotency_key (psp_name r) (psp_transaction_ref r) (psp_event_type r)"

lemma to_ngn_Inr:
  "to_ngn raw currency snapshot applied = Inr (ngn, s, a) \<Longrightarrow>
     (if currency = ''NGN'' then ngn = raw \<and> s = None \<and> a = None
      else \<exists>rate. applied = Some rate \<and> a = Some rate \<and> s = snapshot \<and> convert_to_ngn raw currency rate = Inr ngn)"
  by (auto simp: to_ngn_def split: if_splits option.splits)

lemma require_str_Inr: "require_str data f = Inr v \<Longrightarrow> v \<noteq> [] \<and> v = py_strip (py_str (dict_get data f))"
  by (auto simp: require_str_def Let_def split: if_splits)

lemma canonical_record_ok:
  assumes rec: "canonical_record env psp reference event_type (accept ty st) raw currency ngn s a cp narr
     initiated (settled_time (accept ty st) initiated) metadata = Inr r"
    and out: "(ty, st) \<in> set event_outcomes"
    and ngn: "to_ngn raw currency (e_snapshot env) (e_rate env) = Inr (ngn, s, a)"
    and psp: "psp \<in> {''paystack'', ''flutterwave''}" and ref: "reference \<noteq> []"
  shows "normalised_ok env r"
proof -
  note f = canonical_record_Inr [OF rec]
  have "amounts_ok env r" using to_ngn_Inr [OF ngn] f(1) by (simp add: amounts_ok_def f)
  moreover have "outcome_ok r" using out by (simp add: outcome_ok_def f accept_def settled_time_def)
  moreover have "pii_ok r" using f(15,20,21) mask_account_shape by (auto simp: pii_ok_def)
  ultimately show ?thesis using psp ref by (simp add: normalised_ok_def f)
qed

lemma normalise_paystack_ok:
  assumes "normalise_paystack_event env payload = Inr r"
  shows "normalised_ok env r"
proof -
  from assms obtain ev reference kobo ngn s a initiated cp where
    p: "process (classify_event ''paystack'' ev payload)"
    and ref: "require_str (the_dict (dict_get payload ''data'')) ''reference'' = Inr reference"
    and ngn: "to_ngn (dec (kobo / 100)) (currency_of (the_dict (dict_get payload ''data'')))
      (e_snapshot env) (e_rate env) = Inr (ngn, s, a)"
    and rec: "\<exists>narr metadata. canonical_record env ''paystack'' reference ev (classify_event ''paystack'' ev payload)
      (dec (kobo / 100)) (currency_of (the_dict (dict_get payload ''data''))) ngn s a cp narr
      initiated (settled_time (classify_event ''paystack'' ev payload) initiated) metadata = Inr r"
    unfolding normalise_paystack_event_def Let_def sbind_Inr_iff
    by (auto split: if_splits prod.splits) blast+
  from classify_event_outcome [OF p] rec require_str_Inr [OF ref] show ?thesis
    by (auto intro: canonical_record_ok [OF _ _ ngn])
qed

lemma normalise_flutterwave_ok:
  assumes "normalise_flutterwave_event env payload = Inr r"
  shows "normalised_ok env r"
proof -
  from assms obtain ev raw ngn s a initiated cp where
    p: "process (classify_event ''flutterwave'' ev payload)"
    and ref: "flutterwave_reference (the_dict (dict_get payload ''data'')) \<noteq> []"
    and ngn: "to_ngn raw (currency_of (the_dict (dict_get payload ''data'')))
      (e_snapshot env) (e_rate env) = Inr (ngn, s, a)"
    and rec: "\<exists>narr metadata. canonical_record env ''flutterwave'' 
       (flutterwave_reference (the_dict (dict_get payload ''data''))) ev (classify_event ''flutterwave'' ev payload)
      raw (currency_of (the_dict (dict_get payload ''data''))) ngn s a cp narr
      initiated (settled_time (classify_event ''flutterwave'' ev payload) initiated) metadata = Inr r"
    unfolding normalise_flutterwave_event_def Let_def sbind_Inr_iff
    by (auto split: if_splits prod.splits) blast
  from classify_event_outcome [OF p] rec ref show ?thesis
    by (auto intro: canonical_record_ok [OF _ _ ngn])
qed

lemma normalise_credit_settled:
  assumes "normalised_ok env r" "transaction_type r = ''credit''"
  shows "settlement_status r = ''settled''"
  using assms by (auto simp: normalised_ok_def outcome_ok_def event_outcomes_def)

text \<open>Naira amounts in kobo are converted without rounding.\<close>

lemma decimal_field_int: "decimal_field (JInt i) = Inr (of_int i)"
  by (simp add: decimal_field_def parse_decimal_int)

lemma paystack_amount_exact:
  assumes "normalise_paystack_event env payload = Inr r"
    and "dict_get payload ''data'' = JObj data" "dict_get data ''amount'' = JInt kobo" "\<bar>kobo\<bar> \<le> 10 ^ 28"
  shows "amount_raw r = of_int kobo / 100"
proof -
  have "dec (of_int kobo / 100) = of_int kobo / 100" using dec_scaled [OF assms(4), of 2] by simp
  then show ?thesis
    using assms(1) unfolding normalise_paystack_event_def Let_def sbind_Inr_iff
    by (auto simp: assms(2,3) the_dict_def decimal_field_int split: if_splits dest: canonical_record_Inr(8))
qed

subsection \<open>Properties\<close>

lemma normaliser_cases:
  "NORMALISERS psp = Some f \<Longrightarrow> f env payload = Inr r \<Longrightarrow> normalised_ok env r \<and> psp_name r = psp"
  by (auto simp: NORMALISERS_def normalise_paystack_ok normalise_flutterwave_ok split: if_splits)
    (auto simp: normalise_paystack_event_def normalise_flutterwave_event_def Let_def
      split: if_splits prod.splits dest: canonical_record_Inr(2))

definition example_env :: norm_env where
  "example_env = \<lparr>e_bronze_id = 7, e_run_id = 3, e_snapshot = Some 5, e_rate = Some (1 / 1600),
     e_expected = None, e_new_id = 11, e_now = 1709202615000000, e_hmac = (\<lambda>key w. key @ w), e_key = ''k''\<rparr>"

definition example_charge :: "(string \<times> json) list" where
  "example_charge = [(''event'', JStr ''charge.success''), (''data'', JObj [
     (''reference'', JStr '' T_abc123 ''), (''amount'', JInt 5000050), (''currency'', JStr ''ngn''),
     (''paid_at'', JStr ''2024-02-29T10:30:15Z''),
     (''customer'', JObj [(''first_name'', JStr ''Chioma''), (''last_name'', JStr ''Okonkwo'')]),
     (''authorization'', JObj [(''account_number'', JStr ''0123456789''), (''bank_code'', JStr ''058'')])])]"

lemma example_charge_runs:
  "case normalise_paystack_event example_env example_charge of
     Inr r \<Rightarrow> beneficiary_account_masked r = Some ''01******89'' \<and> transaction_type r = ''credit''
   | Inl e \<Rightarrow> False"
  by code_simp

lemma example_charge_result:
  obtains r where "normalise_paystack_event example_env example_charge = Inr r"
    "beneficiary_account_masked r = Some ''01******89''" "transaction_type r = ''credit''"
  using example_charge_runs by (auto split: sum.splits)

text \<open>
  C10 No fabricated money: a record a normaliser returns has a positive amount, one of the five
  known outcomes, a settlement time exactly when the outcome is settled, and it is a credit only
  when the PSP reported the charge as settled.
\<close>

theorem normaliser_outcome:
  assumes "NORMALISERS psp = Some f" and "f env payload = Inr r"
  shows "0 < amount_raw r \<and>
    (transaction_type r, settlement_status r) \<in> set event_outcomes \<and>
    (transaction_type r = ''credit'' \<longrightarrow> settlement_status r = ''settled'') \<and>
    settled_at r = (if settlement_status r = ''settled'' then Some (initiated_at r) else None)"
proof -
  have ok: "normalised_ok env r" using normaliser_cases [OF assms] ..
  then have "amounts_ok env r" "outcome_ok r" by (simp_all add: normalised_ok_def)
  then show ?thesis
    using normalise_credit_settled [OF ok] unfolding amounts_ok_def outcome_ok_def by blast
qed

theorem normaliser_outcome_witness:
  "\<exists>r. normalise_paystack_event example_env example_charge = Inr r \<and> transaction_type r = ''credit'' \<and>
    settlement_status r = ''settled''"
proof -
  obtain r where r: "normalise_paystack_event example_env example_charge = Inr r"
    "transaction_type r = ''credit''" by (rule example_charge_result)
  have "NORMALISERS ''paystack'' = Some normalise_paystack_event" by (simp add: NORMALISERS_def)
  from normaliser_outcome [OF this r(1)] r show ?thesis by blast
qed

text \<open>
  The naira amount: a naira event is taken as it is with no FX reference; any other event
  carries the rate it was given, its snapshot, and the amount converted at that rate.
\<close>

theorem normaliser_amount_ngn:
  assumes "NORMALISERS psp = Some f" and "f env payload = Inr r"
  shows "if currency_raw r = ''NGN''
    then amount_ngn r = amount_raw r \<and> fx_rate_snapshot_id r = None \<and> fx_rate_applied r = None
    else \<exists>rate. e_rate env = Some rate \<and> fx_rate_applied r = Some rate \<and>
      fx_rate_snapshot_id r = e_snapshot env \<and>
      convert_to_ngn (amount_raw r) (currency_raw r) rate = Inr (amount_ngn r)"
  using normaliser_cases [OF assms] by (simp add: normalised_ok_def amounts_ok_def)

theorem normaliser_amount_ngn_witness:
  "\<exists>r. normalise_paystack_event example_env example_charge = Inr r \<and>
    (currency_raw r = ''NGN'' \<longrightarrow> amount_ngn r = amount_raw r)"
proof -
  obtain r where r: "normalise_paystack_event example_env example_charge = Inr r"
    by (rule example_charge_result)
  have "NORMALISERS ''paystack'' = Some normalise_paystack_event" by (simp add: NORMALISERS_def)
  from normaliser_amount_ngn [OF this r] r show ?thesis by auto
qed

text \<open>
  C32 PII at the Silver boundary (C-003): the record carries no bare ten-digit account number,
  the sender columns are empty, and the masking flag of the CHECK constraint is set.
\<close>

theorem normaliser_pii:
  assumes "NORMALISERS psp = Some f" and "f env payload = Inr r"
  shows "has_pii_masked r \<and> sender_account_masked r = None \<and>
    (\<forall>m. beneficiary_account_masked r = Some m \<longrightarrow> \<not> (length m = 10 \<and> py_isdigit m))"
  using normaliser_cases [OF assms] by (auto simp: normalised_ok_def pii_ok_def)

theorem normaliser_pii_witness:
  "\<exists>r. normalise_paystack_event example_env example_charge = Inr r \<and>
    beneficiary_account_masked r = Some ''01******89'' \<and> has_pii_masked r"
proof -
  obtain r where r: "normalise_paystack_event example_env example_charge = Inr r"
    "beneficiary_account_masked r = Some ''01******89''" by (rule example_charge_result)
  have "NORMALISERS ''paystack'' = Some normalise_paystack_event" by (simp add: NORMALISERS_def)
  from normaliser_pii [OF this r(1)] r show ?thesis by blast
qed

text \<open>A Paystack amount is exact: an integer number of kobo becomes that number over 100.\<close>

theorem paystack_kobo_exact:
  assumes "normalise_paystack_event env payload = Inr r" and "dict_get payload ''data'' = JObj data"
    and "dict_get data ''amount'' = JInt kobo" and "\<bar>kobo\<bar> \<le> 10 ^ 28"
  shows "amount_raw r = of_int kobo / 100"
  using assms by (rule paystack_amount_exact)

theorem paystack_kobo_exact_witness:
  "\<exists>r. normalise_paystack_event example_env example_charge = Inr r \<and> amount_raw r = 5000050 / 100"
proof -
  obtain r where r: "normalise_paystack_event example_env example_charge = Inr r"
    by (rule example_charge_result)
  have d: "dict_get example_charge ''data'' = JObj (the_dict (dict_get example_charge ''data''))"
    "dict_get (the_dict (dict_get example_charge ''data'')) ''amount'' = JInt 5000050" by code_simp+
  from paystack_kobo_exact [OF r d] r show ?thesis by simp
qed

end
