(* ===== verification/Fx.thy ===== *)
theory Fx
  imports Normaliser
begin

text \<open>
  \<open>src/engine/fx.py\<close> and the table \<open>silver_fx_rate_snapshots\<close> of migration 004, a list of rows in
  insertion order with its CHECK constraints and the partial unique index on the current rate.
  The provider's answer for a pair is a parameter of the capture.
\<close>

record fx_row =
  fx_id :: nat
  fx_pair :: string
  fx_rate :: rat
  captured_at :: time
  valid_from :: time
  valid_until :: "time option"

type_synonym fx_table = "fx_row list"

text \<open>What the HTTP client returns or raises for one pair.\<close>

datatype fetch = HTTPStatusError nat | HTTPError | Body json

definition SUPPORTED_PAIRS :: "string list" where
  "SUPPORTED_PAIRS = [''NGN/USD'', ''NGN/GBP'', ''NGN/EUR'']"

definition FORWARD_RATE_TOLERANCE :: span where
  "FORWARD_RATE_TOLERANCE = 2 * us_hour"

subsection \<open>Capture\<close>

text \<open>\<open>response.json()["conversion_rate"]\<close>\<close>

definition json_item :: "json \<Rightarrow> string \<Rightarrow> exc + json" where
  "json_item j k = (case j of JObj d \<Rightarrow> dict_item d k | _ \<Rightarrow> Inl TypeError)"

text \<open>The rate of a response: \<open>Inl\<close> for an exception that leaves the loop, \<open>None\<close> for a skipped pair.\<close>

definition read_rate :: "json \<Rightarrow> exc + decval option" where
  "read_rate body = (case json_item body ''conversion_rate'' of
     Inl (KeyError k) \<Rightarrow> Inr None
   | Inl e \<Rightarrow> Inl e
   | Inr v \<Rightarrow> (case parse_decimal (py_str v) of
       None \<Rightarrow> Inr None
     | Some DNaN \<Rightarrow> Inr None
     | Some (DInf True) \<Rightarrow> Inr None
     | Some (DInf False) \<Rightarrow> Inr (Some (DInf False))
     | Some (DFinite x) \<Rightarrow> if x \<le> 0 then Inr None else Inr (Some (DFinite x))))"

definition expire_row :: "string \<Rightarrow> time \<Rightarrow> fx_row \<Rightarrow> fx_row" where
  "expire_row pair now r = (if fx_pair r = pair \<and> valid_until r = None then r\<lparr>valid_until := Some now\<rparr> else r)"

definition expire_current :: "string \<Rightarrow> time \<Rightarrow> fx_table \<Rightarrow> exc + fx_table" where
  "expire_current pair now t = (
     if list_all (\<lambda>r. fx_pair r = pair \<and> valid_until r = None \<longrightarrow> valid_from r < now) t
     then Inr (map (expire_row pair now) t)
     else Inl IntegrityError)"

definition insert_rate :: "nat \<Rightarrow> string \<Rightarrow> decval \<Rightarrow> time \<Rightarrow> fx_table \<Rightarrow> exc + fx_table" where
  "insert_rate new_id pair rate now t = (case rate of
     DFinite x \<Rightarrow>
       let stored = pg_round 8 x in
       if 10 ^ 12 \<le> \<bar>stored\<bar> then Inl DatabaseError
       else if stored \<le> 0 \<or> list_ex (\<lambda>r. fx_pair r = pair \<and> valid_until r = None) t then Inl IntegrityError
       else Inr (t @ [\<lparr>fx_id = new_id, fx_pair = pair, fx_rate = stored, captured_at = now,
         valid_from = now, valid_until = None\<rparr>])
   | _ \<Rightarrow> Inl DatabaseError)"

text \<open>One round of the loop: the table and whether a snapshot was created.\<close>

definition capture_pair ::
  "(string \<Rightarrow> fetch) \<Rightarrow> (string \<Rightarrow> nat) \<Rightarrow> time \<Rightarrow> string \<Rightarrow> fx_table \<Rightarrow> exc + fx_table \<times> bool" where
  "capture_pair provider new_id now pair t = (case provider pair of
     HTTPStatusError c \<Rightarrow> Inr (t, False)
   | HTTPError \<Rightarrow> Inr (t, False)
   | Body body \<Rightarrow> sbind (read_rate body) (\<lambda>r. case r of
       None \<Rightarrow> Inr (t, False)
     | Some rate \<Rightarrow> sbind (expire_current pair now t) (\<lambda>t1.
         sbind (insert_rate (new_id pair) pair rate now t1) (\<lambda>t2. Inr (t2, True)))))"

fun capture_loop ::
  "(string \<Rightarrow> fetch) \<Rightarrow> (string \<Rightarrow> nat) \<Rightarrow> time \<Rightarrow> string list \<Rightarrow> fx_table \<Rightarrow> exc + fx_table \<times> string list" where
  "capture_loop provider new_id now [] t = Inr (t, [])"
| "capture_loop provider new_id now (p # ps) t = sbind (capture_pair provider new_id now p t) (\<lambda>(t1, new).
     sbind (capture_loop provider new_id now ps t1) (\<lambda>(t2, created).
       Inr (t2, if new then p # created else created)))"

definition capture_fx_rates ::
  "bool \<Rightarrow> (string \<Rightarrow> fetch) \<Rightarrow> (string \<Rightarrow> nat) \<Rightarrow> time \<Rightarrow> fx_table \<Rightarrow> exc + fx_table \<times> string list" where
  "capture_fx_rates has_api_key provider new_id now t = (
     if \<not> has_api_key then Inr (t, []) else capture_loop provider new_id now SUPPORTED_PAIRS t)"

subsection \<open>Lookup\<close>

definition get_fx_rate_at :: "fx_table \<Rightarrow> string \<Rightarrow> time \<Rightarrow> (nat \<times> rat) option" where
  "get_fx_rate_at t pair tm = (
     let before = sort_key (\<lambda>r. - captured_at r) (filter (\<lambda>r. fx_pair r = pair \<and> captured_at r \<le> tm) t);
         later = sort_key captured_at (filter (\<lambda>r. fx_pair r = pair \<and> tm < captured_at r \<and>
           captured_at r \<le> tm + FORWARD_RATE_TOLERANCE) t)
     in case take 1 before @ take 1 later of [] \<Rightarrow> None | r # _ \<Rightarrow> Some (fx_id r, fx_rate r))"

definition get_current_rate :: "fx_table \<Rightarrow> string \<Rightarrow> exc + (nat \<times> rat) option" where
  "get_current_rate t pair = (case filter (\<lambda>r. fx_pair r = pair \<and> valid_until r = None) t of
     [] \<Rightarrow> Inr None | [r] \<Rightarrow> Inr (Some (fx_id r, fx_rate r)) | _ \<Rightarrow> Inl (RuntimeError ''MultipleResultsFound''))"

subsection \<open>One current rate per pair\<close>

definition current :: "fx_table \<Rightarrow> string \<Rightarrow> fx_row list" where
  "current t pair = filter (\<lambda>r. fx_pair r = pair \<and> valid_until r = None) t"

definition one_current :: "fx_table \<Rightarrow> bool" where
  "one_current t \<longleftrightarrow> (\<forall>pair. length (current t pair) \<le> 1)"

lemma expire_row_keeps [simp]:
  "fx_id (expire_row pair now r) = fx_id r" "fx_pair (expire_row pair now r) = fx_pair r"
  "fx_rate (expire_row pair now r) = fx_rate r" "captured_at (expire_row pair now r) = captured_at r"
  by (simp_all add: expire_row_def)

lemma expire_row_current:
  "valid_until (expire_row pair now r) = None \<longleftrightarrow> valid_until r = None \<and> fx_pair r \<noteq> pair"
  "fx_pair r \<noteq> pair \<Longrightarrow> expire_row pair now r = r"
  by (auto simp: expire_row_def)

lemma expire_current_Inr: "expire_current pair now t = Inr t1 \<Longrightarrow> t1 = map (expire_row pair now) t"
  by (simp add: expire_current_def split: if_splits)

lemma current_expire:
  "current (map (expire_row pair now) t) q = (if q = pair then [] else current t q)"
  by (induction t) (auto simp: current_def expire_row_current)

lemma insert_rate_Inr:
  assumes "insert_rate i pair rate now t = Inr t2"
  shows "\<exists>x. rate = DFinite x \<and> 0 < pg_round 8 x \<and>
    t2 = t @ [\<lparr>fx_id = i, fx_pair = pair, fx_rate = pg_round 8 x, captured_at = now,
        valid_from = now, valid_until = None\<rparr>]"
  using assms by (cases rate) (auto simp: insert_rate_def Let_def split: if_splits)

definition new_row :: "(string \<Rightarrow> nat) \<Rightarrow> string \<Rightarrow> rat \<Rightarrow> time \<Rightarrow> fx_row" where
  "new_row new_id pair x now = \<lparr>fx_id = new_id pair, fx_pair = pair, fx_rate = pg_round 8 x,
     captured_at = now, valid_from = now, valid_until = None\<rparr>"

lemma new_row_sel [simp]:
  "fx_id (new_row new_id pair x now) = new_id pair" "fx_pair (new_row new_id pair x now) = pair"
  "captured_at (new_row new_id pair x now) = now" "valid_until (new_row new_id pair x now) = None"
  by (simp_all add: new_row_def)

lemma capture_pair_cases:
  assumes "capture_pair provider new_id now pair t = Inr (t2, new)"
  shows "\<not> new \<and> t2 = t \<or>
    new \<and> (\<exists>x. 0 < pg_round 8 x \<and> t2 = map (expire_row pair now) t @ [new_row new_id pair x now])"
proof (cases "provider pair")
  case (Body body)
  then obtain r where r: "read_rate body = Inr r"
    using assms by (auto simp: capture_pair_def)
  show ?thesis
  proof (cases r)
    case None
    then show ?thesis using assms by (simp add: capture_pair_def Body r)
  next
    case (Some rate)
    then obtain t1 where e: "expire_current pair now t = Inr t1"
      and i: "insert_rate (new_id pair) pair rate now t1 = Inr t2" and n: new
      using assms by (auto simp: capture_pair_def Body r)
    from insert_rate_Inr [OF i] n show ?thesis
      unfolding expire_current_Inr [OF e] new_row_def by blast
  qed
qed (use assms in \<open>simp_all add: capture_pair_def\<close>)

lemma capture_pair_current:
  assumes "capture_pair provider new_id now pair t = Inr (t2, new)"
  shows "new \<Longrightarrow> \<exists>r. current t2 pair = [r] \<and> fx_id r = new_id pair \<and> captured_at r = now"
    and "q \<noteq> pair \<Longrightarrow> current t2 q = current t q"
  using capture_pair_cases [OF assms] current_expire [of pair now t pair] current_expire [of pair now t q]
  by (auto simp: current_def)

lemma one_current_capture_pair:
  "capture_pair provider new_id now pair t = Inr (t2, new) \<Longrightarrow> one_current t \<Longrightarrow> one_current t2"
  using capture_pair_current [of provider new_id now pair t t2 new] capture_pair_cases [of provider new_id now pair t t2 new]
  unfolding one_current_def by (metis One_nat_def le_refl length_0_conv length_Cons list.size(3))

lemma one_current_capture_loop:
  "capture_loop provider new_id now ps t = Inr (t2, created) \<Longrightarrow> one_current t \<Longrightarrow> one_current t2"
  by (induction ps arbitrary: t created) (auto intro: one_current_capture_pair)

lemma capture_loop_current:
  assumes "capture_loop provider new_id now ps t = Inr (t2, created)" "distinct ps" "p \<in> set created"
  shows "\<exists>r. current t2 p = [r] \<and> fx_id r = new_id p \<and> captured_at r = now"
proof -
  have keep: "capture_loop provider new_id now qs u = Inr (u2, c) \<Longrightarrow> p \<notin> set qs \<Longrightarrow> current u2 p = current u p"
    for qs u u2 c
    by (induction qs arbitrary: u c) (auto dest: capture_pair_current(2) [where q = p])
  have sub: "capture_loop provider new_id now qs u = Inr (u2, c) \<Longrightarrow> set c \<subseteq> set qs" for qs u u2 c
    by (induction qs arbitrary: u c) (auto split: if_splits, blast)
  show ?thesis
    using assms
  proof (induction ps arbitrary: t created)
    case (Cons a ps)
    then obtain t1 new created' where step: "capture_pair provider new_id now a t = Inr (t1, new)"
      and rec: "capture_loop provider new_id now ps t1 = Inr (t2, created')"
      and c: "created = (if new then a # created' else created')" by auto
    show ?case
    proof (cases "p \<in> set created'")
      case True
      then show ?thesis using Cons.IH [OF rec] Cons.prems(2) by simp
    next
      case False
      then have "new" "p = a" using Cons.prems(3) c by (auto split: if_splits)
      then show ?thesis using capture_pair_current(1) [OF step] keep [OF rec] Cons.prems(2) by simp
    qed
  qed simp
qed

lemma get_current_rate_total:
  "one_current t \<Longrightarrow> get_current_rate t pair = Inr (case current t pair of [] \<Rightarrow> None | r # _ \<Rightarrow> Some (fx_id r, fx_rate r))"
proof -
  assume "one_current t"
  then have "length (current t pair) \<le> 1" by (simp add: one_current_def)
  then show ?thesis
    by (cases "current t pair"; cases "tl (current t pair)") (auto simp: get_current_rate_def current_def)
qed

subsection \<open>Point-in-time lookup\<close>

definition rows_before :: "fx_table \<Rightarrow> string \<Rightarrow> time \<Rightarrow> fx_row list" where
  "rows_before t pair tm = filter (\<lambda>r. fx_pair r = pair \<and> captured_at r \<le> tm) t"

definition rows_later :: "fx_table \<Rightarrow> string \<Rightarrow> time \<Rightarrow> fx_row list" where
  "rows_later t pair tm = filter (\<lambda>r. fx_pair r = pair \<and> tm < captured_at r \<and>
     captured_at r \<le> tm + FORWARD_RATE_TOLERANCE) t"

lemma get_fx_rate_cases:
  "get_fx_rate_at t pair tm = (case sort_key (\<lambda>r. - captured_at r) (rows_before t pair tm) of
     r # _ \<Rightarrow> Some (fx_id r, fx_rate r)
   | [] \<Rightarrow> (case sort_key captured_at (rows_later t pair tm) of r # _ \<Rightarrow> Some (fx_id r, fx_rate r) | [] \<Rightarrow> None))"
  by (simp add: get_fx_rate_at_def rows_before_def rows_later_def split: list.split)

lemma first_row_None: "(case xs of r # rs \<Rightarrow> Some (f r) | [] \<Rightarrow> z) = None \<longleftrightarrow> xs = [] \<and> z = None"
  by (cases xs) auto

lemma get_fx_rate_None: "get_fx_rate_at t pair tm = None \<longleftrightarrow> rows_before t pair tm = [] \<and> rows_later t pair tm = []"
  unfolding get_fx_rate_cases first_row_None by simp

lemma get_fx_rate_Some:
  assumes "get_fx_rate_at t pair tm = Some (i, rate)"
  shows "\<exists>r \<in> set t. fx_pair r = pair \<and> fx_id r = i \<and> fx_rate r = rate \<and>
    (captured_at r \<le> tm \<and> (\<forall>s \<in> set t. fx_pair s = pair \<and> captured_at s \<le> tm \<longrightarrow> captured_at s \<le> captured_at r) \<or>
     tm < captured_at r \<and> captured_at r \<le> tm + FORWARD_RATE_TOLERANCE \<and>
       (\<forall>s \<in> set t. fx_pair s = pair \<longrightarrow> captured_at r \<le> captured_at s))"
proof (cases "sort_key (\<lambda>r. - captured_at r) (rows_before t pair tm)")
  case (Cons r rest)
  then have "get_fx_rate_at t pair tm = Some (fx_id r, fx_rate r)" by (simp add: get_fx_rate_cases)
  moreover have "r \<in> set (rows_before t pair tm)" by (rule sort_key_mem [OF Cons])
  moreover have "captured_at s \<le> captured_at r" if "s \<in> set t" "fx_pair s = pair" "captured_at s \<le> tm" for s
    using sort_key_hd_least [OF Cons, of s] that by (simp add: rows_before_def)
  ultimately show ?thesis using assms by (auto simp: rows_before_def)
next
  case Nil
  then have none: "\<And>s. s \<in> set t \<Longrightarrow> fx_pair s = pair \<Longrightarrow> tm < captured_at s"
    by (auto simp: rows_before_def filter_empty_conv not_le)
  obtain r rest where Cons: "sort_key captured_at (rows_later t pair tm) = r # rest"
    using assms Nil by (auto simp: get_fx_rate_cases split: list.splits)
  then have "get_fx_rate_at t pair tm = Some (fx_id r, fx_rate r)" using Nil by (simp add: get_fx_rate_cases)
  moreover have m: "r \<in> set (rows_later t pair tm)" by (rule sort_key_mem [OF Cons])
  moreover have "captured_at r \<le> captured_at s" if s: "s \<in> set t" "fx_pair s = pair" for s
  proof (cases "captured_at s \<le> tm + FORWARD_RATE_TOLERANCE")
    case True
    then show ?thesis using sort_key_hd_least [OF Cons, of s] s none by (simp add: rows_later_def)
  next
    case False
    then show ?thesis using m by (simp add: rows_later_def)
  qed
  ultimately show ?thesis using assms by (auto simp: rows_later_def)
qed

text \<open>A capture after \<open>tm\<close> leaves the rows before \<open>tm\<close> unchanged but for their end of validity.\<close>

lemma insort_key_map: "insort_key f (g x) (map g xs) = map g (insort_key (\<lambda>y. f (g y)) x xs)"
  by (induction xs) auto

lemma sort_key_map: "sort_key f (map g xs) = map g (sort_key (\<lambda>y. f (g y)) xs)"
  by (induction xs) (simp_all add: insort_key_map)

lemma rows_before_expire: "rows_before (map (expire_row p now) t) q tm = map (expire_row p now) (rows_before t q tm)"
  by (simp add: rows_before_def filter_map comp_def)

lemma capture_pair_lookup:
  assumes step: "capture_pair provider new_id now p t = Inr (t2, new)" and tm: "tm < now"
    and ne: "rows_before t q tm \<noteq> []"
  shows "rows_before t2 q tm \<noteq> [] \<and> get_fx_rate_at t2 q tm = get_fx_rate_at t q tm"
proof (cases new)
  case False
  then show ?thesis using capture_pair_cases [OF step] ne by simp
next
  case True
  then obtain x where t2: "t2 = map (expire_row p now) t @ [new_row new_id p x now]"
    using capture_pair_cases [OF step] by blast
  have rb: "rows_before t2 q tm = map (expire_row p now) (rows_before t q tm)"
    using tm by (simp add: t2 rows_before_def filter_map comp_def)
  obtain r rest where s: "sort_key (\<lambda>r. - captured_at r) (rows_before t q tm) = r # rest"
    using ne by (metis sort_key_Nil_iff list.exhaust)
  show ?thesis using ne by (simp add: get_fx_rate_cases rb sort_key_map s)
qed

lemma capture_loop_lookup:
  "capture_loop provider new_id now ps t = Inr (t2, created) \<Longrightarrow> tm < now \<Longrightarrow> rows_before t q tm \<noteq> [] \<Longrightarrow>
    get_fx_rate_at t2 q tm = get_fx_rate_at t q tm"
proof (induction ps arbitrary: t created)
  case (Cons a ps)
  then obtain t1 new created' where step: "capture_pair provider new_id now a t = Inr (t1, new)"
    and rec: "capture_loop provider new_id now ps t1 = Inr (t2, created')" by auto
  from capture_pair_lookup [OF step Cons.prems(2,3)] Cons.IH [OF rec Cons.prems(2)] show ?case by simp
qed auto

subsection \<open>Conversion\<close>

lemma convert_to_ngn_error:
  assumes "convert_to_ngn a c rate = Inr n" "py_upper c \<noteq> ''NGN''"
  shows "0 < rate" "\<bar>n - dec (a / rate)\<bar> \<le> 1 / (2 * 10 ^ 6)" "0 \<le> a \<Longrightarrow> 0 \<le> n"
proof -
  have r: "0 < rate" "n = quant 6 (dec (a / rate))"
    using assms by (auto simp: convert_to_ngn_def Let_def split: if_splits)
  then show "0 < rate" "\<bar>n - dec (a / rate)\<bar> \<le> 1 / (2 * 10 ^ 6)" using quant_error [of 6] by auto
  show "0 \<le> n" if "0 \<le> a" using r that by (simp add: quant.nonneg dec.nonneg)
qed

subsection \<open>Properties\<close>

definition example_fx :: fx_table where
  "example_fx = [\<lparr>fx_id = 1, fx_pair = ''NGN/USD'', fx_rate = 63 / 100000, captured_at = 1000,
     valid_from = 1000, valid_until = None\<rparr>]"

definition example_provider :: "string \<Rightarrow> fetch" where
  "example_provider p = (if p = ''NGN/USD'' then Body (JObj [(''conversion_rate'', JFloat (1 / 2))])
     else if p = ''NGN/GBP'' then HTTPStatusError 503 else HTTPError)"

lemma example_capture:
  "case capture_fx_rates True example_provider (\<lambda>p. 2) 5000 example_fx of
     Inr (t, created) \<Rightarrow> created = [''NGN/USD''] \<and> length t = 2 | Inl e \<Rightarrow> False"
  by code_simp

lemma example_capture_result:
  obtains t where "capture_fx_rates True example_provider (\<lambda>p. 2) 5000 example_fx = Inr (t, [''NGN/USD''])"
  using example_capture by (auto split: sum.splits)

lemma example_one_current: "one_current example_fx"
  by (auto simp: one_current_def current_def example_fx_def)



text \<open>
  Point-in-time lookup: a rate found for a time is the latest captured at or before it; only when
  there is none, the first captured within two hours after it; and nothing is found exactly when
  there is no snapshot in either range.
\<close>

theorem fx_lookup_point_in_time:
  "case get_fx_rate_at t pair tm of
     Some (i, rate) \<Rightarrow> \<exists>r \<in> set t. fx_pair r = pair \<and> fx_id r = i \<and> fx_rate r = rate \<and>
       (captured_at r \<le> tm \<and> (\<forall>s \<in> set t. fx_pair s = pair \<and> captured_at s \<le> tm \<longrightarrow> captured_at s \<le> captured_at r) \<or>
        tm < captured_at r \<and> captured_at r \<le> tm + 2 * us_hour \<and>
          (\<forall>s \<in> set t. fx_pair s = pair \<longrightarrow> captured_at r \<le> captured_at s))
   | None \<Rightarrow> \<forall>s \<in> set t. fx_pair s = pair \<longrightarrow> tm + 2 * us_hour < captured_at s"
proof (cases "get_fx_rate_at t pair tm")
  case None
  then have "\<forall>s \<in> set t. fx_pair s = pair \<longrightarrow> tm + 2 * us_hour < captured_at s"
    by (simp add: get_fx_rate_None rows_before_def rows_later_def filter_empty_conv FORWARD_RATE_TOLERANCE_def)
      force
  then show ?thesis using None by simp
next
  case (Some ir)
  then show ?thesis using get_fx_rate_Some [of t pair tm "fst ir" "snd ir"]
    by (auto simp: FORWARD_RATE_TOLERANCE_def split: prod.splits)
qed

theorem fx_lookup_point_in_time_witness:
  "get_fx_rate_at example_fx ''NGN/USD'' 2000 = Some (1, 63 / 100000) \<and> (\<exists>r \<in> set example_fx. fx_id r = 1)"
proof -
  have "get_fx_rate_at example_fx ''NGN/USD'' 2000 = Some (1, 63 / 100000)" by code_simp
  then show ?thesis using fx_lookup_point_in_time [of example_fx "''NGN/USD''" 2000] by auto
qed

text \<open>
  Conversions are reproducible: once a snapshot exists at or before a time, no later capture
  changes the rate that time is converted with.
\<close>

theorem fx_lookup_stable:
  assumes "capture_fx_rates has_key provider new_id now t = Inr (t', created)" and "tm < now"
    and "r \<in> set t" and "fx_pair r = pair" and "captured_at r \<le> tm"
  shows "get_fx_rate_at t' pair tm = get_fx_rate_at t pair tm"
proof -
  have "rows_before t pair tm \<noteq> []" using assms(3-5) by (auto simp: rows_before_def filter_empty_conv)
  then show ?thesis
    using assms(1,2) capture_loop_lookup by (auto simp: capture_fx_rates_def split: if_splits)
qed

theorem fx_lookup_stable_witness:
  "\<exists>t. capture_fx_rates True example_provider (\<lambda>p. 2) 5000 example_fx = Inr (t, [''NGN/USD'']) \<and>
    get_fx_rate_at t ''NGN/USD'' 2000 = get_fx_rate_at example_fx ''NGN/USD'' 2000"
proof -
  obtain t where t: "capture_fx_rates True example_provider (\<lambda>p. 2) 5000 example_fx = Inr (t, [''NGN/USD''])"
    by (rule example_capture_result)
  have "hd example_fx \<in> set example_fx" "fx_pair (hd example_fx) = ''NGN/USD''" "captured_at (hd example_fx) \<le> 2000"
    by (simp_all add: example_fx_def)
  from fx_lookup_stable [OF t _ this] t show ?thesis by auto
qed

text \<open>
  Conversion to naira: with a positive rate and no overflow the result is the 28-digit quotient
  to within half a millionth of a naira, non-negative for a non-negative amount; a rate that is
  not positive is refused, and naira amounts are returned unchanged.
\<close>

theorem convert_to_ngn_accuracy:
  "case convert_to_ngn a c rate of
     Inr n \<Rightarrow> if py_upper c = ''NGN'' then n = a
       else 0 < rate \<and> \<bar>n - dec (a / rate)\<bar> \<le> 1 / (2 * 10 ^ 6) \<and> (if a < 0 then True else 0 \<le> n)
   | Inl e \<Rightarrow> py_upper c \<noteq> ''NGN'' \<and> (e = ValueError ''FX rate must be positive'' \<and> rate \<le> 0 \<or>
       e = InvalidOperation \<and> 0 < rate \<and> 10 ^ 22 \<le> \<bar>quant 6 (dec (a / rate))\<bar>)"
proof (cases "convert_to_ngn a c rate")
  case (Inl e)
  then show ?thesis by (auto simp: convert_to_ngn_def Let_def split: if_splits)
next
  case (Inr n)
  show ?thesis
  proof (cases "py_upper c = ''NGN''")
    case True
    then show ?thesis using Inr by (simp add: convert_to_ngn_def)
  next
    case False
    then show ?thesis using convert_to_ngn_error [OF Inr False] Inr by simp
  qed
qed

end
