(* ===== verification/Cbn_Report.thy ===== *)
theory Cbn_Report
  imports Clock
begin

text \<open>
  \<open>src/engine/cbn_report.py\<close>: the daily return. A transaction is the dictionary the caller
  passes, with the keys the code reads; an absent key takes the default of \<open>dict.get\<close>. The
  breakdown per PSP is a dictionary in insertion order. The random report id and the generation
  time are arguments.
\<close>

record report_txn =
  rt_amount :: "rat option"
  rt_psp :: "string option"
  rt_match_status :: "string option"
  rt_currency :: "string option"
  rt_beneficiary :: "string option option"
  rt_timestamp :: "string option"

record report_disc =
  rd_status :: "string option"
  rd_amount :: "rat option"

record psp_line =
  pl_count :: nat
  pl_volume :: rat
  pl_matched :: nat
  pl_unmatched :: nat

record daily_summary =
  report_date :: string
  report_id :: string
  report_status :: string
  generated_at :: string
  total_transactions :: nat
  total_volume_ngn :: rat
  matched_transactions :: nat
  unmatched_transactions :: nat
  match_rate_pct :: rat
  psp_breakdown :: "(string \<times> psp_line) list"
  cross_border_count :: nat
  cross_border_volume_ngn :: rat
  cross_border_currencies :: "string list"
  open_discrepancies :: nat
  resolved_discrepancies :: nat
  total_exposure_ngn :: rat
  suspicious_transaction_count :: nat
  velocity_anomaly_count :: nat

definition get_or :: "'a \<Rightarrow> 'a option \<Rightarrow> 'a" where
  "get_or d v = (case v of None \<Rightarrow> d | Some x \<Rightarrow> x)"

definition txn_amount :: "report_txn \<Rightarrow> rat" where
  "txn_amount t = get_or 0 (rt_amount t)"

definition txn_matched :: "report_txn \<Rightarrow> bool" where
  "txn_matched t \<longleftrightarrow> rt_match_status t = Some ''matched''"

definition txn_cross_border :: "report_txn \<Rightarrow> bool" where
  "txn_cross_border t \<longleftrightarrow> get_or ''NGN'' (rt_currency t) \<noteq> ''NGN''"

subsection \<open>Volumes\<close>

definition new_line :: psp_line where
  "new_line = \<lparr>pl_count = 0, pl_volume = 0, pl_matched = 0, pl_unmatched = 0\<rparr>"

definition add_to_line :: "report_txn \<Rightarrow> psp_line \<Rightarrow> psp_line" where
  "add_to_line t l = (let l1 = l\<lparr>pl_count := pl_count l + 1, pl_volume := dec (pl_volume l + txn_amount t)\<rparr> in
     if txn_matched t then l1\<lparr>pl_matched := pl_matched l + 1\<rparr> else l1\<lparr>pl_unmatched := pl_unmatched l + 1\<rparr>)"

fun add_to_breakdown :: "string \<Rightarrow> report_txn \<Rightarrow> (string \<times> psp_line) list \<Rightarrow> (string \<times> psp_line) list" where
  "add_to_breakdown psp t [] = [(psp, add_to_line t new_line)]"
| "add_to_breakdown psp t ((p, l) # ls) = (if p = psp then (p, add_to_line t l) # ls
     else (p, l) # add_to_breakdown psp t ls)"

definition add_txn :: "daily_summary \<Rightarrow> report_txn \<Rightarrow> daily_summary" where
  "add_txn s t = (
     let amount = txn_amount t; psp = get_or ''unknown'' (rt_psp t); currency = get_or ''NGN'' (rt_currency t);
         s1 = s\<lparr>total_volume_ngn := dec (total_volume_ngn s + amount),
           psp_breakdown := add_to_breakdown psp t (psp_breakdown s)\<rparr>;
         s2 = (if txn_matched t then s1\<lparr>matched_transactions := matched_transactions s1 + 1\<rparr>
           else s1\<lparr>unmatched_transactions := unmatched_transactions s1 + 1\<rparr>)
     in if currency \<noteq> ''NGN'' then s2\<lparr>cross_border_count := cross_border_count s2 + 1,
           cross_border_volume_ngn := dec (cross_border_volume_ngn s2 + amount),
           cross_border_currencies := (if currency \<in> set (cross_border_currencies s2)
             then cross_border_currencies s2 else cross_border_currencies s2 @ [currency])\<rparr>
        else s2)"

definition add_disc :: "daily_summary \<Rightarrow> report_disc \<Rightarrow> daily_summary" where
  "add_disc s d = (if rd_status d = Some ''open'' then s\<lparr>open_discrepancies := open_discrepancies s + 1,
       total_exposure_ngn := dec (total_exposure_ngn s + get_or 0 (rd_amount d))\<rparr>
     else if rd_status d = Some ''resolved'' then s\<lparr>resolved_discrepancies := resolved_discrepancies s + 1\<rparr>
     else s)"

subsection \<open>Flags\<close>

definition detect_suspicious :: "report_txn list \<Rightarrow> nat" where
  "detect_suspicious ts = length (filter (\<lambda>t. 4500000 \<le> txn_amount t \<and> txn_amount t < 5000000) ts)"

definition beneficiary_key :: "report_txn \<Rightarrow> string option" where
  "beneficiary_key t = get_or (Some ''unknown'') (rt_beneficiary t)"

text \<open>Subtracting an aware and a naive datetime raises; the code skips that window.\<close>

definition within_ten_minutes :: "string \<Rightarrow> string \<Rightarrow> bool" where
  "within_ten_minutes a b = (case (from_isoformat a, from_isoformat b) of
     (Some (t1, None), Some (t2, None)) \<Rightarrow> total_seconds (t2 - t1) < 600
   | (Some (t1, Some o1), Some (t2, Some o2)) \<Rightarrow> total_seconds ((t2 - o2) - (t1 - o1)) < 600
   | _ \<Rightarrow> False)"

definition velocity_anomaly :: "string list \<Rightarrow> bool" where
  "velocity_anomaly stamps = (let ts = sort stamps in
     5 < length stamps \<and> list_ex (\<lambda>i. within_ten_minutes (ts ! i) (ts ! (i + 5))) [0..<length ts - 5])"

definition detect_velocity_anomalies :: "report_txn list \<Rightarrow> nat" where
  "detect_velocity_anomalies ts = length (filter (\<lambda>k.
     velocity_anomaly (map (\<lambda>t. get_or [] (rt_timestamp t)) (filter (\<lambda>t. beneficiary_key t = k) ts)))
     (remdups (map beneficiary_key ts)))"

definition empty_summary :: "string \<Rightarrow> string \<Rightarrow> string \<Rightarrow> daily_summary" where
  "empty_summary date rid generated = \<lparr>report_date = date, report_id = rid, report_status = ''draft'',
     generated_at = generated, total_transactions = 0, total_volume_ngn = 0, matched_transactions = 0,
     unmatched_transactions = 0, match_rate_pct = 0, psp_breakdown = [], cross_border_count = 0,
     cross_border_volume_ngn = 0, cross_border_currencies = [], open_discrepancies = 0,
     resolved_discrepancies = 0, total_exposure_ngn = 0, suspicious_transaction_count = 0,
     velocity_anomaly_count = 0\<rparr>"

definition rate_pct :: "nat \<Rightarrow> nat \<Rightarrow> rat" where
  "rate_pct m n = fl (quant 2 (fl (fl (of_nat m / of_nat n) * 100)))"

definition generate_daily_return ::
  "string \<Rightarrow> string \<Rightarrow> string \<Rightarrow> report_txn list \<Rightarrow> report_disc list \<Rightarrow> daily_summary" where
  "generate_daily_return date rid generated ts ds = (
     let s0 = (empty_summary date rid generated)\<lparr>total_transactions := length ts\<rparr>;
         s1 = foldl add_txn s0 ts;
         s2 = (if 0 < total_transactions s1
           then s1\<lparr>match_rate_pct := rate_pct (matched_transactions s1) (total_transactions s1)\<rparr> else s1);
         s3 = foldl add_disc s2 ds
     in s3\<lparr>suspicious_transaction_count := detect_suspicious ts,
          velocity_anomaly_count := detect_velocity_anomalies ts, report_status := ''generated''\<rparr>)"

subsection \<open>CSV export\<close>

text \<open>
  \<open>csv.writer\<close> with its default dialect: a field is quoted when it contains a comma, a quote or a
  line break, quotes inside it are doubled, rows end in CRLF.
\<close>

definition needs_quotes :: "string \<Rightarrow> bool" where
  "needs_quotes f \<longleftrightarrow> (\<exists>c \<in> set f. c = CHR '','' \<or> c = CHR 0x22 \<or> c = CHR 0x0D \<or> c = CHR 0x0A)"

definition csv_field :: "string \<Rightarrow> string" where
  "csv_field f = (if needs_quotes f
     then [CHR 0x22] @ concat (map (\<lambda>c. if c = CHR 0x22 then [c, c] else [c]) f) @ [CHR 0x22] else f)"

definition csv_row :: "string list \<Rightarrow> string" where
  "csv_row fs = (if fs = [[]] then [CHR 0x22, CHR 0x22] else py_join '','' (map csv_field fs)) @ [CHR 0x0D, CHR 0x0A]"

text \<open>\<open>f"{x:,.2f}"\<close>\<close>

fun group3 :: "string \<Rightarrow> string" where
  "group3 (a # b # c # d # ds) = a # b # c # CHR '','' # group3 (d # ds)"
| "group3 ds = ds"

definition money :: "rat \<Rightarrow> string" where
  "money x = (let n = rhe (\<bar>x\<bar> * 100); frac = show_nat (n mod 100) in
     (if x < 0 then ''-'' else '''') @ rev (group3 (rev (show_nat (n div 100)))) @ ''.'' @
     (if length frac < 2 then CHR ''0'' # frac else frac))"

record txn_line =
  tl_reference :: string
  tl_psp :: string
  tl_category :: string
  tl_amount_ngn :: rat
  tl_currency :: string
  tl_fx_rate :: "(rat \<times> string) option"
  tl_settlement_status :: string
  tl_beneficiary_masked :: string
  tl_timestamp :: string
  tl_match_status :: string
  tl_discrepancy_type :: "string option"

definition show_count :: "nat \<Rightarrow> string" where
  "show_count n = show_nat (int n)"

definition breakdown_row :: "string \<times> psp_line \<Rightarrow> string list" where
  "breakdown_row = (\<lambda>(psp, l). [psp, show_count (pl_count l), money (pl_volume l),
     show_count (pl_matched l), show_count (pl_unmatched l)])"

definition line_row :: "txn_line \<Rightarrow> string list" where
  "line_row l = [tl_reference l, tl_psp l, tl_category l, money (tl_amount_ngn l), tl_currency l,
     (case tl_fx_rate l of None \<Rightarrow> '''' | Some (v, s) \<Rightarrow> if v = 0 then '''' else s),
     tl_settlement_status l, tl_beneficiary_masked l, tl_timestamp l, tl_match_status l,
     get_or '''' (tl_discrepancy_type l)]"

definition csv_rows :: "daily_summary \<Rightarrow> txn_line list \<Rightarrow> string list list" where
  "csv_rows s ls =
     [[''CBN DAILY TRANSACTION RETURN''],
      [''Report Date'', report_date s],
      [''Report ID'', report_id s],
      [''Generated At'', generated_at s],
      [''Status'', report_status s],
      [],
      [''SUMMARY''],
      [''Total Transactions'', show_count (total_transactions s)],
      [''Total Volume (NGN)'', money (total_volume_ngn s)],
      [''Match Rate'', float_repr (match_rate_pct s) @ ''%''],
      [''Open Discrepancies'', show_count (open_discrepancies s)],
      [''Total Exposure (NGN)'', money (total_exposure_ngn s)],
      [''Cross-Border Transactions'', show_count (cross_border_count s)],
      [''Suspicious Flags'', show_count (suspicious_transaction_count s)],
      [],
      [''PSP BREAKDOWN''],
      [''PSP'', ''Count'', ''Volume (NGN)'', ''Matched'', ''Unmatched'']] @
     map breakdown_row (psp_breakdown s) @ [[]] @
     (if ls = [] then [] else
       [[''TRANSACTION DETAIL''],
        [''Reference'', ''PSP'', ''Category'', ''Amount (NGN)'', ''Currency'', ''FX Rate'',
         ''Settlement Status'', ''Beneficiary'', ''Timestamp'', ''Match Status'', ''Discrepancy Type'']] @
       map line_row ls)"

definition export_to_csv :: "daily_summary \<Rightarrow> txn_line list \<Rightarrow> string" where
  "export_to_csv s ls = concat (map csv_row (csv_rows s ls))"

subsection \<open>Totals\<close>

lemma foldl_add_txn:
  "matched_transactions (foldl add_txn s ts) = matched_transactions s + length (filter txn_matched ts)"
  "unmatched_transactions (foldl add_txn s ts) = unmatched_transactions s + length (filter (\<lambda>t. \<not> txn_matched t) ts)"
  "cross_border_count (foldl add_txn s ts) = cross_border_count s + length (filter txn_cross_border ts)"
  "total_transactions (foldl add_txn s ts) = total_transactions s"
  "total_volume_ngn (foldl add_txn s ts) = foldl (\<lambda>v t. dec (v + txn_amount t)) (total_volume_ngn s) ts"
  by (induction ts arbitrary: s) (auto simp: add_txn_def Let_def txn_cross_border_def)

definition line_ok :: "psp_line \<Rightarrow> bool" where
  "line_ok l \<longleftrightarrow> pl_matched l + pl_unmatched l = pl_count l"

definition breakdown_total :: "(psp_line \<Rightarrow> nat) \<Rightarrow> (string \<times> psp_line) list \<Rightarrow> nat" where
  "breakdown_total f ls = sum_list (map (f \<circ> snd) ls)"

lemma add_to_breakdown_totals:
  "breakdown_total pl_count (add_to_breakdown p t ls) = breakdown_total pl_count ls + 1"
  "breakdown_total pl_matched (add_to_breakdown p t ls) = breakdown_total pl_matched ls + (if txn_matched t then 1 else 0)"
  "breakdown_total pl_unmatched (add_to_breakdown p t ls) = breakdown_total pl_unmatched ls + (if txn_matched t then 0 else 1)"
  "(\<forall>(p, l) \<in> set ls. line_ok l) \<Longrightarrow> \<forall>(p, l) \<in> set (add_to_breakdown p t ls). line_ok l"
  "distinct (map fst ls) \<Longrightarrow> distinct (map fst (add_to_breakdown p t ls)) \<and>
    set (map fst (add_to_breakdown p t ls)) = insert p (set (map fst ls))"
  by (induction p t ls rule: add_to_breakdown.induct)
    (auto simp: breakdown_total_def add_to_line_def new_line_def line_ok_def Let_def)

lemma add_txn_breakdown:
  "psp_breakdown (add_txn s t) = add_to_breakdown (get_or ''unknown'' (rt_psp t)) t (psp_breakdown s)"
  by (simp add: add_txn_def Let_def)

lemma foldl_breakdown:
  "breakdown_total pl_count (psp_breakdown (foldl add_txn s ts)) = breakdown_total pl_count (psp_breakdown s) + length ts"
  "breakdown_total pl_matched (psp_breakdown (foldl add_txn s ts)) =
     breakdown_total pl_matched (psp_breakdown s) + length (filter txn_matched ts)"
  by (induction ts arbitrary: s) (simp_all add: add_txn_breakdown add_to_breakdown_totals)

lemma foldl_breakdown_ok:
  assumes "\<forall>(p, l) \<in> set (psp_breakdown s). line_ok l" "distinct (map fst (psp_breakdown s))"
  shows "(\<forall>(p, l) \<in> set (psp_breakdown (foldl add_txn s ts)). line_ok l) \<and>
    distinct (map fst (psp_breakdown (foldl add_txn s ts)))"
  using assms
proof (induction ts arbitrary: s)
  case (Cons t ts)
  have "\<forall>(p, l) \<in> set (psp_breakdown (add_txn s t)). line_ok l" "distinct (map fst (psp_breakdown (add_txn s t)))"
    using add_to_breakdown_totals(4,5) Cons.prems unfolding add_txn_breakdown by blast+
  from Cons.IH [OF this] show ?case by simp
qed simp

lemma foldl_add_disc:
  "f (foldl add_disc s ds) = f s" if "\<And>s d. f (add_disc s d) = f s"
  using that by (induction ds arbitrary: s) simp_all

lemma add_disc_keeps:
  "matched_transactions (add_disc s d) = matched_transactions s"
  "unmatched_transactions (add_disc s d) = unmatched_transactions s"
  "total_transactions (add_disc s d) = total_transactions s" "match_rate_pct (add_disc s d) = match_rate_pct s"
  "psp_breakdown (add_disc s d) = psp_breakdown s" "cross_border_count (add_disc s d) = cross_border_count s"
  by (simp_all add: add_disc_def)

lemmas foldl_add_disc_keeps =
  foldl_add_disc [of matched_transactions, OF add_disc_keeps(1)]
  foldl_add_disc [of unmatched_transactions, OF add_disc_keeps(2)]
  foldl_add_disc [of total_transactions, OF add_disc_keeps(3)]
  foldl_add_disc [of match_rate_pct, OF add_disc_keeps(4)]
  foldl_add_disc [of psp_breakdown, OF add_disc_keeps(5)]
  foldl_add_disc [of cross_border_count, OF add_disc_keeps(6)]

lemma exposure_nonneg:
  "0 \<le> total_exposure_ngn s \<Longrightarrow> list_all (\<lambda>d. 0 \<le> get_or 0 (rd_amount d)) ds \<Longrightarrow>
    0 \<le> total_exposure_ngn (foldl add_disc s ds)"
  by (induction ds arbitrary: s) (auto simp: add_disc_def dec.nonneg)

lemma rate_pct_range: "m \<le> n \<Longrightarrow> 0 < n \<Longrightarrow> 0 \<le> rate_pct m n \<and> rate_pct m n \<le> 100"
proof -
  assume mn: "m \<le> n" "0 < n"
  have u: "0 \<le> fl (of_nat m / of_nat n) \<and> fl (of_nat m / of_nat n) \<le> (1::rat)"
    using mn by (intro fl.ratio_unit) auto
  have h: "fl 100 = 100" using fl_int [of 100] by simp
  have q: "quant 2 100 = 100" using quant_of_int [of 2 100] by simp
  let ?x = "fl (of_nat m / of_nat n) :: rat"
  have "fl (?x * 100) \<le> 100" using u h by (intro fl.le_fixed) auto
  then have "quant 2 (fl (?x * 100)) \<le> 100" using q by (intro quant.le_fixed) auto
  then have "rate_pct m n \<le> 100" unfolding rate_pct_def using h by (intro fl.le_fixed) auto
  then show ?thesis using u by (simp add: rate_pct_def fl.nonneg quant.nonneg)
qed

definition counted :: "string \<Rightarrow> string \<Rightarrow> string \<Rightarrow> report_txn list \<Rightarrow> daily_summary" where
  "counted date rid gen ts = foldl add_txn ((empty_summary date rid gen)\<lparr>total_transactions := length ts\<rparr>) ts"

lemma counted_sel:
  "matched_transactions (counted date rid gen ts) = length (filter txn_matched ts)"
  "unmatched_transactions (counted date rid gen ts) = length (filter (\<lambda>t. \<not> txn_matched t) ts)"
  "total_transactions (counted date rid gen ts) = length ts"
  by (simp_all add: counted_def foldl_add_txn empty_summary_def)

lemma foldl_add_txn_rate: "match_rate_pct (foldl add_txn s ts) = match_rate_pct s"
  by (induction ts arbitrary: s) (auto simp: add_txn_def Let_def)

lemma generated_summary:
  "matched_transactions (generate_daily_return date rid gen ts ds) = length (filter txn_matched ts)"
  "unmatched_transactions (generate_daily_return date rid gen ts ds) = length (filter (\<lambda>t. \<not> txn_matched t) ts)"
  "total_transactions (generate_daily_return date rid gen ts ds) = length ts"
  "psp_breakdown (generate_daily_return date rid gen ts ds) = psp_breakdown (counted date rid gen ts)"
  "match_rate_pct (generate_daily_return date rid gen ts ds) =
    (if ts = [] then 0 else rate_pct (length (filter txn_matched ts)) (length ts))"
  unfolding generate_daily_return_def counted_def [symmetric] Let_def
  by (simp_all add: foldl_add_disc_keeps counted_sel) (simp add: counted_def empty_summary_def)

subsection \<open>Reading the export back\<close>

text \<open>
  A reader of the quoted format: it starts a field, is inside a bare or a quoted field, has just
  seen a quote inside a quoted field, or is between the two characters of a row end.
\<close>

datatype csv_state = Start | Bare | Quoted | QuoteSeen | RowEnd

fun csv_scan :: "csv_state \<Rightarrow> string \<Rightarrow> string list \<Rightarrow> string \<Rightarrow> string list list" where
  "csv_scan st acc row [] = []"
| "csv_scan Start acc row (c # cs) = (if c = CHR 0x22 then csv_scan Quoted [] row cs
     else if c = CHR '','' then csv_scan Start [] (row @ [[]]) cs
     else if c = CHR 0x0D then (if row = [] then [] else row @ [[]]) # csv_scan RowEnd [] [] cs
     else csv_scan Bare [c] row cs)"
| "csv_scan Bare acc row (c # cs) = (if c = CHR '','' then csv_scan Start [] (row @ [acc]) cs
     else if c = CHR 0x0D then (row @ [acc]) # csv_scan RowEnd [] [] cs
     else csv_scan Bare (acc @ [c]) row cs)"
| "csv_scan Quoted acc row (c # cs) = (if c = CHR 0x22 then csv_scan QuoteSeen acc row cs
     else csv_scan Quoted (acc @ [c]) row cs)"
| "csv_scan QuoteSeen acc row (c # cs) = (if c = CHR 0x22 then csv_scan Quoted (acc @ [c]) row cs
     else if c = CHR '','' then csv_scan Start [] (row @ [acc]) cs
     else if c = CHR 0x0D then (row @ [acc]) # csv_scan RowEnd [] [] cs
     else csv_scan QuoteSeen acc row cs)"
| "csv_scan RowEnd acc row (c # cs) = csv_scan Start [] [] cs"

definition csv_read :: "string \<Rightarrow> string list list" where
  "csv_read s = csv_scan Start [] [] s"

definition delim :: "string \<Rightarrow> bool" where
  "delim rest \<longleftrightarrow> (\<exists>cs. rest = CHR '','' # cs \<or> rest = CHR 0x0D # cs)"

lemma scan_quoted:
  "csv_scan Quoted acc row (concat (map (\<lambda>c. if c = CHR 0x22 then [c, c] else [c]) f) @ CHR 0x22 # rest) =
    csv_scan QuoteSeen (acc @ f) row rest"
  by (induction f arbitrary: acc) simp_all

lemma scan_bare: "\<not> needs_quotes f \<Longrightarrow> csv_scan Bare acc row (f @ rest) = csv_scan Bare (acc @ f) row rest"
  by (induction f arbitrary: acc) (simp_all add: needs_quotes_def)

lemma scan_field_comma:
  "csv_scan Start [] row (csv_field f @ CHR '','' # rest) = csv_scan Start [] (row @ [f]) rest"
proof (cases "needs_quotes f")
  case True
  then show ?thesis by (simp add: csv_field_def scan_quoted)
next
  case False
  then show ?thesis
  proof (cases f)
    case (Cons c g)
    then have "\<not> needs_quotes g" "c \<noteq> CHR 0x22" "c \<noteq> CHR '',''" "c \<noteq> CHR 0x0D"
      using False by (auto simp: needs_quotes_def)
    then show ?thesis using False by (simp add: csv_field_def Cons scan_bare)
  qed (simp add: csv_field_def)
qed

lemma scan_field_end:
  "row \<noteq> [] \<or> f \<noteq> [] \<Longrightarrow>
    csv_scan Start [] row (csv_field f @ CHR 0x0D # rest) = (row @ [f]) # csv_scan RowEnd [] [] rest"
proof (cases "needs_quotes f")
  case True
  then show ?thesis by (simp add: csv_field_def scan_quoted)
next
  case False
  assume a: "row \<noteq> [] \<or> f \<noteq> []"
  show ?thesis
  proof (cases f)
    case (Cons c g)
    then have "\<not> needs_quotes g" "c \<noteq> CHR 0x22" "c \<noteq> CHR '',''" "c \<noteq> CHR 0x0D"
      using False by (auto simp: needs_quotes_def)
    then show ?thesis using False by (simp add: csv_field_def Cons scan_bare)
  qed (use a False in \<open>simp add: csv_field_def\<close>)
qed

lemma scan_fields:
  "row \<noteq> [] \<or> fs \<noteq> [[]] \<Longrightarrow> fs \<noteq> [] \<Longrightarrow>
    csv_scan Start [] row (py_join '','' (map csv_field fs) @ CHR 0x0D # rest) = (row @ fs) # csv_scan RowEnd [] [] rest"
proof (induction fs arbitrary: row)
  case (Cons f fs)
  show ?case
  proof (cases fs)
    case Nil
    then show ?thesis using Cons.prems scan_field_end [of row f rest] by auto
  next
    case (Cons g gs)
    then show ?thesis
      using Cons.IH [of "row @ [f]"] scan_field_comma [of row f "py_join '','' (map csv_field fs) @ CHR 0x0D # rest"]
      by simp
  qed
qed simp

lemma scan_row: "csv_scan Start [] [] (csv_row fs @ rest) = fs # csv_scan Start [] [] rest"
proof -
  consider "fs = [[]]" | "fs = []" | "fs \<noteq> [[]]" "fs \<noteq> []" by blast
  then show ?thesis
  proof cases
    case 3
    then show ?thesis using scan_fields [of "[]" fs "CHR 0x0A # rest"] by (simp add: csv_row_def)
  qed (simp_all add: csv_row_def)
qed

lemma read_rows: "csv_read (concat (map csv_row rows)) = rows"
  unfolding csv_read_def by (induction rows) (simp_all add: scan_row)

subsection \<open>Properties\<close>

text \<open>
  The daily return adds up: matched and unmatched counts sum to the total, the breakdown per PSP
  has one line per PSP whose counts sum to the same totals, and the match rate is a percentage.
\<close>

theorem daily_return_totals:
  "let s = generate_daily_return date rid gen ts ds in
    matched_transactions s + unmatched_transactions s = total_transactions s \<and>
    total_transactions s = length ts \<and>
    breakdown_total pl_count (psp_breakdown s) = total_transactions s \<and>
    breakdown_total pl_matched (psp_breakdown s) = matched_transactions s \<and>
    distinct (map fst (psp_breakdown s)) \<and>
    list_all (\<lambda>(p, l). pl_matched l + pl_unmatched l = pl_count l) (psp_breakdown s) \<and>
    0 \<le> match_rate_pct s \<and> match_rate_pct s \<le> 100"
proof -
  define s where "s = generate_daily_return date rid gen ts ds"
  have "length (filter txn_matched ts) \<le> length ts" by simp
  then have "0 \<le> match_rate_pct s \<and> match_rate_pct s \<le> 100"
    using rate_pct_range [of "length (filter txn_matched ts)" "length ts"]
    by (auto simp: s_def generated_summary)
  moreover have "(\<forall>(p, l) \<in> set (psp_breakdown s). line_ok l) \<and> distinct (map fst (psp_breakdown s))"
    unfolding s_def generated_summary counted_def by (rule foldl_breakdown_ok) (simp_all add: empty_summary_def)
  then have "distinct (map fst (psp_breakdown s))"
    "list_all (\<lambda>(p, l). pl_matched l + pl_unmatched l = pl_count l) (psp_breakdown s)"
    by (auto simp: list_all_iff line_ok_def)
  ultimately show ?thesis
    using length_filter_partition [of txn_matched ts]
    unfolding Let_def s_def [symmetric]
    by (simp add: s_def generated_summary counted_def foldl_breakdown) (simp add: breakdown_total_def empty_summary_def)
qed

text \<open>
  The CSV export is faithful: reading it back gives every row and every cell as they were
  written, whatever commas, quotes or line breaks a reference or a masked name contains.
\<close>

theorem csv_export_roundtrip: "csv_read (export_to_csv s ls) = csv_rows s ls"
  unfolding export_to_csv_def by (rule read_rows)

end
