(* ===== verification/Silver.thy ===== *)
theory Silver
  imports Normaliser
begin

text \<open>
  \<open>src/contracts/silver/canonical_schema.py\<close> and the tables the transform writes: the ingestion
  log of Bronze (migration 003) and the canonical transactions of Silver (migration 005), with
  their CHECK, UNIQUE, length and enumeration constraints. Both inserts are
  \<open>ON CONFLICT DO NOTHING\<close> and are interpretations of \<open>dedup_store\<close>.
\<close>

subsection \<open>The validation schema\<close>

definition SUPPORTED_PSPS :: "string list" where
  "SUPPORTED_PSPS = [''paystack'', ''flutterwave'']"

definition SUPPORTED_CURRENCIES :: "string list" where
  "SUPPORTED_CURRENCIES = [''NGN'', ''USD'', ''GBP'', ''EUR'']"

definition SETTLEMENT_STATUSES :: "string list" where
  "SETTLEMENT_STATUSES = [''pending'', ''settled'', ''failed'', ''reversed'']"

definition TRANSACTION_TYPES :: "string list" where
  "TRANSACTION_TYPES = [''credit'', ''debit'', ''reversal'']"

text \<open>\<open>^\d{10}$\<close> with \<open>match\<close>, where \<open>$\<close> also matches before a final line feed.\<close>

definition drop_final_newline :: "string \<Rightarrow> string" where
  "drop_final_newline s = (if s \<noteq> [] \<and> code (last s) = 10 then butlast s else s)"

definition no_raw_nuban :: "string option \<Rightarrow> bool" where
  "no_raw_nuban s = (case s of None \<Rightarrow> True
     | Some a \<Rightarrow> \<not> (length (drop_final_newline a) = 10 \<and> py_isdigit (drop_final_newline a)))"

text \<open>\<open>^[a-z]+:.+:.+$\<close>\<close>

definition key_pattern :: "string \<Rightarrow> bool" where
  "key_pattern s = (let head = takeWhile is_lower s; rest = dropWhile is_lower s;
     body = drop_final_newline (tl rest)
     in head \<noteq> [] \<and> rest \<noteq> [] \<and> hd rest = CHR '':'' \<and> list_all (\<lambda>c. code c \<noteq> 10) body \<and>
        list_ex (\<lambda>i. body ! i = CHR '':'') [1..<length body - 1])"

text \<open>\<open>datetime64[ns]\<close> covers 1677 to 2262.\<close>

definition ns_range :: "time option \<Rightarrow> bool" where
  "ns_range t = (case t of None \<Rightarrow> True | Some u \<Rightarrow> - (2 ^ 63) < u * 1000 \<and> u * 1000 < 2 ^ 63)"

definition fx_rate_for_non_ngn :: "canonical \<Rightarrow> bool" where
  "fx_rate_for_non_ngn r \<longleftrightarrow> currency_raw r = ''NGN'' \<or> fx_rate_snapshot_id r \<noteq> None"

definition SILVER_CANONICAL_SCHEMA :: "canonical \<Rightarrow> bool" where
  "SILVER_CANONICAL_SCHEMA r \<longleftrightarrow>
     key_pattern (idempotency_key r) \<and> 10 \<le> length (idempotency_key r) \<and>
     psp_name r \<in> set SUPPORTED_PSPS \<and>
     1 \<le> length (psp_transaction_ref r) \<and> 1 \<le> length (psp_event_type r) \<and>
     transaction_type r \<in> set TRANSACTION_TYPES \<and>
     0 < fl (amount_raw r) \<and> currency_raw r \<in> set SUPPORTED_CURRENCIES \<and> 0 < fl (amount_ngn r) \<and>
     settlement_status r \<in> set SETTLEMENT_STATUSES \<and> has_pii_masked r \<and>
     no_raw_nuban (beneficiary_account_masked r) \<and> no_raw_nuban (sender_account_masked r) \<and>
     ns_range (Some (initiated_at r)) \<and> ns_range (settled_at r) \<and> ns_range (expected_settlement_at r) \<and>
     fx_rate_for_non_ngn r"

definition validate_silver :: "canonical \<Rightarrow> exc + canonical" where
  "validate_silver r = (if SILVER_CANONICAL_SCHEMA r then Inr r else Inl (SchemaError ''silver_canonical''))"

subsection \<open>Canonical transactions\<close>

type_synonym silver_table = "canonical list"

definition psp_enum :: "string list" where
  "psp_enum = [''paystack'', ''flutterwave'', ''mpesa'', ''moniepoint'']"

definition varchar :: "nat \<Rightarrow> string option \<Rightarrow> bool" where
  "varchar n s = (case s of None \<Rightarrow> True | Some t \<Rightarrow> length t \<le> n)"

text \<open>A dynamically typed value bound to a \<open>VARCHAR\<close> parameter must be text or null.\<close>

definition varchar_value :: "nat \<Rightarrow> json \<Rightarrow> bool" where
  "varchar_value n v = (case v of JNull \<Rightarrow> True | JStr s \<Rightarrow> length s \<le> n | _ \<Rightarrow> False)"

definition silver_types_ok :: "canonical \<Rightarrow> bool" where
  "silver_types_ok r \<longleftrightarrow> length (idempotency_key r) \<le> 200 \<and> psp_name r \<in> set psp_enum \<and>
     length (psp_transaction_ref r) \<le> 200 \<and> length (psp_event_type r) \<le> 100 \<and>
     transaction_type r \<in> set TRANSACTION_TYPES \<and>
     settlement_status r \<in> set (''disputed'' # SETTLEMENT_STATUSES) \<and>
     \<bar>pg_round 6 (amount_raw r)\<bar> < 10 ^ 14 \<and> \<bar>pg_round 6 (amount_ngn r)\<bar> < 10 ^ 14 \<and>
     length (currency_raw r) \<le> 3 \<and>
     varchar 50 (sender_account_masked r) \<and> varchar_value 10 (sender_bank_code r) \<and>
     varchar_value 200 (sender_bank_name r) \<and> varchar 50 (beneficiary_account_masked r) \<and>
     varchar_value 10 (beneficiary_bank_code r) \<and> varchar_value 200 (beneficiary_bank_name r) \<and>
     varchar 200 (beneficiary_name_masked r)"

definition silver_checks :: "canonical \<Rightarrow> bool" where
  "silver_checks r \<longleftrightarrow> 0 \<le> amount_raw r \<and> 0 \<le> amount_ngn r \<and>
     (currency_raw r = ''NGN'' \<and> fx_rate_snapshot_id r = None \<or>
      currency_raw r \<noteq> ''NGN'' \<and> fx_rate_snapshot_id r \<noteq> None) \<and>
     has_pii_masked r \<and>
     (case settled_at r of None \<Rightarrow> True | Some t \<Rightarrow> initiated_at r \<le> t)"

definition stored_row :: "canonical \<Rightarrow> canonical" where
  "stored_row r = r\<lparr>amount_raw := pg_round 6 (amount_raw r), amount_ngn := pg_round 6 (amount_ngn r),
     fx_rate_applied := map_option (pg_round 8) (fx_rate_applied r)\<rparr>"

definition silver_put :: "string \<Rightarrow> canonical \<Rightarrow> silver_table \<Rightarrow> silver_table \<times> bool" where
  "silver_put k r t = (if list_ex (\<lambda>s. idempotency_key s = k) t then (t, False)
     else (t @ [r\<lparr>idempotency_key := k\<rparr>], True))"

definition silver_keys :: "silver_table \<Rightarrow> string set" where
  "silver_keys t = set (map idempotency_key t)"

interpretation silver: dedup_store silver_put silver_keys
  by unfold_locales (auto simp: silver_put_def silver_keys_def table_simps)

text \<open>The insert statement of \<open>normalise_to_silver\<close>, and the lookup of the existing row.\<close>

definition insert_silver :: "canonical \<Rightarrow> silver_table \<Rightarrow> exc + silver_table \<times> bool" where
  "insert_silver r t = (if \<not> silver_types_ok r then Inl DatabaseError
     else if \<not> silver_checks (stored_row r) then Inl IntegrityError
     else Inr (silver_put (idempotency_key r) (stored_row r) t))"

definition silver_by_key :: "silver_table \<Rightarrow> string \<Rightarrow> canonical option" where
  "silver_by_key t k = List.find (\<lambda>s. idempotency_key s = k) t"

lemma silver_put_cases:
  "silver_put (idempotency_key r) r t = (if idempotency_key r \<in> silver_keys t then (t, False) else (t @ [r], True))"
  by (simp add: silver_put_def silver_keys_def table_simps)

lemma stored_row_sel [simp]:
  "idempotency_key (stored_row r) = idempotency_key r" "tx_id (stored_row r) = tx_id r"
  "has_pii_masked (stored_row r) = has_pii_masked r" "currency_raw (stored_row r) = currency_raw r"
  "fx_rate_snapshot_id (stored_row r) = fx_rate_snapshot_id r" "settled_at (stored_row r) = settled_at r"
  "initiated_at (stored_row r) = initiated_at r" "psp_name (stored_row r) = psp_name r"
  "transaction_type (stored_row r) = transaction_type r" "settlement_status (stored_row r) = settlement_status r"
  "amount_raw (stored_row r) = pg_round 6 (amount_raw r)" "amount_ngn (stored_row r) = pg_round 6 (amount_ngn r)"
  "expected_settlement_at (stored_row r) = expected_settlement_at r"
  by (simp_all add: stored_row_def)

lemma insert_silver_Inr:
  "insert_silver r t = Inr (t', new) \<Longrightarrow> (t', new) =
    (if idempotency_key r \<in> silver_keys t then (t, False) else (t @ [stored_row r], True))"
  using silver_put_cases [of "stored_row r" t] by (auto simp: insert_silver_def split: if_splits)

text \<open>Every row of the table satisfies its constraints, and keys are unique.\<close>

definition silver_inv :: "silver_table \<Rightarrow> bool" where
  "silver_inv t \<longleftrightarrow> distinct (map idempotency_key t) \<and> (\<forall>r \<in> set t. silver_checks r)"

lemma silver_inv_insert [inv_intros]:
  "silver_inv t \<Longrightarrow> insert_silver r t = Inr (t', new) \<Longrightarrow> silver_inv t'"
  using insert_silver_Inr [of r t t' new]
  by (auto simp: silver_inv_def insert_silver_def silver_keys_def split: if_splits)

lemma silver_by_key_iff: "silver_by_key t k = None \<longleftrightarrow> k \<notin> silver_keys t"
  by (simp add: silver_by_key_def silver_keys_def table_simps)

subsection \<open>The ingestion log\<close>

record bronze_row =
  b_id :: nat
  b_psp :: string
  b_source :: string
  b_topic :: string
  b_partition :: int
  b_offset :: int
  b_hash :: string
  b_path :: string
  b_run :: nat

type_synonym bronze_table = "bronze_row list"

definition bronze_position :: "bronze_row \<Rightarrow> string \<times> int \<times> int" where
  "bronze_position r = (b_topic r, b_partition r, b_offset r)"

definition bronze_put :: "string \<times> int \<times> int \<Rightarrow> bronze_row \<Rightarrow> bronze_table \<Rightarrow> bronze_table \<times> bool" where
  "bronze_put k r t = (if list_ex (\<lambda>s. bronze_position s = k) t then (t, False)
     else (t @ [r\<lparr>b_topic := fst k, b_partition := fst (snd k), b_offset := snd (snd k)\<rparr>], True))"

definition bronze_keys :: "bronze_table \<Rightarrow> (string \<times> int \<times> int) set" where
  "bronze_keys t = set (map bronze_position t)"

interpretation bronze: dedup_store bronze_put bronze_keys
  by unfold_locales (auto simp: bronze_put_def bronze_keys_def table_simps bronze_position_def)

definition bronze_checks :: "bronze_row \<Rightarrow> bool" where
  "bronze_checks r \<longleftrightarrow> 0 \<le> b_partition r \<and> 0 \<le> b_offset r"

definition bronze_types_ok :: "bronze_row \<Rightarrow> bool" where
  "bronze_types_ok r \<longleftrightarrow> b_psp r \<in> set psp_enum \<and> b_source r \<in> {''webhook'', ''polling''} \<and>
     length (b_topic r) \<le> 200 \<and> length (b_hash r) \<le> 64 \<and> length (b_path r) \<le> 1000"

text \<open>Inserts the row, or finds the one already logged for the same Kafka position.\<close>

definition insert_bronze :: "bronze_row \<Rightarrow> bronze_table \<Rightarrow> exc + bronze_table \<times> bronze_row" where
  "insert_bronze r t = (if \<not> bronze_types_ok r then Inl DatabaseError
     else if \<not> bronze_checks r then Inl IntegrityError
     else case List.find (\<lambda>s. bronze_position s = bronze_position r) t of
         Some s \<Rightarrow> Inr (t, s)
       | None \<Rightarrow> Inr (fst (bronze_put (bronze_position r) r t), r))"

lemma bronze_put_absent:
  "bronze_position r \<notin> bronze_keys t \<Longrightarrow> bronze_put (bronze_position r) r t = (t @ [r], True)"
  by (simp add: bronze_put_def bronze_keys_def table_simps) (simp add: bronze_position_def)

lemma insert_bronze_Inr:
  assumes "insert_bronze r t = Inr (t', s)"
  shows "s \<in> set t'" "bronze_position s = bronze_position r" "bronze_keys t' = insert (bronze_position r) (bronze_keys t)"
    "set t \<subseteq> set t'" "t' = t \<or> bronze_position r \<notin> bronze_keys t \<and> t' = t @ [r]"
proof -
  have *: "s \<in> set t' \<and> bronze_position s = bronze_position r \<and>
      (t' = t \<and> bronze_position r \<in> bronze_keys t \<or> bronze_position r \<notin> bronze_keys t \<and> t' = t @ [r])"
  proof (cases "List.find (\<lambda>s. bronze_position s = bronze_position r) t")
    case None
    then have "bronze_position r \<notin> bronze_keys t" by (simp add: bronze_keys_def table_simps)
    then show ?thesis using assms None bronze_put_absent [of r t] by (auto simp: insert_bronze_def split: if_splits)
  next
    case (Some u)
    then have u: "u \<in> set t" "bronze_position u = bronze_position r" by (auto dest: find_key_Some)
    then have "bronze_position r \<in> bronze_keys t" unfolding bronze_keys_def by (metis image_eqI set_map)
    then show ?thesis using assms Some u by (auto simp: insert_bronze_def split: if_splits)
  qed
  then show "s \<in> set t'" "bronze_position s = bronze_position r"
    "bronze_keys t' = insert (bronze_position r) (bronze_keys t)" "set t \<subseteq> set t'"
    "t' = t \<or> bronze_position r \<notin> bronze_keys t \<and> t' = t @ [r]"
    by (auto simp: bronze_keys_def)
qed

definition bronze_inv :: "bronze_table \<Rightarrow> bool" where
  "bronze_inv t \<longleftrightarrow> distinct (map bronze_position t)"

lemma bronze_inv_insert [inv_intros]: "bronze_inv t \<Longrightarrow> insert_bronze r t = Inr (t', s) \<Longrightarrow> bronze_inv t'"
  using insert_bronze_Inr(5) [of r t t' s] by (auto simp: bronze_inv_def bronze_keys_def)

subsection \<open>Properties\<close>

text \<open>Storing a validated record never breaks a CHECK constraint of the table.\<close>

lemma validated_checks:
  assumes ok: "normalised_ok env r" and v: "SILVER_CANONICAL_SCHEMA r"
  shows "silver_checks (stored_row r)"
proof -
  have "0 < amount_raw r" using ok by (simp add: normalised_ok_def amounts_ok_def)
  moreover have "0 < amount_ngn r" using v fl.sign_pos by (auto simp: SILVER_CANONICAL_SCHEMA_def)
  moreover have "currency_raw r = ''NGN'' \<and> fx_rate_snapshot_id r = None \<or>
      currency_raw r \<noteq> ''NGN'' \<and> fx_rate_snapshot_id r \<noteq> None"
    using ok v unfolding normalised_ok_def amounts_ok_def SILVER_CANONICAL_SCHEMA_def fx_rate_for_non_ngn_def
    by metis
  moreover have "has_pii_masked r" using ok by (simp add: normalised_ok_def pii_ok_def)
  moreover have "settled_at r = None \<or> settled_at r = Some (initiated_at r)"
    using ok unfolding normalised_ok_def outcome_ok_def by metis
  ultimately show ?thesis by (auto simp: silver_checks_def pg_round_nonneg)
qed

text \<open>
  The validation contract implies the database contract: a record a normaliser returned and the
  schema accepted is never refused by a CHECK constraint of the Silver table; the insert either
  succeeds, or fails because a value does not fit its column type.
\<close>

theorem validated_record_storable:
  assumes "NORMALISERS psp = Some f" and "f env payload = Inr r" and "validate_silver r = Inr r"
  shows "insert_silver r t = Inl DatabaseError \<and> \<not> silver_types_ok r \<or>
    (\<exists>t' new. insert_silver r t = Inr (t', new) \<and> idempotency_key r \<in> silver_keys t')"
proof -
  have "SILVER_CANONICAL_SCHEMA r" using assms(3) by (simp add: validate_silver_def split: if_splits)
  then have "silver_checks (stored_row r)" using validated_checks normaliser_cases [OF assms(1,2)] by blast
  then show ?thesis
    using silver.put_keys [of "idempotency_key r" "stored_row r" t]
    by (cases "silver_put (idempotency_key r) (stored_row r) t") (auto simp: insert_silver_def)
qed

lemma example_charge_valid:
  "case normalise_paystack_event example_env example_charge of
     Inr r \<Rightarrow> SILVER_CANONICAL_SCHEMA r \<and> silver_types_ok r | Inl e \<Rightarrow> False"
  by code_simp

theorem validated_record_storable_witness:
  "\<exists>r t' new. normalise_paystack_event example_env example_charge = Inr r \<and> insert_silver r [] = Inr (t', new)"
proof -
  obtain r where r: "normalise_paystack_event example_env example_charge = Inr r" "SILVER_CANONICAL_SCHEMA r" "silver_types_ok r"
    using example_charge_valid by (auto split: sum.splits)
  have "NORMALISERS ''paystack'' = Some normalise_paystack_event" by (simp add: NORMALISERS_def)
  from validated_record_storable [OF this r(1), of "[]"] r show ?thesis by (auto simp: validate_silver_def)
qed

text \<open>
  Effectively once in Silver: over any sequence of inserts of rows, whatever is redelivered and in
  whatever order, a key that was not in the table is reported as new exactly once, and the table
  ends up with the same keys.
\<close>

theorem silver_effectively_once:
  "length (filter (\<lambda>xn. fst (fst xn) = k \<and> snd xn) (zip xs (snd (silver.put_all xs t)))) =
     (if k \<in> fst ` set xs \<and> k \<notin> silver_keys t then 1 else 0) \<and>
   silver_keys (fst (silver.put_all xs t)) = silver_keys t \<union> fst ` set xs"
  using silver.put_all_new silver.put_all_keys by blast

end
