(* ===== verification/Store.thy ===== *)
theory Store
  imports Clock
begin

text \<open>
  \<open>src/storage/postgres.py\<close> and \<open>src/storage/pipeline_runs.py\<close>: database sessions and the run
  bookkeeping of \<open>system_pipeline_runs\<close> (migration 002). A session body maps the database and
  the outside world to a result and the changed pair; the world (a broker, a web service) is not
  part of the transaction and is never rolled back.
\<close>

subsection \<open>Sessions\<close>

text \<open>
  \<open>pipeline_session\<close> and \<open>api_session\<close>: commit when the body returned, roll back when it raised
  or when the commit itself failed.
\<close>

type_synonym ('d, 'w, 'a) body = "'d \<Rightarrow> 'w \<Rightarrow> (exc + 'a) \<times> 'd \<times> 'w"

definition session :: "bool \<Rightarrow> ('d, 'w, 'a) body \<Rightarrow> ('d, 'w, 'a) body" where
  "session commits body d w = (case body d w of
     (Inl e, d', w') \<Rightarrow> (Inl e, d, w')
   | (Inr a, d', w') \<Rightarrow> if commits then (Inr a, d', w') else (Inl DatabaseError, d, w'))"

text \<open>A body that touches only the database and either raises or returns.\<close>

definition on_db :: "('d \<Rightarrow> exc + 'a \<times> 'd) \<Rightarrow> ('d, 'w, 'a) body" where
  "on_db f d w = (case f d of Inl e \<Rightarrow> (Inl e, d, w) | Inr (a, d') \<Rightarrow> (Inr a, d', w))"

text \<open>A session is atomic: an error leaves the database as it was, a result is the body's.\<close>

lemma session_Inl: "fst (session c body d w) = Inl e \<Longrightarrow> fst (snd (session c body d w)) = d"
  by (auto simp: session_def split: prod.splits sum.splits if_splits)

lemma session_Inr:
  "session c body d w = (Inr a, d', w') \<longleftrightarrow> c \<and> body d w = (Inr a, d', w')"
  by (auto simp: session_def split: prod.splits sum.splits if_splits)

lemma session_cases:
  obtains (error) e w' where "session c body d w = (Inl e, d, w')"
  | (ok) a d' w' where "c" "body d w = (Inr a, d', w')" "session c body d w = (Inr a, d', w')"
  by (cases "body d w"; cases "fst (body d w)"; cases c) (auto simp: session_def)

lemma session_world: "snd (snd (session c body d w)) = snd (snd (body d w))"
  by (auto simp: session_def split: prod.splits sum.splits)

text \<open>An invariant of the database survives every session whose body keeps it.\<close>

lemma session_inv [inv_intros]:
  assumes "I d" and "\<And>a d' w'. body d w = (Inr a, d', w') \<Longrightarrow> I d'"
  shows "I (fst (snd (session c body d w)))"
  using assms by (auto simp: session_def split: prod.splits sum.splits if_splits)

lemma on_db_Inr: "on_db f d w = (Inr a, d', w') \<longleftrightarrow> f d = Inr (a, d') \<and> w' = w"
  by (auto simp: on_db_def split: prod.splits sum.splits)

subsection \<open>Pipeline runs\<close>

datatype run_status = RUNNING | COMPLETED | FAILED | CANCELLED

record pipeline_run =
  run_id :: nat
  flow_name :: string
  run_state :: run_status
  triggered_by :: string
  started_at :: time
  completed_at :: "time option"
  records_processed :: nat
  records_failed :: nat
  error_message :: "string option"

type_synonym run_table = "pipeline_run list"

definition start_run :: "nat \<Rightarrow> time \<Rightarrow> string \<Rightarrow> string \<Rightarrow> run_table \<Rightarrow> exc + nat \<times> run_table" where
  "start_run new_id now flow by runs = (
     if 200 < length flow \<or> 100 < length by then Inl DatabaseError
     else if new_id \<in> run_id ` set runs then Inl IntegrityError
     else Inr (new_id, runs @ [\<lparr>run_id = new_id, flow_name = flow, run_state = RUNNING,
       triggered_by = by, started_at = now, completed_at = None, records_processed = 0,
       records_failed = 0, error_message = None\<rparr>]))"

definition finish_row :: "time \<Rightarrow> nat \<Rightarrow> nat \<Rightarrow> string option \<Rightarrow> pipeline_run \<Rightarrow> pipeline_run" where
  "finish_row now processed failed error r = r\<lparr>run_state := (if error = None then COMPLETED else FAILED),
     completed_at := Some now, records_processed := processed, records_failed := failed,
     error_message := error\<rparr>"

definition finish_run :: "nat \<Rightarrow> time \<Rightarrow> nat \<Rightarrow> nat \<Rightarrow> string option \<Rightarrow> run_table \<Rightarrow> run_table" where
  "finish_run i now processed failed error runs =
     map (\<lambda>r. if run_id r = i then finish_row now processed failed error r else r) runs"

definition record_progress :: "nat \<Rightarrow> nat \<Rightarrow> nat \<Rightarrow> run_table \<Rightarrow> run_table" where
  "record_progress i processed failed runs =
     map (\<lambda>r. if run_id r = i then r\<lparr>records_processed := processed, records_failed := failed\<rparr> else r) runs"

text \<open>A finished run carries a completion time, and an error message exactly when it failed.\<close>

definition run_ok :: "pipeline_run \<Rightarrow> bool" where
  "run_ok r \<longleftrightarrow> (case run_state r of
     RUNNING \<Rightarrow> completed_at r = None \<and> error_message r = None
   | COMPLETED \<Rightarrow> completed_at r \<noteq> None \<and> error_message r = None
   | FAILED \<Rightarrow> completed_at r \<noteq> None \<and> error_message r \<noteq> None
   | CANCELLED \<Rightarrow> True)"

definition runs_ok :: "run_table \<Rightarrow> bool" where
  "runs_ok runs \<longleftrightarrow> distinct (map run_id runs) \<and> list_all run_ok runs"

lemma start_run_ok [inv_intros]: "runs_ok runs \<Longrightarrow> start_run i now flow by runs = Inr (j, runs') \<Longrightarrow> runs_ok runs'"
  by (auto simp: runs_ok_def start_run_def run_ok_def split: if_splits)

lemma finish_run_ids: "map run_id (finish_run i now p f e runs) = map run_id runs"
  by (induction runs) (auto simp: finish_run_def finish_row_def)

lemma finish_run_ok [inv_intros]: "runs_ok runs \<Longrightarrow> runs_ok (finish_run i now p f e runs)"
  unfolding runs_ok_def finish_run_ids
  by (auto simp: finish_run_def finish_row_def run_ok_def list_all_iff)

lemma record_progress_ids: "map run_id (record_progress i p f runs) = map run_id runs"
  by (induction runs) (auto simp: record_progress_def)

lemma record_progress_ok [inv_intros]: "runs_ok runs \<Longrightarrow> runs_ok (record_progress i p f runs)"
  unfolding runs_ok_def record_progress_ids
  by (auto simp: record_progress_def run_ok_def list_all_iff split: run_status.splits)

lemma find_append_key [table_simps]:
  "\<forall>x \<in> set xs. \<not> P x \<Longrightarrow> List.find P (xs @ ys) = List.find P ys"
  by (induction xs) auto

lemma find_append_absent:
  "k \<notin> set (map f xs) \<Longrightarrow> List.find (\<lambda>s. f s = k) (xs @ ys) = List.find (\<lambda>s. f s = k) ys"
  by (induction xs) auto

text \<open>The run started last is the one finished.\<close>

lemma find_run_finished:
  assumes "runs_ok runs" "start_run i now flow by runs = Inr (j, runs1)"
  shows "List.find (\<lambda>r. run_id r = j) (finish_run j later p f e runs1) =
    Some (finish_row later p f e \<lparr>run_id = j, flow_name = flow, run_state = RUNNING, triggered_by = by,
      started_at = now, completed_at = None, records_processed = 0, records_failed = 0, error_message = None\<rparr>)"
proof -
  have new: "i \<notin> run_id ` set runs" and j: "j = i"
    and runs1: "runs1 = runs @ [\<lparr>run_id = i, flow_name = flow, run_state = RUNNING, triggered_by = by,
      started_at = now, completed_at = None, records_processed = 0, records_failed = 0, error_message = None\<rparr>]"
    using assms(2) by (auto simp: start_run_def split: if_splits)
  have "finish_run j later p f e runs1 = runs @ [finish_row later p f e (last runs1)]"
    using new by (auto simp: runs1 j finish_run_def intro!: map_idI)
  then show ?thesis
    using new by (subst \<open>finish_run j later p f e runs1 = _\<close>, subst find_append_key) (auto simp: runs1 j finish_row_def)
qed

end
