(* ===== verification/Ingestion.thy ===== *)
theory Ingestion
  imports Normaliser Store
begin

text \<open>
  How an event enters the pipeline: \<open>src/flows/ingestion_flow.py\<close>,
  \<open>src/storage/kafka_producer.py\<close>, the webhook connectors of \<open>src/connectors\<close>,
  \<open>src/api/v1/routes/webhooks.py\<close>, the polling clients' pagination and
  \<open>src/flows/polling_backfill_flow.py\<close>. Request bodies are byte strings. The hash functions, the
  JSON reader, the broker and the PSP's web API are parameters. A message value is the JSON
  object that is written to and read back from the topic.
\<close>

subsection \<open>The producer\<close>

record kafka_record =
  kr_topic :: string
  kr_key :: string
  kr_value :: "(string \<times> json) list"

type_synonym kafka_log = "kafka_record list"

text \<open>
  What the broker does with one message: refuse it at once, store it or not, leave messages in the
  queue when the flush times out, and call back with an error (\<open>Some True\<close>), without one
  (\<open>Some False\<close>) or not at all.
\<close>

record broker_reply =
  produce_raises :: bool
  stored :: bool
  remaining :: nat
  delivery_error :: "bool option"

definition publish :: "broker_reply \<Rightarrow> kafka_record \<Rightarrow> kafka_log \<Rightarrow> (exc + unit) \<times> kafka_log" where
  "publish b m klog = (if produce_raises b then (Inl KafkaDeliveryError, klog) else
     let klog' = (if stored b then klog @ [m] else klog) in
     if 0 < remaining b \<or> delivery_error b = None then (Inl KafkaDeliveryError, klog')
     else if delivery_error b = Some True then (Inl KafkaDeliveryError, klog')
     else (Inr (), klog'))"

text \<open>The documented meaning of \<open>acks=all\<close>: a delivery reported without an error is stored.\<close>

definition acks_all :: "broker_reply \<Rightarrow> bool" where
  "acks_all b \<longleftrightarrow> (delivery_error b = Some False \<longrightarrow> stored b)"

definition acked :: broker_reply where
  "acked = \<lparr>produce_raises = False, stored = True, remaining = 0, delivery_error = Some False\<rparr>"

lemma publish_log: "set klog \<subseteq> set (snd (publish b m klog))"
  by (auto simp: publish_def Let_def)

lemma publish_ok: "acks_all b \<Longrightarrow> publish b m klog = (Inr u, klog') \<Longrightarrow> klog' = klog @ [m]"
  by (auto simp: publish_def acks_all_def Let_def split: if_splits)

subsection \<open>Connectors\<close>

datatype psp = Paystack | Flutterwave

fun psp_label :: "psp \<Rightarrow> string" where
  "psp_label Paystack = ''paystack''"
| "psp_label Flutterwave = ''flutterwave''"

text \<open>Secrets and topics of the settings, and the hash functions (hex digests).\<close>

record ingest_settings =
  paystack_secret_key :: string
  flutterwave_secret_hash :: string
  kafka_topic_paystack :: string
  kafka_topic_flutterwave :: string
  kafka_topic_polling :: string
  hmac_sha512 :: "string \<Rightarrow> string \<Rightarrow> string"
  sha256 :: "string \<Rightarrow> string"

definition paystack_signature :: "ingest_settings \<Rightarrow> string \<Rightarrow> string \<Rightarrow> bool" where
  "paystack_signature cfg raw_body signature \<longleftrightarrow> signature \<noteq> [] \<and>
     hmac_sha512 cfg (paystack_secret_key cfg) raw_body = py_lower signature"

definition flutterwave_signature :: "ingest_settings \<Rightarrow> string \<Rightarrow> string \<Rightarrow> bool" where
  "flutterwave_signature cfg raw_body signature \<longleftrightarrow> signature \<noteq> [] \<and>
     flutterwave_secret_hash cfg \<noteq> [] \<and> flutterwave_secret_hash cfg = signature"

fun validate_signature :: "ingest_settings \<Rightarrow> psp \<Rightarrow> string \<Rightarrow> string \<Rightarrow> bool" where
  "validate_signature cfg Paystack = paystack_signature cfg"
| "validate_signature cfg Flutterwave = flutterwave_signature cfg"

definition extract_event_type :: "(string \<times> json) list \<Rightarrow> string" where
  "extract_event_type payload = py_str (jor (dict_get payload ''event'') (JStr ''unknown''))"

record webhook_event =
  we_psp :: string
  we_type :: string
  we_payload :: "(string \<times> json) list"
  we_hash :: string
  we_received :: string

definition build_event :: "ingest_settings \<Rightarrow> psp \<Rightarrow> string \<Rightarrow> (string \<times> json) list \<Rightarrow> string \<Rightarrow> webhook_event" where
  "build_event cfg p raw_body payload received = \<lparr>we_psp = psp_label p,
     we_type = extract_event_type payload, we_payload = payload,
     we_hash = sha256 cfg raw_body, we_received = received\<rparr>"

subsection \<open>Ingestion\<close>

definition extract_transaction_ref :: "string \<Rightarrow> (string \<times> json) list \<Rightarrow> string \<Rightarrow> exc + string" where
  "extract_transaction_ref pname raw_payload content_hash = (
     let data = or_dict (dict_get raw_payload ''data'') in
     sbind (if pname = ''paystack'' then jget data ''reference''
       else if pname = ''flutterwave'' then
         sbind (jget data ''tx_ref'') (\<lambda>a. if truthy a then Inr a else jget data ''reference'')
       else Inr JNull) (\<lambda>ref.
     Inr (if truthy ref then py_str ref else ''sha256-'' @ take 32 content_hash)))"

definition topic_of :: "ingest_settings \<Rightarrow> string \<Rightarrow> string" where
  "topic_of cfg pname = (if pname = ''paystack'' then kafka_topic_paystack cfg
     else if pname = ''flutterwave'' then kafka_topic_flutterwave cfg else kafka_topic_polling cfg)"

record ingest_result =
  is_new :: bool
  ir_key :: string
  ir_topic :: "string option"

text \<open>What the environment does during one call.\<close>

record ingest_env =
  ie_now :: time
  ie_db_up :: bool
  ie_broker :: broker_reply
  ie_commits :: bool

text \<open>A text parameter of at most \<open>n\<close> characters; PostgreSQL stores no NUL.\<close>

definition pg_text :: "nat \<Rightarrow> string \<Rightarrow> bool" where
  "pg_text n s \<longleftrightarrow> length s \<le> n \<and> CHR 0x00 \<notin> set s"

definition event_message :: "ingest_settings \<Rightarrow> webhook_event \<Rightarrow> string \<Rightarrow> kafka_record" where
  "event_message cfg e key = \<lparr>kr_topic = topic_of cfg (we_psp e), kr_key = key, kr_value =
     [(''psp_name'', JStr (we_psp e)), (''event_type'', JStr (we_type e)), (''payload'', JObj (we_payload e)),
      (''content_hash'', JStr (we_hash e)), (''received_at'', JStr (we_received e)),
      (''idempotency_key'', JStr key)]\<rparr>"

definition register_and_publish ::
  "ingest_settings \<Rightarrow> ingest_env \<Rightarrow> webhook_event \<Rightarrow> string \<Rightarrow> (idem_table, kafka_log, ingest_result) body" where
  "register_and_publish cfg env e key t klog = (
     if \<not> ie_db_up env \<or> \<not> pg_text 200 key then (Inl DatabaseError, t, klog) else
     let (t', new, n) = check_and_register_idempotency_key key (ie_now env) t in
     if \<not> new then (Inr \<lparr>is_new = False, ir_key = key, ir_topic = None\<rparr>, t', klog)
     else case publish (ie_broker env) (event_message cfg e key) klog of
         (Inl ex, klog') \<Rightarrow> (Inl ex, t', klog')
       | (Inr u, klog') \<Rightarrow>
           (Inr \<lparr>is_new = True, ir_key = key, ir_topic = Some (topic_of cfg (we_psp e))\<rparr>, t', klog'))"

definition event_key :: "webhook_event \<Rightarrow> exc + string" where
  "event_key e = sbind (extract_transaction_ref (we_psp e) (we_payload e) (we_hash e)) (\<lambda>ref.
     Inr (build_idempotency_key (we_psp e) ref (we_type e)))"

definition ingest_event ::
  "ingest_settings \<Rightarrow> ingest_env \<Rightarrow> webhook_event \<Rightarrow> (idem_table, kafka_log, ingest_result) body" where
  "ingest_event cfg env e t klog = (case event_key e of Inl ex \<Rightarrow> (Inl ex, t, klog)
     | Inr key \<Rightarrow> session (ie_commits env) (register_and_publish cfg env e key) t klog)"

subsection \<open>The webhook endpoint\<close>

record webhook_request =
  wr_psp :: psp
  wr_body :: string
  wr_signature :: string

text \<open>\<open>loads\<close> is \<open>json.loads\<close>, \<open>None\<close> when the body is not JSON.\<close>

definition receive ::
  "(string \<Rightarrow> json option) \<Rightarrow> ingest_settings \<Rightarrow> ingest_env \<Rightarrow> string \<Rightarrow> webhook_request \<Rightarrow>
   (idem_table, kafka_log, bool \<times> string) body" where
  "receive loads cfg env received r t klog = (
     if \<not> validate_signature cfg (wr_psp r) (wr_body r) (wr_signature r)
     then (Inl (HTTPException 401 ''Invalid signature''), t, klog)
     else case loads (wr_body r) of
       None \<Rightarrow> (Inl (HTTPException 400 ''Body must be JSON''), t, klog)
     | Some (JObj payload) \<Rightarrow>
         (case ingest_event cfg env (build_event cfg (wr_psp r) (wr_body r) payload received) t klog of
            (Inl ex, t', klog') \<Rightarrow> (Inl (HTTPException 503 ''Event not recorded; retry later''), t', klog')
          | (Inr res, t', klog') \<Rightarrow> (Inr (is_new res, ir_key res), t', klog'))
     | Some _ \<Rightarrow> (Inl (HTTPException 400 ''Body must be a JSON object''), t, klog))"

subsection \<open>Polling\<close>

definition MAX_PAGES :: nat where
  "MAX_PAGES = 200"

definition paystack_page_size :: nat where
  "paystack_page_size = 100"

text \<open>
  \<open>list_all_successful\<close> of the Paystack client; \<open>page k\<close> is what \<open>list_transactions\<close> returns or
  raises for page \<open>k\<close>. The last argument is the number of pages still allowed.
\<close>

fun paystack_pages :: "(nat \<Rightarrow> exc + 'a list) \<Rightarrow> nat \<Rightarrow> nat \<Rightarrow> exc + 'a list" where
  "paystack_pages page k 0 = Inr []"
| "paystack_pages page k (Suc left) = sbind (page k) (\<lambda>batch.
     if length batch < paystack_page_size then Inr batch
     else sbind (paystack_pages page (Suc k) left) (\<lambda>rest. Inr (batch @ rest)))"

definition paystack_list_all :: "(nat \<Rightarrow> exc + 'a list) \<Rightarrow> exc + 'a list" where
  "paystack_list_all page = paystack_pages page 1 MAX_PAGES"

text \<open>
  The Flutterwave client filters every page to the exact window itself. A reply is the JSON body;
  a transaction without \<open>created_at\<close> is dropped, a naive timestamp cannot be compared.
\<close>

definition created_in :: "time \<Rightarrow> time \<Rightarrow> json \<Rightarrow> exc + bool" where
  "created_in since until tx = sbind (jget tx ''created_at'') (\<lambda>created.
     if \<not> truthy created then Inr False
     else case from_isoformat (replace_char (CHR ''Z'') ''+00:00'' (py_str created)) of
         None \<Rightarrow> Inl (ValueError ''Invalid isoformat string'')
       | Some (t, None) \<Rightarrow> Inl TypeError
       | Some (t, Some off) \<Rightarrow> Inr (since \<le> t - off \<and> t - off \<le> until))"

fun keep_created :: "time \<Rightarrow> time \<Rightarrow> json list \<Rightarrow> exc + json list" where
  "keep_created since until [] = Inr []"
| "keep_created since until (tx # txs) = sbind (created_in since until tx) (\<lambda>b.
     sbind (keep_created since until txs) (\<lambda>rest. Inr (if b then tx # rest else rest)))"

text \<open>\<open>body.get("data") or []\<close>, iterated: a dictionary yields its keys, a string its characters.\<close>

definition iterate :: "json \<Rightarrow> exc + json list" where
  "iterate v = (case v of JList xs \<Rightarrow> Inr xs | JObj kvs \<Rightarrow> Inr (map (JStr \<circ> fst) kvs)
     | JStr s \<Rightarrow> Inr (map (\<lambda>c. JStr [c]) s) | _ \<Rightarrow> Inl TypeError)"

text \<open>\<open>int(s)\<close> takes digits with single underscores between them.\<close>

fun int_literal :: "string \<Rightarrow> bool" where
  "int_literal [] \<longleftrightarrow> False"
| "int_literal [c] \<longleftrightarrow> is_digit c"
| "int_literal (c # d # s) \<longleftrightarrow> is_digit c \<and> int_literal (if d = CHR ''_'' then s else d # s)"

definition to_int :: "json \<Rightarrow> exc + int" where
  "to_int v = (case v of JInt i \<Rightarrow> Inr i | JBool b \<Rightarrow> Inr (if b then 1 else 0)
     | JFloat x \<Rightarrow> Inr (py_trunc x)
     | JNonFinite s \<Rightarrow> Inl OverflowError
     | JStr s \<Rightarrow> (let t = py_strip s; u = (if t \<noteq> [] \<and> hd t \<in> {CHR ''-'', CHR ''+''} then tl t else t);
           ds = filter (\<lambda>c. c \<noteq> CHR ''_'') u in
         if int_literal u then Inr (if hd t = CHR ''-'' then - read_nat ds else read_nat ds)
         else Inl (ValueError ''invalid literal''))
     | _ \<Rightarrow> Inl TypeError)"

definition total_pages :: "json \<Rightarrow> exc + int" where
  "total_pages body = sbind (jget body ''meta'') (\<lambda>meta. sbind (jget (or_dict meta) ''page_info'') (\<lambda>info.
     sbind (jget (or_dict info) ''total_pages'') (\<lambda>n. to_int (jor n (JInt 1)))))"

fun flutterwave_pages :: "(nat \<Rightarrow> exc + json) \<Rightarrow> time \<Rightarrow> time \<Rightarrow> nat \<Rightarrow> nat \<Rightarrow> exc + json list" where
  "flutterwave_pages page since until k 0 = Inr []"
| "flutterwave_pages page since until k (Suc left) = sbind (page k) (\<lambda>body.
     sbind (jget body ''data'') (\<lambda>data. sbind (iterate (jor data (JList []))) (\<lambda>txs.
     sbind (keep_created since until txs) (\<lambda>kept.
     sbind (total_pages body) (\<lambda>n.
     if n \<le> int k then Inr kept
     else sbind (flutterwave_pages page since until (Suc k) left) (\<lambda>rest. Inr (kept @ rest)))))))"

definition flutterwave_list_all :: "(nat \<Rightarrow> exc + json) \<Rightarrow> time \<Rightarrow> time \<Rightarrow> exc + json list" where
  "flutterwave_list_all page since until = flutterwave_pages page since until 1 MAX_PAGES"

fun POLLING :: "psp \<Rightarrow> string" where
  "POLLING Paystack = ''charge.success''"
| "POLLING Flutterwave = ''charge.completed''"

text \<open>
  One polled transaction as its webhook-equivalent event; \<open>dumps\<close> is \<open>json.dumps\<close> with sorted keys.
\<close>

definition polled_event :: "(json \<Rightarrow> string) \<Rightarrow> ingest_settings \<Rightarrow> psp \<Rightarrow> string \<Rightarrow> json \<Rightarrow> webhook_event" where
  "polled_event dumps cfg p received tx = (let payload = [(''event'', JStr (POLLING p)), (''data'', tx)] in
     \<lparr>we_psp = psp_label p, we_type = POLLING p, we_payload = payload,
      we_hash = sha256 cfg (dumps (JObj payload)), we_received = received\<rparr>)"

record poll_stats =
  ps_new :: nat
  ps_duplicates :: nat
  ps_errors :: nat

fun ingest_polled ::
  "ingest_settings \<Rightarrow> (ingest_env \<times> webhook_event) list \<Rightarrow> idem_table \<Rightarrow> kafka_log \<Rightarrow> poll_stats \<times> idem_table \<times> kafka_log" where
  "ingest_polled cfg [] t klog = (\<lparr>ps_new = 0, ps_duplicates = 0, ps_errors = 0\<rparr>, t, klog)"
| "ingest_polled cfg ((env, e) # es) t klog = (case ingest_event cfg env e t klog of
     (Inl ex, t1, klog1) \<Rightarrow> (case ingest_polled cfg es t1 klog1 of (s, r) \<Rightarrow> (s\<lparr>ps_errors := ps_errors s + 1\<rparr>, r))
   | (Inr res, t1, klog1) \<Rightarrow> (case ingest_polled cfg es t1 klog1 of (s, r) \<Rightarrow>
       (if is_new res then s\<lparr>ps_new := ps_new s + 1\<rparr> else s\<lparr>ps_duplicates := ps_duplicates s + 1\<rparr>, r)))"

subsection \<open>One call\<close>

text \<open>
  An error leaves the registry as it was, and at most adds the (unacknowledged) message; a
  duplicate changes only the counter; a new event is in the log before its key is registered.
\<close>

lemma ingest_cases:
  assumes "acks_all (ie_broker env)" and run: "ingest_event cfg env e t klog = (r, t', klog')"
  obtains (error) ex where "r = Inl ex" "t' = t" "klog' = klog \<or> (\<exists>k. event_key e = Inr k \<and> klog' = klog @ [event_message cfg e k])"
  | (duplicate) k res where "r = Inr res" "event_key e = Inr k" "k \<in> dom t" "\<not> is_new res" "ir_key res = k"
      "ir_topic res = None" "klog' = klog" "dom t' = dom t"
  | (new) k res where "r = Inr res" "event_key e = Inr k" "k \<notin> dom t" "is_new res" "ir_key res = k"
      "ir_topic res = Some (topic_of cfg (we_psp e))" "klog' = klog @ [event_message cfg e k]"
      "dom t' = insert k (dom t)"
proof (cases "event_key e")
  case (Inl ex)
  then show ?thesis using run by (intro error [of ex]) (auto simp: ingest_event_def)
next
  case (Inr k)
  have dom: "dom (fst (check_and_register_idempotency_key k (ie_now env) t)) = insert k (dom t)"
    by (rule register_dom)
  have fresh: "fst (snd (check_and_register_idempotency_key k (ie_now env) t)) \<longleftrightarrow> k \<notin> dom t"
    by (auto simp: register_new)
  obtain rb tb lb where b: "register_and_publish cfg env e k t klog = (rb, tb, lb)" by (metis prod_cases3)
  have body: "case rb of Inl ex \<Rightarrow> lb = klog \<or> lb = klog @ [event_message cfg e k]
     | Inr res \<Rightarrow> ir_key res = k \<and> dom tb = insert k (dom t) \<and>
         (if k \<in> dom t then \<not> is_new res \<and> ir_topic res = None \<and> lb = klog
          else is_new res \<and> ir_topic res = Some (topic_of cfg (we_psp e)) \<and> lb = klog @ [event_message cfg e k])"
  proof (cases "\<not> ie_db_up env \<or> \<not> pg_text 200 k")
    case True
    then show ?thesis using b by (auto simp: register_and_publish_def)
  next
    case False
    obtain t1 n c where reg: "check_and_register_idempotency_key k (ie_now env) t = (t1, n, c)" by (metis prod_cases3)
    have t1: "dom t1 = insert k (dom t)" "n \<longleftrightarrow> k \<notin> dom t" using dom fresh by (simp_all add: reg)
    show ?thesis
    proof (cases n)
      case n: False
      then show ?thesis using b False reg t1 by (auto simp: register_and_publish_def)
    next
      case n: True
      obtain rp lp where pub: "publish (ie_broker env) (event_message cfg e k) klog = (rp, lp)" by fastforce
      show ?thesis
      proof (cases rp)
        case (Inl ex)
        have "lp = klog \<or> lp = klog @ [event_message cfg e k]"
          using pub by (auto simp: publish_def Let_def split: if_splits)
        then show ?thesis using b False reg n pub Inl by (auto simp: register_and_publish_def)
      next
        case (Inr u)
        have "lp = klog @ [event_message cfg e k]" using publish_ok [OF assms(1)] pub Inr by blast
        then show ?thesis using b False reg n pub Inr t1 by (auto simp: register_and_publish_def)
      qed
    qed
  qed
  have r: "(r, t', klog') = session (ie_commits env) (register_and_publish cfg env e k) t klog"
    using run Inr by (simp add: ingest_event_def)
  show ?thesis
  proof (cases r)
    case (Inl ex)
    then have "t' = t" "klog' = lb" using r b by (auto simp: session_def split: sum.splits if_splits)
    moreover have "lb = klog \<or> lb = klog @ [event_message cfg e k]"
      using body by (cases rb) (auto split: if_splits)
    ultimately show ?thesis using error Inl Inr by blast
  next
    case res: (Inr res)
    then have "rb = Inr res" "t' = tb" "klog' = lb" using r b by (auto simp: session_def split: sum.splits if_splits)
    then have b': "ir_key res = k" "dom t' = insert k (dom t)"
      "if k \<in> dom t then \<not> is_new res \<and> ir_topic res = None \<and> klog' = klog
       else is_new res \<and> ir_topic res = Some (topic_of cfg (we_psp e)) \<and> klog' = klog @ [event_message cfg e k]"
      using body by simp_all
    show ?thesis
    proof (cases "k \<in> dom t")
      case True
      then show ?thesis using b' by (intro duplicate [of res k]) (simp_all add: res Inr insert_absorb)
    next
      case False
      then show ?thesis using b' by (intro new [of res k]) (simp_all add: res Inr)
    qed
  qed
qed

subsection \<open>Sequences of calls\<close>

text \<open>Any number of calls, each with its own environment, and what each of them answered.\<close>

inductive ingest_run ::
  "ingest_settings \<Rightarrow> idem_table \<Rightarrow> kafka_log \<Rightarrow> (ingest_env \<times> webhook_event \<times> (exc + ingest_result)) list \<Rightarrow>
   idem_table \<Rightarrow> kafka_log \<Rightarrow> bool" for cfg where
  none: "ingest_run cfg t l [] t l"
| call: "ingest_event cfg env e t l = (r, t1, l1) \<Longrightarrow> ingest_run cfg t1 l1 tr t2 l2 \<Longrightarrow>
    ingest_run cfg t l ((env, e, r) # tr) t2 l2"

inductive_cases ingest_run_Cons: "ingest_run cfg t l (c # tr) t2 l2"
inductive_simps ingest_run_Nil: "ingest_run cfg t l [] t2 l2"

definition announced_new :: "string \<Rightarrow> ingest_env \<times> webhook_event \<times> (exc + ingest_result) \<Rightarrow> bool" where
  "announced_new k = (\<lambda>(env, e, r). case r of Inl ex \<Rightarrow> False | Inr res \<Rightarrow> is_new res \<and> ir_key res = k)"

definition log_keys :: "kafka_log \<Rightarrow> string set" where
  "log_keys l = kr_key ` set l"

lemma event_message_key [simp]: "kr_key (event_message cfg e k) = k"
  by (simp add: event_message_def)

lemma ingest_keys:
  assumes "acks_all (ie_broker env)" and "ingest_event cfg env e t l = (r, t1, l1)" and "dom t \<subseteq> log_keys l"
  shows "dom t \<subseteq> dom t1" "dom t1 \<subseteq> log_keys l1" "set l \<subseteq> set l1"
    "r = Inr res \<Longrightarrow> ir_key res \<in> dom t1"
    "announced_new k (env, e, r) \<longleftrightarrow> k \<in> dom t1 \<and> k \<notin> dom t"
  using assms(1,2)
  by (cases rule: ingest_cases; use assms(3) in \<open>auto simp: log_keys_def announced_new_def\<close>)+

definition all_acks :: "(ingest_env \<times> 'x) list \<Rightarrow> bool" where
  "all_acks cs \<longleftrightarrow> list_all (\<lambda>c. acks_all (ie_broker (fst c))) cs"

definition accepted :: "'e \<times> 'f \<times> (exc + ingest_result) \<Rightarrow> string set" where
  "accepted c = (case snd (snd c) of Inl ex \<Rightarrow> {} | Inr res \<Rightarrow> {ir_key res})"

lemma all_acks_Cons [simp]: "all_acks (c # cs) \<longleftrightarrow> acks_all (ie_broker (fst c)) \<and> all_acks cs"
  by (simp add: all_acks_def)

lemma ingest_run_mono:
  assumes "ingest_run cfg t l tr t2 l2" and "all_acks tr" and "dom t \<subseteq> log_keys l"
  shows "dom t \<subseteq> dom t2 \<and> dom t2 \<subseteq> log_keys l2 \<and> (\<forall>c \<in> set tr. accepted c \<subseteq> dom t2)"
  using assms
proof (induction rule: ingest_run.induct)
  case (call env e t l r t1 l1 tr t2 l2)
  have ok: "acks_all (ie_broker env)" "all_acks tr" using call.prems(1) by simp_all
  note step = ingest_keys [OF ok(1) call.hyps(1) call.prems(2)]
  note ih = call.IH [OF ok(2) step(2)]
  have "accepted (env, e, r) \<subseteq> dom t1" using step(4) by (auto simp: accepted_def split: sum.splits)
  then have "\<forall>c \<in> set ((env, e, r) # tr). accepted c \<subseteq> dom t2" using ih by (metis set_ConsD subset_trans)
  then show ?case using ih subset_trans [OF step(1)] by blast
qed simp

lemma ingest_run_new:
  assumes "ingest_run cfg t l tr t2 l2" and "all_acks tr" and "dom t \<subseteq> log_keys l"
  shows "length (filter (announced_new k) tr) = (if k \<in> dom t2 \<and> k \<notin> dom t then 1 else 0)"
  using assms
proof (induction rule: ingest_run.induct)
  case (call env e t l r t1 l1 tr t2 l2)
  have ok: "acks_all (ie_broker env)" "all_acks tr" using call.prems(1) by simp_all
  note step = ingest_keys [OF ok(1) call.hyps(1) call.prems(2)]
  have "dom t1 \<subseteq> dom t2" using ingest_run_mono [OF call.hyps(2) ok(2) step(2)] by blast
  then show ?case using call.IH [OF ok(2) step(2)] step(5) [of k] step(1)
    by (cases "k \<in> dom t1"; cases "k \<in> dom t"; cases "k \<in> dom t2"; simp only: filter.simps list.size if_True if_False; simp; blast)
qed simp

text \<open>\<open>ingest_polled\<close> is such a run, with its answers counted.\<close>

definition counts :: "idem_table \<Rightarrow> idem_table \<Rightarrow> nat \<Rightarrow> poll_stats \<Rightarrow> bool" where
  "counts t t2 n s \<longleftrightarrow> ps_new s + ps_duplicates s + ps_errors s = n \<and> dom t \<subseteq> dom t2 \<and>
     finite (dom t2 - dom t) \<and> ps_new s = card (dom t2 - dom t)"

lemma card_diff_insert:
  assumes "finite (C - insert k A)" "k \<notin> A" "insert k A \<subseteq> C"
  shows "card (C - A) = Suc (card (C - insert k A))" "finite (C - A)" "A \<subseteq> C"
proof -
  have eq: "C - A = insert k (C - insert k A)" using assms(2,3) by blast
  show "finite (C - A)" unfolding eq using assms(1) by simp
  show "card (C - A) = Suc (card (C - insert k A))" using card_insert_disjoint [OF assms(1), of k] unfolding eq by simp
  show "A \<subseteq> C" using assms(3) by blast
qed

lemma counts_new:
  assumes "counts t1 t2 n s" and t1: "dom t1 = insert k (dom t)" and k: "k \<notin> dom t"
  shows "counts t t2 (Suc n) (s\<lparr>ps_new := ps_new s + 1\<rparr>)"
proof -
  have c: "ps_new s + ps_duplicates s + ps_errors s = n" "insert k (dom t) \<subseteq> dom t2"
      "finite (dom t2 - insert k (dom t))" "ps_new s = card (dom t2 - insert k (dom t))"
    using assms(1) unfolding counts_def t1 by blast+
  from card_diff_insert [OF c(3) k c(2)] c(1,4) show ?thesis unfolding counts_def by simp
qed

lemma counts_same:
  "counts t1 t2 n s \<Longrightarrow> dom t1 = dom t \<Longrightarrow> counts t t2 (Suc n) (s\<lparr>ps_duplicates := ps_duplicates s + 1\<rparr>)"
  "counts t1 t2 n s \<Longrightarrow> counts t1 t2 (Suc n) (s\<lparr>ps_errors := ps_errors s + 1\<rparr>)"
  by (simp_all add: counts_def)

lemma ingest_polled_counts:
  "all_acks es \<Longrightarrow> ingest_polled cfg es t l = (s, t2, l2) \<Longrightarrow> counts t t2 (length es) s"
proof (induction es arbitrary: t l s t2 l2)
  case Nil
  then show ?case by (auto simp: counts_def)
next
  case (Cons x es)
  obtain env e where x: "x = (env, e)" by force
  obtain r t1 l1 where run: "ingest_event cfg env e t l = (r, t1, l1)" by (metis prod_cases3)
  obtain s1 t3 l3 where rest: "ingest_polled cfg es t1 l1 = (s1, t3, l3)" by (metis prod_cases3)
  note out = Cons.prems(2) [unfolded x ingest_polled.simps run rest prod.case]
  have ok: "acks_all (ie_broker env)" "all_acks es" using Cons.prems(1) x by simp_all
  have ih: "counts t1 t3 (length es) s1" using Cons.IH [OF ok(2) rest] .
  from ok(1) run show ?case
  proof (cases rule: ingest_cases)
    case (new k res)
    then show ?thesis using counts_new [OF ih new(8,3)] out by simp
  next
    case (duplicate k res)
    then show ?thesis using counts_same(1) [OF ih duplicate(8)] out by simp
  next
    case (error ex)
    then show ?thesis using counts_same(2) [OF ih] out by simp
  qed
qed

subsection \<open>Pages\<close>

definition paged :: "'a list \<Rightarrow> nat \<Rightarrow> 'a list" where
  "paged xs k = take paystack_page_size (drop ((k - 1) * paystack_page_size) xs)"

lemma paystack_pages_paged:
  "1 \<le> k \<Longrightarrow> paystack_pages (\<lambda>i. Inr (paged xs i)) k m =
     Inr (take (m * paystack_page_size) (drop ((k - 1) * paystack_page_size) xs))"
proof (induction m arbitrary: k)
  case (Suc m)
  let ?n = paystack_page_size
  have k: "drop ((Suc k - 1) * ?n) xs = drop ?n (drop ((k - 1) * ?n) xs)"
    using Suc.prems by (cases k) (simp_all add: algebra_simps)
  show ?case
  proof (cases "length (paged xs k) < ?n")
    case True
    then have "length (drop ((k - 1) * ?n) xs) < ?n" by (simp add: paged_def min_def split: if_splits)
    then show ?thesis using True by (simp add: paged_def)
  next
    case False
    then show ?thesis using Suc.IH [of "Suc k"] k by (simp add: paged_def take_add)
  qed
qed simp

subsection \<open>The key of the pipeline and the key of Silver\<close>

lemma build_key_strip_ref: "build_idempotency_key p (py_strip r) e = build_idempotency_key p r e"
  by (simp add: build_key_append str_simps)

lemma event_of_Inr: "event_of payload = Inr et \<Longrightarrow> dict_get payload ''event'' = JStr et"
  by (auto simp: event_of_def dict_item_def dict_get_def split: option.splits json.splits if_splits)

lemma classify_process:
  assumes "process (classify_event p et payload)"
  shows "\<exists>d. dict_get payload ''data'' = JObj d" and "et \<noteq> []"
  using assms
  by (auto simp: classify_event_def skip_def PAYSTACK_EVENTS_def FLUTTERWAVE_EVENTS_def
      split: json.splits if_splits option.splits)

lemma jget_or_dict: "jget (or_dict (JObj d)) k = Inr (dict_get d k)"
  by (auto simp: or_dict_def jor_def)

lemma event_type_of: "event_of payload = Inr et \<Longrightarrow> et \<noteq> [] \<Longrightarrow> extract_event_type payload = et"
  by (simp add: extract_event_type_def event_of_Inr jor_def)

lemma canonical_record_key:
  "canonical_record env p ref et disp raw cur ngn sn ap cp narr t st md = Inr r \<Longrightarrow>
     idempotency_key r = build_idempotency_key p ref et"
  by (auto simp: canonical_record_def split: if_splits)

lemma paystack_key:
  assumes "normalise_paystack_event env payload = Inr r"
  shows "event_key \<lparr>we_psp = ''paystack'', we_type = extract_event_type payload, we_payload = payload,
    we_hash = h, we_received = rc\<rparr> = Inr (idempotency_key r)"
proof -
  from assms obtain et ref where et: "event_of payload = Inr et"
      "process (classify_event ''paystack'' et payload)"
    and ref: "require_str (the_dict (dict_get payload ''data'')) ''reference'' = Inr ref"
    and key: "idempotency_key r = build_idempotency_key ''paystack'' ref et"
    by (auto simp: normalise_paystack_event_def Let_def split_def dest!: canonical_record_key split: if_splits)
  obtain d where d: "dict_get payload ''data'' = JObj d" using classify_process(1) [OF et(2)] by blast
  have t: "truthy (dict_get d ''reference'')" "ref = py_strip (py_str (dict_get d ''reference''))"
    using ref d by (auto simp: require_str_def the_dict_def Let_def split: if_splits)
  show ?thesis
    by (simp add: event_key_def extract_transaction_ref_def d jget_or_dict t key build_key_strip_ref
        event_type_of [OF et(1) classify_process(2) [OF et(2)]])
qed

lemma flutterwave_key:
  assumes "normalise_flutterwave_event env payload = Inr r"
  shows "event_key \<lparr>we_psp = ''flutterwave'', we_type = extract_event_type payload, we_payload = payload,
    we_hash = h, we_received = rc\<rparr> = Inr (idempotency_key r)"
proof -
  from assms obtain et where et: "event_of payload = Inr et"
      "process (classify_event ''flutterwave'' et payload)"
    and ref: "flutterwave_reference (the_dict (dict_get payload ''data'')) \<noteq> []"
    and key: "idempotency_key r =
      build_idempotency_key ''flutterwave'' (flutterwave_reference (the_dict (dict_get payload ''data''))) et"
    by (auto simp: normalise_flutterwave_event_def Let_def split_def dest!: canonical_record_key split: if_splits)
  obtain d where d: "dict_get payload ''data'' = JObj d" using classify_process(1) [OF et(2)] by blast
  have "truthy (jor (dict_get d ''tx_ref'') (dict_get d ''reference''))"
    using ref d by (auto simp: flutterwave_reference_def the_dict_def jor_def py_strip_def split: if_splits)
  then show ?thesis
    by (auto simp: event_key_def extract_transaction_ref_def d jget_or_dict key build_key_strip_ref
        the_dict_def flutterwave_reference_def jor_def event_type_of [OF et(1) classify_process(2) [OF et(2)]])
qed

lemma normaliser_event_key:
  assumes "NORMALISERS p = Some f" and "f env payload = Inr r"
  shows "event_key \<lparr>we_psp = p, we_type = extract_event_type payload, we_payload = payload,
    we_hash = h, we_received = rc\<rparr> = Inr (idempotency_key r)"
  using assms paystack_key flutterwave_key by (auto simp: NORMALISERS_def split: if_splits)

subsection \<open>Properties\<close>

definition example_settings :: ingest_settings where
  "example_settings = \<lparr>paystack_secret_key = ''sk'', flutterwave_secret_hash = ''hash'',
     kafka_topic_paystack = ''raw.paystack.events'', kafka_topic_flutterwave = ''raw.flutterwave.events'',
     kafka_topic_polling = ''raw.polling.fallback'', hmac_sha512 = (\<lambda>k m. k), sha256 = (\<lambda>m. ''00'')\<rparr>"

definition example_ingest_env :: ingest_env where
  "example_ingest_env = \<lparr>ie_now = 0, ie_db_up = True, ie_broker = acked, ie_commits = True\<rparr>"

definition example_payload :: "(string \<times> json) list" where
  "example_payload = [(''event'', JStr ''charge.success''), (''data'', JObj [(''reference'', JStr ''T1'')])]"

definition example_event :: webhook_event where
  "example_event = build_event example_settings Paystack ''{}'' example_payload ''now''"

text \<open>
  C5 No event is lost on the way in: for any sequence of ingestion calls, with database and commit
  failures, broker refusals, timeouts and lost acknowledgements in any order, every registered
  key has its message in the topic, every call that returned (new or duplicate) left its key
  registered, and a key is announced as new at most once, exactly when it was not registered
  before and is registered at the end.
\<close>

theorem ingest_never_loses:
  assumes "ingest_run cfg t l tr t2 l2" and "all_acks tr" and "dom t \<subseteq> log_keys l"
  shows "dom t \<subseteq> dom t2 \<and> dom t2 \<subseteq> log_keys l2 \<and> (\<forall>c \<in> set tr. accepted c \<subseteq> dom t2) \<and>
    length (filter (announced_new k) tr) = (if k \<in> dom t2 \<and> k \<notin> dom t then 1 else 0)"
  using ingest_run_mono [OF assms] ingest_run_new [OF assms] by blast

lemma ingest_run_total: "\<exists>tr t2 l2. ingest_run cfg t l tr t2 l2 \<and> map (\<lambda>c. (fst c, fst (snd c))) tr = es"
proof (induction es arbitrary: t l)
  case Nil
  show ?case by (intro exI conjI, rule none) (simp add: Nil)
next
  case (Cons x es)
  obtain r t1 l1 where run: "ingest_event cfg (fst x) (snd x) t l = (r, t1, l1)" by (metis prod_cases3)
  obtain tr t2 l2 where "ingest_run cfg t1 l1 tr t2 l2" "map (\<lambda>c. (fst c, fst (snd c))) tr = es"
    using Cons [of t1 l1] by blast
  then show ?case using call [OF run]
    by (intro exI [of _ "(fst x, snd x, r) # tr"] exI [of _ t2] exI [of _ l2] conjI) simp_all
qed

theorem ingest_never_loses_witness:
  "\<exists>tr t2 l2. ingest_run example_settings Map.empty [] tr t2 l2 \<and> length tr = 2 \<and> dom t2 \<subseteq> log_keys l2"
proof -
  let ?env = "example_ingest_env"
  obtain tr t2 l2 where run: "ingest_run example_settings Map.empty [] tr t2 l2"
    and tr: "map (\<lambda>c. (fst c, fst (snd c))) tr =
      [(?env\<lparr>ie_broker := acked\<lparr>delivery_error := None\<rparr>\<rparr>, example_event), (?env, example_event)]"
    using ingest_run_total by blast
  have "length tr = 2" using arg_cong [OF tr, of length] by simp
  moreover have "all_acks tr" unfolding all_acks_def list_all_iff
  proof
    fix c assume "c \<in> set tr"
    then have "(fst c, fst (snd c)) \<in> set (map (\<lambda>c. (fst c, fst (snd c))) tr)" by auto
    then show "acks_all (ie_broker (fst c))"
      unfolding tr by (auto simp: example_ingest_env_def acks_all_def acked_def)
  qed
  ultimately show ?thesis using run ingest_never_loses [OF run, of "[]"] by auto
qed


definition example_request :: webhook_request where
  "example_request = \<lparr>wr_psp = Paystack, wr_body = ''{}'', wr_signature = ''SK''\<rparr>"

lemma example_request_accepted:
  "fst (receive (\<lambda>b. Some (JObj example_payload)) example_settings example_ingest_env ''now'' example_request Map.empty []) =
     Inr (True, ''paystack:T1:charge.success'')"
  by code_simp


text \<open>
  Deduplication lines up end to end: when a normaliser turns a payload into a Silver record, the
  record's idempotency key is the key the event was registered and published under. A message
  published twice is therefore the same row of Silver.
\<close>

theorem ingest_key_is_silver_key:
  assumes "NORMALISERS p = Some f" and "f env payload = Inr r"
  shows "event_key \<lparr>we_psp = p, we_type = extract_event_type payload, we_payload = payload,
    we_hash = h, we_received = rc\<rparr> = Inr (idempotency_key r)"
  using assms by (rule normaliser_event_key)

theorem ingest_key_is_silver_key_witness:
  "\<exists>r. normalise_paystack_event example_env example_charge = Inr r \<and>
     event_key (build_event example_settings Paystack ''{}'' example_charge ''now'') = Inr (idempotency_key r)"
proof -
  obtain r where r: "normalise_paystack_event example_env example_charge = Inr r"
    using example_charge_result by blast
  have "NORMALISERS ''paystack'' = Some normalise_paystack_event" by (simp add: NORMALISERS_def)
  from ingest_key_is_silver_key [OF this r] r show ?thesis by (auto simp: build_event_def)
qed

text \<open>
  Gap detection counts exactly: over a polled batch, with any failures, every transaction is
  counted once, and the number of recovered gaps is the number of keys the batch added to the
  registry.
\<close>

theorem polled_gaps_exact:
  assumes "all_acks es" and "ingest_polled cfg es t l = (s, t2, l2)"
  shows "ps_new s + ps_duplicates s + ps_errors s = length es \<and> dom t \<subseteq> dom t2 \<and>
    finite (dom t2 - dom t) \<and> ps_new s = card (dom t2 - dom t)"
  using ingest_polled_counts [OF assms] by (simp add: counts_def)

theorem polled_gaps_exact_witness:
  "\<exists>s t2 l2. ingest_polled example_settings
      [(example_ingest_env, example_event), (example_ingest_env, example_event)] Map.empty [] = (s, t2, l2) \<and>
    ps_new s = card (dom t2)"
proof -
  let ?es = "[(example_ingest_env, example_event), (example_ingest_env, example_event)]"
  obtain s t2 l2 where run: "ingest_polled example_settings ?es Map.empty [] = (s, t2, l2)" by (metis prod_cases3)
  have "all_acks ?es" by (simp add: all_acks_def example_ingest_env_def acks_all_def acked_def)
  from polled_gaps_exact [OF this run] run show ?thesis by auto
qed

text \<open>
  Pagination is complete: when the API serves a list in pages of one hundred, the Paystack
  client returns that list, up to its hard stop of two hundred pages.
\<close>

theorem paystack_list_complete:
  "paystack_list_all (\<lambda>k. Inr (paged xs k)) = Inr (take 20000 xs)"
  using paystack_pages_paged [of 1 xs MAX_PAGES]
  by (simp add: paystack_list_all_def MAX_PAGES_def paystack_page_size_def)

end
