(* ===== verification/Transform.thy ===== *)
theory Transform
  imports Ingestion Silver Fx Settlement
begin

text \<open>
  \<open>src/flows/transform_flow.py\<close>: one Kafka message into Bronze and Silver. The lake is the
  ingestion log, the canonical transactions and the exchange rates. The Parquet object written
  to MinIO is a parameter (its path, or the exception), as are identifiers, clock and provider.
  Each of the two sessions commits or fails as a whole.
\<close>

record lake =
  bronze_log :: bronze_table
  silver_txs :: silver_table
  fx_rates :: fx_table

record transform_env =
  te_now :: time
  te_parquet :: "exc + string"
  te_bronze_id :: nat
  te_silver_id :: nat
  te_run :: nat
  te_bronze_commits :: bool
  te_silver_commits :: bool
  te_has_fx_key :: bool
  te_provider :: "string \<Rightarrow> fetch"
  te_fx_id :: "string \<Rightarrow> nat"
  te_windows :: "settlement_window list"
  te_hmac :: "string \<Rightarrow> string \<Rightarrow> string"
  te_key :: string

definition get_default :: "(string \<times> json) list \<Rightarrow> string \<Rightarrow> json \<Rightarrow> json" where
  "get_default d k v = (case map_of d k of None \<Rightarrow> v | Some x \<Rightarrow> x)"

text \<open>A value bound to a text parameter: the driver accepts only strings.\<close>

definition sql_text :: "json \<Rightarrow> exc + string" where
  "sql_text v = (case v of JStr s \<Rightarrow> Inr s | _ \<Rightarrow> Inl DatabaseError)"

subsection \<open>Bronze\<close>

definition write_bronze_parquet ::
  "transform_env \<Rightarrow> string \<Rightarrow> (string \<times> json) list \<Rightarrow> bronze_table \<Rightarrow> exc + bronze_row \<times> bronze_table" where
  "write_bronze_parquet env psp msg t =
     sbind (to_int (get_default msg ''kafka_partition'' (JInt 0))) (\<lambda>part.
     sbind (to_int (get_default msg ''kafka_offset'' (JInt (- 1)))) (\<lambda>off.
     sbind (dict_item msg ''content_hash'') (\<lambda>h.
     sbind (te_parquet env) (\<lambda>path.
     sbind (sql_text (get_default msg ''source_type'' (JStr ''webhook''))) (\<lambda>source.
     sbind (sql_text (get_default msg ''kafka_topic'' (JStr (''raw.'' @ psp @ ''.events'')))) (\<lambda>topic.
     sbind (sql_text h) (\<lambda>hash.
     sbind (insert_bronze \<lparr>b_id = te_bronze_id env, b_psp = psp, b_source = source, b_topic = topic,
       b_partition = part, b_offset = off, b_hash = hash, b_path = path, b_run = te_run env\<rparr> t) (\<lambda>(t', r).
     if te_bronze_commits env then Inr (r, t') else Inl DatabaseError))))))))"

subsection \<open>Silver\<close>

definition fx_lookup :: "fx_table \<Rightarrow> string \<Rightarrow> time \<Rightarrow> (nat \<times> rat) option" where
  "fx_lookup t currency initiated = get_fx_rate_at t (''NGN/'' @ currency) initiated"

definition resolve_fx_rate ::
  "transform_env \<Rightarrow> string \<Rightarrow> time \<Rightarrow> fx_table \<Rightarrow> exc + (nat \<times> rat) option \<times> fx_table" where
  "resolve_fx_rate env currency initiated t = (
     if currency = ''NGN'' then Inr (None, t)
     else case fx_lookup t currency initiated of
         Some r \<Rightarrow> Inr (Some r, t)
       | None \<Rightarrow> sbind (capture_fx_rates (te_has_fx_key env) (te_provider env) (te_fx_id env) (te_now env) t)
           (\<lambda>(t', new). case fx_lookup t' currency initiated of
              Some r \<Rightarrow> Inr (Some r, t')
            | None \<Rightarrow> Inl (PermanentEventError ''no FX rate'')))"

definition event_time :: "(string \<times> json) list \<Rightarrow> exc + time" where
  "event_time data = parse_timestamp (jor (jor (dict_get data ''paid_at'') (dict_get data ''created_at''))
     (dict_get data ''createdAt''))"

definition norm_env_of ::
  "transform_env \<Rightarrow> nat \<Rightarrow> (nat \<times> rat) option \<Rightarrow> time option \<Rightarrow> norm_env" where
  "norm_env_of env bronze_id fx expected = \<lparr>e_bronze_id = bronze_id, e_run_id = te_run env,
     e_snapshot = map_option fst fx, e_rate = map_option snd fx, e_expected = expected,
     e_new_id = te_silver_id env, e_now = te_now env, e_hmac = te_hmac env, e_key = te_key env\<rparr>"

text \<open>The body of the session: the new tables, the row's identifier and whether it is new.\<close>

definition normalise_to_silver ::
  "transform_env \<Rightarrow> string \<Rightarrow> (string \<times> json) list \<Rightarrow> string \<Rightarrow> nat \<Rightarrow> silver_table \<Rightarrow> fx_table \<Rightarrow>
   exc + (nat \<times> bool) \<times> silver_table \<times> fx_table" where
  "normalise_to_silver env psp payload event_type bronze_id silver fx = (case NORMALISERS psp of
     None \<Rightarrow> Inl (KeyError psp)
   | Some normaliser \<Rightarrow>
       let data = the_dict (or_dict (dict_get payload ''data'')) in
       sbind (event_time data) (\<lambda>initiated.
       sbind (resolve_fx_rate env (currency_of data) initiated fx) (\<lambda>(rate, fx').
       let disp = classify_event psp event_type payload;
           ty = (case d_transaction_type disp of None \<Rightarrow> ''credit'' | Some t \<Rightarrow> t);
           expected = compute_expected_settlement (te_windows env) psp ty initiated ''standard''
       in
       sbind (normaliser (norm_env_of env bronze_id rate expected) payload) (\<lambda>r0.
       sbind (validate_silver r0) (\<lambda>r.
       sbind (insert_silver r silver) (\<lambda>(silver', new).
       if \<not> te_silver_commits env then Inl DatabaseError
       else if new then Inr ((tx_id r, True), silver', fx')
       else case silver_by_key silver' (idempotency_key r) of
           Some s \<Rightarrow> Inr ((tx_id s, False), silver', fx')
         | None \<Rightarrow> Inl (RuntimeError ''NoResultFound'')))))))"

subsection \<open>One message\<close>

datatype outcome = Skipped "string option" nat | Written nat nat | Duplicate nat nat

definition REQUIRED_FIELDS :: "string list" where
  "REQUIRED_FIELDS = [''psp_name'', ''event_type'', ''payload'', ''content_hash'']"

definition process_kafka_message ::
  "transform_env \<Rightarrow> (string \<times> json) list \<Rightarrow> lake \<Rightarrow> (exc + outcome) \<times> lake" where
  "process_kafka_message env msg L = (
     if \<not> list_all (\<lambda>f. map_of msg f \<noteq> None) REQUIRED_FIELDS
     then (Inl (PermanentEventError ''kafka message missing fields''), L)
     else let psp = py_str (dict_get msg ''psp_name''); event_type = py_str (dict_get msg ''event_type'') in
     case dict_get msg ''payload'' of
       JObj payload \<Rightarrow> (case write_bronze_parquet env psp msg (bronze_log L) of
           Inl e \<Rightarrow> (Inl e, L)
         | Inr (row, bronze') \<Rightarrow>
             let L1 = L\<lparr>bronze_log := bronze'\<rparr>; disp = classify_event psp event_type payload in
             if \<not> process disp then (Inr (Skipped (reason disp) (b_id row)), L1)
             else case normalise_to_silver env psp payload event_type (b_id row) (silver_txs L1) (fx_rates L1) of
                 Inl e \<Rightarrow> (Inl e, L1)
               | Inr ((i, new), silver', fx') \<Rightarrow>
                   (Inr (if new then Written (b_id row) i else Duplicate (b_id row) i),
                    L1\<lparr>silver_txs := silver', fx_rates := fx'\<rparr>))
     | _ \<Rightarrow> (Inl (PermanentEventError ''kafka message payload is not an object''), L))"

subsection \<open>What one message does to the lake\<close>

lemma write_bronze_Inr:
  assumes "write_bronze_parquet env psp msg t = Inr (r, t')"
  shows "\<exists>row. insert_bronze row t = Inr (t', r) \<and>
    sql_text (get_default msg ''kafka_topic'' (JStr (''raw.'' @ psp @ ''.events''))) = Inr (b_topic row) \<and>
    to_int (get_default msg ''kafka_partition'' (JInt 0)) = Inr (b_partition row) \<and>
    to_int (get_default msg ''kafka_offset'' (JInt (- 1))) = Inr (b_offset row)"
  using assms unfolding write_bronze_parquet_def sbind_Inr_iff split_def
  by (elim exE conjE) (auto split: if_splits intro!: exI)

lemma resolve_fx_rate_Inr:
  assumes "resolve_fx_rate env c t fx = Inr (rate, fx')"
  shows "fx' = fx \<or>
    (\<exists>n. capture_fx_rates (te_has_fx_key env) (te_provider env) (te_fx_id env) (te_now env) fx = Inr (fx', n))"
  using assms unfolding resolve_fx_rate_def by (auto split: if_splits option.splits)

lemma normalise_to_silver_Inr:
  assumes "normalise_to_silver env psp payload et b s fx = Inr ((i, new), s', fx')"
  obtains f nenv r where "NORMALISERS psp = Some f" "f nenv payload = Inr r" "SILVER_CANONICAL_SCHEMA r"
    "insert_silver r s = Inr (s', new)" "new \<Longrightarrow> i = tx_id r"
    "\<not> new \<Longrightarrow> \<exists>q. silver_by_key s' (idempotency_key r) = Some q \<and> i = tx_id q"
    "fx' = fx \<or> (\<exists>c. capture_fx_rates (te_has_fx_key env) (te_provider env) (te_fx_id env) (te_now env) fx = Inr (fx', c))"
proof -
  from assms obtain f where f: "NORMALISERS psp = Some f"
    by (auto simp: normalise_to_silver_def split: option.splits)
  let ?data = "the_dict (or_dict (dict_get payload ''data''))"
  from assms obtain t rate nenv r0 r s1 new1 where
      res: "resolve_fx_rate env (currency_of ?data) t fx = Inr (rate, fx')"
    and r: "f nenv payload = Inr r0" "validate_silver r0 = Inr r" "insert_silver r s = Inr (s1, new1)"
    and out: "(if \<not> te_silver_commits env then Inl DatabaseError
       else if new1 then Inr ((tx_id r, True), s1, fx')
       else case silver_by_key s1 (idempotency_key r) of
           Some q \<Rightarrow> Inr ((tx_id q, False), s1, fx')
         | None \<Rightarrow> Inl (RuntimeError ''NoResultFound'')) = Inr ((i, new), s', fx')"
    unfolding normalise_to_silver_def f option.case Let_def sbind_Inr_iff split_def
    by (elim exE conjE) (auto split: if_splits option.splits)
  have rr: "r = r0" "SILVER_CANONICAL_SCHEMA r" using r(2) by (auto simp: validate_silver_def split: if_splits)
  have o: "s' = s1" "new = new1" "new \<Longrightarrow> i = tx_id r"
    "\<not> new \<Longrightarrow> \<exists>q. silver_by_key s' (idempotency_key r) = Some q \<and> i = tx_id q"
    using out by (auto split: if_splits option.splits)
  from that [OF f r(1) [folded rr(1)] rr(2) _ o(3) o(4) resolve_fx_rate_Inr [OF res]] r(3) o(1,2) show ?thesis by simp
qed

lemma capture_fx_rates_one_current:
  "one_current t \<Longrightarrow> capture_fx_rates k p n now t = Inr (t', c) \<Longrightarrow> one_current t'"
  by (auto simp: capture_fx_rates_def intro: one_current_capture_loop split: if_splits)

definition lake_inv :: "lake \<Rightarrow> bool" where
  "lake_inv L \<longleftrightarrow> bronze_inv (bronze_log L) \<and> silver_inv (silver_txs L) \<and> one_current (fx_rates L)"

text \<open>The four ways a message can end.\<close>

lemma process_cases:
  assumes "process_kafka_message env msg L = (res, L')"
  obtains (refused) e where "res = Inl e" "L' = L"
  | (bronze_only) e row r b where "res = Inl e" "L' = L\<lparr>bronze_log := b\<rparr>"
      "insert_bronze row (bronze_log L) = Inr (b, r)"
  | (skipped) row r b psp et payload where "res = Inr (Skipped (reason (classify_event psp et payload)) (b_id r))"
      "L' = L\<lparr>bronze_log := b\<rparr>" "dict_get msg ''payload'' = JObj payload" "psp = py_str (dict_get msg ''psp_name'')"
      "et = py_str (dict_get msg ''event_type'')" "write_bronze_parquet env psp msg (bronze_log L) = Inr (r, b)"
      "insert_bronze row (bronze_log L) = Inr (b, r)" "\<not> process (classify_event psp et payload)"
  | (silver) row r b psp et payload i new s' fx' where
      "res = Inr (if new then Written (b_id r) i else Duplicate (b_id r) i)"
      "L' = L\<lparr>bronze_log := b, silver_txs := s', fx_rates := fx'\<rparr>" "dict_get msg ''payload'' = JObj payload"
      "psp = py_str (dict_get msg ''psp_name'')" "et = py_str (dict_get msg ''event_type'')"
      "write_bronze_parquet env psp msg (bronze_log L) = Inr (r, b)"
      "insert_bronze row (bronze_log L) = Inr (b, r)" "process (classify_event psp et payload)"
      "normalise_to_silver env psp payload et (b_id r) (silver_txs L) (fx_rates L) = Inr ((i, new), s', fx')"
proof -
  let ?psp = "py_str (dict_get msg ''psp_name'')" and ?et = "py_str (dict_get msg ''event_type'')"
  show ?thesis
  proof (cases "list_all (\<lambda>f. map_of msg f \<noteq> None) REQUIRED_FIELDS \<and> (\<exists>payload. dict_get msg ''payload'' = JObj payload)")
    case False
    then show ?thesis
      using assms by (intro refused [of "projl res"]) (auto simp: process_kafka_message_def Let_def split: json.splits if_splits)
  next
    case True
    then obtain payload where p: "dict_get msg ''payload'' = JObj payload" and f: "list_all (\<lambda>f. map_of msg f \<noteq> None) REQUIRED_FIELDS" by blast
    from f have nf: "\<not> \<not> list_all (\<lambda>f. map_of msg f \<noteq> None) REQUIRED_FIELDS" by simp
    note run = assms [unfolded process_kafka_message_def Let_def p json.case if_not_P [OF nf]]
    show ?thesis
    proof (cases "write_bronze_parquet env ?psp msg (bronze_log L)")
      case (Inl e)
      then show ?thesis using run f by (intro refused [of e]) auto
    next
      case (Inr rb)
      obtain r b where rb: "rb = (r, b)" by force
      obtain row where row: "insert_bronze row (bronze_log L) = Inr (b, r)"
        using write_bronze_Inr Inr unfolding rb by blast
      note run = run [unfolded Inr rb sum.case prod.case]
      show ?thesis
      proof (cases "process (classify_event ?psp ?et payload)")
        case False
        then show ?thesis using run f Inr rb row p by (intro skipped [OF _ _ p refl refl]) auto
      next
        case pr: True
        show ?thesis
        proof (cases "normalise_to_silver env ?psp payload ?et (b_id r) (silver_txs L) (fx_rates L)")
          case (Inl e)
          then show ?thesis using run f pr row by (intro bronze_only [of e]) auto
        next
          case n: (Inr z)
          obtain i new s' fx' where z: "z = ((i, new), s', fx')" by (cases z) auto
          show ?thesis using run f pr row n z Inr rb p by (intro silver [OF _ _ p refl refl]) auto
        qed
      qed
    qed
  qed
qed

lemma insert_silver_keys:
  "insert_silver r t = Inr (t', new) \<Longrightarrow> silver_keys t' = insert (idempotency_key r) (silver_keys t)"
  using insert_silver_Inr [of r t t' new] by (auto simp: silver_keys_def split: if_splits)

lemma process_inv [inv_intros]:
  assumes "lake_inv L" and "process_kafka_message env msg L = (res, L')"
  shows "lake_inv L'"
  using assms(2)
proof (cases rule: process_cases)
  case (silver row r b psp et payload i new s' fx')
  have s: "silver_inv (silver_txs L)" and o: "one_current (fx_rates L)" and b0: "bronze_inv (bronze_log L)"
    using assms(1) by (simp_all add: lake_inv_def)
  have "bronze_inv b" using bronze_inv_insert [OF b0] silver(7) .
  moreover from silver(9) have "silver_inv s' \<and> one_current fx'"
  proof (cases rule: normalise_to_silver_Inr)
    case (1 f nenv rr)
    then show ?thesis using silver_inv_insert [OF s 1(4)] capture_fx_rates_one_current [OF o] o by blast
  qed
  ultimately show ?thesis using silver(2) by (simp add: lake_inv_def)
next
  case (bronze_only e row r b)
  then show ?thesis using assms(1) bronze_inv_insert [of "bronze_log L" row b r] by (simp add: lake_inv_def)
next
  case (skipped row r b psp et payload)
  then show ?thesis using assms(1) bronze_inv_insert [of "bronze_log L" row b r] by (simp add: lake_inv_def)
qed (use assms(1) in simp)

lemma process_keys:
  assumes "process_kafka_message env msg L = (res, L')"
  shows "bronze_keys (bronze_log L) \<subseteq> bronze_keys (bronze_log L')"
    and "silver_keys (silver_txs L) \<subseteq> silver_keys (silver_txs L')"
proof -
  have "bronze_keys (bronze_log L) \<subseteq> bronze_keys (bronze_log L') \<and> silver_keys (silver_txs L) \<subseteq> silver_keys (silver_txs L')"
    using assms
  proof (cases rule: process_cases)
    case (silver row r b psp et payload i new s' fx')
    from silver(9) have "silver_keys (silver_txs L) \<subseteq> silver_keys s'"
    proof (cases rule: normalise_to_silver_Inr)
      case (1 f nenv rr)
      then show ?thesis using insert_silver_keys [OF 1(4)] by blast
    qed
    then show ?thesis using silver(2) insert_bronze_Inr(3) [OF silver(7)] by auto
  qed (auto dest: insert_bronze_Inr(3))
  then show "bronze_keys (bronze_log L) \<subseteq> bronze_keys (bronze_log L')"
    "silver_keys (silver_txs L) \<subseteq> silver_keys (silver_txs L')" by simp_all
qed

lemma process_error_keeps:
  "process_kafka_message env msg L = (Inl e, L') \<Longrightarrow> silver_txs L' = silver_txs L \<and> fx_rates L' = fx_rates L"
  by (erule process_cases) (auto split: if_splits)

subsection \<open>Redelivery\<close>

text \<open>A logged position is found again, with the row it was logged with.\<close>

lemma insert_bronze_again:
  assumes "insert_bronze row t = Inr (b, r)" and "bronze_position row' = bronze_position row"
    and "insert_bronze row' b = Inr (b', r')"
  shows "b' = b \<and> r' = r"
proof -
  have found: "List.find (\<lambda>s. bronze_position s = bronze_position row) b = Some r"
  proof (cases "List.find (\<lambda>s. bronze_position s = bronze_position row) t")
    case None
    then have abs: "bronze_position row \<notin> bronze_keys t" by (simp add: bronze_keys_def table_simps)
    then have b: "b = t @ [row] \<and> r = row"
      using assms(1) None bronze_put_absent [OF abs] by (auto simp: insert_bronze_def split: if_splits)
    show ?thesis using abs unfolding b [THEN conjunct1] b [THEN conjunct2]
      by (subst find_append_absent) (simp_all add: bronze_keys_def)
  next
    case (Some u)
    then show ?thesis using assms(1) by (auto simp: insert_bronze_def split: if_splits)
  qed
  then show ?thesis using assms(3) by (auto simp: insert_bronze_def assms(2) split: if_splits)
qed

lemma insert_silver_again:
  assumes "insert_silver r t = Inr (t', new)" and "insert_silver r2 t' = Inr (t2, new2)"
    and k: "idempotency_key r2 = idempotency_key r"
  shows "t2 = t' \<and> \<not> new2" "new \<Longrightarrow> silver_by_key t' (idempotency_key r) = Some (stored_row r)"
proof -
  have "idempotency_key r \<in> silver_keys t'" using insert_silver_keys [OF assms(1)] by simp
  then show "t2 = t' \<and> \<not> new2" using insert_silver_Inr [OF assms(2)] k by simp
  show "silver_by_key t' (idempotency_key r) = Some (stored_row r)" if new
  proof -
    have t': "idempotency_key r \<notin> silver_keys t" "t' = t @ [stored_row r]"
      using insert_silver_Inr [OF assms(1)] that by (auto split: if_splits)
    show ?thesis unfolding t'(2) silver_by_key_def using t'(1)
      by (subst find_append_absent) (simp_all add: silver_keys_def)
  qed
qed

lemma normaliser_key_unique:
  assumes "NORMALISERS p = Some f" "f e1 payload = Inr r1" "f e2 payload = Inr r2"
  shows "idempotency_key r1 = idempotency_key r2"
proof -
  have "Inr (idempotency_key r1) = (Inr (idempotency_key r2) :: exc + string)"
    using normaliser_event_key [OF assms(1,2), of "[]" "[]"] normaliser_event_key [OF assms(1,3), of "[]" "[]"] by simp
  then show ?thesis by simp
qed

fun redelivered :: "outcome \<Rightarrow> outcome" where
  "redelivered (Skipped r b) = Skipped r b"
| "redelivered (Written b i) = Duplicate b i"
| "redelivered (Duplicate b i) = Duplicate b i"

lemma write_bronze_position:
  assumes "write_bronze_parquet env psp msg t = Inr (r, b)" "write_bronze_parquet env' psp msg b = Inr (r', b')"
  shows "r' = r" "b' = b"
proof -
  obtain row where 1: "insert_bronze row t = Inr (b, r)"
    "sql_text (get_default msg ''kafka_topic'' (JStr (''raw.'' @ psp @ ''.events''))) = Inr (b_topic row)"
    "to_int (get_default msg ''kafka_partition'' (JInt 0)) = Inr (b_partition row)"
    "to_int (get_default msg ''kafka_offset'' (JInt (- 1))) = Inr (b_offset row)"
    using write_bronze_Inr [OF assms(1)] by blast
  obtain row' where 2: "insert_bronze row' b = Inr (b', r')"
    "sql_text (get_default msg ''kafka_topic'' (JStr (''raw.'' @ psp @ ''.events''))) = Inr (b_topic row')"
    "to_int (get_default msg ''kafka_partition'' (JInt 0)) = Inr (b_partition row')"
    "to_int (get_default msg ''kafka_offset'' (JInt (- 1))) = Inr (b_offset row')"
    using write_bronze_Inr [OF assms(2)] by blast
  have "bronze_position row' = bronze_position row"
    using 1(2-4) 2(2-4) unfolding bronze_position_def by simp
  then show "r' = r" "b' = b" using insert_bronze_again [OF 1(1) _ 2(1)] by simp_all
qed

lemma redelivery_silver:
  assumes "normalise_to_silver env psp payload et b s fx = Inr ((i, new), s1, fx1)"
    and "normalise_to_silver env' psp payload et b' s1 fx1 = Inr ((i', new'), s2, fx2)"
  shows "s2 = s1 \<and> \<not> new' \<and> i' = i"
  using assms(1)
proof (cases rule: normalise_to_silver_Inr)
  case (1 f nenv r)
  from assms(2) show ?thesis
  proof (cases rule: normalise_to_silver_Inr)
    case second: (1 f' nenv' r')
    have k: "idempotency_key r' = idempotency_key r"
      using normaliser_key_unique [of psp f nenv' payload r' nenv r] 1 second by simp
    note again = insert_silver_again [OF 1(4) second(4) k]
    obtain q where q: "silver_by_key s1 (idempotency_key r) = Some q" "i' = tx_id q"
      using again(1) second(6) k by auto
    have "i' = i"
    proof (cases new)
      case True
      then have "q = stored_row r" using q(1) again(2) by simp
      then show ?thesis using q(2) 1(5) True by simp
    next
      case False
      then show ?thesis using q 1(6) by simp
    qed
    then show ?thesis using again(1) by simp
  qed
qed

subsection \<open>Properties\<close>

definition example_lake :: lake where
  "example_lake = \<lparr>bronze_log = [], silver_txs = [], fx_rates = []\<rparr>"

definition example_transform_env :: transform_env where
  "example_transform_env = \<lparr>te_now = 1709202615000000, te_parquet = Inr ''s3://bronze/x'', te_bronze_id = 7,
     te_silver_id = 11, te_run = 3, te_bronze_commits = True, te_silver_commits = True, te_has_fx_key = False,
     te_provider = (\<lambda>p. HTTPError), te_fx_id = (\<lambda>p. 0), te_windows = [],
     te_hmac = (\<lambda>key w. key @ w), te_key = ''k''\<rparr>"

definition small_charge :: "(string \<times> json) list" where
  "small_charge = [(''event'', JStr ''charge.success''), (''data'', JObj [
     (''reference'', JStr ''T1''), (''amount'', JInt 5000), (''paid_at'', JStr ''20240229T10Z'')])]"

definition example_message :: "(string \<times> json) list" where
  "example_message = [(''psp_name'', JStr ''paystack''), (''event_type'', JStr ''charge.success''),
     (''payload'', JObj small_charge), (''content_hash'', JStr ''00''), (''kafka_topic'', JStr ''t''),
     (''kafka_partition'', JInt 0), (''kafka_offset'', JInt 0)]"

lemma example_message_run:
  "case process_kafka_message example_transform_env example_message example_lake of
     (Inr out, L) \<Rightarrow> out = Written 7 11 \<and> (case process_kafka_message example_transform_env example_message L of
        (Inr out', L2) \<Rightarrow> out' = Duplicate 7 11 | _ \<Rightarrow> False)
   | _ \<Rightarrow> False"
  by code_simp

lemma example_message_written:
  obtains L L2 where "process_kafka_message example_transform_env example_message example_lake = (Inr (Written 7 11), L)"
    "process_kafka_message example_transform_env example_message L = (Inr (Duplicate 7 11), L2)"
proof -
  obtain res L where 1: "process_kafka_message example_transform_env example_message example_lake = (res, L)" by force
  obtain res2 L2 where 2: "process_kafka_message example_transform_env example_message L = (res2, L2)" by force
  have "res = Inr (Written 7 11) \<and> res2 = Inr (Duplicate 7 11)"
    using example_message_run unfolding 1 prod.case by (auto simp: 2 split: sum.splits)
  then show ?thesis using that 1 2 by simp
qed

text \<open>
  C8 Every message, whatever happens to it, keeps the lake sound: Silver keys and Bronze positions
  stay unique, every Silver row keeps its constraints, at most one exchange rate per pair is
  current; nothing is ever removed, and a message that fails leaves Silver and the rates exactly
  as they were (also the rates captured on its behalf).
\<close>

theorem transform_keeps_lake:
  assumes "lake_inv L" and "process_kafka_message env msg L = (res, L')"
  shows "lake_inv L' \<and> bronze_keys (bronze_log L) \<subseteq> bronze_keys (bronze_log L') \<and>
    silver_keys (silver_txs L) \<subseteq> silver_keys (silver_txs L') \<and>
    (\<forall>e. res = Inl e \<longrightarrow> silver_txs L' = silver_txs L \<and> fx_rates L' = fx_rates L)"
  using process_inv [OF assms] process_keys [OF assms(2)] process_error_keeps assms(2) by blast

theorem transform_keeps_lake_witness:
  "\<exists>L. process_kafka_message example_transform_env example_message example_lake = (Inr (Written 7 11), L) \<and> lake_inv L"
proof -
  obtain L where run: "process_kafka_message example_transform_env example_message example_lake = (Inr (Written 7 11), L)"
    using example_message_written by blast
  have "lake_inv example_lake"
    by (simp add: lake_inv_def example_lake_def bronze_inv_def silver_inv_def one_current_def current_def)
  from transform_keeps_lake [OF this run] run show ?thesis by blast
qed

text \<open>
  C7 A redelivered message changes nothing: processing the same message again, with whatever clock,
  identifiers and rates, reports the same Bronze row, the same Silver row as a duplicate (or the
  same skip), and leaves both tables as they were.
\<close>

theorem redelivery_idempotent:
  assumes "process_kafka_message env msg L = (Inr out, L1)"
    and "process_kafka_message env' msg L1 = (Inr out', L2)"
  shows "out' = redelivered out \<and> bronze_log L2 = bronze_log L1 \<and> silver_txs L2 = silver_txs L1"
  using assms(1)
proof (cases rule: process_cases)
  case 1: (skipped row r b psp et payload)
  from assms(2) show ?thesis
  proof (cases rule: process_cases)
    case 2: (skipped row' r' b' psp' et' payload')
    then show ?thesis using 1 write_bronze_position [of env psp msg "bronze_log L" r b env' r' b'] by auto
  next
    case (silver row' r' b' psp' et' payload' i new s' fx')
    then show ?thesis using 1 by auto
  qed auto
next
  case 1: (silver row r b psp et payload i new s' fx')
  from assms(2) show ?thesis
  proof (cases rule: process_cases)
    case (skipped row' r' b' psp' et' payload')
    then show ?thesis using 1 by auto
  next
    case 2: (silver row' r' b' psp' et' payload' i' new' s2 fx2)
    have eq: "payload' = payload" "psp' = psp" "et' = et" using 1(3-5) 2(3-5) by simp_all
    have L1: "bronze_log L1 = b" "silver_txs L1 = s'" "fx_rates L1 = fx'" using 1(2) by simp_all
    have "r' = r \<and> b' = b" using write_bronze_position [OF 1(6)] 2(6) unfolding eq L1 by blast
    moreover have "s2 = s' \<and> \<not> new' \<and> i' = i" using redelivery_silver [OF 1(9)] 2(9) unfolding eq L1 by blast
    ultimately show ?thesis using 1(1,2) 2(1,2) L1 by auto
  qed auto
qed auto

theorem redelivery_idempotent_witness:
  "\<exists>L L2. process_kafka_message example_transform_env example_message example_lake = (Inr (Written 7 11), L) \<and>
     process_kafka_message example_transform_env example_message L = (Inr (Duplicate 7 11), L2) \<and> silver_txs L2 = silver_txs L"
proof -
  obtain L L2 where "process_kafka_message example_transform_env example_message example_lake = (Inr (Written 7 11), L)"
    "process_kafka_message example_transform_env example_message L = (Inr (Duplicate 7 11), L2)"
    by (rule example_message_written)
  from redelivery_idempotent [OF this] this show ?thesis by blast
qed

end
