(* ===== verification/Consumer.thy ===== *)
theory Consumer
  imports Transform
begin

text \<open>
  \<open>src/storage/kafka_consumer.py\<close> and \<open>src/flows/consumer_worker.py\<close>: the worker that feeds the
  transform. A partition is the list of the raw values written to it, the offset of a message is
  its index. The worker's state is its retry counters, its backoff, its totals and what it has
  written (the lake and the dead-letter topic); the committed offsets survive a restart, the
  worker's memory does not.
\<close>

subsection \<open>Messages\<close>

record consumed_message =
  cm_topic :: string
  cm_partition :: int
  cm_offset :: int
  cm_value :: "(string \<times> json) list option"
  cm_raw :: string
  cm_decode_error :: string

datatype polled = NoMessage | PollError | Polled string int int string

text \<open>\<open>loads\<close> decodes the bytes, \<open>None\<close> when they are not UTF-8 encoded JSON.\<close>

definition poll_one :: "(string \<Rightarrow> json option) \<Rightarrow> polled \<Rightarrow> consumed_message option" where
  "poll_one loads msg = (case msg of
     NoMessage \<Rightarrow> None
   | PollError \<Rightarrow> None
   | Polled topic part off raw \<Rightarrow>
       let (v, err) = (case loads raw of
             None \<Rightarrow> (None, ''JSONDecodeError'')
           | Some (JObj d) \<Rightarrow> (Some d, '''')
           | Some _ \<Rightarrow> (None, ''message is not a JSON object''))
       in Some \<lparr>cm_topic = topic, cm_partition = part, cm_offset = off, cm_value = v, cm_raw = raw,
            cm_decode_error = err\<rparr>)"

definition position_of :: "consumed_message \<Rightarrow> string \<times> int \<times> int" where
  "position_of m = (cm_topic m, cm_partition m, cm_offset m)"

subsection \<open>Base 64\<close>

definition b64_alphabet :: string where
  "b64_alphabet = ''ABCDEFGHIJKLMNOPQRSTUVWXYZabcdefghijklmnopqrstuvwxyz0123456789+/''"

definition b64_char :: "nat \<Rightarrow> char" where
  "b64_char n = b64_alphabet ! (n mod 64)"

fun b64encode :: "string \<Rightarrow> string" where
  "b64encode (a # b # c # rest) = (let n = code a * 65536 + code b * 256 + code c in
     [b64_char (n div 262144), b64_char (n div 4096), b64_char (n div 64), b64_char n] @ b64encode rest)"
| "b64encode [a, b] = (let n = code a * 65536 + code b * 256 in
     [b64_char (n div 262144), b64_char (n div 4096), b64_char (n div 64), CHR ''=''])"
| "b64encode [a] = (let n = code a * 65536 in
     [b64_char (n div 262144), b64_char (n div 4096), CHR ''='', CHR ''=''])"
| "b64encode [] = []"

subsection \<open>The worker\<close>

record worker =
  attempts :: "string \<times> int \<times> int \<rightharpoonup> nat"
  backoff :: rat
  w_processed :: nat
  w_failed :: nat
  w_lake :: lake
  dead_letters :: kafka_log

definition MAX_BACKOFF_SECONDS :: rat where "MAX_BACKOFF_SECONDS = 60"
definition MAX_TRANSIENT_ATTEMPTS :: nat where "MAX_TRANSIENT_ATTEMPTS = 5"

definition fresh_worker :: "lake \<Rightarrow> kafka_log \<Rightarrow> worker" where
  "fresh_worker L dl = \<lparr>attempts = Map.empty, backoff = 1, w_processed = 0, w_failed = 0,
     w_lake = L, dead_letters = dl\<rparr>"

fun dict_set :: "string \<Rightarrow> json \<Rightarrow> (string \<times> json) list \<Rightarrow> (string \<times> json) list" where
  "dict_set k v [] = [(k, v)]"
| "dict_set k v ((a, b) # d) = (if a = k then (a, v) # d else (a, b) # dict_set k v d)"

definition set_default :: "string \<Rightarrow> json \<Rightarrow> (string \<times> json) list \<Rightarrow> (string \<times> json) list" where
  "set_default k v d = (if k \<in> set (map fst d) then d else d @ [(k, v)])"

definition with_position :: "consumed_message \<Rightarrow> (string \<times> json) list \<Rightarrow> (string \<times> json) list" where
  "with_position m d = set_default ''source_type'' (JStr ''webhook'')
     (dict_set ''kafka_offset'' (JInt (cm_offset m)) (dict_set ''kafka_partition'' (JInt (cm_partition m))
       (dict_set ''kafka_topic'' (JStr (cm_topic m)) d)))"

definition dead_letter_key :: "string \<Rightarrow> int \<Rightarrow> int \<Rightarrow> string" where
  "dead_letter_key topic part off = ''dlq:'' @ topic @ '':'' @ show_int part @ '':'' @ show_int off"

definition dead_letter_record :: "string \<Rightarrow> consumed_message \<Rightarrow> string \<Rightarrow> kafka_record" where
  "dead_letter_record dlq m why = \<lparr>kr_topic = dlq,
     kr_key = dead_letter_key (cm_topic m) (cm_partition m) (cm_offset m),
     kr_value = [(''original_topic'', JStr (cm_topic m)), (''original_partition'', JInt (cm_partition m)),
       (''original_offset'', JInt (cm_offset m)), (''error'', JStr why),
       (''raw_value_b64'', JStr (b64encode (cm_raw m)))]\<rparr>"

definition dead_letter ::
  "broker_reply \<Rightarrow> string \<Rightarrow> consumed_message \<Rightarrow> string \<Rightarrow> worker \<Rightarrow> bool \<times> worker" where
  "dead_letter b dlq m why w = (case publish b (dead_letter_record dlq m why) (dead_letters w) of
     (Inl e, dl) \<Rightarrow> (False, w\<lparr>dead_letters := dl\<rparr>)
   | (Inr u, dl) \<Rightarrow> (True, w\<lparr>dead_letters := dl, w_failed := w_failed w + 1\<rparr>))"

fun permanent :: "exc \<Rightarrow> bool" where
  "permanent (PermanentEventError s) = True"
| "permanent (SchemaError s) = True"
| "permanent _ = False"

text \<open>\<open>f"{type(e).__name__}: {e}"\<close>, with the fixed part of the message.\<close>

fun exc_text :: "exc \<Rightarrow> string" where
  "exc_text (PermanentEventError s) = ''PermanentEventError: '' @ s"
| "exc_text (SchemaError s) = ''SchemaError: '' @ s"
| "exc_text (KeyError s) = ''KeyError: '' @ s"
| "exc_text (ValueError s) = ''ValueError: '' @ s"
| "exc_text (RuntimeError s) = ''RuntimeError: '' @ s"
| "exc_text AttributeError = ''AttributeError: ''"
| "exc_text TypeError = ''TypeError: ''"
| "exc_text InvalidOperation = ''InvalidOperation: ''"
| "exc_text ZeroDivisionError = ''ZeroDivisionError: ''"
| "exc_text IntegrityError = ''IntegrityError: ''"
| "exc_text DatabaseError = ''DBAPIError: ''"
| "exc_text KafkaDeliveryError = ''KafkaDeliveryError: ''"
| "exc_text (HTTPException n s) = ''HTTPException: '' @ s"
| "exc_text OverflowError = ''OverflowError: ''"

text \<open>\<open>_handle\<close>: whether the offset may be committed.\<close>

definition handle ::
  "string \<Rightarrow> transform_env \<Rightarrow> broker_reply \<Rightarrow> consumed_message \<Rightarrow> worker \<Rightarrow> bool \<times> worker" where
  "handle dlq env b m w = (case cm_value m of
     None \<Rightarrow> dead_letter b dlq m (''undecodable message: '' @ cm_decode_error m) w
   | Some d \<Rightarrow> (case process_kafka_message env (with_position m d) (w_lake w) of
       (Inr out, L) \<Rightarrow> (True, w\<lparr>w_lake := L, w_processed := w_processed w + 1\<rparr>)
     | (Inl e, L) \<Rightarrow>
         let w1 = w\<lparr>w_lake := L\<rparr> in
         if permanent e then dead_letter b dlq m (exc_text e) w1
         else
           let n = (case attempts w (position_of m) of None \<Rightarrow> 0 | Some k \<Rightarrow> k) + 1;
               w2 = w1\<lparr>attempts := (attempts w1)(position_of m \<mapsto> n)\<rparr>
           in if n < MAX_TRANSIENT_ATTEMPTS then (False, w2)
              else dead_letter b dlq m (''gave up after '' @ show_nat (int n) @ '' attempts: '' @ exc_text e) w2))"

text \<open>The two branches of the loop of \<open>start\<close> after \<open>_handle\<close>.\<close>

definition after_commit :: "consumed_message \<Rightarrow> worker \<Rightarrow> worker" where
  "after_commit m w = w\<lparr>attempts := (attempts w)(position_of m := None), backoff := 1\<rparr>"

definition after_rewind :: "worker \<Rightarrow> worker" where
  "after_rewind w = w\<lparr>backoff := min (fl (backoff w * 2)) MAX_BACKOFF_SECONDS\<rparr>"

subsection \<open>The consumer group\<close>

record group =
  g_worker :: worker
  g_position :: "string \<times> int \<Rightarrow> nat"
  g_committed :: "string \<times> int \<Rightarrow> nat"

type_synonym partitions = "string \<times> int \<Rightarrow> string list"

definition message_at :: "(string \<Rightarrow> json option) \<Rightarrow> partitions \<Rightarrow> string \<times> int \<Rightarrow> nat \<Rightarrow> consumed_message option" where
  "message_at loads plog pt i = (if i < length (plog pt)
     then poll_one loads (Polled (fst pt) (snd pt) (int i) (plog pt ! i)) else poll_one loads NoMessage)"

text \<open>A restarted worker resumes from the committed offsets with fresh memory.\<close>

definition restarted :: "worker \<Rightarrow> group \<Rightarrow> group" where
  "restarted w g = g\<lparr>g_worker := fresh_worker (w_lake w) (dead_letters w), g_position := g_committed g\<rparr>"

text \<open>
  The next message of some partition is handled and committed, or left and rewound to; the process
  may die before the commit, or at any other moment.
\<close>

inductive worker_step :: "(string \<Rightarrow> json option) \<Rightarrow> string \<Rightarrow> partitions \<Rightarrow> group \<Rightarrow> group \<Rightarrow> bool"
  for loads dlq plog where
  commit: "message_at loads plog pt (g_position g pt) = Some m \<Longrightarrow> acks_all b \<Longrightarrow>
    handle dlq env b m (g_worker g) = (True, w) \<Longrightarrow>
    worker_step loads dlq plog g (g\<lparr>g_worker := after_commit m w,
      g_position := (g_position g)(pt := g_position g pt + 1),
      g_committed := (g_committed g)(pt := g_position g pt + 1)\<rparr>)"
| rewind: "message_at loads plog pt (g_position g pt) = Some m \<Longrightarrow> acks_all b \<Longrightarrow>
    handle dlq env b m (g_worker g) = (False, w) \<Longrightarrow>
    worker_step loads dlq plog g (g\<lparr>g_worker := after_rewind w\<rparr>)"
| lost_commit: "message_at loads plog pt (g_position g pt) = Some m \<Longrightarrow> acks_all b \<Longrightarrow>
    handle dlq env b m (g_worker g) = (ok, w) \<Longrightarrow>
    worker_step loads dlq plog g (restarted w g)"
| crash: "worker_step loads dlq plog g (restarted (g_worker g) g)"

inductive worker_run :: "(string \<Rightarrow> json option) \<Rightarrow> string \<Rightarrow> partitions \<Rightarrow> group \<Rightarrow> group \<Rightarrow> bool"
  for loads dlq plog where
  start: "worker_run loads dlq plog g g"
| step: "worker_run loads dlq plog g g1 \<Longrightarrow> worker_step loads dlq plog g1 g2 \<Longrightarrow> worker_run loads dlq plog g g2"

text \<open>One message tried in a row of environments, until it may be committed.\<close>

fun deliver ::
  "string \<Rightarrow> (transform_env \<times> broker_reply) list \<Rightarrow> consumed_message \<Rightarrow> worker \<Rightarrow> bool \<times> worker" where
  "deliver dlq [] m w = (False, w)"
| "deliver dlq ((env, b) # es) m w = (case handle dlq env b m w of
     (True, w') \<Rightarrow> (True, after_commit m w')
   | (False, w') \<Rightarrow> deliver dlq es m (after_rewind w'))"

subsection \<open>Message dictionaries\<close>

lemma map_of_dict_set: "map_of (dict_set k v d) = (map_of d)(k \<mapsto> v)"
  by (induction k v d rule: dict_set.induct) (auto simp: fun_eq_iff)

lemma map_of_set_default: "map_of (set_default k v d) x = (if x = k \<and> map_of d k = None then Some v else map_of d x)"
proof (cases "k \<in> set (map fst d)")
  case True
  then have "map_of d k \<noteq> None" by (simp add: map_of_eq_None_iff)
  then show ?thesis using True by (simp add: set_default_def)
next
  case False
  then have "map_of d k = None" by (simp add: map_of_eq_None_iff)
  moreover have "map_of (d @ [(k, v)]) x = (if map_of d x = None then (if x = k then Some v else None) else map_of d x)"
    by (induction d) auto
  ultimately show ?thesis using False by (auto simp: set_default_def)
qed

lemma with_position_lookups:
  "get_default (with_position m d) ''kafka_topic'' v = JStr (cm_topic m)"
  "get_default (with_position m d) ''kafka_partition'' v = JInt (cm_partition m)"
  "get_default (with_position m d) ''kafka_offset'' v = JInt (cm_offset m)"
  "dict_get (with_position m d) ''payload'' = dict_get d ''payload''"
  "dict_get (with_position m d) ''psp_name'' = dict_get d ''psp_name''"
  "dict_get (with_position m d) ''event_type'' = dict_get d ''event_type''"
  by (simp_all add: with_position_def get_default_def dict_get_def map_of_set_default map_of_dict_set)

subsection \<open>What one message leaves behind\<close>

lemma dead_letter_grows: "set (dead_letters w) \<subseteq> set (dead_letters (snd (dead_letter b dlq m why w)))"
  using publish_log [of "dead_letters w" b "dead_letter_record dlq m why"]
  by (auto simp: dead_letter_def split: prod.splits sum.splits)

lemma dead_letter_keeps:
  "w_lake (snd (dead_letter b dlq m why w)) = w_lake w" "attempts (snd (dead_letter b dlq m why w)) = attempts w"
  "backoff (snd (dead_letter b dlq m why w)) = backoff w"
  by (auto simp: dead_letter_def split: prod.splits sum.splits)

lemma dead_letter_True:
  "acks_all b \<Longrightarrow> dead_letter b dlq m why w = (True, w') \<Longrightarrow> dead_letter_record dlq m why \<in> set (dead_letters w')"
  using publish_ok [of b "dead_letter_record dlq m why" "dead_letters w"]
  by (auto simp: dead_letter_def split: prod.splits sum.splits)

definition grows :: "worker \<Rightarrow> worker \<Rightarrow> bool" where
  "grows w w' \<longleftrightarrow> bronze_keys (bronze_log (w_lake w)) \<subseteq> bronze_keys (bronze_log (w_lake w')) \<and>
     silver_keys (silver_txs (w_lake w)) \<subseteq> silver_keys (silver_txs (w_lake w')) \<and>
     set (dead_letters w) \<subseteq> set (dead_letters w') \<and> (lake_inv (w_lake w) \<longrightarrow> lake_inv (w_lake w')) \<and>
     backoff w' = backoff w"

lemma grows_trans: "grows u v \<Longrightarrow> grows v w \<Longrightarrow> grows u w"
  unfolding grows_def by (metis order_trans)

lemma grows_dead_letter: "grows w (snd (dead_letter b dlq m why w))"
  using dead_letter_grows [of w b dlq m why] by (simp add: grows_def dead_letter_keeps)

lemma grows_process:
  assumes "process_kafka_message env msg (w_lake w) = (res, L)"
  shows "grows w (w\<lparr>w_lake := L\<rparr>)"
  using process_keys [OF assms] process_inv [OF _ assms] by (simp add: grows_def)

lemma grows_counters: "grows w w1 \<Longrightarrow> grows w (w1\<lparr>attempts := a\<rparr>)" "grows w w1 \<Longrightarrow> grows w (w1\<lparr>w_processed := n\<rparr>)"
  by (simp_all add: grows_def)

text \<open>The ways \<open>_handle\<close> ends.\<close>

lemma handle_cases:
  assumes "handle dlq env b m w = (ok, w')"
  obtains (undecodable) why where "cm_value m = None" "dead_letter b dlq m why w = (ok, w')"
  | (processed) d out L where "cm_value m = Some d" "ok"
      "process_kafka_message env (with_position m d) (w_lake w) = (Inr out, L)"
      "w' = w\<lparr>w_lake := L, w_processed := w_processed w + 1\<rparr>"
  | (permanent) d e L where "cm_value m = Some d"
      "process_kafka_message env (with_position m d) (w_lake w) = (Inl e, L)"
      "dead_letter b dlq m (exc_text e) (w\<lparr>w_lake := L\<rparr>) = (ok, w')"
  | (retry) d e L n where "cm_value m = Some d" "\<not> ok" "n < MAX_TRANSIENT_ATTEMPTS"
      "n = (case attempts w (position_of m) of None \<Rightarrow> 0 | Some k \<Rightarrow> k) + 1"
      "process_kafka_message env (with_position m d) (w_lake w) = (Inl e, L)"
      "w' = w\<lparr>w_lake := L, attempts := (attempts w)(position_of m \<mapsto> n)\<rparr>"
  | (gave_up) d e L n why where "cm_value m = Some d"
      "n = (case attempts w (position_of m) of None \<Rightarrow> 0 | Some k \<Rightarrow> k) + 1"
      "process_kafka_message env (with_position m d) (w_lake w) = (Inl e, L)"
      "dead_letter b dlq m why (w\<lparr>w_lake := L, attempts := (attempts w)(position_of m \<mapsto> n)\<rparr>) = (ok, w')"
proof (cases "cm_value m")
  case None
  then show ?thesis using assms undecodable by (auto simp: handle_def)
next
  case (Some d)
  obtain res L where run: "process_kafka_message env (with_position m d) (w_lake w) = (res, L)" by force
  show ?thesis
  proof (cases res)
    case (Inr out)
    then show ?thesis using assms Some run by (intro processed) (auto simp: handle_def)
  next
    case (Inl e)
    define n where "n = (case attempts w (position_of m) of None \<Rightarrow> 0 | Some k \<Rightarrow> k) + 1"
    consider "permanent e" | "\<not> permanent e" "n < MAX_TRANSIENT_ATTEMPTS" | "\<not> permanent e" "\<not> n < MAX_TRANSIENT_ATTEMPTS"
      by blast
    then show ?thesis
    proof cases
      case 1
      then show ?thesis using assms Some run Inl by (intro permanent) (auto simp: handle_def Let_def)
    next
      case 2
      then show ?thesis using assms Some run Inl
        by (intro retry [OF Some _ 2(2) n_def, of e L]) (auto simp: handle_def Let_def n_def)
    next
      case 3
      then show ?thesis using assms Some run Inl
        by (intro gave_up [OF Some n_def, of e L]) (auto simp: handle_def Let_def n_def)
    qed
  qed
qed

lemma handle_grows:
  assumes "handle dlq env b m w = (ok, w')"
  shows "grows w w'"
  using assms
proof (cases rule: handle_cases)
  case (undecodable why)
  then show ?thesis using grows_dead_letter [of w b dlq m why] by simp
next
  case (processed d out L)
  then show ?thesis using grows_counters(2) [OF grows_process [OF processed(3)]] by simp
next
  case (permanent d e L)
  have "grows (w\<lparr>w_lake := L\<rparr>) w'" using grows_dead_letter [of _ b dlq m "exc_text e"] permanent(3) by (metis snd_conv)
  then show ?thesis by (rule grows_trans [OF grows_process [OF permanent(2)]])
next
  case (retry d e L n)
  then show ?thesis using grows_counters(1) [OF grows_process [OF retry(5)]] by simp
next
  case (gave_up d e L n why)
  let ?w2 = "w\<lparr>w_lake := L, attempts := (attempts w)(position_of m \<mapsto> n)\<rparr>"
  have "grows ?w2 w'" using grows_dead_letter [of ?w2 b dlq m why] gave_up(4) by (metis snd_conv)
  then show ?thesis by (rule grows_trans [OF grows_counters(1) [OF grows_process [OF gave_up(3)]]])
qed

subsection \<open>Messages below the committed offset\<close>

text \<open>
  A message is settled when it is parked in the dead-letter topic with its raw bytes, or logged in
  Bronze and, unless the transform skips such an event, present in Silver under its key.
\<close>

definition parked :: "kafka_log \<Rightarrow> string \<times> int \<Rightarrow> nat \<Rightarrow> string \<Rightarrow> bool" where
  "parked dl pt i raw \<longleftrightarrow> (\<exists>r \<in> set dl. kr_key r = dead_letter_key (fst pt) (snd pt) (int i) \<and>
     map_of (kr_value r) ''raw_value_b64'' = Some (JStr (b64encode raw)))"

definition in_silver :: "string \<Rightarrow> (string \<times> json) list \<Rightarrow> string set \<Rightarrow> bool" where
  "in_silver p payload keys \<longleftrightarrow> (\<exists>k \<in> keys. \<forall>h rc. event_key \<lparr>we_psp = p, we_type = extract_event_type payload,
     we_payload = payload, we_hash = h, we_received = rc\<rparr> = Inr k)"

definition transformed :: "(string \<Rightarrow> json option) \<Rightarrow> lake \<Rightarrow> string \<times> int \<Rightarrow> nat \<Rightarrow> string \<Rightarrow> bool" where
  "transformed loads L pt i raw \<longleftrightarrow> (fst pt, snd pt, int i) \<in> bronze_keys (bronze_log L) \<and>
     (\<exists>d payload. loads raw = Some (JObj d) \<and> dict_get d ''payload'' = JObj payload \<and>
        (let p = py_str (dict_get d ''psp_name'') in
         \<not> process (classify_event p (py_str (dict_get d ''event_type'')) payload) \<or>
         in_silver p payload (silver_keys (silver_txs L))))"

definition settled :: "(string \<Rightarrow> json option) \<Rightarrow> worker \<Rightarrow> string \<times> int \<Rightarrow> nat \<Rightarrow> string \<Rightarrow> bool" where
  "settled loads w pt i raw \<longleftrightarrow> parked (dead_letters w) pt i raw \<or> transformed loads (w_lake w) pt i raw"

lemma settled_grows: "grows w w' \<Longrightarrow> settled loads w pt i raw \<Longrightarrow> settled loads w' pt i raw"
  unfolding grows_def settled_def parked_def transformed_def in_silver_def Let_def by blast

lemma process_transformed:
  assumes run: "process_kafka_message env (with_position m d) L = (Inr out, L')"
    and m: "cm_topic m = fst pt" "cm_partition m = snd pt" "cm_offset m = int i" and raw: "loads raw = Some (JObj d)"
  shows "transformed loads L' pt i raw"
proof -
  let ?p = "py_str (dict_get d ''psp_name'')" and ?et = "py_str (dict_get d ''event_type'')"
  have pos: "(fst pt, snd pt, int i) \<in> bronze_keys b" if wb: "write_bronze_parquet env psp (with_position m d) t = Inr (r, b)" for psp t r b
  proof -
    obtain row where row: "insert_bronze row t = Inr (b, r)" "JStr (cm_topic m) = JStr (b_topic row)"
        "to_int (JInt (cm_partition m)) = Inr (b_partition row)" "to_int (JInt (cm_offset m)) = Inr (b_offset row)"
      using write_bronze_Inr [OF wb] by (auto simp: with_position_lookups sql_text_def)
    then have "bronze_position row = (fst pt, snd pt, int i)" using m by (simp add: bronze_position_def to_int_def)
    then show ?thesis using insert_bronze_Inr(3) [OF row(1)] by simp
  qed
  from run show ?thesis
  proof (cases rule: process_cases)
    case (skipped row r b psp et payload)
    note f = skipped(3-5) [unfolded with_position_lookups]
    have "\<not> process (classify_event ?p ?et payload)" using skipped(8) f(2,3) by simp
    then show ?thesis using pos [OF skipped(6)] skipped(2) f(1) raw by (simp add: transformed_def Let_def)
  next
    case (silver row r b psp et payload j new s' fx')
    note f = silver(3-5) [unfolded with_position_lookups]
    from silver(9) have "in_silver ?p payload (silver_keys s')"
    proof (cases rule: normalise_to_silver_Inr)
      case (1 n nenv rr)
      have "idempotency_key rr \<in> silver_keys s'" using insert_silver_keys [OF 1(4)] by simp
      then show ?thesis using normaliser_event_key [OF 1(1,2)] f(2) unfolding in_silver_def by blast
    qed
    then show ?thesis using pos [OF silver(6)] silver(2) f(1) raw by (simp add: transformed_def Let_def)
  qed auto
qed

lemma message_at_Some:
  assumes "message_at loads plog pt i = Some m"
  shows "i < length (plog pt)" "cm_topic m = fst pt" "cm_partition m = snd pt" "cm_offset m = int i"
    "cm_raw m = plog pt ! i" "cm_value m = Some d \<Longrightarrow> loads (plog pt ! i) = Some (JObj d)"
  using assms
  by (auto simp: message_at_def poll_one_def Let_def split: if_splits option.splits json.splits)

lemma dead_letter_parked:
  assumes "message_at loads plog pt i = Some m" and "acks_all b" and "dead_letter b dlq m why w = (True, w')"
  shows "parked (dead_letters w') pt i (plog pt ! i)"
proof -
  have "kr_key (dead_letter_record dlq m why) = dead_letter_key (fst pt) (snd pt) (int i)"
    "map_of (kr_value (dead_letter_record dlq m why)) ''raw_value_b64'' = Some (JStr (b64encode (plog pt ! i)))"
    using message_at_Some(2-5) [OF assms(1)] by (simp_all add: dead_letter_record_def)
  then show ?thesis using dead_letter_True [OF assms(2,3)] unfolding parked_def by blast
qed

lemma handle_settles:
  assumes "message_at loads plog pt i = Some m" and "acks_all b" and "handle dlq env b m w = (True, w')"
  shows "settled loads w' pt i (plog pt ! i)"
  using assms(3)
proof (cases rule: handle_cases)
  case (processed d out L)
  have "transformed loads L pt i (plog pt ! i)"
    using process_transformed [OF processed(3)] message_at_Some(2-4) [OF assms(1)]
      message_at_Some(6) [OF assms(1) processed(1)] by blast
  then show ?thesis using processed(4) by (simp add: settled_def)
qed (use dead_letter_parked [OF assms(1,2)] in \<open>auto simp: settled_def\<close>)

subsection \<open>The invariant of the consumer group\<close>

definition group_inv :: "(string \<Rightarrow> json option) \<Rightarrow> partitions \<Rightarrow> group \<Rightarrow> bool" where
  "group_inv loads plog g \<longleftrightarrow> g_position g = g_committed g \<and> lake_inv (w_lake (g_worker g)) \<and>
     1 \<le> backoff (g_worker g) \<and> backoff (g_worker g) \<le> 60 \<and>
     (\<forall>pt i. i < g_committed g pt \<longrightarrow> i < length (plog pt) \<and> settled loads (g_worker g) pt i (plog pt ! i))"

definition initial_group :: "lake \<Rightarrow> group" where
  "initial_group L = \<lparr>g_worker = fresh_worker L [], g_position = (\<lambda>pt. 0), g_committed = (\<lambda>pt. 0)\<rparr>"

lemma fresh_same: "settled loads (fresh_worker (w_lake w) (dead_letters w)) pt i raw = settled loads w pt i raw"
  by (simp add: settled_def fresh_worker_def)

lemma after_same: "settled loads (after_commit m w) pt i raw = settled loads w pt i raw"
    "settled loads (after_rewind w) pt i raw = settled loads w pt i raw"
  by (simp_all add: settled_def after_commit_def after_rewind_def)

lemma backoff_doubles: "1 \<le> x \<Longrightarrow> 1 \<le> min (fl (x * 2)) MAX_BACKOFF_SECONDS \<and> min (fl (x * 2)) MAX_BACKOFF_SECONDS \<le> 60"
  using fl.mono [of 1 "x * 2"] fl_int [of 1] by (auto simp: MAX_BACKOFF_SECONDS_def)

lemma group_inv_step:
  assumes "worker_step loads dlq plog g g'" and inv: "group_inv loads plog g"
  shows "group_inv loads plog g'"
  using assms(1)
proof cases
  case (commit pt m b env w)
  have gr: "grows (g_worker g) w" using handle_grows commit(4) by blast
  have now: "settled loads w pt (g_position g pt) (plog pt ! g_position g pt)"
    using handle_settles [OF commit(2,3,4)] .
  have old: "settled loads w q i (plog q ! i)" "i < length (plog q)" if c: "i < g_committed g q" for q i
    using inv c settled_grows [OF gr] unfolding group_inv_def by blast+
  have len: "g_position g pt < length (plog pt)" using message_at_Some(1) [OF commit(2)] .
  show ?thesis
    using inv gr now old len commit(1)
    by (auto simp: group_inv_def grows_def after_same less_Suc_eq after_commit_def [of m w] settled_def)
next
  case (rewind pt m b env w)
  have gr: "grows (g_worker g) w" using handle_grows rewind(4) by blast
  have b: "1 \<le> backoff w" using gr inv by (simp add: grows_def group_inv_def)
  show ?thesis
    using inv gr settled_grows [OF gr] backoff_doubles [OF b] rewind(1)
    by (auto simp: group_inv_def grows_def after_same) (auto simp: after_rewind_def)
next
  case (lost_commit pt m b env ok w)
  have gr: "grows (g_worker g) w" using handle_grows lost_commit(4) by blast
  show ?thesis
    using inv gr settled_grows [OF gr] lost_commit(1)
    by (auto simp: group_inv_def grows_def restarted_def fresh_same) (auto simp: fresh_worker_def)
next
  case crash
  then show ?thesis using inv
    by (auto simp: group_inv_def restarted_def fresh_same) (auto simp: fresh_worker_def)
qed

lemma group_inv_run: "worker_run loads dlq plog g g' \<Longrightarrow> group_inv loads plog g \<Longrightarrow> group_inv loads plog g'"
  by (induction rule: worker_run.induct) (auto intro: group_inv_step)

subsection \<open>Bounded retries\<close>

definition acknowledges :: "broker_reply \<Rightarrow> bool" where
  "acknowledges b \<longleftrightarrow> \<not> produce_raises b \<and> remaining b = 0 \<and> delivery_error b = Some False"

lemma dead_letter_acknowledged: "acknowledges b \<Longrightarrow> fst (dead_letter b dlq m why w)"
  by (simp add: acknowledges_def dead_letter_def publish_def Let_def)

definition tries :: "consumed_message \<Rightarrow> worker \<Rightarrow> nat" where
  "tries m w = (case attempts w (position_of m) of None \<Rightarrow> 0 | Some k \<Rightarrow> k)"

text \<open>With a reachable dead-letter topic, an attempt that does not settle the message is counted.\<close>

lemma handle_progress:
  assumes "acknowledges b"
  shows "fst (handle dlq env b m w) \<or>
    tries m (snd (handle dlq env b m w)) = tries m w + 1 \<and> tries m w + 1 < MAX_TRANSIENT_ATTEMPTS"
proof -
  obtain ok w' where run: "handle dlq env b m w = (ok, w')" by force
  from run show ?thesis
  proof (cases rule: handle_cases)
    case (undecodable why)
    then show ?thesis using dead_letter_acknowledged [OF assms, of dlq m why w] run by simp
  next
    case (permanent d e L)
    then show ?thesis using dead_letter_acknowledged [OF assms, of dlq m "exc_text e" "w\<lparr>w_lake := L\<rparr>"] run by simp
  next
    case (retry d e L n)
    then show ?thesis using run by (simp add: tries_def)
  next
    case (gave_up d e L n why)
    then show ?thesis
      using dead_letter_acknowledged [OF assms, of dlq m why "w\<lparr>w_lake := L, attempts := (attempts w)(position_of m \<mapsto> n)\<rparr>"] run
      by simp
  qed (use run in simp)
qed

lemma tries_after_rewind [simp]: "tries m (after_rewind w) = tries m w"
  by (simp add: tries_def after_rewind_def)

lemma deliver_settles:
  "list_all (acknowledges \<circ> snd) es \<Longrightarrow> MAX_TRANSIENT_ATTEMPTS \<le> tries m w + length es \<Longrightarrow>
    tries m w < MAX_TRANSIENT_ATTEMPTS \<Longrightarrow> fst (deliver dlq es m w)"
proof (induction es arbitrary: w)
  case (Cons e es)
  obtain env b where e: "e = (env, b)" by force
  obtain ok w' where run: "handle dlq env b m w = (ok, w')" by force
  show ?case
  proof (cases ok)
    case False
    then have "tries m w' = tries m w + 1" "tries m w + 1 < MAX_TRANSIENT_ATTEMPTS"
      using handle_progress [of b dlq env m w] run Cons.prems(1) e by auto
    then show ?thesis using Cons.IH [of "after_rewind w'"] Cons.prems e run False by simp
  qed (simp add: e run)
qed simp

subsection \<open>Reading base 64 back\<close>

definition b64_index :: "char \<Rightarrow> nat" where
  "b64_index c = length (takeWhile (\<lambda>d. d \<noteq> c) b64_alphabet)"

fun b64decode :: "string \<Rightarrow> string" where
  "b64decode (w # x # y # z # rest) = (let n = b64_index w * 262144 + b64_index x * 4096 +
       (if y = CHR ''='' then 0 else b64_index y * 64) + (if z = CHR ''='' then 0 else b64_index z)
     in if y = CHR ''='' then [char_of (n div 65536)]
        else if z = CHR ''='' then [char_of (n div 65536), char_of (n div 256 mod 256)]
        else [char_of (n div 65536), char_of (n div 256 mod 256), char_of (n mod 256)] @ b64decode rest)"
| "b64decode s = []"

lemma b64_table: "list_all (\<lambda>i. b64_index (b64_char i) = i \<and> b64_char i \<noteq> CHR ''='') [0..<64]"
  by code_simp

lemma b64_char [simp]: "b64_index (b64_char n) = n mod 64" "b64_char n \<noteq> CHR ''=''"
proof -
  have "b64_index (b64_char (n mod 64)) = n mod 64 \<and> b64_char (n mod 64) \<noteq> CHR ''=''"
    using b64_table by (simp add: list_all_iff)
  then show "b64_index (b64_char n) = n mod 64" "b64_char n \<noteq> CHR ''=''" by (simp_all add: b64_char_def)
qed

lemma code_bound: "code c < 256"
  by (simp add: code_def)

lemma sextets:
  assumes "n < 16777216"
  shows "n div 262144 mod 64 * 262144 + n div 4096 mod 64 * 4096 + n div 64 mod 64 * 64 + n mod 64 = (n::nat)"
proof -
  define q1 q2 q3 where "q1 = n div 64" and "q2 = q1 div 64" and "q3 = q2 div 64"
  have d: "n div 4096 = q2" "n div 262144 = q3"
    by (simp_all add: q1_def q2_def q3_def div_mult2_eq [symmetric])
  have "n = q1 * 64 + n mod 64" "q1 = q2 * 64 + q1 mod 64" "q2 = q3 * 64 + q2 mod 64"
    unfolding q1_def q2_def q3_def by (simp_all add: div_mult_mod_eq)
  moreover from this have "q3 mod 64 = q3" using assms by auto
  ultimately show ?thesis unfolding d q1_def [symmetric] by linarith
qed

lemma octets:
  assumes "n = code a * 65536 + code b * 256 + code c"
  shows "n < 16777216" "n div 65536 = code a" "n div 256 mod 256 = code b" "n mod 256 = code c"
proof -
  have bounds: "code a < 256" "code b < 256" "code c < 256" by (rule code_bound)+
  then show "n < 16777216" using assms by linarith
  define x where "x = code a * 256 + code b"
  have x: "x div 256 = code a" "x mod 256 = code b" unfolding x_def using bounds by simp_all
  have "n = x * 256 + code c" using assms by (simp add: x_def)
  then have "n div 256 = x" "n mod 256 = code c" using bounds by simp_all
  moreover from this have "n div 256 div 256 = code a" "n div 256 mod 256 = code b" using x by simp_all
  moreover have "n div 65536 = n div 256 div 256" by (simp add: div_mult2_eq [symmetric])
  ultimately show "n div 65536 = code a" "n div 256 mod 256 = code b" "n mod 256 = code c" by simp_all
qed

lemma octet_chars:
  assumes "n = code a * 65536 + code b * 256 + code c"
  shows "char_of (n div 256) = b" "char_of n = c"
  using arg_cong [OF octets(3) [OF assms], of char_of] arg_cong [OF octets(4) [OF assms], of char_of]
  by (simp_all add: code_def)

lemma code_NUL: "code (char_of (0::nat)) = 0"
  by (simp add: code_def)

lemma multiple_of_64:
  "(n::nat) mod 256 = 0 \<Longrightarrow> n mod 64 = 0" "n mod 256 = 0 \<Longrightarrow> n div 256 mod 256 = 0 \<Longrightarrow> n div 64 mod 64 = 0"
proof -
  assume "n mod 256 = 0"
  then obtain k where k: "n = 256 * k" by auto
  then show "n mod 64 = 0" by simp
  assume "n div 256 mod 256 = 0"
  then obtain j where "k = 256 * j" using k by auto
  then show "n div 64 mod 64 = 0" using k by simp
qed

lemma b64_roundtrip: "b64decode (b64encode s) = s"
proof (induction s rule: b64encode.induct)
  case (1 a b c rest)
  define n where "n = code a * 65536 + code b * 256 + code c"
  show ?case using 1 octets [OF n_def] octet_chars [OF n_def] sextets [OF octets(1) [OF n_def]]
    unfolding b64encode.simps n_def [symmetric] by (simp add: Let_def code_def)
next
  case (2 a b)
  define n where "n = code a * 65536 + code b * 256 + code (char_of (0::nat))"
  have m: "code a * 65536 + code b * 256 = n" by (simp add: n_def code_NUL)
  have z: "n mod 64 = 0" by (rule multiple_of_64(1)) (use octets(4) [OF n_def] code_NUL in simp)
  show ?case using octets [OF n_def] octet_chars [OF n_def] sextets [OF octets(1) [OF n_def]]
    unfolding b64encode.simps m by (simp add: Let_def z code_def)
next
  case (3 a)
  define n where "n = code a * 65536 + code (char_of (0::nat)) * 256 + code (char_of (0::nat))"
  have m: "code a * 65536 = n" by (simp add: n_def code_NUL)
  have z: "n mod 64 = 0" "n div 64 mod 64 = 0"
    using multiple_of_64 [of n] octets(3,4) [OF n_def] code_NUL by simp_all
  show ?case using octets [OF n_def] octet_chars [OF n_def] sextets [OF octets(1) [OF n_def]]
    unfolding b64encode.simps m by (simp add: Let_def z code_def)
qed simp

subsection \<open>Properties\<close>

text \<open>
  C6 No message is skipped: whatever fails (the transform, the dead-letter topic, the commit, the
  process at any moment), in any interleaving of partitions, every message below a committed
  offset is either parked in the dead-letter topic with its raw bytes, or logged in Bronze and,
  unless the transform skips such events, present in Silver under its key; the lake stays
  sound and the backoff stays between one and sixty seconds.
\<close>

theorem consumer_never_skips:
  assumes "worker_run loads dlq plog (initial_group L) g" and "lake_inv L" and "i < g_committed g pt"
  shows "i < length (plog pt) \<and> lake_inv (w_lake (g_worker g)) \<and>
    1 \<le> backoff (g_worker g) \<and> backoff (g_worker g) \<le> 60 \<and>
    (parked (dead_letters (g_worker g)) pt i (plog pt ! i) \<or> transformed loads (w_lake (g_worker g)) pt i (plog pt ! i))"
proof -
  have "group_inv loads plog (initial_group L)"
    using assms(2) by (simp add: group_inv_def initial_group_def fresh_worker_def)
  from group_inv_run [OF assms(1) this] assms(3) show ?thesis unfolding group_inv_def settled_def by blast
qed

definition example_log :: partitions where
  "example_log = (\<lambda>pt. [''not json''])"

theorem consumer_never_skips_witness:
  "\<exists>g. worker_run (\<lambda>b. None) ''dlq'' example_log (initial_group example_lake) g \<and>
     g_committed g (''t'', 0) = 1 \<and> parked (dead_letters (g_worker g)) (''t'', 0) 0 ''not json''"
proof -
  let ?pt = "(''t'', 0)" and ?g = "initial_group example_lake"
  obtain m where m: "message_at (\<lambda>b. None) example_log ?pt (g_position ?g ?pt) = Some m" and v: "cm_value m = None"
    by (simp add: message_at_def example_log_def initial_group_def poll_one_def)
  obtain w where h: "handle ''dlq'' example_transform_env acked m (g_worker ?g) = (True, w)"
    using v by (simp add: handle_def dead_letter_def publish_def acked_def)
  have "acks_all acked" by (simp add: acked_def acks_all_def)
  from worker_run.step [OF worker_run.start worker_step.commit [OF m this h]]
  obtain g where g: "worker_run (\<lambda>b. None) ''dlq'' example_log ?g g" "g_committed g ?pt = 1"
    by (simp add: initial_group_def)
  have "lake_inv example_lake"
    by (simp add: lake_inv_def example_lake_def bronze_inv_def silver_inv_def one_current_def current_def)
  from consumer_never_skips [OF g(1) this, of 0 ?pt] g show ?thesis
    by (auto simp: example_log_def transformed_def)
qed

text \<open>
  C11 Every message is settled within five attempts: as long as the dead-letter topic acknowledges, a
  message that has not been tried yet is processed or parked by its fifth attempt at the latest,
  whatever the transform raises, so a poison message never blocks its partition.
\<close>

theorem consumer_settles_in_five:
  assumes "list_all (acknowledges \<circ> snd) es" and "5 \<le> length es" and "attempts w (position_of m) = None"
  shows "fst (deliver dlq es m w)"
  using deliver_settles [OF assms(1), of m w dlq] assms(2,3) by (simp add: tries_def MAX_TRANSIENT_ATTEMPTS_def)

theorem consumer_settles_in_five_witness:
  "fst (deliver ''dlq'' (replicate 5 (example_transform_env\<lparr>te_parquet := Inl DatabaseError\<rparr>, acked))
     \<lparr>cm_topic = ''t'', cm_partition = 0, cm_offset = 0, cm_value = Some example_message, cm_raw = ''x'',
       cm_decode_error = ''''\<rparr> (fresh_worker example_lake []))"
  by (rule consumer_settles_in_five)
    (simp_all add: list_all_iff acknowledges_def acked_def fresh_worker_def)

text \<open>
  C13 Dead letters can be replayed: the bytes of a parked message are read back from its dead letter
  exactly as they were consumed.
\<close>

theorem dead_letter_replayable:
  assumes "acks_all b" and "dead_letter b dlq m why w = (True, w')"
  shows "\<exists>r \<in> set (dead_letters w'). kr_key r = dead_letter_key (cm_topic m) (cm_partition m) (cm_offset m) \<and>
    (\<exists>s. map_of (kr_value r) ''raw_value_b64'' = Some (JStr s) \<and> b64decode s = cm_raw m)"
  using dead_letter_True [OF assms] b64_roundtrip [of "cm_raw m"]
  by (intro bexI [of _ "dead_letter_record dlq m why"]) (simp_all add: dead_letter_record_def)

theorem dead_letter_replayable_witness:
  "\<exists>w. dead_letter acked ''dlq'' \<lparr>cm_topic = ''t'', cm_partition = 0, cm_offset = 7, cm_value = None, cm_raw = ''abcd'',
      cm_decode_error = ''''\<rparr> ''e'' (fresh_worker example_lake []) = (True, w) \<and>
    (\<exists>r \<in> set (dead_letters w). \<exists>s. map_of (kr_value r) ''raw_value_b64'' = Some (JStr s) \<and> b64decode s = ''abcd'')"
proof -
  let ?m = "\<lparr>cm_topic = ''t'', cm_partition = 0, cm_offset = 7, cm_value = None, cm_raw = ''abcd'', cm_decode_error = ''''\<rparr>"
  obtain w where w: "dead_letter acked ''dlq'' ?m ''e'' (fresh_worker example_lake []) = (True, w)"
    by (simp add: dead_letter_def publish_def acked_def)
  have "acks_all acked" by (simp add: acked_def acks_all_def)
  from dead_letter_replayable [OF this w] w show ?thesis by (metis consumed_message.select_convs(5))
qed

end
