(* ===== verification/Gold.thy ===== *)
theory Gold
  imports Matching Discrepancy Silver Store
begin

text \<open>
  The Gold tables (migrations 007, 008, 013, 014 and 015): reconciliation pairs, the one-to-one
  table of matched transactions, discrepancies, their append-only event log and the alert log,
  beside Silver and the run table. Each insert enforces the constraints of its table; foreign
  keys to Silver and to the parent row included. The order of the event list is the order of the
  identity column.
\<close>

subsection \<open>Rows\<close>

datatype pair_status = PAIR_MATCHED | PAIR_DISCREPANCY | PAIR_UNDER_REVIEW | PAIR_RESOLVED | PAIR_FALSE_POSITIVE

datatype disc_status = OPEN | UNDER_REVIEW | CLOSED_RESOLVED | CLOSED_FALSE_POSITIVE | ESCALATED

fun closed :: "disc_status \<Rightarrow> bool" where
  "closed CLOSED_RESOLVED = True"
| "closed CLOSED_FALSE_POSITIVE = True"
| "closed _ = False"

datatype action_kind = Raised | SeverityChanged | MarkedResolved | MarkedFalsePositive

record pair_row =
  p_id :: nat
  p_a :: nat
  p_b :: nat
  p_strategy :: strategy
  p_confidence :: rat
  p_amount_a :: rat
  p_amount_b :: rat
  p_delta :: rat
  p_fx_flag :: bool
  p_state :: pair_status
  p_evidence :: match_evidence
  p_run :: nat
  p_created :: time

record disc_row =
  d_id :: nat
  d_pair :: "nat option"
  d_tx :: nat
  d_class :: discrepancy_type
  d_severity :: severity
  d_exposure :: rat
  d_evidence :: disc_evidence
  d_state :: disc_status
  d_raised :: time
  d_resolved_at :: "time option"
  d_resolved_by :: "string option"
  d_note :: "string option"
  d_alerted :: "time option"
  d_run :: nat

record event_row =
  ev_disc :: nat
  ev_action :: action_kind
  ev_from :: "disc_status option"
  ev_to :: disc_status
  ev_actor :: string
  ev_note :: "string option"
  ev_at :: time

record alert_row =
  al_disc :: nat
  al_type :: discrepancy_type
  al_sent :: "time option"
  al_failure :: "string option"

record gold =
  g_silver :: silver_table
  g_pairs :: "pair_row list"
  g_matched :: "(nat \<times> nat) list"
  g_discs :: "disc_row list"
  g_events :: "event_row list"
  g_alerts :: "alert_row list"
  g_runs :: run_table

abbreviation disc_key :: "disc_row \<Rightarrow> nat \<times> discrepancy_type" where
  "disc_key d \<equiv> (d_tx d, d_class d)"

definition tx_ids :: "gold \<Rightarrow> nat set" where
  "tx_ids g = tx_id ` set (g_silver g)"

definition is_matched :: "gold \<Rightarrow> nat \<Rightarrow> bool" where
  "is_matched g t \<longleftrightarrow> t \<in> fst ` set (g_matched g)"

subsection \<open>Inserts\<close>

text \<open>\<open>gold_reconciliation_pairs\<close>: types, then CHECK, PRIMARY KEY, UNIQUE (a, b) and foreign keys.\<close>

definition stored_pair :: "pair_row \<Rightarrow> pair_row" where
  "stored_pair p = p\<lparr>p_confidence := pg_round 4 (p_confidence p), p_amount_a := pg_round 6 (p_amount_a p),
     p_amount_b := pg_round 6 (p_amount_b p), p_delta := pg_round 6 (p_delta p)\<rparr>"

definition pair_types_ok :: "pair_row \<Rightarrow> bool" where
  "pair_types_ok p \<longleftrightarrow> \<bar>p_confidence p\<bar> < 10 \<and> \<bar>p_amount_a p\<bar> < 10 ^ 14 \<and> \<bar>p_amount_b p\<bar> < 10 ^ 14 \<and>
     \<bar>p_delta p\<bar> < 10 ^ 14"

definition pair_checks :: "pair_row \<Rightarrow> bool" where
  "pair_checks p \<longleftrightarrow> 0 \<le> p_confidence p \<and> p_confidence p \<le> 1 \<and> 0 \<le> p_amount_a p \<and> 0 \<le> p_amount_b p \<and>
     p_a p \<noteq> p_b p"

definition insert_pair :: "pair_row \<Rightarrow> gold \<Rightarrow> exc + gold" where
  "insert_pair p g = (let q = stored_pair p in
     if p_strategy p = UNMATCHED \<or> \<not> pair_types_ok q then Inl DatabaseError
     else if \<not> pair_checks q \<or> p_id q \<in> p_id ` set (g_pairs g) \<or>
       (p_a q, p_b q) \<in> (\<lambda>r. (p_a r, p_b r)) ` set (g_pairs g) \<or> {p_a q, p_b q} - tx_ids g \<noteq> {}
     then Inl IntegrityError
     else Inr (g\<lparr>g_pairs := g_pairs g @ [q]\<rparr>))"

text \<open>\<open>gold_matched_transactions\<close>: the primary key is the transaction.\<close>

definition insert_matched :: "nat \<times> nat \<Rightarrow> gold \<Rightarrow> exc + gold" where
  "insert_matched m g = (if is_matched g (fst m) \<or> fst m \<notin> tx_ids g \<or> snd m \<notin> p_id ` set (g_pairs g)
     then Inl IntegrityError else Inr (g\<lparr>g_matched := g_matched g @ [m]\<rparr>))"

text \<open>\<open>gold_discrepancies\<close> with UNIQUE (transaction_id, classification): \<open>ON CONFLICT DO NOTHING\<close>.\<close>

definition disc_put :: "nat \<times> discrepancy_type \<Rightarrow> disc_row \<Rightarrow> disc_row list \<Rightarrow> disc_row list \<times> bool" where
  "disc_put k d ds = (if list_ex (\<lambda>e. disc_key e = k) ds then (ds, False)
     else (ds @ [d\<lparr>d_tx := fst k, d_class := snd k\<rparr>], True))"

definition disc_keys :: "disc_row list \<Rightarrow> (nat \<times> discrepancy_type) set" where
  "disc_keys ds = set (map disc_key ds)"

interpretation discrepancies: dedup_store disc_put disc_keys
  by unfold_locales (auto simp: disc_put_def disc_keys_def list_ex_key)

definition insert_disc :: "disc_row \<Rightarrow> gold \<Rightarrow> exc + gold \<times> bool" where
  "insert_disc d g = (let e = d\<lparr>d_exposure := pg_round 6 (d_exposure d)\<rparr> in
     if 10 ^ 14 \<le> \<bar>d_exposure e\<bar> then Inl DatabaseError
     else if d_exposure e < 0 \<or> closed (d_state e) \<and> (d_resolved_at e = None \<or> d_resolved_by e = None)
     then Inl IntegrityError
     else if disc_key e \<in> disc_keys (g_discs g) then Inr (g, False)
     else if d_id e \<in> d_id ` set (g_discs g) \<or> d_tx e \<notin> tx_ids g \<or>
       \<not> set_option (d_pair e) \<subseteq> p_id ` set (g_pairs g) then Inl IntegrityError
     else Inr (g\<lparr>g_discs := fst (disc_put (disc_key e) e (g_discs g))\<rparr>, True))"

text \<open>\<open>gold_discrepancy_events\<close>: only ever appended to (the trigger blocks the rest).\<close>

definition insert_event :: "event_row \<Rightarrow> gold \<Rightarrow> exc + gold" where
  "insert_event e g = (if 200 < length (ev_actor e) then Inl DatabaseError
     else if ev_disc e \<notin> d_id ` set (g_discs g) then Inl IntegrityError
     else Inr (g\<lparr>g_events := g_events g @ [e]\<rparr>))"

definition update_discs :: "(disc_row \<Rightarrow> bool) \<Rightarrow> (disc_row \<Rightarrow> disc_row) \<Rightarrow> gold \<Rightarrow> gold" where
  "update_discs P f g = g\<lparr>g_discs := map (\<lambda>d. if P d then f d else d) (g_discs g)\<rparr>"

definition update_pairs :: "(pair_row \<Rightarrow> bool) \<Rightarrow> (pair_row \<Rightarrow> pair_row) \<Rightarrow> gold \<Rightarrow> gold" where
  "update_pairs P f g = g\<lparr>g_pairs := map (\<lambda>p. if P p then f p else p) (g_pairs g)\<rparr>"

subsection \<open>The audit trail\<close>

definition events_of :: "gold \<Rightarrow> nat \<Rightarrow> event_row list" where
  "events_of g i = filter (\<lambda>e. ev_disc e = i) (g_events g)"

text \<open>
  The steps of a discrepancy's life: raised as open once, its severity changed while open, closed
  once. \<open>replay\<close> follows a list of events from a status and yields the status reached, \<open>None\<close>
  when an event does not start where the one before it ended.
\<close>

fun legal :: "action_kind \<Rightarrow> disc_status option \<Rightarrow> disc_status \<Rightarrow> bool" where
  "legal Raised from to \<longleftrightarrow> from = None \<and> to = OPEN"
| "legal SeverityChanged from to \<longleftrightarrow> from = Some OPEN \<and> to = OPEN"
| "legal MarkedResolved from to \<longleftrightarrow> from \<noteq> None \<and> \<not> closed (the from) \<and> to = CLOSED_RESOLVED"
| "legal MarkedFalsePositive from to \<longleftrightarrow> from \<noteq> None \<and> \<not> closed (the from) \<and> to = CLOSED_FALSE_POSITIVE"

fun replay :: "disc_status option \<Rightarrow> event_row list \<Rightarrow> disc_status option option" where
  "replay s [] = Some s"
| "replay s (e # es) = (if ev_from e = s \<and> legal (ev_action e) (ev_from e) (ev_to e)
     then replay (Some (ev_to e)) es else None)"

lemma replay_append: "replay s (es @ fs) = (case replay s es of None \<Rightarrow> None | Some t \<Rightarrow> replay t fs)"
  by (induction es arbitrary: s) auto

lemma replay_closed: "replay (Some s) es = Some t \<Longrightarrow> closed s \<Longrightarrow> es = []"
proof (cases es)
  case (Cons e fs)
  assume "replay (Some s) es = Some t" "closed s"
  then show ?thesis using Cons by (cases "ev_action e") (auto split: if_splits)
qed

text \<open>The constraints of a discrepancy row, and its trail ending in its status.\<close>

definition disc_ok :: "disc_row \<Rightarrow> bool" where
  "disc_ok d \<longleftrightarrow> 0 \<le> d_exposure d \<and>
     (closed (d_state d) \<longrightarrow> d_resolved_at d \<noteq> None \<and> d_resolved_by d \<noteq> None \<and> d_note d \<noteq> None)"

definition trail_ok :: "gold \<Rightarrow> disc_row \<Rightarrow> bool" where
  "trail_ok g d \<longleftrightarrow> replay None (events_of g (d_id d)) = Some (Some (d_state d))"

definition discs_inv :: "gold \<Rightarrow> bool" where
  "discs_inv g \<longleftrightarrow> distinct (map d_id (g_discs g)) \<and> distinct (map disc_key (g_discs g)) \<and>
     (\<forall>d \<in> set (g_discs g). disc_ok d \<and> trail_ok g d \<and> d_tx d \<in> tx_ids g) \<and>
     (\<forall>e \<in> set (g_events g). ev_disc e \<in> d_id ` set (g_discs g))"

text \<open>A pair joins two Silver transactions of opposite directions and different PSPs.\<close>

definition opposite :: "gold \<Rightarrow> nat \<Rightarrow> nat \<Rightarrow> bool" where
  "opposite g a b \<longleftrightarrow> (\<exists>r \<in> set (g_silver g). \<exists>s \<in> set (g_silver g). tx_id r = a \<and> tx_id s = b \<and>
     psp_name r \<noteq> psp_name s \<and> {transaction_type r, transaction_type s} = {''credit'', ''debit''} \<and>
     settlement_status r \<noteq> ''failed'' \<and> settlement_status s \<noteq> ''failed'')"

definition pairs_inv :: "gold \<Rightarrow> bool" where
  "pairs_inv g \<longleftrightarrow> distinct (map p_id (g_pairs g)) \<and> distinct (map fst (g_matched g)) \<and>
     (\<forall>p \<in> set (g_pairs g). pair_checks p \<and> opposite g (p_a p) (p_b p)) \<and>
     set (g_matched g) = (\<Union>p \<in> set (g_pairs g). {(p_a p, p_id p), (p_b p, p_id p)})"

text \<open>A discrepancy is marked as alerted exactly when the log holds an accepted alert for it, and one only.\<close>

definition accepted_alerts :: "gold \<Rightarrow> nat \<Rightarrow> alert_row list" where
  "accepted_alerts g i = filter (\<lambda>a. al_disc a = i \<and> al_sent a \<noteq> None) (g_alerts g)"

definition alerts_inv :: "gold \<Rightarrow> bool" where
  "alerts_inv g \<longleftrightarrow> (\<forall>a \<in> set (g_alerts g). al_disc a \<in> d_id ` set (g_discs g)) \<and>
     (\<forall>d \<in> set (g_discs g). length (accepted_alerts g (d_id d)) = (if d_alerted d = None then 0 else 1))"

definition gold_inv :: "gold \<Rightarrow> bool" where
  "gold_inv g \<longleftrightarrow> distinct (map tx_id (g_silver g)) \<and> runs_ok (g_runs g) \<and> pairs_inv g \<and> discs_inv g \<and> alerts_inv g"

subsection \<open>Keeping the trail\<close>

lemma discs_inv_cong:
  "g_discs h = g_discs g \<Longrightarrow> g_events h = g_events g \<Longrightarrow> g_silver h = g_silver g \<Longrightarrow> discs_inv h = discs_inv g"
  by (simp add: discs_inv_def trail_ok_def events_of_def tx_ids_def)

lemma pairs_inv_cong:
  "g_pairs h = g_pairs g \<Longrightarrow> g_matched h = g_matched g \<Longrightarrow> g_silver h = g_silver g \<Longrightarrow> pairs_inv h = pairs_inv g"
  by (simp add: pairs_inv_def opposite_def)

lemma alerts_inv_cong: "g_discs h = g_discs g \<Longrightarrow> g_alerts h = g_alerts g \<Longrightarrow> alerts_inv h = alerts_inv g"
  by (simp add: alerts_inv_def accepted_alerts_def)

lemma alerts_inv_map:
  assumes "g_discs h = map f (g_discs g)" and "g_alerts h = g_alerts g"
    and f: "\<And>d. d_id (f d) = d_id d" "\<And>d. d_alerted (f d) = d_alerted d"
  shows "alerts_inv h = alerts_inv g"
proof -
  have "map d_id (g_discs h) = map d_id (g_discs g)" using f(1) by (simp add: assms(1))
  from arg_cong [OF this, of set] have "d_id ` set (g_discs h) = d_id ` set (g_discs g)" by simp
  then show ?thesis by (simp add: alerts_inv_def accepted_alerts_def assms(1,2) f)
qed

lemma alerts_inv_append:
  assumes "alerts_inv g" and "g_discs h = g_discs g @ [d]" and "g_alerts h = g_alerts g"
    and "d_id d \<notin> d_id ` set (g_discs g)" and "d_alerted d = None"
  shows "alerts_inv h"
proof -
  have "accepted_alerts h (d_id d) = []"
    using assms(1,3,4) unfolding alerts_inv_def accepted_alerts_def by (simp add: filter_empty_conv) metis
  then show ?thesis using assms by (auto simp: alerts_inv_def accepted_alerts_def)
qed

lemma events_none: "discs_inv g \<Longrightarrow> i \<notin> d_id ` set (g_discs g) \<Longrightarrow> events_of g i = []"
  by (auto simp: discs_inv_def events_of_def filter_empty_conv)

lemma events_of_append:
  "g_events h = g_events g @ es \<Longrightarrow> events_of h i = events_of g i @ filter (\<lambda>e. ev_disc e = i) es"
  by (simp add: events_of_def)

lemma find_map_key:
  assumes "\<And>d. f (g d) = f d"
  shows "List.find (\<lambda>d. f d = k) (map (\<lambda>d. if P d then g d else d) xs) =
    map_option (\<lambda>d. if P d then g d else d) (List.find (\<lambda>d. f d = k) xs)"
  by (induction xs) (auto simp: assms)

text \<open>A new open discrepancy with its first event.\<close>

lemma discs_inv_raised:
  assumes inv: "discs_inv g" and h: "g_discs h = g_discs g @ [d]" "g_events h = g_events g @ [e]" "g_silver h = g_silver g"
    and new: "d_id d \<notin> d_id ` set (g_discs g)" "disc_key d \<notin> disc_keys (g_discs g)" "d_tx d \<in> tx_ids g"
    and d: "0 \<le> d_exposure d" "d_state d = OPEN"
    and e: "ev_disc e = d_id d" "ev_action e = Raised" "ev_from e = None" "ev_to e = OPEN"
  shows "discs_inv h"
proof -
  have "trail_ok h d"
    using events_none [OF inv new(1)] e d(2) by (simp add: trail_ok_def events_of_append [OF h(2)])
  moreover have "trail_ok h c" if c: "c \<in> set (g_discs g)" for c
  proof -
    have "d_id c \<noteq> d_id d" using new(1) c by (metis image_eqI)
    moreover have "trail_ok g c" using inv c by (simp add: discs_inv_def)
    ultimately show ?thesis using e(1) by (simp add: trail_ok_def events_of_append [OF h(2)])
  qed
  moreover have "tx_ids h = tx_ids g" by (simp add: tx_ids_def h)
  ultimately show ?thesis
    using inv new d e(1) unfolding discs_inv_def h by (auto simp: disc_ok_def disc_keys_def)
qed

text \<open>Rows changed in place, each with one event of its own.\<close>

lemma filter_key_unique:
  "distinct (map f xs) \<Longrightarrow> x \<in> set xs \<Longrightarrow> filter (\<lambda>y. f y = f x) (filter P xs) = (if P x then [x] else [])"
proof (induction xs)
  case (Cons y ys)
  have "filter (\<lambda>z. f z = f y) ys = []"
    using Cons.prems(1) by (simp add: filter_empty_conv) (metis image_eqI)
  then have "filter (\<lambda>z. f z = f y \<and> P z) ys = []" by (metis (mono_tags, lifting) filter_empty_conv)
  then show ?case using Cons by (auto simp: conj_commute)
qed simp

lemma discs_inv_moved:
  assumes inv: "discs_inv g" and h: "g_discs h = map (\<lambda>d. if P d then f d else d) (g_discs g)"
    "g_events h = g_events g @ map ev (filter P (g_discs g))" "g_silver h = g_silver g"
    and f: "\<And>d. d_id (f d) = d_id d" "\<And>d. disc_key (f d) = disc_key d"
    and ok: "\<And>d. d \<in> set (g_discs g) \<Longrightarrow> P d \<Longrightarrow> disc_ok (f d)"
    and ev: "\<And>d. d \<in> set (g_discs g) \<Longrightarrow> P d \<Longrightarrow> ev_disc (ev d) = d_id d \<and> ev_from (ev d) = Some (d_state d) \<and>
      ev_to (ev d) = d_state (f d) \<and> legal (ev_action (ev d)) (Some (d_state d)) (d_state (f d))"
  shows "discs_inv h"
proof -
  let ?f = "\<lambda>d. if P d then f d else d"
  have ids: "distinct (map d_id (g_discs g))" using inv by (simp add: discs_inv_def)
  have id: "d_id (?f d) = d_id d" and key: "disc_key (?f d) = disc_key d" for d using f by simp_all
  have maps: "map d_id (g_discs h) = map d_id (g_discs g)" "map disc_key (g_discs h) = map disc_key (g_discs g)"
    using id key by (simp_all add: h comp_def)
  have ids': "d_id ` set (g_discs h) = d_id ` set (g_discs g)" using arg_cong [OF maps(1), of set] by simp
  have txs: "tx_ids h = tx_ids g" by (simp add: tx_ids_def h)
  have trail: "trail_ok h (?f d)" if d: "d \<in> set (g_discs g)" for d
  proof -
    have "filter (\<lambda>e. ev_disc e = d_id d) (map ev (filter P (g_discs g))) = map ev (filter (\<lambda>c. d_id c = d_id d) (filter P (g_discs g)))"
      unfolding filter_map comp_def by (rule arg_cong [where f = "map ev"]) (auto intro!: filter_cong simp: ev)
    also have "\<dots> = (if P d then [ev d] else [])" unfolding filter_key_unique [OF ids d] by simp
    finally have "events_of h (d_id d) = events_of g (d_id d) @ (if P d then [ev d] else [])"
      by (simp add: events_of_append [OF h(2)])
    moreover have "trail_ok g d" using inv d by (simp add: discs_inv_def)
    ultimately show ?thesis using ev [OF d] f(1) by (simp add: trail_ok_def replay_append)
  qed
  have rows: "disc_ok (?f d) \<and> trail_ok h (?f d) \<and> d_tx (?f d) \<in> tx_ids h" if d: "d \<in> set (g_discs g)" for d
    using inv d ok [OF d] trail [OF d] key [of d] txs by (auto simp: discs_inv_def split: if_splits)
  have "\<forall>d \<in> set (g_discs h). disc_ok d \<and> trail_ok h d \<and> d_tx d \<in> tx_ids h"
    unfolding h(1) set_map by (rule ballI, elim imageE, hypsubst, rule rows)
  moreover have "\<forall>e \<in> set (g_events h). ev_disc e \<in> d_id ` set (g_discs g)"
    using inv ev by (fastforce simp: discs_inv_def h(2))
  ultimately show ?thesis using inv unfolding discs_inv_def maps ids' by blast
qed

text \<open>Rows changed in fields the trail does not see.\<close>

lemma discs_inv_touched:
  assumes inv: "discs_inv g" and h: "g_discs h = map f (g_discs g)" "g_events h = g_events g" "g_silver h = g_silver g"
    and f: "\<And>d. d_id (f d) = d_id d" "\<And>d. disc_key (f d) = disc_key d" "\<And>d. d_state (f d) = d_state d"
      "\<And>d. disc_ok (f d) = disc_ok d"
  shows "discs_inv h"
proof -
  have maps: "map d_id (g_discs h) = map d_id (g_discs g)" "map disc_key (g_discs h) = map disc_key (g_discs g)"
    using f(1,2) by (simp_all add: h comp_def)
  have ids': "d_id ` set (g_discs h) = d_id ` set (g_discs g)" using arg_cong [OF maps(1), of set] by simp
  have "trail_ok h (f d) = trail_ok g d" for d by (simp add: trail_ok_def events_of_def h f)
  then show ?thesis
    using inv f unfolding discs_inv_def maps ids' by (auto simp: h tx_ids_def)
qed

lemma pairs_inv_state:
  assumes "pairs_inv g"
    and f: "\<And>p. p_id (f p) = p_id p" "\<And>p. p_a (f p) = p_a p" "\<And>p. p_b (f p) = p_b p" "\<And>p. pair_checks (f p) = pair_checks p"
  shows "pairs_inv (update_pairs P f g)"
proof -
  have maps: "map p_id (g_pairs (update_pairs P f g)) = map p_id (g_pairs g)"
    by (simp add: update_pairs_def f)
  have "(\<Union>p \<in> set (g_pairs (update_pairs P f g)). {(p_a p, p_id p), (p_b p, p_id p)}) =
      (\<Union>p \<in> set (g_pairs g). {(p_a p, p_id p), (p_b p, p_id p)})"
    by (auto simp: update_pairs_def f)
  then show ?thesis using assms(1) unfolding pairs_inv_def maps
    by (auto simp: update_pairs_def f opposite_def)
qed

subsection \<open>The abstract lifecycle\<close>

text \<open>
  What the workflow promises: a discrepancy of a transaction and a class is raised at most once,
  and closed at most once, for good. \<open>life\<close> is the status each discrepancy has in the tables.
\<close>

type_synonym lifecycle = "nat \<times> discrepancy_type \<rightharpoonup> disc_status"

inductive life_step :: "lifecycle \<Rightarrow> lifecycle \<Rightarrow> bool" where
  raise: "m k = None \<Longrightarrow> life_step m (m(k \<mapsto> OPEN))"
| close: "m k = Some s \<Longrightarrow> \<not> closed s \<Longrightarrow> closed c \<Longrightarrow> life_step m (m(k \<mapsto> c))"

definition life :: "gold \<Rightarrow> lifecycle" where
  "life g = map_of (map (\<lambda>d. (disc_key d, d_state d)) (g_discs g))"

lemma life_step_final: "life_step m m' \<Longrightarrow> m k = Some s \<Longrightarrow> closed s \<Longrightarrow> m' k = Some s"
  by (induction rule: life_step.induct) auto

lemma life_run_final: "life_step\<^sup>*\<^sup>* m m' \<Longrightarrow> m k = Some s \<Longrightarrow> closed s \<Longrightarrow> m' k = Some s"
  by (induction rule: rtranclp_induct) (auto intro: life_step_final)

lemma life_step_dom: "life_step m m' \<Longrightarrow> m k \<noteq> None \<Longrightarrow> m' k \<noteq> None"
  by (induction rule: life_step.induct) auto

lemma life_run_dom: "life_step\<^sup>*\<^sup>* m m' \<Longrightarrow> m k \<noteq> None \<Longrightarrow> m' k \<noteq> None"
  by (induction rule: rtranclp_induct) (auto dest: life_step_dom)

lemma life_raised:
  assumes "g_discs h = g_discs g @ [d]" and "disc_key d \<notin> disc_keys (g_discs g)" and "d_state d = OPEN"
  shows "life h = (life g)(disc_key d \<mapsto> OPEN)" "life g (disc_key d) = None"
proof -
  show none: "life g (disc_key d) = None"
    using assms(2) by (auto simp: life_def map_of_eq_None_iff disc_keys_def)
  show "life h = (life g)(disc_key d \<mapsto> OPEN)"
    using none by (auto simp: life_def assms(1,3) map_add_def fun_eq_iff split: option.splits)
qed

lemma life_touched:
  assumes "g_discs h = map f (g_discs g)" and "\<And>d. disc_key (f d) = disc_key d" and "\<And>d. d_state (f d) = d_state d"
  shows "life h = life g"
  unfolding life_def assms(1) map_map comp_def assms(2,3) ..

lemma life_row: "distinct (map disc_key (g_discs g)) \<Longrightarrow> d \<in> set (g_discs g) \<Longrightarrow> life g (disc_key d) = Some (d_state d)"
  unfolding life_def by (rule map_of_is_SomeI) (auto simp: comp_def)

lemma life_Some:
  assumes "life g k = Some s"
  obtains d where "d \<in> set (g_discs g)" "disc_key d = k" "d_state d = s"
  using map_of_SomeD [OF assms [unfolded life_def]] by auto

text \<open>Closing some open rows of a table without repeated keys is a run of single closings.\<close>

lemma life_closed:
  fixes f :: "disc_row \<Rightarrow> disc_row"
  assumes f: "\<And>d. disc_key (f d) = disc_key d"
    and cl: "\<And>d. d \<in> set ds \<Longrightarrow> P d \<Longrightarrow> \<not> closed (d_state d) \<and> closed (d_state (f d))"
    and dist: "distinct (map disc_key ds)"
  shows "life_step\<^sup>*\<^sup>* (map_of (map (\<lambda>d. (disc_key d, d_state d)) ds))
    (map_of (map (\<lambda>d. (disc_key d, d_state (if P d then f d else d))) ds))"
    (is "life_step\<^sup>*\<^sup>* (map_of (map ?a ds)) (map_of (map ?b ds))")
  using cl dist
proof (induction ds)
  case (Cons d ds)
  have step: "life_step\<^sup>*\<^sup>* (m(disc_key d \<mapsto> s)) (m'(disc_key d \<mapsto> s))" if run: "life_step\<^sup>*\<^sup>* m m'"
    and no: "m' (disc_key d) = None" for m m' s
    using run no
  proof (induction rule: rtranclp_induct)
    case (step y z)
    then have y: "y (disc_key d) = None" using life_step_dom by blast
    have "life_step (y(disc_key d \<mapsto> s)) (z(disc_key d \<mapsto> s))" using step.hyps(2) y step.prems
    proof cases
      case (raise k)
      then have "k \<noteq> disc_key d" using step.prems by auto
      then show ?thesis using raise life_step.raise [of "y(disc_key d \<mapsto> s)" k] by (simp add: fun_upd_twist)
    next
      case (close k u c)
      then have "k \<noteq> disc_key d" using y by auto
      then show ?thesis using close life_step.close [of "y(disc_key d \<mapsto> s)" k u c] by (simp add: fun_upd_twist)
    qed
    then show ?case by (rule rtranclp.rtrancl_into_rtrancl [OF step.IH [OF y]])
  qed simp
  have no: "map_of (map ?b ds) (disc_key d) = None" using Cons.prems(2) by (auto simp: map_of_eq_None_iff)
  have one: "life_step\<^sup>*\<^sup>* ((map_of (map ?a ds))(disc_key d \<mapsto> d_state d)) ((map_of (map ?b ds))(disc_key d \<mapsto> d_state d))"
    using step [OF Cons.IH no] Cons.prems by simp
  have two: "life_step\<^sup>*\<^sup>* ((map_of (map ?b ds))(disc_key d \<mapsto> d_state d)) (map_of (map ?b (d # ds)))"
  proof (cases "P d")
    case True
    then have "\<not> closed (d_state d)" "closed (d_state (f d))" using Cons.prems(1) by auto
    from life_step.close [OF _ this, of "(map_of (map ?b ds))(disc_key d \<mapsto> d_state d)" "disc_key d"]
    show ?thesis using True by (simp add: r_into_rtranclp)
  qed simp
  from rtranclp_trans [OF one two] show ?case by (simp only: list.map map_of.simps fst_conv snd_conv)
qed simp

subsection \<open>Evolution of the tables\<close>

definition evolves :: "gold \<Rightarrow> gold \<Rightarrow> bool" where
  "evolves g h \<longleftrightarrow> (gold_inv g \<longrightarrow> gold_inv h \<and> g_silver h = g_silver g \<and> (\<exists>ms. g_matched h = g_matched g @ ms) \<and>
     (\<exists>es. g_events h = g_events g @ es) \<and> life_step\<^sup>*\<^sup>* (life g) (life h))"

lemma evolves_refl [inv_intros]: "evolves g g"
  by (simp add: evolves_def)

lemma evolves_trans: "evolves g h \<Longrightarrow> evolves h k \<Longrightarrow> evolves g k"
  unfolding evolves_def by (metis append_assoc rtranclp_trans)

lemma evolvesI:
  assumes "gold_inv g \<Longrightarrow> runs_ok (g_runs h)" and "gold_inv g \<Longrightarrow> pairs_inv h" and "gold_inv g \<Longrightarrow> discs_inv h"
    and "gold_inv g \<Longrightarrow> alerts_inv h" and "g_silver h = g_silver g" and "\<exists>ms. g_matched h = g_matched g @ ms" and "\<exists>es. g_events h = g_events g @ es"
    and "gold_inv g \<Longrightarrow> life_step\<^sup>*\<^sup>* (life g) (life h)"
  shows "evolves g h"
  using assms by (simp add: evolves_def gold_inv_def)

text \<open>Run bookkeeping leaves the rest alone.\<close>

lemma evolves_log [inv_intros]:
  "(runs_ok (g_runs g) \<Longrightarrow> runs_ok rs) \<Longrightarrow> evolves g (g\<lparr>g_runs := rs\<rparr>)"
  using discs_inv_cong [of "g\<lparr>g_runs := rs\<rparr>" g] pairs_inv_cong [of "g\<lparr>g_runs := rs\<rparr>" g]
    alerts_inv_cong [of "g\<lparr>g_runs := rs\<rparr>" g]
  by (simp add: evolves_def gold_inv_def life_def)

lemma stored_pair_sel:
  "p_id (stored_pair p) = p_id p" "p_a (stored_pair p) = p_a p" "p_b (stored_pair p) = p_b p"
  by (simp_all add: stored_pair_def)

lemma insert_pair_Inr:
  "insert_pair p g = Inr h \<Longrightarrow> h = g\<lparr>g_pairs := g_pairs g @ [stored_pair p]\<rparr> \<and> pair_checks (stored_pair p) \<and>
    p_id p \<notin> p_id ` set (g_pairs g) \<and> p_a p \<in> tx_ids g \<and> p_b p \<in> tx_ids g"
  unfolding insert_pair_def Let_def by (simp add: stored_pair_sel split: if_splits)

lemma insert_matched_Inr:
  "insert_matched m g = Inr h \<Longrightarrow> h = g\<lparr>g_matched := g_matched g @ [m]\<rparr> \<and> \<not> is_matched g (fst m)"
  by (auto simp: insert_matched_def split: if_splits)

lemma insert_event_Inr:
  "insert_event e g = Inr h \<Longrightarrow> h = g\<lparr>g_events := g_events g @ [e]\<rparr>"
  by (auto simp: insert_event_def split: if_splits)

lemma insert_disc_cases:
  assumes "insert_disc d g = Inr (h, inserted)"
  obtains (old) "\<not> inserted" "h = g" "disc_key d \<in> disc_keys (g_discs g)"
  | (new) "inserted" "h = g\<lparr>g_discs := g_discs g @ [d\<lparr>d_exposure := pg_round 6 (d_exposure d)\<rparr>]\<rparr>"
      "disc_key d \<notin> disc_keys (g_discs g)" "d_id d \<notin> d_id ` set (g_discs g)" "d_tx d \<in> tx_ids g"
      "0 \<le> pg_round 6 (d_exposure d)"
proof -
  have "disc_put (disc_key d) (d\<lparr>d_exposure := x\<rparr>) (g_discs g) = (g_discs g @ [d\<lparr>d_exposure := x\<rparr>], True)"
    if "disc_key d \<notin> disc_keys (g_discs g)" for x
  proof -
    have "\<not> list_ex (\<lambda>e. disc_key e = disc_key d) (g_discs g)"
      using that unfolding list_ex_key disc_keys_def by simp
    then show ?thesis unfolding disc_put_def by (simp only: if_False) simp
  qed
  then show thesis using assms old new
    by (fastforce simp: insert_disc_def Let_def split: if_splits)
qed

text \<open>Raising a discrepancy: the row, possibly the state of its pair, and the first event.\<close>

lemma evolves_raised:
  assumes ins: "insert_disc d g = Inr (g1, True)" and st: "d_state d = OPEN" "d_alerted d = None"
    and g2: "g2 = g1 \<or> g2 = update_pairs P (p_state_update s) g1"
    and e: "insert_event e g2 = Inr h" "ev_disc e = d_id d" "ev_action e = Raised" "ev_from e = None" "ev_to e = OPEN"
  shows "evolves g h"
  using ins
proof (cases rule: insert_disc_cases)
  case new
  let ?d = "d\<lparr>d_exposure := pg_round 6 (d_exposure d)\<rparr>"
  have h: "g_discs h = g_discs g @ [?d]" "g_events h = g_events g @ [e]" "g_silver h = g_silver g"
    "g_matched h = g_matched g" "g_runs h = g_runs g" "g_alerts h = g_alerts g"
    using g2 insert_event_Inr [OF e(1)] new(2) by (auto simp: update_pairs_def)
  have key: "disc_key ?d = disc_key d" by simp
  have "pairs_inv (update_pairs P (p_state_update s) g1) = pairs_inv (update_pairs P (p_state_update s) g)"
    using new(2) by (intro pairs_inv_cong) (simp_all add: update_pairs_def)
  then have "pairs_inv h" if "gold_inv g"
    using that g2 insert_event_Inr [OF e(1)] pairs_inv_state [of g "p_state_update s" P]
      pairs_inv_cong [of h g2] pairs_inv_cong [of g1 g] new(2)
    by (auto simp: gold_inv_def pair_checks_def)
  moreover have "discs_inv h" if "gold_inv g"
    using that new(3-6) st e by (intro discs_inv_raised [OF _ h(1-3)]) (simp_all add: gold_inv_def)
  moreover have "alerts_inv h" if "gold_inv g"
    using that new(4) st by (intro alerts_inv_append [OF _ h(1,6)]) (simp_all add: gold_inv_def)
  moreover have "life_step (life g) (life h)"
    using life_raised [OF h(1)] new(3) st life_step.raise [of "life g" "disc_key d"] by (simp add: key)
  ultimately show ?thesis
    by (intro evolvesI) (auto simp: h gold_inv_def)
qed simp

subsection \<open>Example tables\<close>

definition example_tx :: "nat \<Rightarrow> string \<Rightarrow> string \<Rightarrow> rat \<Rightarrow> time option \<Rightarrow> canonical" where
  "example_tx i psp ty amount expected = \<lparr>tx_id = i, idempotency_key = show_nat (int i), bronze_ingestion_id = 0,
     psp_name = psp, psp_transaction_ref = ''ref'', psp_event_type = ''charge.success'', psp_event_received_at = 0,
     transaction_type = ty, amount_raw = amount, currency_raw = ''NGN'', amount_ngn = amount,
     fx_rate_snapshot_id = None, fx_rate_applied = None, sender_account_masked = None, sender_bank_code = JNull,
     sender_bank_name = JNull, beneficiary_account_masked = None, beneficiary_bank_code = JNull,
     beneficiary_bank_name = JNull, beneficiary_name_masked = None, counterparty_name_tokens = [],
     narration = None, initiated_at = 0, settled_at = None, expected_settlement_at = expected,
     settlement_status = ''pending'', has_pii_masked = True, psp_metadata = [], processed_by_run_id = 1\<rparr>"

definition example_gold :: gold where
  "example_gold = \<lparr>g_silver = [example_tx 1 ''paystack'' ''credit'' 50000 (Some 0),
       example_tx 2 ''flutterwave'' ''debit'' 50000 None], g_pairs = [], g_matched = [], g_discs = [],
     g_events = [], g_alerts = [], g_runs = []\<rparr>"

lemma example_gold_inv: "gold_inv example_gold"
  by (simp add: gold_inv_def pairs_inv_def discs_inv_def alerts_inv_def runs_ok_def example_gold_def example_tx_def)

definition example_disc :: disc_row where
  "example_disc = \<lparr>d_id = 7, d_pair = None, d_tx = 1, d_class = MISSING_SETTLEMENT, d_severity = CRITICAL,
     d_exposure = 50000, d_evidence = NotYetDue, d_state = OPEN, d_raised = 0, d_resolved_at = None,
     d_resolved_by = None, d_note = None, d_alerted = None, d_run = 1\<rparr>"

definition example_raised :: gold where
  "example_raised = example_gold\<lparr>g_discs := [example_disc], g_events := [\<lparr>ev_disc = 7, ev_action = Raised,
     ev_from = None, ev_to = OPEN, ev_actor = ''system'', ev_note = None, ev_at = 0\<rparr>]\<rparr>"

lemma example_raised_inv: "gold_inv example_raised"
  by (simp add: gold_inv_def pairs_inv_def discs_inv_def alerts_inv_def accepted_alerts_def runs_ok_def disc_ok_def
      trail_ok_def events_of_def tx_ids_def example_raised_def example_disc_def example_gold_def example_tx_def)

end
