(* ===== verification/Matching_Flow.thy ===== *)
theory Matching_Flow
  imports Gold
begin

text \<open>
  \<open>src/flows/matching_flow.py\<close>: candidates from Silver, the pairs written one savepoint each, the
  amount discrepancies and the overdue settlements. Time, generated identifiers and faults of the
  database connection are parameters. A savepoint whose constraints fail is undone and the loop
  goes on; any other error ends the session, which is then rolled back as a whole.
\<close>

subsection \<open>Candidates\<close>

definition json_text :: "json \<Rightarrow> string option" where
  "json_text v = (case v of JStr s \<Rightarrow> Some s | _ \<Rightarrow> None)"

definition to_candidate :: "canonical \<Rightarrow> candidate" where
  "to_candidate r = \<lparr>c_id = tx_id r, c_psp = psp_name r, c_type = transaction_type r,
     c_amount = amount_ngn r, c_currency = currency_raw r, c_initiated = initiated_at r,
     c_settled = settled_at r, c_tokens = Some (counterparty_name_tokens r),
     c_beneficiary_bank = json_text (beneficiary_bank_code r), c_sender_bank = json_text (sender_bank_code r),
     already_matched = False\<rparr>"

definition directed :: "canonical \<Rightarrow> bool" where
  "directed r \<longleftrightarrow> transaction_type r \<in> {''credit'', ''debit''}"

text \<open>\<open>ORDER BY initiated_at, id\<close> is a stable sort by time of the rows sorted by identifier.\<close>

definition fetch_match_candidates :: "span \<Rightarrow> time \<Rightarrow> gold \<Rightarrow> candidate list" where
  "fetch_match_candidates lookback now g = map to_candidate (sort_key initiated_at (sort_key tx_id
     (filter (\<lambda>r. directed r \<and> settlement_status r \<noteq> ''failed'' \<and> now - lookback \<le> initiated_at r \<and>
       \<not> is_matched g (tx_id r)) (g_silver g))))"

text \<open>\<open>{c.id: c for c in candidates}\<close>: the last candidate of an identifier stays.\<close>

definition by_id :: "candidate list \<Rightarrow> nat \<Rightarrow> candidate option" where
  "by_id cs i = List.find (\<lambda>c. c_id c = i) (rev cs)"

subsection \<open>Persisting pairs\<close>

record persist_env =
  pe_now :: time
  pe_run :: nat
  pe_pair_id :: "nat \<Rightarrow> nat"
  pe_disc_id :: "nat \<Rightarrow> nat"
  pe_fault :: "nat \<Rightarrow> bool"
  pe_commits :: bool

definition actor_flow :: string where
  "actor_flow = ''system:matching-flow''"

definition pair_of :: "persist_env \<Rightarrow> match_result \<Rightarrow> candidate \<Rightarrow> candidate \<Rightarrow> pair_row" where
  "pair_of env r a b = \<lparr>p_id = pe_pair_id env (c_id a), p_a = c_id a, p_b = c_id b, p_strategy = mr_strategy r,
     p_confidence = confidence_score r, p_amount_a = c_amount a, p_amount_b = c_amount b,
     p_delta = (case amount_delta_ngn r of None \<Rightarrow> 0 | Some d \<Rightarrow> d), p_fx_flag = is_within_fx_threshold r,
     p_state = PAIR_MATCHED, p_evidence = confidence_evidence r, p_run = pe_run env, p_created = pe_now env\<rparr>"

definition rate_of :: "gold \<Rightarrow> nat \<Rightarrow> rat option" where
  "rate_of g t = (case List.find (\<lambda>r. tx_id r = t) (g_silver g) of None \<Rightarrow> None | Some r \<Rightarrow> fx_rate_applied r)"

definition raised_event :: "time \<Rightarrow> nat \<Rightarrow> event_row" where
  "raised_event now d = \<lparr>ev_disc = d, ev_action = Raised, ev_from = None, ev_to = OPEN, ev_actor = actor_flow,
     ev_note = None, ev_at = now\<rparr>"

definition amount_disc :: "persist_env \<Rightarrow> nat \<Rightarrow> nat \<Rightarrow> discrepancy_type \<Rightarrow> severity \<Rightarrow> discrepancy_result \<Rightarrow> disc_row" where
  "amount_disc env pair a ty sv res = \<lparr>d_id = pe_disc_id env a, d_pair = Some pair, d_tx = a, d_class = ty,
     d_severity = sv, d_exposure = estimated_exposure_ngn res, d_evidence = dr_evidence res, d_state = OPEN,
     d_raised = pe_now env, d_resolved_at = None, d_resolved_by = None, d_note = None, d_alerted = None,
     d_run = pe_run env\<rparr>"

definition raise_amount_discrepancy ::
  "persist_env \<Rightarrow> nat \<Rightarrow> candidate \<Rightarrow> candidate \<Rightarrow> gold \<Rightarrow> exc + nat \<times> gold" where
  "raise_amount_discrepancy env pair a b g =
     sbind (classify_amount_discrepancy (c_amount a) (c_amount b) (rate_of g (c_id a)) (rate_of g (c_id b))) (\<lambda>res.
     case (discrepancy_type res, dr_severity res) of
       (Some ty, Some sv) \<Rightarrow>
         sbind (insert_disc (amount_disc env pair (c_id a) ty sv res) g) (\<lambda>(g1, inserted).
         if \<not> inserted then Inr (0, g1)
         else
           let g2 = update_pairs (\<lambda>p. p_id p = pair) (p_state_update (\<lambda>_. PAIR_DISCREPANCY)) g1 in
           sbind (insert_event (raised_event (pe_now env) (pe_disc_id env (c_id a))) g2) (\<lambda>g3. Inr (1, g3)))
     | _ \<Rightarrow> Inr (0, g))"

text \<open>One savepoint: the pair, a row per side, and the discrepancy if the amounts differ.\<close>

definition persist_pair :: "persist_env \<Rightarrow> match_result \<Rightarrow> candidate \<Rightarrow> candidate \<Rightarrow> gold \<Rightarrow> exc + nat \<times> gold" where
  "persist_pair env r a b g = (if pe_fault env (c_id a) then Inl DatabaseError else
     let pair = pe_pair_id env (c_id a) in
     sbind (insert_pair (pair_of env r a b) g) (\<lambda>g1.
     sbind (insert_matched (c_id a, pair) g1) (\<lambda>g2.
     sbind (insert_matched (c_id b, pair) g2) (\<lambda>g3.
     case amount_delta_ngn r of
       Some d \<Rightarrow> if 0 < d then raise_amount_discrepancy env pair a b g3 else Inr (0, g3)
     | None \<Rightarrow> Inr (0, g3)))))"

fun persist_loop ::
  "persist_env \<Rightarrow> (nat \<Rightarrow> candidate option) \<Rightarrow> match_result list \<Rightarrow> gold \<Rightarrow> exc + (nat \<times> nat) \<times> gold" where
  "persist_loop env find_c [] g = Inr ((0, 0), g)"
| "persist_loop env find_c (r # rs) g =
     (case (find_c (source_transaction_id r), Option.bind (matched_transaction_id r) find_c) of
       (Some a, Some b) \<Rightarrow>
         (case persist_pair env r a b g of
           Inr (n, g1) \<Rightarrow> sbind (persist_loop env find_c rs g1) (\<lambda>((w, k), g2). Inr ((Suc w, n + k), g2))
         | Inl IntegrityError \<Rightarrow> persist_loop env find_c rs g
         | Inl e \<Rightarrow> Inl e)
     | _ \<Rightarrow> Inl (KeyError ''''))"

definition persist_pairs ::
  "persist_env \<Rightarrow> match_result list \<Rightarrow> candidate list \<Rightarrow> gold \<Rightarrow> exc + (nat \<times> nat) \<times> gold" where
  "persist_pairs env pairs cs g = sbind (persist_loop env (by_id cs) pairs g) (\<lambda>out.
     if pe_commits env then Inr out else Inl DatabaseError)"

subsection \<open>Overdue settlements\<close>

definition overdue :: "time \<Rightarrow> gold \<Rightarrow> canonical \<Rightarrow> bool" where
  "overdue now g r \<longleftrightarrow> directed r \<and> settlement_status r = ''pending'' \<and>
     (case expected_settlement_at r of None \<Rightarrow> False | Some e \<Rightarrow> e < now) \<and> \<not> is_matched g (tx_id r)"

definition overdue_hours :: "time \<Rightarrow> time \<Rightarrow> rat" where
  "overdue_hours now e = of_int (now - e) / of_int us_hour"

definition sql_severity :: "rat \<Rightarrow> severity" where
  "sql_severity h = (if 48 < h then CRITICAL else if 24 < h then HIGH else MEDIUM)"

definition missing_evidence :: "time \<Rightarrow> time \<Rightarrow> canonical \<Rightarrow> disc_evidence" where
  "missing_evidence now e r = Overdue e (pg_round 2 (overdue_hours now e)) (amount_ngn r)"

definition missing_disc :: "persist_env \<Rightarrow> time \<Rightarrow> canonical \<Rightarrow> disc_row" where
  "missing_disc env e r = \<lparr>d_id = pe_disc_id env (tx_id r), d_pair = None, d_tx = tx_id r,
     d_class = MISSING_SETTLEMENT, d_severity = sql_severity (overdue_hours (pe_now env) e),
     d_exposure = amount_ngn r, d_evidence = missing_evidence (pe_now env) e r, d_state = OPEN,
     d_raised = pe_now env, d_resolved_at = None, d_resolved_by = None, d_note = None, d_alerted = None,
     d_run = pe_run env\<rparr>"

definition changed_event :: "time \<Rightarrow> disc_row \<Rightarrow> event_row" where
  "changed_event now d = \<lparr>ev_disc = d_id d, ev_action = SeverityChanged, ev_from = Some OPEN, ev_to = OPEN,
     ev_actor = actor_flow, ev_note = None, ev_at = now\<rparr>"

text \<open>\<open>INSERT ... ON CONFLICT DO UPDATE ... WHERE\<close> of one overdue row, with its event.\<close>

definition severity_stale :: "severity \<Rightarrow> nat \<Rightarrow> disc_row \<Rightarrow> bool" where
  "severity_stale sv t d \<longleftrightarrow> disc_key d = (t, MISSING_SETTLEMENT) \<and> d_state d = OPEN \<and> d_severity d \<noteq> sv"

definition upsert_missing :: "persist_env \<Rightarrow> canonical \<Rightarrow> gold \<Rightarrow> exc + action_kind list \<times> gold" where
  "upsert_missing env r g = (case expected_settlement_at r of None \<Rightarrow> Inr ([], g) | Some e \<Rightarrow>
     let d = missing_disc env e r in
     sbind (insert_disc d g) (\<lambda>(g1, inserted).
     if inserted then sbind (insert_event (raised_event (pe_now env) (d_id d)) g1) (\<lambda>g2. Inr ([Raised], g2))
     else
       let stale = severity_stale (d_severity d) (tx_id r);
           g2 = update_discs stale (\<lambda>c. c\<lparr>d_severity := d_severity d, d_evidence := d_evidence d\<rparr>) g1;
           old = filter stale (g_discs g1)
       in Inr (map (\<lambda>_. SeverityChanged) old, g2\<lparr>g_events := g_events g2 @ map (changed_event (pe_now env)) old\<rparr>)))"

fun upsert_all :: "persist_env \<Rightarrow> canonical list \<Rightarrow> gold \<Rightarrow> exc + action_kind list \<times> gold" where
  "upsert_all env [] g = Inr ([], g)"
| "upsert_all env (r # rs) g = sbind (upsert_missing env r g) (\<lambda>(as, g1).
     sbind (upsert_all env rs g1) (\<lambda>(bs, g2). Inr (as @ bs, g2)))"

definition raise_missing_settlements :: "persist_env \<Rightarrow> gold \<Rightarrow> exc + nat \<times> gold" where
  "raise_missing_settlements env g =
     sbind (upsert_all env (filter (overdue (pe_now env) g) (g_silver g)) g) (\<lambda>(actions, g').
     if pe_commits env then Inr (count_list actions Raised, g') else Inl DatabaseError)"

subsection \<open>Every step keeps the tables sound\<close>

lemma raise_amount_cases:
  assumes "raise_amount_discrepancy env pair a b g = Inr (n, h)"
  obtains (none) "n = 0" "h = g"
  | (raised) d g1 where "n = 1" "d_state d = OPEN" "d_alerted d = None" "d_id d = pe_disc_id env (c_id a)" "insert_disc d g = Inr (g1, True)"
      "insert_event (raised_event (pe_now env) (d_id d))
        (update_pairs (\<lambda>p. p_id p = pair) (p_state_update (\<lambda>_. PAIR_DISCREPANCY)) g1) = Inr h"
proof -
  obtain res where res: "classify_amount_discrepancy (c_amount a) (c_amount b) (rate_of g (c_id a)) (rate_of g (c_id b)) = Inr res"
    using assms by (auto simp: raise_amount_discrepancy_def)
  show thesis
  proof (cases "discrepancy_type res = None \<or> dr_severity res = None")
    case True
    then show thesis using assms res none by (auto simp: raise_amount_discrepancy_def split: option.splits)
  next
    case False
    then obtain ty sv where t: "discrepancy_type res = Some ty" "dr_severity res = Some sv" by auto
    define d where "d = amount_disc env pair (c_id a) ty sv res"
    have d: "d_state d = OPEN" "d_alerted d = None" "d_id d = pe_disc_id env (c_id a)" by (simp_all add: d_def amount_disc_def)
    obtain g1 inserted where ins: "insert_disc d g = Inr (g1, inserted)"
      using assms res t by (auto simp: raise_amount_discrepancy_def d_def)
    show thesis
    proof (cases inserted)
      case True
      then show thesis using assms res t ins d raised [of d g1]
        by (auto simp: raise_amount_discrepancy_def d_def [symmetric] Let_def)
    next
      case False
      then have "g1 = g" using ins by (auto elim: insert_disc_cases)
      then show thesis using assms res t ins False none
        by (auto simp: raise_amount_discrepancy_def d_def [symmetric] Let_def)
    qed
  qed
qed

lemma raise_amount_evolves [inv_intros]:
  assumes "raise_amount_discrepancy env pair a b g = Inr (n, h)"
  shows "evolves g h"
  using assms
proof (cases rule: raise_amount_cases)
  case (raised d g1)
  then show ?thesis
    by (intro evolves_raised [OF raised(5,2,3) disjI2 [OF refl] raised(6)]) (simp_all add: raised_event_def)
qed (simp add: evolves_refl)

lemma paired_evolves:
  assumes p: "insert_pair p g = Inr g1" and a: "insert_matched (p_a p, p_id p) g1 = Inr g2"
    and b: "insert_matched (p_b p, p_id p) g2 = Inr g3" and opp: "gold_inv g \<Longrightarrow> opposite g (p_a p) (p_b p)"
  shows "evolves g g3"
proof -
  have g3: "g3 = g\<lparr>g_pairs := g_pairs g @ [stored_pair p], g_matched := g_matched g @ [(p_a p, p_id p), (p_b p, p_id p)]\<rparr>"
    and new: "p_id p \<notin> p_id ` set (g_pairs g)" "pair_checks (stored_pair p)"
    and un: "p_a p \<notin> fst ` set (g_matched g)" "p_b p \<notin> fst ` set (g_matched g)" "p_a p \<noteq> p_b p"
    using insert_pair_Inr [OF p] insert_matched_Inr [OF a] insert_matched_Inr [OF b]
    by (auto simp: is_matched_def)
  have "pairs_inv g3" if "gold_inv g"
    using that new un opp [OF that] unfolding g3 pairs_inv_def gold_inv_def
    by (simp add: stored_pair_sel opposite_def Un_commute insert_commute)
  then show ?thesis
    using discs_inv_cong [of g3 g] alerts_inv_cong [of g3 g] by (intro evolvesI) (auto simp: g3 gold_inv_def life_def)
qed

lemma persist_pair_evolves:
  assumes run: "persist_pair env r a b g = Inr (n, h)" and opp: "gold_inv g \<Longrightarrow> opposite g (c_id a) (c_id b)"
  shows "evolves g h"
proof -
  let ?p = "pair_of env r a b"
  have sel: "p_a ?p = c_id a" "p_b ?p = c_id b" "p_id ?p = pe_pair_id env (c_id a)" by (simp_all add: pair_of_def)
  obtain g1 g2 g3 where g: "insert_pair ?p g = Inr g1" "insert_matched (p_a ?p, p_id ?p) g1 = Inr g2"
      "insert_matched (p_b ?p, p_id ?p) g2 = Inr g3"
    and h: "h = g3 \<or> raise_amount_discrepancy env (pe_pair_id env (c_id a)) a b g3 = Inr (n, h)"
    using run by (auto simp: persist_pair_def Let_def sel split: if_splits option.splits)
  have "evolves g g3" using paired_evolves [OF g] opp by (simp add: sel)
  then show ?thesis using h evolves_trans raise_amount_evolves by blast
qed

text \<open>
  The pairs of a run were found in candidates loaded earlier; Silver only grows, so their two
  sides are still opposite transactions.
\<close>

definition pairs_from :: "gold \<Rightarrow> (nat \<Rightarrow> candidate option) \<Rightarrow> match_result list \<Rightarrow> bool" where
  "pairs_from g find_c rs \<longleftrightarrow> (\<forall>r \<in> set rs. \<forall>a b. find_c (source_transaction_id r) = Some a \<longrightarrow>
     Option.bind (matched_transaction_id r) find_c = Some b \<longrightarrow> opposite g (c_id a) (c_id b))"

lemma pairs_from_evolves: "evolves g h \<Longrightarrow> gold_inv g \<Longrightarrow> pairs_from h f rs = pairs_from g f rs"
  by (simp add: evolves_def pairs_from_def opposite_def)

lemma persist_loop_evolves:
  "persist_loop env f rs g = Inr (wk, h) \<Longrightarrow> (gold_inv g \<Longrightarrow> pairs_from g f rs) \<Longrightarrow> evolves g h"
proof (induction rs arbitrary: wk g)
  case (Cons r rs)
  obtain a b where ab: "f (source_transaction_id r) = Some a" "Option.bind (matched_transaction_id r) f = Some b"
    using Cons.prems(1) by (auto split: option.splits)
  have rest: "gold_inv g \<Longrightarrow> pairs_from g f rs" and opp: "gold_inv g \<Longrightarrow> opposite g (c_id a) (c_id b)"
    using Cons.prems(2) ab by (auto simp: pairs_from_def)
  show ?case
  proof (cases "persist_pair env r a b g")
    case (Inl e)
    then show ?thesis using Cons ab rest by (cases e) auto
  next
    case (Inr nk)
    obtain n g1 where p: "persist_pair env r a b g = Inr (n, g1)" using Inr by (cases nk) auto
    have ev: "evolves g g1" using persist_pair_evolves [OF p opp] .
    obtain w k where "persist_loop env f rs g1 = Inr ((w, k), h)" using Cons.prems(1) ab p by auto
    from Cons.IH [OF this] have "evolves g1 h" if "gold_inv g"
      using that rest pairs_from_evolves [OF ev that] by blast
    then show ?thesis using evolves_trans [OF ev] evolves_def by blast
  qed
qed (simp add: evolves_refl)

lemma upsert_missing_evolves [inv_intros]:
  assumes "upsert_missing env r g = Inr (as, h)"
  shows "evolves g h"
proof (cases "expected_settlement_at r")
  case (Some e)
  let ?d = "missing_disc env e r"
  obtain g1 inserted where ins: "insert_disc ?d g = Inr (g1, inserted)"
    using assms Some by (auto simp: upsert_missing_def Let_def)
  show ?thesis
  proof (cases inserted)
    case True
    then have "insert_event (raised_event (pe_now env) (d_id ?d)) g1 = Inr h"
      using assms Some ins by (auto simp: upsert_missing_def Let_def)
    then show ?thesis using ins True
      by (intro evolves_raised [OF _ _ _ disjI1 [OF refl]]) (auto simp: raised_event_def missing_disc_def)
  next
    case False
    define stale and f :: "disc_row \<Rightarrow> disc_row" where "stale = severity_stale (d_severity ?d) (tx_id r)"
      and "f = (\<lambda>c. c\<lparr>d_severity := d_severity ?d, d_evidence := d_evidence ?d\<rparr>)"
    have "g1 = g" using ins False by (auto elim: insert_disc_cases)
    then have h: "h = (update_discs stale f g)\<lparr>g_events := g_events g @ map (changed_event (pe_now env)) (filter stale (g_discs g))\<rparr>"
      using assms Some ins False by (simp add: upsert_missing_def Let_def stale_def f_def update_discs_def)
    have sel: "g_discs h = map (\<lambda>d. if stale d then f d else d) (g_discs g)"
      "g_events h = g_events g @ map (changed_event (pe_now env)) (filter stale (g_discs g))" "g_silver h = g_silver g"
      "g_pairs h = g_pairs g" "g_matched h = g_matched g" "g_runs h = g_runs g" "g_alerts h = g_alerts g"
      by (simp_all add: h update_discs_def)
    have f: "d_id (f d) = d_id d" "disc_key (f d) = disc_key d" "d_state (f d) = d_state d" "disc_ok (f d) = disc_ok d" for d
      by (simp_all add: f_def disc_ok_def)
    have "discs_inv h" if "gold_inv g"
      using that by (intro discs_inv_moved [OF _ sel(1-3)])
        (auto simp: f gold_inv_def discs_inv_def stale_def severity_stale_def changed_event_def)
    moreover have "life h = life g"
      by (rule life_touched [of _ "\<lambda>d. if stale d then f d else d"]) (simp_all add: sel f_def)
    moreover have "alerts_inv h = alerts_inv g"
      by (rule alerts_inv_map [OF sel(1,7)]) (simp_all add: f_def)
    ultimately show ?thesis
      using pairs_inv_cong [of h g] by (intro evolvesI) (auto simp: sel gold_inv_def)
  qed
qed (use assms in \<open>simp add: upsert_missing_def evolves_refl\<close>)

lemma upsert_all_evolves [inv_intros]: "upsert_all env rs g = Inr (as, h) \<Longrightarrow> evolves g h"
proof (induction rs arbitrary: as g)
  case (Cons r rs)
  then show ?case using upsert_missing_evolves evolves_trans by (auto simp: split_def) blast
qed (simp add: evolves_refl)

subsection \<open>The pairs of a run\<close>

lemma fetched:
  "c \<in> set (fetch_match_candidates lookback now g) \<longleftrightarrow> (\<exists>r \<in> set (g_silver g). c = to_candidate r \<and> directed r \<and>
     settlement_status r \<noteq> ''failed'' \<and> now - lookback \<le> initiated_at r \<and> \<not> is_matched g (tx_id r))"
  by (auto simp: fetch_match_candidates_def)

lemma by_id_Some: "by_id cs i = Some c \<Longrightarrow> c \<in> set cs \<and> c_id c = i"
  unfolding by_id_def by (drule find_key_Some) simp

lemma by_id_mem: "c \<in> set cs \<Longrightarrow> \<exists>d. by_id cs (c_id c) = Some d"
  by (metis by_id_def find_key_None image_eqI list.set_map not_None_eq set_rev)

lemma eligible_opposite:
  assumes "a \<in> set (fetch_match_candidates lookback now g)" "b \<in> set (fetch_match_candidates lookback now g)"
    and "eligible a b"
  shows "opposite g (c_id a) (c_id b)"
proof -
  obtain r s where r: "r \<in> set (g_silver g)" "a = to_candidate r" "settlement_status r \<noteq> ''failed''"
    and s: "s \<in> set (g_silver g)" "b = to_candidate s" "settlement_status s \<noteq> ''failed''"
    using assms(1,2) unfolding fetched by blast
  have "psp_name s \<noteq> psp_name r" "{transaction_type r, transaction_type s} = {''credit'', ''debit''}"
    using assms(3) by (simp_all add: eligible_def are_complementary_types_def r(2) s(2) to_candidate_def)
  then show ?thesis using r(1,3) s(1,3) unfolding opposite_def r(2) s(2) to_candidate_def candidate.simps by metis
qed

lemma match_all_pairs_from:
  assumes ok: "config_ok config" and cs: "cs = fetch_match_candidates lookback now g" and ps: "match_all cs config = Inr ps"
  shows "pairs_from g (by_id cs) ps"
proof -
  have "opposite g (c_id a) (c_id b)"
    if r: "r \<in> set ps" and a: "by_id cs (source_transaction_id r) = Some a"
      and b: "Option.bind (matched_transaction_id r) (by_id cs) = Some b" for r a b
  proof -
    have "sound_pair cs config r" using match_loop_sound [OF ok ps [unfolded match_all_def]] r by blast
    then obtain x y where x: "x \<in> set cs" "y \<in> set cs" "source_transaction_id r = c_id x"
        "matched_transaction_id r = Some (c_id y)" "eligible x y"
      unfolding sound_pair_def by blast
    have "c_id a = c_id x" "c_id b = c_id y" using a b x(3,4) by_id_Some by fastforce+
    then show ?thesis using eligible_opposite [of x lookback now g y] x cs by simp
  qed
  then show ?thesis unfolding pairs_from_def by blast
qed

text \<open>What a successful loop writes: a pair and two matched transactions per counted result.\<close>

lemma raise_amount_tables:
  "raise_amount_discrepancy env pair a b g = Inr (n, h) \<Longrightarrow>
    length (g_pairs h) = length (g_pairs g) \<and> g_matched h = g_matched g \<and> length (g_discs h) = length (g_discs g) + n"
  by (erule raise_amount_cases) (auto simp: update_pairs_def dest!: insert_event_Inr elim!: insert_disc_cases)

lemma persist_pair_tables:
  assumes "persist_pair env r a b g = Inr (n, h)"
  shows "length (g_pairs h) = length (g_pairs g) + 1 \<and>
    g_matched h = g_matched g @ [(c_id a, pe_pair_id env (c_id a)), (c_id b, pe_pair_id env (c_id a))] \<and>
    length (g_discs h) = length (g_discs g) + n"
  using assms
  by (auto simp: persist_pair_def Let_def dest!: insert_pair_Inr insert_matched_Inr raise_amount_tables
      split: if_splits option.splits)

lemma persist_loop_tables:
  "persist_loop env f rs g = Inr ((w, k), h) \<Longrightarrow> length (g_pairs h) = length (g_pairs g) + w \<and>
    length (g_matched h) = length (g_matched g) + 2 * w \<and> length (g_discs h) = length (g_discs g) + k"
proof (induction rs arbitrary: w k g)
  case (Cons r rs)
  show ?case
  proof (cases "\<exists>a b n g1. f (source_transaction_id r) = Some a \<and>
      Option.bind (matched_transaction_id r) f = Some b \<and> persist_pair env r a b g = Inr (n, g1)")
    case True
    then obtain a b n g1 where p: "f (source_transaction_id r) = Some a"
        "Option.bind (matched_transaction_id r) f = Some b" "persist_pair env r a b g = Inr (n, g1)" by blast
    obtain w' k' where "persist_loop env f rs g1 = Inr ((w', k'), h)" "w = Suc w'" "k = n + k'"
      using Cons.prems p by auto
    then show ?thesis using Cons.IH persist_pair_tables [OF p(3)] by fastforce
  next
    case False
    then have "persist_loop env f rs g = Inr ((w, k), h)"
      using Cons.prems by (auto split: option.splits sum.splits exc.splits)
    then show ?thesis using Cons.IH by blast
  qed
qed simp

subsection \<open>The upsert of overdue settlements\<close>

definition disc_at :: "gold \<Rightarrow> nat \<times> discrepancy_type \<Rightarrow> disc_row option" where
  "disc_at g k = List.find (\<lambda>d. disc_key d = k) (g_discs g)"

abbreviation missing_key :: "canonical \<Rightarrow> nat \<times> discrepancy_type" where
  "missing_key r \<equiv> (tx_id r, MISSING_SETTLEMENT)"

definition upserted :: "persist_env \<Rightarrow> time \<Rightarrow> canonical \<Rightarrow> disc_row option \<Rightarrow> disc_row" where
  "upserted env e r old = (case old of
     None \<Rightarrow> (missing_disc env e r)\<lparr>d_exposure := pg_round 6 (amount_ngn r)\<rparr>
   | Some d \<Rightarrow> let sv = sql_severity (overdue_hours (pe_now env) e) in
       if d_state d = OPEN \<and> d_severity d \<noteq> sv
       then d\<lparr>d_severity := sv, d_evidence := missing_evidence (pe_now env) e r\<rparr> else d)"

lemma disc_at_keys: "disc_at g k = None \<longleftrightarrow> k \<notin> disc_keys (g_discs g)"
  unfolding disc_at_def disc_keys_def by (rule find_key_None)

lemma disc_at_append:
  "disc_key d \<notin> disc_keys (g_discs g) \<Longrightarrow> g_discs h = g_discs g @ [d] \<Longrightarrow> disc_at h = (disc_at g)(disc_key d \<mapsto> d)"
proof
  fix k
  assume a: "disc_key d \<notin> disc_keys (g_discs g)" "g_discs h = g_discs g @ [d]"
  have app: "List.find P (xs @ [d]) = (case List.find P xs of None \<Rightarrow> if P d then Some d else None | Some x \<Rightarrow> Some x)"
    for P and xs :: "disc_row list"
    by (induction xs) auto
  show "disc_at h k = ((disc_at g)(disc_key d \<mapsto> d)) k"
    using disc_at_keys [of g "disc_key d"] a unfolding disc_at_def a(2) app by (auto split: option.splits)
qed

lemma upsert_missing_at:
  assumes run: "upsert_missing env r g = Inr (as, h)" and e: "expected_settlement_at r = Some e"
  shows "disc_at h = (disc_at g)(missing_key r \<mapsto> upserted env e r (disc_at g (missing_key r)))"
    "count_list as Raised = (if disc_at g (missing_key r) = None then 1 else 0)"
proof -
  let ?d = "missing_disc env e r"
  obtain g1 inserted where ins: "insert_disc ?d g = Inr (g1, inserted)"
    using run e by (auto simp: upsert_missing_def Let_def)
  have key: "disc_key ?d = missing_key r" "d_exposure ?d = amount_ngn r" by (simp_all add: missing_disc_def)
  show "disc_at h = (disc_at g)(missing_key r \<mapsto> upserted env e r (disc_at g (missing_key r)))"
    "count_list as Raised = (if disc_at g (missing_key r) = None then 1 else 0)"
    using ins
  proof (atomize(full), cases rule: insert_disc_cases)
    case new
    have h: "insert_event (raised_event (pe_now env) (d_id ?d)) g1 = Inr h" "as = [Raised]"
      using run e ins new(1) by (auto simp: upsert_missing_def Let_def)
    have "g_discs h = g_discs g @ [?d\<lparr>d_exposure := pg_round 6 (amount_ngn r)\<rparr>]"
      using insert_event_Inr [OF h(1)] new(2) by (simp add: key)
    from disc_at_append [OF _ this] new(3) key disc_at_keys [of g "missing_key r"] h(2)
    show "disc_at h = (disc_at g)(missing_key r \<mapsto> upserted env e r (disc_at g (missing_key r))) \<and>
        count_list as Raised = (if disc_at g (missing_key r) = None then 1 else 0)"
      by (simp add: upserted_def)
  next
    case old
    define stale and f :: "disc_row \<Rightarrow> disc_row" where "stale = severity_stale (d_severity ?d) (tx_id r)"
      and "f = (\<lambda>c. c\<lparr>d_severity := d_severity ?d, d_evidence := d_evidence ?d\<rparr>)"
    have h: "g_discs h = map (\<lambda>d. if stale d then f d else d) (g_discs g)"
        "as = map (\<lambda>_. SeverityChanged) (filter stale (g_discs g))"
      using run e ins old(1,2) by (auto simp: upsert_missing_def Let_def stale_def f_def update_discs_def)
    have at: "disc_at h k = map_option (\<lambda>d. if stale d then f d else d) (disc_at g k)" for k
      unfolding disc_at_def h(1) by (rule find_map_key) (simp add: f_def)
    obtain d where d: "disc_at g (missing_key r) = Some d" using old(3) key disc_at_keys by fastforce
    have "disc_at h k = ((disc_at g)(missing_key r \<mapsto> upserted env e r (Some d))) k" for k
    proof (cases "disc_at g k")
      case (Some c)
      then have "disc_key c = k" unfolding disc_at_def by (rule find_key_Some [THEN conjunct2])
      then show ?thesis using Some d
        by (auto simp: at stale_def severity_stale_def upserted_def f_def Let_def missing_disc_def)
    qed (use d in \<open>auto simp: at\<close>)
    moreover have "count_list as Raised = 0" unfolding h(2) by (rule count_notin) auto
    ultimately show "disc_at h = (disc_at g)(missing_key r \<mapsto> upserted env e r (disc_at g (missing_key r))) \<and>
        count_list as Raised = (if disc_at g (missing_key r) = None then 1 else 0)"
      using d by auto
  qed
qed

lemma count_list_append: "count_list (xs @ ys) a = count_list xs a + count_list ys a"
  by (induction xs) auto

lemma upsert_all_at:
  "upsert_all env rs g = Inr (as, h) \<Longrightarrow> distinct (map tx_id rs) \<Longrightarrow> \<forall>r \<in> set rs. expected_settlement_at r \<noteq> None \<Longrightarrow>
    (\<forall>r \<in> set rs. disc_at h (missing_key r) =
       Some (upserted env (the (expected_settlement_at r)) r (disc_at g (missing_key r)))) \<and>
    (\<forall>k. k \<notin> missing_key ` set rs \<longrightarrow> disc_at h k = disc_at g k) \<and>
    count_list as Raised = length (filter (\<lambda>r. disc_at g (missing_key r) = None) rs)"
proof (induction rs arbitrary: as g)
  case (Cons r rs)
  obtain as1 g1 as2 where run: "upsert_missing env r g = Inr (as1, g1)" "upsert_all env rs g1 = Inr (as2, h)"
    and as: "as = as1 @ as2"
    using Cons.prems(1) by (auto simp: split_def)
  obtain e where e: "expected_settlement_at r = Some e" using Cons.prems(3) by auto
  have IH: "(\<forall>r \<in> set rs. disc_at h (missing_key r) =
       Some (upserted env (the (expected_settlement_at r)) r (disc_at g1 (missing_key r)))) \<and>
    (\<forall>k. k \<notin> missing_key ` set rs \<longrightarrow> disc_at h k = disc_at g1 k) \<and>
    count_list as2 Raised = length (filter (\<lambda>r. disc_at g1 (missing_key r) = None) rs)"
    using Cons.IH [OF run(2)] Cons.prems(2,3) by simp
  have same: "disc_at g1 (missing_key s) = disc_at g (missing_key s)" if "s \<in> set rs" for s
  proof -
    have "tx_id s \<noteq> tx_id r" using Cons.prems(2) that by (metis distinct.simps(2) image_eqI list.set_map list.simps(9))
    then show ?thesis by (simp add: upsert_missing_at(1) [OF run(1) e])
  qed
  have "missing_key r \<notin> missing_key ` set rs" using Cons.prems(2) by auto
  moreover have "filter (\<lambda>r. disc_at g1 (missing_key r) = None) rs = filter (\<lambda>r. disc_at g (missing_key r) = None) rs"
    by (rule filter_cong) (simp_all add: same)
  ultimately show ?case
    using IH same e by (auto simp: as upsert_missing_at [OF run(1) e] count_list_append)
qed simp

text \<open>With fresh identifiers and amounts the column can hold, the statement goes through.\<close>

definition storable :: "canonical \<Rightarrow> bool" where
  "storable r \<longleftrightarrow> 0 \<le> pg_round 6 (amount_ngn r) \<and> pg_round 6 (amount_ngn r) < 10 ^ 14"

definition fresh_ids :: "persist_env \<Rightarrow> nat list \<Rightarrow> gold \<Rightarrow> bool" where
  "fresh_ids env ts g \<longleftrightarrow> distinct (map (pe_disc_id env) ts) \<and> (\<forall>t \<in> set ts. pe_disc_id env t \<notin> d_id ` set (g_discs g))"

lemma upsert_missing_total:
  assumes "tx_id r \<in> tx_ids g" "storable r" "pe_disc_id env (tx_id r) \<notin> d_id ` set (g_discs g)"
  shows "\<exists>as h. upsert_missing env r g = Inr (as, h) \<and> g_silver h = g_silver g \<and>
    d_id ` set (g_discs h) \<subseteq> insert (pe_disc_id env (tx_id r)) (d_id ` set (g_discs g))"
proof (cases "expected_settlement_at r")
  case (Some e)
  let ?d = "missing_disc env e r"
  have sel: "d_exposure ?d = amount_ngn r" "d_id ?d = pe_disc_id env (tx_id r)" "d_tx ?d = tx_id r"
    "d_pair ?d = None" "d_state ?d = OPEN"
    by (simp_all add: missing_disc_def)
  have amt: "\<not> 10 ^ 14 \<le> \<bar>pg_round 6 (amount_ngn r)\<bar>" "\<not> pg_round 6 (amount_ngn r) < 0"
    using assms(2) by (auto simp: storable_def)
  have "\<exists>g1 b. insert_disc ?d g = Inr (g1, b)"
    unfolding insert_disc_def Let_def using assms(1,3) amt by (simp add: sel) blast
  then obtain g1 b where ins: "insert_disc ?d g = Inr (g1, b)" by blast
  then show ?thesis
  proof (cases rule: insert_disc_cases)
    case old
    then show ?thesis using Some ins by (auto simp: upsert_missing_def Let_def update_discs_def)
  next
    case new
    have "\<exists>h. insert_event (raised_event (pe_now env) (d_id ?d)) g1 = Inr h"
      unfolding insert_event_def using new(2) by (simp add: raised_event_def actor_flow_def)
    then obtain h where h: "insert_event (raised_event (pe_now env) (d_id ?d)) g1 = Inr h" by blast
    then show ?thesis
      using Some ins new(1,2) insert_event_Inr [OF h] by (auto simp: upsert_missing_def Let_def sel)
  qed
qed (auto simp: upsert_missing_def)

lemma upsert_all_total:
  "\<forall>r \<in> set rs. tx_id r \<in> tx_ids g \<and> storable r \<Longrightarrow> fresh_ids env (map tx_id rs) g \<Longrightarrow>
    \<exists>as h. upsert_all env rs g = Inr (as, h)"
proof (induction rs arbitrary: g)
  case (Cons r rs)
  obtain as g1 where g1: "upsert_missing env r g = Inr (as, g1)" "g_silver g1 = g_silver g"
      "d_id ` set (g_discs g1) \<subseteq> insert (pe_disc_id env (tx_id r)) (d_id ` set (g_discs g))"
    using upsert_missing_total [of r g env] Cons.prems by (auto simp: fresh_ids_def)
  have ids: "distinct (pe_disc_id env (tx_id r) # map (pe_disc_id env) (map tx_id rs))"
    and old: "\<forall>t \<in> set (map tx_id rs). pe_disc_id env t \<notin> d_id ` set (g_discs g)"
    using Cons.prems(2) by (simp_all add: fresh_ids_def)
  have "fresh_ids env (map tx_id rs) g1"
    unfolding fresh_ids_def
  proof (intro conjI ballI)
    show "distinct (map (pe_disc_id env) (map tx_id rs))" using ids by (rule distinct.simps(2) [THEN iffD1, THEN conjunct2])
    fix t assume t: "t \<in> set (map tx_id rs)"
    then have "pe_disc_id env t \<in> set (map (pe_disc_id env) (map tx_id rs))" by (metis imageI list.set_map)
    then have "pe_disc_id env t \<noteq> pe_disc_id env (tx_id r)" using ids by (metis distinct.simps(2))
    then show "pe_disc_id env t \<notin> d_id ` set (g_discs g1)" using old t g1(3) by blast
  qed
  moreover have "\<forall>s \<in> set rs. tx_id s \<in> tx_ids g1 \<and> storable s" using Cons.prems(1) g1(2) by (simp add: tx_ids_def)
  ultimately obtain bs h where "upsert_all env rs g1 = Inr (bs, h)" using Cons.IH by blast
  then show ?case using g1(1) by simp
qed simp

lemma sql_severity_python:
  assumes "e < now"
  shows "dr_severity (classify_missing_settlement amount (Some e) now) = Some (sql_severity (overdue_hours now e))"
proof -
  have hours: "(of_int n < overdue_hours now e) = (n * us_hour < now - e)" for n :: int
  proof -
    have "(of_int n < overdue_hours now e) = ((of_int (n * us_hour) :: rat) < of_int (now - e))"
      by (simp add: overdue_hours_def field_simps)
    then show ?thesis by (simp only: of_int_less_iff)
  qed
  show ?thesis using assms hours [of 48] hours [of 24] unfolding missing_severity sql_severity_def by auto
qed

subsection \<open>An undisturbed run writes every pair\<close>

definition stored_amount :: "rat \<Rightarrow> bool" where
  "stored_amount x \<longleftrightarrow> 0 \<le> x \<and> x < 10 ^ 14 \<and> pg_round 6 x = x"

lemma stored_amount_scaled:
  assumes "stored_amount x"
  obtains n where "x = of_int n / 10 ^ 6" "0 \<le> n" "n < 10 ^ 20"
proof -
  define n where "n = \<lfloor>x * 10 ^ 6 + 1 / 2\<rfloor>"
  have x: "x = of_int n / 10 ^ 6"
    using assms unfolding stored_amount_def pg_round_def n_def by (metis not_less)
  have "0 \<le> n" using assms by (simp add: stored_amount_def n_def)
  have "(of_int n :: rat) < of_int (10 ^ 20)" using assms x by (simp add: stored_amount_def)
  then have "n < 10 ^ 20" by (simp only: of_int_less_iff)
  then show thesis using that x \<open>0 \<le> n\<close> by blast
qed

lemma stored_difference:
  assumes "stored_amount x" "stored_amount y"
  shows "stored_amount \<bar>dec (x - y)\<bar>"
proof -
  obtain m n where m: "x = of_int m / 10 ^ 6" "0 \<le> m" "m < 10 ^ 20" and n: "y = of_int n / 10 ^ 6" "0 \<le> n" "n < 10 ^ 20"
    using assms stored_amount_scaled by metis
  have diff: "x - y = of_int (m - n) / 10 ^ 6" by (simp add: m(1) n(1) field_simps)
  have "\<bar>m - n\<bar> \<le> 10 ^ 28" using m(2,3) n(2,3) by auto
  from dec_scaled [OF this, of 6] have d: "\<bar>dec (x - y)\<bar> = of_int \<bar>m - n\<bar> / 10 ^ 6"
    unfolding diff by (simp add: abs_divide)
  have "(of_int \<bar>m - n\<bar> :: rat) < of_int (10 ^ 20)" using m(2,3) n(2,3) by (simp only: of_int_less_iff)
  then have "of_int \<bar>m - n\<bar> / 10 ^ 6 < (10 ^ 14 :: rat)" by (simp add: divide_less_eq)
  then show ?thesis unfolding d stored_amount_def pg_round_scaled by simp
qed

lemma stored_zero: "stored_amount 0"
  using pg_round_int [of 6 0] by (simp add: stored_amount_def)

lemma pg_round_unit: "0 \<le> x \<Longrightarrow> x \<le> 1 \<Longrightarrow> 0 \<le> pg_round k x \<and> pg_round k x \<le> 1"
proof
  assume "0 \<le> x" "x \<le> 1"
  then have "x * 10 ^ k \<le> 10 ^ k" using mult_right_mono [of x 1 "10 ^ k"] by simp
  then have "x * 10 ^ k + 1 / 2 < 10 ^ k + 1" by linarith
  then have "x * 10 ^ k + 1 / 2 < of_int (10 ^ k + 1)" by simp
  then have "\<lfloor>x * 10 ^ k + 1 / 2\<rfloor> \<le> 10 ^ k" by linarith
  then have "(of_int \<lfloor>x * 10 ^ k + 1 / 2\<rfloor> :: rat) \<le> of_int (10 ^ k)" by (simp only: of_int_le_iff)
  then show "pg_round k x \<le> 1" using \<open>0 \<le> x\<close> by (simp add: pg_round_def divide_le_eq)
qed (simp add: pg_round_nonneg)

text \<open>What the engine guarantees of a result, as the insert needs it.\<close>

definition writable :: "match_result \<Rightarrow> candidate \<Rightarrow> candidate \<Rightarrow> bool" where
  "writable r a b \<longleftrightarrow> c_id a = source_transaction_id r \<and> matched_transaction_id r = Some (c_id b) \<and> c_id a \<noteq> c_id b \<and>
     mr_strategy r \<noteq> UNMATCHED \<and> 0 \<le> confidence_score r \<and> confidence_score r \<le> 1 \<and>
     stored_amount (c_amount a) \<and> stored_amount (c_amount b) \<and>
     (\<exists>d. amount_delta_ngn r = Some d \<and> stored_amount d)"

lemma classify_exposure:
  assumes "classify_amount_discrepancy a b ra rb = Inr res" and "stored_amount a" "stored_amount b"
  shows "stored_amount (estimated_exposure_ngn res)"
  using assms(1) stored_difference [OF assms(2,3)] stored_zero
  by (auto simp: classify_amount_discrepancy_def Let_def delta_of_def split: option.splits)

lemma raise_amount_total:
  assumes "stored_amount (c_amount a)" "stored_amount (c_amount b)" and "c_id a \<in> tx_ids g"
    and "pe_disc_id env (c_id a) \<notin> d_id ` set (g_discs g)" and "pair \<in> p_id ` set (g_pairs g)"
  shows "\<exists>n h. raise_amount_discrepancy env pair a b g = Inr (n, h)"
proof -
  obtain res where res: "classify_amount_discrepancy (c_amount a) (c_amount b) (rate_of g (c_id a)) (rate_of g (c_id b)) = Inr res"
    using classify_amount_cases by blast
  have amt: "\<not> 10 ^ 14 \<le> \<bar>pg_round 6 (estimated_exposure_ngn res)\<bar>" "\<not> pg_round 6 (estimated_exposure_ngn res) < 0"
    using classify_exposure [OF res assms(1,2)] by (auto simp: stored_amount_def)
  have "\<exists>n h. (case (discrepancy_type res, dr_severity res) of (Some ty, Some sv) \<Rightarrow>
         sbind (insert_disc (amount_disc env pair (c_id a) ty sv res) g) (\<lambda>(g1, inserted).
         if \<not> inserted then Inr (0, g1)
         else
           let g2 = update_pairs (\<lambda>p. p_id p = pair) (p_state_update (\<lambda>_. PAIR_DISCREPANCY)) g1 in
           sbind (insert_event (raised_event (pe_now env) (pe_disc_id env (c_id a))) g2) (\<lambda>g3. Inr (1, g3)))
     | _ \<Rightarrow> Inr (0, g)) = Inr (n, h)"
  proof (cases "discrepancy_type res = None \<or> dr_severity res = None")
    case False
    then obtain ty sv where t: "discrepancy_type res = Some ty" "dr_severity res = Some sv" by auto
    define d where "d = amount_disc env pair (c_id a) ty sv res"
    have sel: "d_exposure d = estimated_exposure_ngn res" "d_id d = pe_disc_id env (c_id a)" "d_tx d = c_id a"
      "d_pair d = Some pair" "d_state d = OPEN"
      by (simp_all add: d_def amount_disc_def)
    have "\<exists>g1 b. insert_disc d g = Inr (g1, b)"
      unfolding insert_disc_def Let_def using assms(3-5) amt by (simp add: sel) blast
    then obtain g1 i where ins: "insert_disc d g = Inr (g1, i)" by blast
    have "i \<Longrightarrow> d_id d \<in> d_id ` set (g_discs g1)" using ins by (auto elim: insert_disc_cases)
    then have "i \<Longrightarrow> \<exists>h. insert_event (raised_event (pe_now env) (pe_disc_id env (c_id a)))
        (update_pairs (\<lambda>p. p_id p = pair) (p_state_update (\<lambda>_. PAIR_DISCREPANCY)) g1) = Inr h"
      unfolding insert_event_def by (simp add: raised_event_def actor_flow_def update_pairs_def sel)
    then show ?thesis using t ins by (cases i) (auto simp: d_def [symmetric] Let_def)
  qed (auto split: option.splits)
  then show ?thesis by (simp add: raise_amount_discrepancy_def res)
qed

text \<open>Identifiers drawn for the sources \<open>ts\<close> that no row has yet.\<close>

definition fresh_env :: "persist_env \<Rightarrow> nat list \<Rightarrow> gold \<Rightarrow> bool" where
  "fresh_env env ts g \<longleftrightarrow> (\<forall>t \<in> set ts. \<not> pe_fault env t) \<and> fresh_ids env ts g \<and>
     distinct (map (pe_pair_id env) ts) \<and> (\<forall>t \<in> set ts. pe_pair_id env t \<notin> p_id ` set (g_pairs g))"

lemma persist_pair_total:
  assumes w: "writable r a b" and inv: "gold_inv g" and tx: "c_id a \<in> tx_ids g" "c_id b \<in> tx_ids g"
    and un: "\<not> is_matched g (c_id a)" "\<not> is_matched g (c_id b)" and fresh: "fresh_env env (c_id a # ts) g"
  shows "\<exists>n h. persist_pair env r a b g = Inr (n, h)"
proof -
  let ?p = "pair_of env r a b" and ?i = "pe_pair_id env (c_id a)"
  obtain d where d: "amount_delta_ngn r = Some d" "stored_amount d" using w by (auto simp: writable_def)
  have rounds: "pg_round 6 (c_amount a) = c_amount a" "pg_round 6 (c_amount b) = c_amount b" "pg_round 6 d = d"
    "0 \<le> c_amount a" "c_amount a < 10 ^ 14" "0 \<le> c_amount b" "c_amount b < 10 ^ 14" "0 \<le> d" "d < 10 ^ 14"
    using w d by (simp_all add: writable_def stored_amount_def)
  have conf: "0 \<le> pg_round 4 (confidence_score r)" "pg_round 4 (confidence_score r) \<le> 1"
    using w pg_round_unit [of "confidence_score r" 4] by (auto simp: writable_def)
  have sel: "p_a ?p = c_id a" "p_b ?p = c_id b" "p_id ?p = ?i" "p_strategy ?p = mr_strategy r"
    by (simp_all add: pair_of_def)
  have ok: "pair_types_ok (stored_pair ?p)" "pair_checks (stored_pair ?p)"
    using rounds conf w d(1)
    by (simp_all add: pair_types_ok_def pair_checks_def stored_pair_def pair_of_def writable_def)
  have "(c_id a, c_id b) \<noteq> (p_a q, p_b q)" if "q \<in> set (g_pairs g)" for q
  proof -
    have "(p_a q, p_id q) \<in> set (g_matched g)" using inv that unfolding gold_inv_def pairs_inv_def by blast
    then have "p_a q \<in> fst ` set (g_matched g)" by (metis fst_conv imageI)
    then show ?thesis using un(1) unfolding is_matched_def by (metis prod.inject)
  qed
  then have "(p_a ?p, p_b ?p) \<notin> (\<lambda>q. (p_a q, p_b q)) ` set (g_pairs g)" unfolding sel by blast
  then have pair: "insert_pair ?p g = Inr (g\<lparr>g_pairs := g_pairs g @ [stored_pair ?p]\<rparr>)" (is "_ = Inr ?g1")
    using ok w tx fresh unfolding insert_pair_def Let_def stored_pair_sel
    by (simp add: sel writable_def fresh_env_def)
  have m1: "insert_matched (c_id a, ?i) ?g1 = Inr (?g1\<lparr>g_matched := g_matched g @ [(c_id a, ?i)]\<rparr>)" (is "_ = Inr ?g2")
    using un(1) tx(1) by (simp add: insert_matched_def is_matched_def tx_ids_def stored_pair_sel sel)
  have ab: "c_id b \<noteq> c_id a" using w by (auto simp: writable_def)
  have m2: "insert_matched (c_id b, ?i) ?g2 = Inr (?g2\<lparr>g_matched := g_matched g @ [(c_id a, ?i), (c_id b, ?i)]\<rparr>)" (is "_ = Inr ?g3")
    using un(2) tx(2) ab by (simp add: insert_matched_def is_matched_def tx_ids_def stored_pair_sel sel)
  have "\<exists>n h. raise_amount_discrepancy env ?i a b ?g3 = Inr (n, h)"
    using w tx fresh
    by (intro raise_amount_total) (simp_all add: writable_def tx_ids_def fresh_env_def fresh_ids_def stored_pair_sel sel)
  moreover have "\<not> pe_fault env (c_id a)" using fresh by (simp add: fresh_env_def)
  ultimately show ?thesis using d(1) by (simp add: persist_pair_def pair m1 m2 Let_def)
qed

lemma persist_pair_ids:
  assumes "persist_pair env r a b g = Inr (n, h)"
  shows "p_id ` set (g_pairs h) = insert (pe_pair_id env (c_id a)) (p_id ` set (g_pairs g))"
    "d_id ` set (g_discs h) \<subseteq> insert (pe_disc_id env (c_id a)) (d_id ` set (g_discs g))"
proof -
  have upd: "p_id ` set (g_pairs (update_pairs P (p_state_update s) k)) = p_id ` set (g_pairs k)" for P s k
  proof -
    have "map p_id (g_pairs (update_pairs P (p_state_update s) k)) = map p_id (g_pairs k)" by (simp add: update_pairs_def)
    from arg_cong [OF this, of set] show ?thesis by simp
  qed
  have raise: "p_id ` set (g_pairs h') = p_id ` set (g_pairs g')"
    "d_id ` set (g_discs h') \<subseteq> insert (pe_disc_id env (c_id a)) (d_id ` set (g_discs g'))"
    if "raise_amount_discrepancy env i a b g' = Inr (m, h')" for i g' m h'
    using that
  proof (atomize (full), cases rule: raise_amount_cases)
    case (raised d g1)
    have "g_pairs g1 = g_pairs g'" "d_id ` set (g_discs g1) \<subseteq> insert (d_id d) (d_id ` set (g_discs g'))"
      using raised(5) by (auto elim!: insert_disc_cases)
    then show "p_id ` set (g_pairs h') = p_id ` set (g_pairs g') \<and>
        d_id ` set (g_discs h') \<subseteq> insert (pe_disc_id env (c_id a)) (d_id ` set (g_discs g'))"
      using insert_event_Inr [OF raised(6)] upd raised(4) by (auto simp: update_pairs_def)
  qed auto
  obtain g1 g2 g3 where g: "insert_pair (pair_of env r a b) g = Inr g1"
      "insert_matched (c_id a, pe_pair_id env (c_id a)) g1 = Inr g2"
      "insert_matched (c_id b, pe_pair_id env (c_id a)) g2 = Inr g3"
    and h: "h = g3 \<or> raise_amount_discrepancy env (pe_pair_id env (c_id a)) a b g3 = Inr (n, h)"
    using assms by (auto simp: persist_pair_def Let_def split: if_splits option.splits)
  have "p_id (pair_of env r a b) = pe_pair_id env (c_id a)" by (simp add: pair_of_def)
  then have "p_id ` set (g_pairs g3) = insert (pe_pair_id env (c_id a)) (p_id ` set (g_pairs g))" "g_discs g3 = g_discs g"
    using insert_pair_Inr [OF g(1)] insert_matched_Inr [OF g(2)] insert_matched_Inr [OF g(3)]
    by (simp_all add: stored_pair_sel)
  moreover have "p_id ` set (g_pairs h) = p_id ` set (g_pairs g3) \<and>
    d_id ` set (g_discs h) \<subseteq> insert (pe_disc_id env (c_id a)) (d_id ` set (g_discs g3))"
    using h
  proof
    assume "raise_amount_discrepancy env (pe_pair_id env (c_id a)) a b g3 = Inr (n, h)"
    from conjI [OF raise [OF this]] show ?thesis .
  qed (simp add: subset_insertI)
  ultimately show "p_id ` set (g_pairs h) = insert (pe_pair_id env (c_id a)) (p_id ` set (g_pairs g))"
    "d_id ` set (g_discs h) \<subseteq> insert (pe_disc_id env (c_id a)) (d_id ` set (g_discs g))"
    by (simp_all only:)
qed

lemma fresh_env_next:
  assumes "fresh_env env (t # ts) g" and "p_id ` set (g_pairs h) = insert (pe_pair_id env t) (p_id ` set (g_pairs g))"
    and "d_id ` set (g_discs h) \<subseteq> insert (pe_disc_id env t) (d_id ` set (g_discs g))"
  shows "fresh_env env ts h"
proof -
  have t: "pe_disc_id env t \<notin> pe_disc_id env ` set ts" "pe_pair_id env t \<notin> pe_pair_id env ` set ts"
    and old: "\<forall>t \<in> set ts. pe_disc_id env t \<notin> d_id ` set (g_discs g)" "\<forall>t \<in> set ts. pe_pair_id env t \<notin> p_id ` set (g_pairs g)"
    and d: "distinct (map (pe_disc_id env) ts)" "distinct (map (pe_pair_id env) ts)" "\<forall>t \<in> set ts. \<not> pe_fault env t"
    using assms(1) by (simp_all add: fresh_env_def fresh_ids_def)
  have "pe_disc_id env u \<notin> d_id ` set (g_discs h)" "pe_pair_id env u \<notin> p_id ` set (g_pairs h)" if u: "u \<in> set ts" for u
  proof -
    have ne: "pe_disc_id env u \<noteq> pe_disc_id env t" "pe_pair_id env u \<noteq> pe_pair_id env t" using t u by (metis imageI)+
    have "pe_disc_id env u \<notin> insert (pe_disc_id env t) (d_id ` set (g_discs g))"
      using ne(1) bspec [OF old(1) u] by (simp only: insert_iff simp_thms)
    then show "pe_disc_id env u \<notin> d_id ` set (g_discs h)" by (rule contra_subsetD [OF assms(3)])
    show "pe_pair_id env u \<notin> p_id ` set (g_pairs h)"
      using ne(2) bspec [OF old(2) u] by (simp only: assms(2) insert_iff simp_thms)
  qed
  then show ?thesis using d by (simp add: fresh_env_def fresh_ids_def)
qed

lemma opposite_ids: "opposite g a b \<Longrightarrow> a \<in> tx_ids g \<and> b \<in> tx_ids g"
  unfolding opposite_def tx_ids_def by blast

lemma persist_loop_total:
  assumes "\<forall>r \<in> set rs. \<exists>a b. f (source_transaction_id r) = Some a \<and>
      Option.bind (matched_transaction_id r) f = Some b \<and> writable r a b \<and> opposite g (c_id a) (c_id b)"
    and "gold_inv g" and "distinct (concat (map pair_ids rs))"
    and "\<forall>t \<in> set (concat (map pair_ids rs)). \<not> is_matched g t"
    and "fresh_env env (map source_transaction_id rs) g"
  shows "\<exists>k h. persist_loop env f rs g = Inr ((length rs, k), h) \<and>
    fst ` set (g_matched h) = fst ` set (g_matched g) \<union> set (concat (map pair_ids rs))"
  using assms
proof (induction rs arbitrary: g)
  case (Cons r rs)
  obtain a b where f: "f (source_transaction_id r) = Some a" "Option.bind (matched_transaction_id r) f = Some b"
      and w: "writable r a b" and opp: "opposite g (c_id a) (c_id b)"
    using Cons.prems(1) by auto
  have ids: "source_transaction_id r = c_id a" "matched_transaction_id r = Some (c_id b)" "pair_ids r = [c_id a, c_id b]"
    using w by (simp_all add: writable_def pair_ids_def)
  have tx: "c_id a \<in> tx_ids g" "c_id b \<in> tx_ids g" using opposite_ids [OF opp] by blast+
  have fresh: "fresh_env env (c_id a # map source_transaction_id rs) g" using Cons.prems(5) ids by simp
  have un: "\<not> is_matched g (c_id a)" "\<not> is_matched g (c_id b)" using Cons.prems(4) ids(3) by simp_all
  from persist_pair_total [OF w Cons.prems(2) tx un fresh]
  obtain n g1 where p: "persist_pair env r a b g = Inr (n, g1)" by blast
  have ev: "evolves g g1" using persist_pair_evolves [OF p] opp by blast
  have inv1: "gold_inv g1" "g_silver g1 = g_silver g" using ev Cons.prems(2) by (auto simp: evolves_def)
  have m: "fst ` set (g_matched g1) = fst ` set (g_matched g) \<union> {c_id a, c_id b}"
    using persist_pair_tables [OF p] by auto
  have fresh1: "fresh_env env (map source_transaction_id rs) g1"
    by (rule fresh_env_next [OF fresh persist_pair_ids [OF p]])
  have "\<forall>r \<in> set rs. \<exists>a b. f (source_transaction_id r) = Some a \<and>
      Option.bind (matched_transaction_id r) f = Some b \<and> writable r a b \<and> opposite g1 (c_id a) (c_id b)"
    using Cons.prems(1) inv1(2) by (simp add: opposite_def)
  moreover have "distinct (concat (map pair_ids rs))" using Cons.prems(3) by simp
  moreover have "\<forall>t \<in> set (concat (map pair_ids rs)). \<not> is_matched g1 t"
    using Cons.prems(3,4) ids m unfolding is_matched_def by auto
  ultimately obtain k h where "persist_loop env f rs g1 = Inr ((length rs, k), h)"
      "fst ` set (g_matched h) = fst ` set (g_matched g1) \<union> set (concat (map pair_ids rs))"
    using Cons.IH [OF _ inv1(1) _ _ fresh1] by blast
  then show ?case using f p m ids by auto
qed simp

lemma match_loop_results:
  "match_loop config all M rest = Inr ps \<Longrightarrow> r \<in> set ps \<Longrightarrow>
    \<exists>s \<in> set rest. \<exists>cs. set cs \<subseteq> set all \<and> run_matching s cs config = Inr r \<and> matched_transaction_id r \<noteq> None"
proof (induction rest arbitrary: M ps)
  case (Cons s rest)
  show ?case
  proof (cases "c_id s \<in> M")
    case True
    then show ?thesis using Cons by auto
  next
    case False
    then obtain q where q: "run_matching s (filter (\<lambda>c. c_id c \<notin> M) all) config = Inr q"
      using Cons.prems(1) by auto
    show ?thesis
    proof (cases "matched_transaction_id q")
      case None
      then show ?thesis using Cons False q by auto
    next
      case (Some m)
      then obtain ps' where ps: "ps = q # ps'" "match_loop config all (M \<union> {c_id s, m}) rest = Inr ps'"
        using Cons.prems(1) False q by auto
      show ?thesis
      proof (cases "r = q")
        case True
        have "set (filter (\<lambda>c. c_id c \<notin> M) all) \<subseteq> set all" by auto
        then show ?thesis using True q Some by auto
      next
        case False
        then show ?thesis using Cons.IH [OF ps(2)] Cons.prems(2) ps(1) by auto
      qed
    qed
  qed
qed simp

lemma match_all_writable:
  assumes ok: "config_ok config" "weights_ok config" and ps: "match_all cs config = Inr ps" and r: "r \<in> set ps"
    and amounts: "\<forall>c \<in> set cs. stored_amount (c_amount c)" and ids: "distinct (map c_id cs)"
  shows "\<exists>a b. by_id cs (source_transaction_id r) = Some a \<and>
    Option.bind (matched_transaction_id r) (by_id cs) = Some b \<and> writable r a b"
proof -
  obtain s cs' m where s: "s \<in> set cs" "set cs' \<subseteq> set cs" "run_matching s cs' config = Inr r" "matched_transaction_id r = Some m"
    using match_loop_results [OF ps [unfolded match_all_def] r] by auto
  obtain c where c: "c_id c = m" "exact_match s cs' config c \<or> likely_match s cs' config c"
      "mr_strategy r \<noteq> UNMATCHED" "amount_delta_ngn r = Some 0 \<or> amount_delta_ngn r = Some \<bar>dec (c_amount s - c_amount c)\<bar>"
    using run_matching_match [OF ok(1) s(3,4)] by auto
  have el: "c \<in> set cs" "eligible s c" using match_eligible [OF c(2)] s(2) by auto
  have unique: "by_id cs (c_id x) = Some x" if "x \<in> set cs" for x
    unfolding by_id_def using find_key_distinct [of c_id "rev cs" x] ids that by (simp add: rev_map [symmetric])
  have "stored_amount (c_amount s)" "stored_amount (c_amount c)" using amounts s(1) el(1) by auto
  then have "writable r s c"
    using c s(4) el(2) run_matching_source [OF ok(1) s(3)] confidence_unit [OF ok s(3)] stored_zero stored_difference
    by (auto simp: writable_def eligible_def)
  then show ?thesis
    using unique [OF s(1)] unique [OF el(1)] run_matching_source [OF ok(1) s(3)] s(4) c(1) by auto
qed

lemma distinct_key_sort: "distinct (map f xs) \<Longrightarrow> distinct (map f (sort_key k xs))"
  by (simp add: distinct_map)

lemma fetched_distinct:
  assumes "distinct (map tx_id (g_silver g))"
  shows "distinct (map c_id (fetch_match_candidates lookback now g))"
proof -
  have "c_id \<circ> to_candidate = tx_id" by (auto simp: to_candidate_def)
  then show ?thesis
    unfolding fetch_match_candidates_def map_map
    by (simp only:) (intro distinct_key_sort distinct_map_filter assms)
qed

lemma fresh_env_subset:
  assumes "fresh_env env ts g" and "set us \<subseteq> set ts" and "distinct us"
  shows "fresh_env env us g"
proof -
  have "inj_on (pe_disc_id env) (set us)" "inj_on (pe_pair_id env) (set us)"
    using assms(1,2) by (auto simp: fresh_env_def fresh_ids_def distinct_map intro: inj_on_subset)
  then show ?thesis using assms unfolding fresh_env_def fresh_ids_def distinct_map by blast
qed

lemma distinct_sources: "distinct (concat (map pair_ids ps)) \<Longrightarrow> distinct (map source_transaction_id ps)"
  by (induction ps) (auto simp: pair_ids_def)

subsection \<open>Properties of the statements\<close>

lemma upserted_mirrors:
  assumes "overdue now g r" and "now = pe_now env" and "d = upserted env (the (expected_settlement_at r)) r (disc_at g (missing_key r))"
  shows "(disc_at g (missing_key r) = None \<longrightarrow> d_state d = OPEN \<and> d_exposure d = pg_round 6 (amount_ngn r)) \<and>
    (d_state d = OPEN \<longrightarrow> Some (d_severity d) = dr_severity (classify_missing_settlement (amount_ngn r) (expected_settlement_at r) now)) \<and>
    (d_state d \<noteq> OPEN \<longrightarrow> disc_at g (missing_key r) = Some d)"
proof -
  have "Some (sql_severity (overdue_hours now (the (expected_settlement_at r)))) =
      dr_severity (classify_missing_settlement (amount_ngn r) (expected_settlement_at r) now)"
    using assms(1) sql_severity_python by (auto simp: overdue_def split: option.splits)
  then show ?thesis using assms(2,3) by (auto simp: upserted_def missing_disc_def Let_def split: option.splits if_splits)
qed

text \<open>
  C15 The SQL statement and the Python classifier agree: every overdue, unmatched, pending transaction
  ends up with a missing-settlement discrepancy for its whole amount; if it is open its severity
  is the one the Python classifier computes at that time; discrepancies already closed,
  and all others, are untouched; and the returned count is the number newly raised.
\<close>

theorem missing_settlements_mirror:
  assumes "gold_inv g" and "pe_commits env" and "\<forall>r \<in> set (g_silver g). storable r"
    and "fresh_ids env (map tx_id (g_silver g)) g"
  shows "\<exists>n h. raise_missing_settlements env g = Inr (n, h) \<and>
    n = length (filter (\<lambda>r. overdue (pe_now env) g r \<and> disc_at g (tx_id r, MISSING_SETTLEMENT) = None) (g_silver g)) \<and>
    (\<forall>r \<in> set (g_silver g). overdue (pe_now env) g r \<longrightarrow>
      (\<exists>d. disc_at h (tx_id r, MISSING_SETTLEMENT) = Some d \<and>
        (disc_at g (tx_id r, MISSING_SETTLEMENT) = None \<longrightarrow> d_state d = OPEN \<and> d_exposure d = pg_round 6 (amount_ngn r)) \<and>
        (d_state d = OPEN \<longrightarrow> Some (d_severity d) =
          dr_severity (classify_missing_settlement (amount_ngn r) (expected_settlement_at r) (pe_now env))) \<and>
        (d_state d \<noteq> OPEN \<longrightarrow> disc_at g (tx_id r, MISSING_SETTLEMENT) = Some d))) \<and>
    (\<forall>k. (\<nexists>r. r \<in> set (g_silver g) \<and> overdue (pe_now env) g r \<and> k = (tx_id r, MISSING_SETTLEMENT)) \<longrightarrow>
      disc_at h k = disc_at g k)"
proof -
  let ?rs = "filter (overdue (pe_now env) g) (g_silver g)"
  have dist: "distinct (map tx_id (g_silver g))" using assms(1) by (simp add: gold_inv_def)
  have "fresh_ids env (map tx_id ?rs) g"
    using assms(4) by (auto simp: fresh_ids_def distinct_map_filter comp_def)
  moreover have "\<forall>r \<in> set ?rs. tx_id r \<in> tx_ids g \<and> storable r" using assms(3) by (simp add: tx_ids_def)
  ultimately obtain as h where run: "upsert_all env ?rs g = Inr (as, h)" using upsert_all_total by blast
  have "\<forall>r \<in> set ?rs. expected_settlement_at r \<noteq> None" by (auto simp: overdue_def split: option.splits)
  note at = upsert_all_at [OF run distinct_map_filter [OF dist] this]
  have rows: "disc_at h (missing_key r) = Some (upserted env (the (expected_settlement_at r)) r (disc_at g (missing_key r)))"
      if "r \<in> set ?rs" for r
    using at that by blast
  have others: "disc_at h k = disc_at g k" if "k \<notin> missing_key ` set ?rs" for k
    using at that by blast
  have count: "count_list as Raised = length (filter (\<lambda>r. disc_at g (missing_key r) = None) ?rs)"
    using at by blast
  note row = upserted_mirrors [OF _ refl]
  have all: "\<exists>d. disc_at h (missing_key r) = Some d \<and>
        (disc_at g (missing_key r) = None \<longrightarrow> d_state d = OPEN \<and> d_exposure d = pg_round 6 (amount_ngn r)) \<and>
        (d_state d = OPEN \<longrightarrow> Some (d_severity d) =
          dr_severity (classify_missing_settlement (amount_ngn r) (expected_settlement_at r) (pe_now env))) \<and>
        (d_state d \<noteq> OPEN \<longrightarrow> disc_at g (missing_key r) = Some d)"
    if "r \<in> set (g_silver g)" "overdue (pe_now env) g r" for r
  proof -
    have "r \<in> set ?rs" using that by simp
    from conjI [OF rows [OF this] row [OF that(2) refl]] show ?thesis by (rule exI)
  qed
  have rest: "disc_at h k = disc_at g k"
    if none: "\<nexists>r. r \<in> set (g_silver g) \<and> overdue (pe_now env) g r \<and> k = missing_key r" for k
  proof (rule others, rule notI)
    assume "k \<in> missing_key ` set ?rs"
    then obtain r where r: "k = missing_key r" "r \<in> set ?rs" by (rule imageE)
    from r(2) have "r \<in> set (g_silver g) \<and> overdue (pe_now env) g r" by simp
    then show False using none r(1) by blast
  qed
  show ?thesis
  proof (intro exI conjI)
    show "raise_missing_settlements env g = Inr (count_list as Raised, h)"
      using run assms(2) by (simp add: raise_missing_settlements_def)
    show "count_list as Raised = length (filter (\<lambda>r. overdue (pe_now env) g r \<and> disc_at g (missing_key r) = None) (g_silver g))"
      unfolding count filter_filter by (rule arg_cong [where f = length]) (simp add: conj_commute)
  qed ((intro ballI impI, rule all; assumption) | (intro allI impI, rule rest, assumption))+
qed

text \<open>
  C14 An undisturbed matching run writes everything it found: with amounts as Silver stores them and
  fresh identifiers, matching never raises, every returned pair is written in its savepoint and
  counted, afterwards exactly the transactions of the pairs are newly matched, and the tables
  keep their invariants.
\<close>

theorem matching_run_writes_all:
  assumes "config_ok config" and "weights_ok config" and "gold_inv g"
    and "\<forall>r \<in> set (g_silver g). stored_amount (amount_ngn r)"
    and "pe_commits env" and "fresh_env env (map tx_id (g_silver g)) g"
  shows "\<exists>ps k h. match_all (fetch_match_candidates lookback now g) config = Inr ps \<and>
    persist_pairs env ps (fetch_match_candidates lookback now g) g = Inr ((length ps, k), h) \<and> gold_inv h \<and>
    (\<forall>t. is_matched h t \<longleftrightarrow> is_matched g t \<or> (\<exists>r \<in> set ps. t \<in> set (pair_ids r)))"
proof -
  let ?cs = "fetch_match_candidates lookback now g"
  obtain ps where ps: "match_loop config ?cs {} ?cs = Inr ps" using match_loop_total [OF assms(1)] by blast
  have all: "match_all ?cs config = Inr ps" using ps by (simp add: match_all_def)
  have sound: "distinct (concat (map pair_ids ps))" "\<forall>r \<in> set ps. sound_pair ?cs config r"
    using match_loop_sound [OF assms(1) ps] by auto
  have dist: "distinct (map c_id ?cs)" using assms(3) by (intro fetched_distinct) (simp add: gold_inv_def)
  have amounts: "\<forall>c \<in> set ?cs. stored_amount (c_amount c)"
    using assms(4) unfolding Ball_def fetched by (auto simp: to_candidate_def)
  have cand: "c_id c \<in> set (map tx_id (g_silver g)) \<and> \<not> is_matched g (c_id c)" if c: "c \<in> set ?cs" for c
  proof -
    obtain r where "r \<in> set (g_silver g)" "c = to_candidate r" "\<not> is_matched g (tx_id r)"
      using c unfolding fetched by blast
    then show ?thesis by (simp add: to_candidate_def)
  qed
  have pids: "t \<in> set (map tx_id (g_silver g)) \<and> \<not> is_matched g t" if r: "r \<in> set ps" "t \<in> set (pair_ids r)" for r t
  proof -
    obtain a b where "a \<in> set ?cs" "b \<in> set ?cs" "source_transaction_id r = c_id a" "matched_transaction_id r = Some (c_id b)"
      using sound(2) r(1) unfolding sound_pair_def by blast
    then show ?thesis using r(2) cand [of a] cand [of b] unfolding pair_ids_def by auto
  qed
  have "source_transaction_id r \<in> set (map tx_id (g_silver g))" if "r \<in> set ps" for r
    using pids [OF that, of "source_transaction_id r"] by (simp add: pair_ids_def)
  then have fresh: "fresh_env env (map source_transaction_id ps) g"
    by (intro fresh_env_subset [OF assms(6) _ distinct_sources [OF sound(1)]]) auto
  have from_g: "pairs_from g (by_id ?cs) ps" by (rule match_all_pairs_from [OF assms(1) refl all])
  have "\<forall>r \<in> set ps. \<exists>a b. by_id ?cs (source_transaction_id r) = Some a \<and>
      Option.bind (matched_transaction_id r) (by_id ?cs) = Some b \<and> writable r a b \<and> opposite g (c_id a) (c_id b)"
    using match_all_writable [OF assms(1,2) all _ amounts dist] from_g unfolding pairs_from_def by blast
  moreover have "\<forall>t \<in> set (concat (map pair_ids ps)). \<not> is_matched g t" using pids by auto
  ultimately obtain k h where h: "persist_loop env (by_id ?cs) ps g = Inr ((length ps, k), h)"
      "fst ` set (g_matched h) = fst ` set (g_matched g) \<union> set (concat (map pair_ids ps))"
    using persist_loop_total [OF _ assms(3) sound(1) _ fresh] by blast
  have "gold_inv h" using persist_loop_evolves [OF h(1)] from_g assms(3) by (simp add: evolves_def)
  moreover have "is_matched h t \<longleftrightarrow> is_matched g t \<or> (\<exists>r \<in> set ps. t \<in> set (pair_ids r))" for t
    unfolding is_matched_def h(2) by auto
  moreover have "persist_pairs env ps ?cs g = Inr ((length ps, k), h)" using h(1) assms(5) by (simp add: persist_pairs_def)
  ultimately show ?thesis using all by blast
qed

definition example_env :: persist_env where
  "example_env = \<lparr>pe_now = 25 * us_hour, pe_run = 1, pe_pair_id = (\<lambda>t. t), pe_disc_id = (\<lambda>t. t),
     pe_fault = (\<lambda>t. False), pe_commits = True\<rparr>"

lemma example_amounts: "\<forall>r \<in> set (g_silver example_gold). stored_amount (amount_ngn r)"
  using pg_round_int [of 6 50000] by (simp add: example_gold_def example_tx_def stored_amount_def)

lemma example_fresh: "fresh_env example_env (map tx_id (g_silver example_gold)) example_gold"
  by (simp add: fresh_env_def fresh_ids_def example_env_def example_gold_def example_tx_def)

theorem matching_run_writes_all_witness:
  "\<exists>ps k h. match_all (fetch_match_candidates us_day us_hour example_gold) DEFAULT_CONFIG = Inr ps \<and>
    persist_pairs example_env ps (fetch_match_candidates us_day us_hour example_gold) example_gold = Inr ((length ps, k), h) \<and>
    gold_inv h"
  using matching_run_writes_all [OF default_config_ok default_weights_ok example_gold_inv example_amounts _ example_fresh,
      of us_day us_hour]
  by (simp add: example_env_def) blast

theorem missing_settlements_mirror_witness:
  "\<exists>n h. raise_missing_settlements example_env example_gold = Inr (n, h) \<and>
    (\<exists>d. disc_at h (1, MISSING_SETTLEMENT) = Some d \<and> d_exposure d = 50000 \<and> d_severity d = HIGH)"
proof -
  have s: "\<forall>r \<in> set (g_silver example_gold). storable r"
    using example_amounts by (simp add: storable_def stored_amount_def)
  have f: "fresh_ids example_env (map tx_id (g_silver example_gold)) example_gold"
    using example_fresh by (simp add: fresh_env_def)
  have c: "pe_commits example_env" by (simp add: example_env_def)
  let ?r = "example_tx 1 ''paystack'' ''credit'' 50000 (Some 0)"
  have r: "?r \<in> set (g_silver example_gold)" by (simp add: example_gold_def)
  have o: "overdue (pe_now example_env) example_gold ?r"
    by (simp add: overdue_def directed_def is_matched_def example_gold_def example_env_def example_tx_def)
  have n: "disc_at example_gold (tx_id ?r, MISSING_SETTLEMENT) = None" by (simp add: disc_at_def example_gold_def)
  have sev: "dr_severity (classify_missing_settlement (amount_ngn ?r) (expected_settlement_at ?r) (pe_now example_env)) = Some HIGH"
    using missing_severity [of "amount_ngn ?r" 0 "25 * us_hour"] by (simp add: example_tx_def example_env_def)
  have amt: "pg_round 6 (amount_ngn ?r) = 50000" "tx_id ?r = 1"
    using pg_round_int [of 6 50000] by (simp_all add: example_tx_def)
  obtain m h where h: "raise_missing_settlements example_env example_gold = Inr (m, h)"
    and d: "\<exists>d. disc_at h (tx_id ?r, MISSING_SETTLEMENT) = Some d \<and>
        (disc_at example_gold (tx_id ?r, MISSING_SETTLEMENT) = None \<longrightarrow> d_state d = OPEN \<and> d_exposure d = pg_round 6 (amount_ngn ?r)) \<and>
        (d_state d = OPEN \<longrightarrow> Some (d_severity d) =
          dr_severity (classify_missing_settlement (amount_ngn ?r) (expected_settlement_at ?r) (pe_now example_env)))"
    using missing_settlements_mirror [OF example_gold_inv c s f] r o by blast
  from d have "\<exists>d. disc_at h (1, MISSING_SETTLEMENT) = Some d \<and> d_exposure d = 50000 \<and> d_severity d = HIGH"
    using n sev amt by auto
  then show ?thesis using h by blast
qed

end
