(* ===== verification/Resolution.thy ===== *)
theory Resolution
  imports Gold
begin

text \<open>
  \<open>resolve_discrepancy\<close> and \<open>bulk_resolve_discrepancies\<close> of \<open>src/api/v1/routes/reconciliation.py\<close>:
  the only writes of the API. A request either fails with the documented status and changes
  nothing, or closes the discrepancy and logs the change in the same transaction. Identifiers
  are kept in the order of the numbers that stand for them.
\<close>

datatype outcome = Resolve | FalsePositive

fun outcome_status :: "outcome \<Rightarrow> disc_status" where
  "outcome_status Resolve = CLOSED_RESOLVED"
| "outcome_status FalsePositive = CLOSED_FALSE_POSITIVE"

fun outcome_action :: "outcome \<Rightarrow> action_kind" where
  "outcome_action Resolve = MarkedResolved"
| "outcome_action FalsePositive = MarkedFalsePositive"

text \<open>\<open>Field(min_length=10, max_length=2000)\<close>; the framework answers 422 otherwise.\<close>

definition note_ok :: "string \<Rightarrow> bool" where
  "note_ok note \<longleftrightarrow> 10 \<le> length note \<and> length note \<le> 2000"

definition invalid_request :: exc where
  "invalid_request = HTTPException 422 ''Unprocessable Entity''"

definition actor_of :: "string option \<Rightarrow> string" where
  "actor_of name = (case name of None \<Rightarrow> ''unknown'' | Some s \<Rightarrow> if s = '''' then ''unknown'' else s)"

fun status_text :: "disc_status \<Rightarrow> string" where
  "status_text OPEN = ''open''"
| "status_text UNDER_REVIEW = ''under_review''"
| "status_text CLOSED_RESOLVED = ''resolved''"
| "status_text CLOSED_FALSE_POSITIVE = ''false_positive''"
| "status_text ESCALATED = ''escalated''"

definition close_row :: "time \<Rightarrow> string \<Rightarrow> string \<Rightarrow> outcome \<Rightarrow> disc_row \<Rightarrow> disc_row" where
  "close_row now actor note oc d = d\<lparr>d_state := outcome_status oc, d_resolved_at := Some now,
     d_resolved_by := Some actor, d_note := Some note\<rparr>"

definition close_event :: "time \<Rightarrow> string \<Rightarrow> string \<Rightarrow> outcome \<Rightarrow> disc_row \<Rightarrow> event_row" where
  "close_event now actor note oc d = \<lparr>ev_disc = d_id d, ev_action = outcome_action oc, ev_from = Some (d_state d),
     ev_to = outcome_status oc, ev_actor = actor, ev_note = Some note, ev_at = now\<rparr>"

definition find_disc :: "gold \<Rightarrow> nat \<Rightarrow> disc_row option" where
  "find_disc g i = List.find (\<lambda>d. d_id d = i) (g_discs g)"

text \<open>The columns \<open>resolved_by\<close> and \<open>actor\<close> hold 200 characters.\<close>

definition resolve_discrepancy ::
  "bool \<Rightarrow> time \<Rightarrow> string option \<Rightarrow> nat \<Rightarrow> string \<Rightarrow> outcome \<Rightarrow> gold \<Rightarrow> exc + (nat \<times> disc_status \<times> string) \<times> gold" where
  "resolve_discrepancy commits now name i note oc g = (if \<not> note_ok note then Inl invalid_request else
     let actor = actor_of name in
     case find_disc g i of
       None \<Rightarrow> Inl (HTTPException 404 ''Discrepancy not found'')
     | Some d \<Rightarrow>
         if closed (d_state d) then Inl (HTTPException 409 (''Already '' @ status_text (d_state d)))
         else if 200 < length actor then Inl DatabaseError
         else
           let g1 = update_discs (\<lambda>c. d_id c = i) (close_row now actor note oc) g in
           sbind (insert_event (close_event now actor note oc d) g1) (\<lambda>g2.
           if commits then Inr ((i, outcome_status oc, actor), g2) else Inl DatabaseError))"

datatype skip_reason = NotFound | AlreadyClosed

text \<open>
  The batch: identifiers sorted without repetition; the events of all closable rows are selected
  from the table before the rows are updated.
\<close>

definition closable :: "gold \<Rightarrow> nat \<Rightarrow> bool" where
  "closable g i \<longleftrightarrow> (case find_disc g i of None \<Rightarrow> False | Some d \<Rightarrow> \<not> closed (d_state d))"

definition bulk_resolve_discrepancies ::
  "bool \<Rightarrow> time \<Rightarrow> string option \<Rightarrow> nat list \<Rightarrow> string \<Rightarrow> outcome \<Rightarrow> gold \<Rightarrow>
     exc + (nat list \<times> (nat \<times> skip_reason) list) \<times> gold" where
  "bulk_resolve_discrepancies commits now name req note oc g = (
     if \<not> note_ok note \<or> length req < 1 \<or> 100 < length req then Inl invalid_request else
     let actor = actor_of name;
         ids = sort (remdups req);
         closing = filter (closable g) ids;
         chosen = (\<lambda>d. d_id d \<in> set closing);
         g1 = g\<lparr>g_events := g_events g @ map (close_event now actor note oc) (filter chosen (g_discs g))\<rparr>;
         g2 = update_discs chosen (close_row now actor note oc) g1;
         skipped = map (\<lambda>i. (i, if find_disc g i = None then NotFound else AlreadyClosed))
           (filter (\<lambda>i. i \<notin> set closing) ids)
     in if closing \<noteq> [] \<and> 200 < length actor \<or> \<not> commits then Inl DatabaseError
        else Inr ((closing, skipped), if closing = [] then g else g2))"

subsection \<open>Closing keeps the tables sound\<close>

lemma close_row_sel [simp]:
  "d_id (close_row now actor note oc d) = d_id d" "d_tx (close_row now actor note oc d) = d_tx d"
  "d_class (close_row now actor note oc d) = d_class d" "d_alerted (close_row now actor note oc d) = d_alerted d"
  "d_state (close_row now actor note oc d) = outcome_status oc" "d_exposure (close_row now actor note oc d) = d_exposure d"
  "d_severity (close_row now actor note oc d) = d_severity d"
  by (simp_all add: close_row_def)

lemma closed_outcome [simp]: "closed (outcome_status oc)"
  by (cases oc) simp_all

lemma legal_close: "\<not> closed s \<Longrightarrow> legal (outcome_action oc) (Some s) (outcome_status oc)"
  by (cases oc) simp_all

lemma evolves_closed:
  assumes sel: "g_discs h = map (\<lambda>d. if P d then close_row now actor memo oc d else d) (g_discs g)"
    "g_events h = g_events g @ map (close_event now actor memo oc) (filter P (g_discs g))" "g_silver h = g_silver g"
    "g_pairs h = g_pairs g" "g_matched h = g_matched g" "g_runs h = g_runs g" "g_alerts h = g_alerts g"
    and P: "\<And>d. d \<in> set (g_discs g) \<Longrightarrow> P d \<Longrightarrow> \<not> closed (d_state d)"
  shows "evolves g h"
proof -
  have "discs_inv h" if "gold_inv g"
    using that P legal_close
    by (intro discs_inv_moved [OF _ sel(1-3)])
      (auto simp: gold_inv_def discs_inv_def disc_ok_def close_event_def close_row_def)
  moreover have "alerts_inv h = alerts_inv g"
    by (rule alerts_inv_map [OF sel(1,7)]) simp_all
  moreover have "life_step\<^sup>*\<^sup>* (life g) (life h)" if "gold_inv g"
  proof -
    have "life h = map_of (map (\<lambda>d. (disc_key d, d_state (if P d then close_row now actor memo oc d else d))) (g_discs g))"
      unfolding life_def sel(1) map_map by (rule arg_cong [where f = map_of]) simp
    then show ?thesis
      using that P life_closed [of "close_row now actor memo oc" "g_discs g" P]
      by (simp add: life_def gold_inv_def discs_inv_def)
  qed
  ultimately show ?thesis
    using pairs_inv_cong [of h g] by (intro evolvesI) (auto simp: sel gold_inv_def)
qed

lemma find_disc_row:
  "distinct (map d_id (g_discs g)) \<Longrightarrow> d \<in> set (g_discs g) \<Longrightarrow> find_disc g (d_id d) = Some d"
  unfolding find_disc_def by (rule find_key_distinct)

lemma find_disc_Some: "find_disc g i = Some d \<Longrightarrow> d \<in> set (g_discs g) \<and> d_id d = i"
  unfolding find_disc_def by (rule find_key_Some)

lemma filter_one:
  "distinct (map f xs) \<Longrightarrow> x \<in> set xs \<Longrightarrow> filter (\<lambda>y. f y = f x) xs = [x]"
  using filter_key_unique [of f xs x "\<lambda>y. True"] by simp

lemma resolve_Inr:
  assumes "resolve_discrepancy commits now name i note oc g = Inr (out, h)"
  obtains d where "find_disc g i = Some d" "\<not> closed (d_state d)" "note_ok note" "commits"
    "h = (update_discs (\<lambda>c. d_id c = i) (close_row now (actor_of name) note oc) g)
      \<lparr>g_events := g_events g @ [close_event now (actor_of name) note oc d]\<rparr>"
    "out = (i, outcome_status oc, actor_of name)"
  using assms
  by (auto simp: resolve_discrepancy_def Let_def update_discs_def split: if_splits option.splits dest!: insert_event_Inr)

lemma resolve_evolves [inv_intros]:
  assumes "resolve_discrepancy commits now name i note oc g = Inr (out, h)"
  shows "evolves g h"
proof (cases "gold_inv g")
  case True
  obtain d where d: "find_disc g i = Some d" "\<not> closed (d_state d)"
    and h: "h = (update_discs (\<lambda>c. d_id c = i) (close_row now (actor_of name) note oc) g)
      \<lparr>g_events := g_events g @ [close_event now (actor_of name) note oc d]\<rparr>"
    using assms by (rule resolve_Inr)
  have dist: "distinct (map d_id (g_discs g))" using True by (simp add: gold_inv_def discs_inv_def)
  have row: "d \<in> set (g_discs g)" "d_id d = i" using find_disc_Some [OF d(1)] by auto
  have one: "filter (\<lambda>c. d_id c = i) (g_discs g) = [d]" using filter_one [OF dist row(1)] row(2) by simp
  have "c = d" if "c \<in> set (g_discs g)" "d_id c = i" for c
    using distinct_map_filter_eq [OF dist that(1) row(1)] that(2) row(2) by simp
  then show ?thesis
    using d(2) by (intro evolves_closed [where P = "\<lambda>c. d_id c = i" and now = now and actor = "actor_of name" and memo = "note" and oc = oc])
      (auto simp: h one update_discs_def)
qed (simp add: evolves_def)

lemma bulk_Inr:
  assumes "bulk_resolve_discrepancies commits now name req note oc g = Inr ((closing, skipped), h)"
  shows "commits" "note_ok note" "closing = filter (closable g) (sort (remdups req))"
    "skipped = map (\<lambda>i. (i, if find_disc g i = None then NotFound else AlreadyClosed))
      (filter (\<lambda>i. \<not> closable g i) (sort (remdups req)))"
    "closing = [] \<and> h = g \<or> closing \<noteq> [] \<and>
     h = (update_discs (\<lambda>d. d_id d \<in> set closing) (close_row now (actor_of name) note oc) g)
      \<lparr>g_events := g_events g @ map (close_event now (actor_of name) note oc) (filter (\<lambda>d. d_id d \<in> set closing) (g_discs g))\<rparr>"
proof -
  let ?ids = "sort (remdups req)"
  have skip: "filter (\<lambda>i. i \<notin> set (filter (closable g) ?ids)) ?ids = filter (\<lambda>i. \<not> closable g i) ?ids"
    by (rule filter_cong) auto
  note run = assms [unfolded bulk_resolve_discrepancies_def Let_def skip]
  show "commits" "note_ok note" "closing = filter (closable g) ?ids"
    "skipped = map (\<lambda>i. (i, if find_disc g i = None then NotFound else AlreadyClosed)) (filter (\<lambda>i. \<not> closable g i) ?ids)"
    "closing = [] \<and> h = g \<or> closing \<noteq> [] \<and>
     h = (update_discs (\<lambda>d. d_id d \<in> set closing) (close_row now (actor_of name) note oc) g)
      \<lparr>g_events := g_events g @ map (close_event now (actor_of name) note oc) (filter (\<lambda>d. d_id d \<in> set closing) (g_discs g))\<rparr>"
    using run by (auto simp: update_discs_def split: if_splits)
qed

lemma bulk_evolves [inv_intros]:
  assumes "bulk_resolve_discrepancies commits now name req note oc g = Inr ((closing, skipped), h)"
  shows "evolves g h"
proof (cases "gold_inv g \<and> closing \<noteq> []")
  case True
  note b = bulk_Inr [OF assms]
  have h: "h = (update_discs (\<lambda>d. d_id d \<in> set closing) (close_row now (actor_of name) note oc) g)
      \<lparr>g_events := g_events g @ map (close_event now (actor_of name) note oc) (filter (\<lambda>d. d_id d \<in> set closing) (g_discs g))\<rparr>"
    using b(5) True by blast
  have dist: "distinct (map d_id (g_discs g))" using True by (simp add: gold_inv_def discs_inv_def)
  have "\<not> closed (d_state d)" if "d \<in> set (g_discs g)" "d_id d \<in> set closing" for d
    using that(2) find_disc_row [OF dist that(1)] unfolding b(3) by (simp add: closable_def)
  then show ?thesis
    by (intro evolves_closed [where P = "\<lambda>d. d_id d \<in> set closing" and now = now and actor = "actor_of name" and memo = "note" and oc = oc])
      (simp_all add: h update_discs_def)
next
  case False
  then show ?thesis using bulk_Inr(5) [OF assms] by (auto simp: evolves_def)
qed

subsection \<open>What a request changes\<close>

lemma find_update:
  assumes "\<And>d. d_id (f d) = d_id d" and "g_discs h = map (\<lambda>d. if P d then f d else d) (g_discs g)"
  shows "find_disc h i = map_option (\<lambda>d. if P d then f d else d) (find_disc g i)"
  unfolding find_disc_def assms(2) by (rule find_map_key) (rule assms(1))

lemma resolve_effect:
  assumes inv: "gold_inv g" and d: "find_disc g i = Some d" "\<not> closed (d_state d)"
    and ok: "note_ok note" "length (actor_of name) \<le> 200"
  shows "\<exists>h. resolve_discrepancy True now name i note oc g = Inr ((i, outcome_status oc, actor_of name), h) \<and>
    g_discs h = map (\<lambda>c. if d_id c = i then close_row now (actor_of name) note oc c else c) (g_discs g) \<and>
    g_events h = g_events g @ [close_event now (actor_of name) note oc d] \<and> gold_inv h"
proof -
  let ?g1 = "update_discs (\<lambda>c. d_id c = i) (close_row now (actor_of name) note oc) g"
  have "map d_id (g_discs ?g1) = map d_id (g_discs g)" by (simp add: update_discs_def)
  from arg_cong [OF this, of set] have "d_id ` set (g_discs ?g1) = d_id ` set (g_discs g)" by simp
  then have "insert_event (close_event now (actor_of name) note oc d) ?g1 =
      Inr (?g1\<lparr>g_events := g_events ?g1 @ [close_event now (actor_of name) note oc d]\<rparr>)"
    using find_disc_Some [OF d(1)] ok(2) by (auto simp: insert_event_def close_event_def)
  then have run: "resolve_discrepancy True now name i note oc g = Inr ((i, outcome_status oc, actor_of name),
      ?g1\<lparr>g_events := g_events ?g1 @ [close_event now (actor_of name) note oc d]\<rparr>)"
    using d ok by (simp add: resolve_discrepancy_def Let_def)
  from resolve_evolves [OF this] inv run show ?thesis by (auto simp: evolves_def update_discs_def)
qed

text \<open>One request per identifier.\<close>

fun resolve_each :: "time \<Rightarrow> string option \<Rightarrow> nat list \<Rightarrow> string \<Rightarrow> outcome \<Rightarrow> gold \<Rightarrow> exc + gold" where
  "resolve_each now name [] note oc g = Inr g"
| "resolve_each now name (i # is) note oc g =
     sbind (resolve_discrepancy True now name i note oc g) (\<lambda>(_, g1). resolve_each now name is note oc g1)"

lemma resolve_each_effect:
  assumes "gold_inv g" and "note_ok note" "length (actor_of name) \<le> 200"
    and "distinct is" and "\<forall>i \<in> set is. closable g i"
  shows "\<exists>h. resolve_each now name is note oc g = Inr h \<and>
    g_discs h = map (\<lambda>c. if d_id c \<in> set is then close_row now (actor_of name) note oc c else c) (g_discs g) \<and>
    (\<forall>i. events_of h i = events_of g i @ (if i \<in> set is then [close_event now (actor_of name) note oc (the (find_disc g i))] else []))"
  using assms
proof (induction "is" arbitrary: g)
  case (Cons i "is")
  obtain d where d: "find_disc g i = Some d" "\<not> closed (d_state d)"
    using Cons.prems(5) by (auto simp: closable_def split: option.splits)
  obtain g1 out where g1: "resolve_discrepancy True now name i note oc g = Inr (out, g1)"
      "g_discs g1 = map (\<lambda>c. if d_id c = i then close_row now (actor_of name) note oc c else c) (g_discs g)"
      "g_events g1 = g_events g @ [close_event now (actor_of name) note oc d]" "gold_inv g1"
    using resolve_effect [OF Cons.prems(1) d Cons.prems(2,3), of now oc] by blast
  have find1: "find_disc g1 j = map_option (\<lambda>c. if d_id c = i then close_row now (actor_of name) note oc c else c) (find_disc g j)" for j
    by (rule find_update [OF _ g1(2)]) simp
  have same: "find_disc g1 j = find_disc g j" if "j \<noteq> i" for j
    using that find_disc_Some [of g j] by (cases "find_disc g j") (auto simp: find1)
  have "closable g1 j = closable g j" if "j \<noteq> i" for j using same [OF that] by (simp add: closable_def)
  then have "\<forall>j \<in> set is. closable g1 j" using Cons.prems(4,5) by (metis distinct.simps(2) list.set_intros(2))
  then obtain h where h: "resolve_each now name is note oc g1 = Inr h"
      "g_discs h = map (\<lambda>c. if d_id c \<in> set is then close_row now (actor_of name) note oc c else c) (g_discs g1)"
      "\<forall>j. events_of h j = events_of g1 j @ (if j \<in> set is then [close_event now (actor_of name) note oc (the (find_disc g1 j))] else [])"
    using Cons.IH [OF g1(4) Cons.prems(2,3)] Cons.prems(4) by auto
  have i: "i \<notin> set is" using Cons.prems(4) by simp
  have "events_of g1 j = events_of g j @ (if j = i then [close_event now (actor_of name) note oc d] else [])" for j
    using find_disc_Some [OF d(1)] by (simp add: events_of_append [OF g1(3)] close_event_def)
  then have "events_of h j = events_of g j @ (if j \<in> set (i # is) then [close_event now (actor_of name) note oc (the (find_disc g j))] else [])" for j
    using h(3) i same d(1) by auto
  moreover have "g_discs h = map (\<lambda>c. if d_id c \<in> set (i # is) then close_row now (actor_of name) note oc c else c) (g_discs g)"
    using i by (auto simp: h(2) g1(2))
  ultimately show ?case using h(1) g1(1) by simp
qed simp

subsection \<open>Properties\<close>

text \<open>
  C17 Resolving is total and final: with a valid note an unknown discrepancy answers 404, a closed one
  409, an open one is closed with the note, the time and the analyst on record, gets exactly one
  event saying from which status it was closed, every other discrepancy and its trail is
  unchanged, and any later attempt to resolve it answers 409.
\<close>

theorem resolve_contract:
  assumes "gold_inv g" and "note_ok note" and "length (actor_of name) \<le> 200"
  shows "case find_disc g i of
     None \<Rightarrow> resolve_discrepancy True now name i note oc g = Inl (HTTPException 404 ''Discrepancy not found'')
   | Some d \<Rightarrow> if closed (d_state d)
       then resolve_discrepancy True now name i note oc g = Inl (HTTPException 409 (''Already '' @ status_text (d_state d)))
       else \<exists>h. resolve_discrepancy True now name i note oc g = Inr ((i, outcome_status oc, actor_of name), h) \<and> gold_inv h \<and>
         find_disc h i = Some (d\<lparr>d_state := outcome_status oc, d_resolved_at := Some now,
           d_resolved_by := Some (actor_of name), d_note := Some note\<rparr>) \<and>
         events_of h i = events_of g i @ [\<lparr>ev_disc = i, ev_action = outcome_action oc, ev_from = Some (d_state d),
           ev_to = outcome_status oc, ev_actor = actor_of name, ev_note = Some note, ev_at = now\<rparr>] \<and>
         (\<forall>j. j \<noteq> i \<longrightarrow> find_disc h j = find_disc g j \<and> events_of h j = events_of g j) \<and>
         resolve_discrepancy c' now' name' i note oc' h =
           Inl (HTTPException 409 (''Already '' @ status_text (outcome_status oc)))"
proof (cases "find_disc g i")
  case (Some d)
  show ?thesis
  proof (cases "closed (d_state d)")
    case False
    obtain h where h: "resolve_discrepancy True now name i note oc g = Inr ((i, outcome_status oc, actor_of name), h)"
        "g_discs h = map (\<lambda>c. if d_id c = i then close_row now (actor_of name) note oc c else c) (g_discs g)"
        "g_events h = g_events g @ [close_event now (actor_of name) note oc d]" "gold_inv h"
      using resolve_effect [OF assms(1) Some False assms(2,3)] by blast
    have find: "find_disc h j = map_option (\<lambda>c. if d_id c = i then close_row now (actor_of name) note oc c else c) (find_disc g j)" for j
      by (rule find_update [OF _ h(2)]) simp
    have id: "d_id d = i" using find_disc_Some [OF Some] by simp
    then have i: "find_disc h i = Some (close_row now (actor_of name) note oc d)" using Some by (simp add: find)
    have "find_disc h j = find_disc g j \<and> events_of h j = events_of g j" if "j \<noteq> i" for j
      using that id find_disc_Some [of g j] by (cases "find_disc g j") (auto simp: find events_of_append [OF h(3)] close_event_def)
    moreover have "events_of h i = events_of g i @ [close_event now (actor_of name) note oc d]"
      using id by (simp add: events_of_append [OF h(3)] close_event_def)
    moreover have "resolve_discrepancy c' now' name' i note oc' h = Inl (HTTPException 409 (''Already '' @ status_text (outcome_status oc)))"
      using i assms(2) by (simp add: resolve_discrepancy_def Let_def)
    ultimately show ?thesis
      using h(1,4) i id Some False by (auto simp: close_row_def close_event_def)
  qed (use Some assms(2) in \<open>simp add: resolve_discrepancy_def Let_def\<close>)
qed (use assms(2) in \<open>simp add: resolve_discrepancy_def Let_def\<close>)

theorem resolve_contract_witness:
  "\<exists>h. resolve_discrepancy True 5 (Some ''ada'') 7 ''settled by hand'' Resolve example_raised = Inr ((7, CLOSED_RESOLVED, ''ada''), h) \<and>
     resolve_discrepancy True 6 None 7 ''settled by hand'' FalsePositive h = Inl (HTTPException 409 ''Already resolved'')"
proof -
  have f: "find_disc example_raised 7 = Some example_disc" "d_state example_disc = OPEN"
    by (simp_all add: find_disc_def example_raised_def example_disc_def)
  have "note_ok ''settled by hand''" "length (actor_of (Some ''ada'')) \<le> 200" "actor_of (Some ''ada'') = ''ada''"
    by (simp_all add: note_ok_def actor_of_def)
  with resolve_contract [OF example_raised_inv this(1,2), where i = 7 and now = 5 and oc = Resolve and c' = True and now' = 6
      and name' = None and oc' = FalsePositive] f
  show ?thesis by auto
qed

text \<open>
  C18 The batch is the sequence of its items: the identifiers answered are exactly those requested,
  sorted, each resolved or skipped with the right reason, and the tables afterwards hold the same
  discrepancies and the same trail of each one as after single requests for the resolved ones.
\<close>

theorem bulk_is_sequence:
  assumes "gold_inv g" and "note_ok note" and "length (actor_of name) \<le> 200" and "1 \<le> length req" and "length req \<le> 100"
  shows "\<exists>closing skipped h k. bulk_resolve_discrepancies True now name req note oc g = Inr ((closing, skipped), h) \<and>
    sorted closing \<and> distinct closing \<and> set closing \<union> fst ` set skipped = set req \<and>
    (\<forall>i \<in> set closing. closable g i) \<and>
    (\<forall>(i, why) \<in> set skipped. case find_disc g i of None \<Rightarrow> why = NotFound
       | Some d \<Rightarrow> closed (d_state d) \<and> why = AlreadyClosed) \<and>
    resolve_each now name closing note oc g = Inr k \<and>
    g_discs h = g_discs k \<and> (\<forall>i. events_of h i = events_of k i)"
proof -
  let ?ids = "sort (remdups req)"
  let ?closing = "filter (closable g) ?ids"
  have "\<exists>out. bulk_resolve_discrepancies True now name req note oc g = Inr out"
    using assms(2-5) by (auto simp: bulk_resolve_discrepancies_def Let_def)
  then obtain closing skipped h where run: "bulk_resolve_discrepancies True now name req note oc g = Inr ((closing, skipped), h)"
    by auto
  note b = bulk_Inr [OF run]
  have dist: "distinct (map d_id (g_discs g))" using assms(1) by (simp add: gold_inv_def discs_inv_def)
  have cl: "distinct closing" "sorted closing" "\<forall>i \<in> set closing. closable g i"
    by (simp_all add: b(3) sorted_wrt_filter)
  obtain k where k: "resolve_each now name closing note oc g = Inr k"
      "g_discs k = map (\<lambda>c. if d_id c \<in> set closing then close_row now (actor_of name) note oc c else c) (g_discs g)"
      "\<forall>i. events_of k i = events_of g i @ (if i \<in> set closing then [close_event now (actor_of name) note oc (the (find_disc g i))] else [])"
    using resolve_each_effect [OF assms(1-3) cl(1,3), of now oc] by blast
  have "g_discs h = g_discs k"
    using b(5) by (auto simp: k(2) update_discs_def intro: map_idI [symmetric])
  moreover have "events_of h i = events_of k i" for i
  proof (cases "closing = []")
    case False
    let ?new = "map (close_event now (actor_of name) note oc) (filter (\<lambda>d. d_id d \<in> set closing) (g_discs g))"
    have ev: "g_events h = g_events g @ ?new" using b(5) False by (auto simp: update_discs_def)
    have "filter (\<lambda>e. ev_disc e = i) ?new =
        map (close_event now (actor_of name) note oc) (filter (\<lambda>d. d_id d = i) (filter (\<lambda>d. d_id d \<in> set closing) (g_discs g)))"
      by (simp add: filter_map comp_def close_event_def)
    also have "\<dots> = (if i \<in> set closing then [close_event now (actor_of name) note oc (the (find_disc g i))] else [])"
    proof (cases "i \<in> set closing")
      case True
      then obtain d where "find_disc g i = Some d" using cl(3) by (auto simp: closable_def split: option.splits)
      then show ?thesis
        using True find_disc_Some [of g i d] filter_key_unique [OF dist, of d "\<lambda>d. d_id d \<in> set closing"] by auto
    next
      case False
      then show ?thesis by (auto simp: filter_empty_conv)
    qed
    finally show ?thesis using k(3) by (simp add: events_of_append [OF ev])
  qed (use b(5) k(3) in auto)
  moreover have "set closing \<union> fst ` set skipped = set req"
    unfolding b(3,4) by (auto simp: image_image)
  moreover have "\<forall>(i, why) \<in> set skipped. case find_disc g i of None \<Rightarrow> why = NotFound
       | Some d \<Rightarrow> closed (d_state d) \<and> why = AlreadyClosed"
    unfolding b(4) by (auto simp: closable_def split: option.splits)
  ultimately show ?thesis using run cl k(1) by blast
qed

theorem bulk_is_sequence_witness:
  "\<exists>closing skipped h. bulk_resolve_discrepancies True 5 (Some ''ada'') [9, 7, 9] ''settled by hand'' FalsePositive example_raised =
     Inr ((closing, skipped), h) \<and> set closing \<union> fst ` set skipped = {7, 9}"
proof -
  have "note_ok ''settled by hand''" "length (actor_of (Some ''ada'')) \<le> 200" "1 \<le> length [9, 7, 9::nat]" "length [9, 7, 9::nat] \<le> 100"
    by (simp_all add: note_ok_def actor_of_def)
  from bulk_is_sequence [OF example_raised_inv this, where now = 5 and oc = FalsePositive] show ?thesis by (auto simp: insert_commute)
qed

end
