(* ===== verification/Alerting.thy ===== *)
theory Alerting
  imports Resolution Cbn_Report
begin

text \<open>
  \<open>src/alerting/slack.py\<close>: the alerts sent at the end of a matching run. Slack's answers, the
  formatting of a time and the order PostgreSQL returns equal exposures in are parameters. Each
  attempt is logged in a session of its own together with the mark on the discrepancy; sessions
  already committed stay when a later one fails. The matching flow is the only caller and the
  scheduler never runs it twice at a time, so one dispatcher is active.
\<close>

definition MAX_ALERTS_PER_RUN :: nat where
  "MAX_ALERTS_PER_RUN = 20"

fun severity_text :: "severity \<Rightarrow> string" where
  "severity_text LOW = ''low''"
| "severity_text MEDIUM = ''medium''"
| "severity_text HIGH = ''high''"
| "severity_text CRITICAL = ''critical''"

fun severity_emoji :: "severity \<Rightarrow> string" where
  "severity_emoji CRITICAL = '':rotating_light:''"
| "severity_emoji HIGH = '':warning:''"
| "severity_emoji MEDIUM = '':large_yellow_circle:''"
| "severity_emoji LOW = '':information_source:''"

record slack_message =
  sm_text :: string
  sm_header :: string
  sm_fields :: "string list"
  sm_context :: string

definition newline :: string where
  "newline = [CHR 0x0A]"

text \<open>The dash of the header is the UTF-8 encoding of U+2014.\<close>

definition build_discrepancy_message :: "(time \<Rightarrow> string) \<Rightarrow> (nat \<Rightarrow> string) \<Rightarrow> disc_row \<Rightarrow> canonical \<Rightarrow> slack_message" where
  "build_discrepancy_message fmt uuid d s = (
     let sev = py_upper (severity_text (d_severity d)); amount = money (quant 2 (d_exposure d)) in
     \<lparr>sm_text = sev @ '' '' @ type_value (d_class d) @ '' on '' @ psp_name s @ '': NGN '' @ amount,
      sm_header = severity_emoji (d_severity d) @ '' Discrepancy '' @ [CHR 0xE2, CHR 0x80, CHR 0x94] @ '' '' @ sev,
      sm_fields = [''*Type:*'' @ newline @ type_value (d_class d), ''*PSP:*'' @ newline @ psp_name s,
        ''*Exposure:*'' @ newline @ ''NGN '' @ amount,
        ''*Ref:*'' @ newline @ ''`'' @ psp_transaction_ref s @ ''`''],
      sm_context = ''Discrepancy `'' @ uuid (d_id d) @ ''` raised '' @ fmt (d_raised d) @ '' UTC''\<rparr>)"

datatype slack_reply = Answer nat | TransportError string | Raises exc

record alert_env =
  ae_configured :: bool
  ae_threshold :: rat
  ae_now :: time
  ae_reply :: "slack_message \<Rightarrow> slack_reply"
  ae_commits :: "nat \<Rightarrow> bool"
  ae_tie :: "disc_row \<Rightarrow> nat"
  ae_fmt :: "time \<Rightarrow> string"
  ae_uuid :: "nat \<Rightarrow> string"

definition alert_due :: "alert_env \<Rightarrow> disc_row \<Rightarrow> bool" where
  "alert_due env d \<longleftrightarrow> d_state d = OPEN \<and> d_alerted d = None \<and>
     (d_severity d = CRITICAL \<or> ae_threshold env \<le> d_exposure d)"

text \<open>The join with Silver yields the transaction of each row.\<close>

definition tx_row :: "gold \<Rightarrow> nat \<Rightarrow> canonical option" where
  "tx_row g t = List.find (\<lambda>s. tx_id s = t) (g_silver g)"

definition pending_alerts :: "alert_env \<Rightarrow> gold \<Rightarrow> disc_row list" where
  "pending_alerts env g = take MAX_ALERTS_PER_RUN (sort_key (\<lambda>d. - d_exposure d) (sort_key (ae_tie env)
     (filter (\<lambda>d. alert_due env d \<and> tx_row g (d_tx d) \<noteq> None) (g_discs g))))"

definition failure_of :: "slack_reply \<Rightarrow> exc + string option" where
  "failure_of r = (case r of
     Answer n \<Rightarrow> Inr (if n = 200 then None else Some (''slack responded '' @ show_nat (int n)))
   | TransportError s \<Rightarrow> Inr (Some s)
   | Raises e \<Rightarrow> Inl e)"

definition attempt_row :: "time \<Rightarrow> disc_row \<Rightarrow> string option \<Rightarrow> alert_row" where
  "attempt_row now d failure = \<lparr>al_disc = d_id d, al_type = d_class d,
     al_sent = (if failure = None then Some now else None), al_failure = failure\<rparr>"

definition log_attempt :: "alert_env \<Rightarrow> disc_row \<Rightarrow> string option \<Rightarrow> gold \<Rightarrow> exc + gold" where
  "log_attempt env d failure g = (
     if d_id d \<notin> d_id ` set (g_discs g) then Inl IntegrityError else
     let g1 = g\<lparr>g_alerts := g_alerts g @ [attempt_row (ae_now env) d failure]\<rparr>;
         g2 = (if failure = None
           then update_discs (\<lambda>c. d_id c = d_id d) (d_alerted_update (\<lambda>_. Some (ae_now env))) g1 else g1)
     in if ae_commits env (d_id d) then Inr g2 else Inl DatabaseError)"

definition reply_to :: "alert_env \<Rightarrow> gold \<Rightarrow> disc_row \<Rightarrow> exc + string option" where
  "reply_to env g d = (case tx_row g (d_tx d) of None \<Rightarrow> Inl (KeyError '''')
     | Some s \<Rightarrow> failure_of (ae_reply env (build_discrepancy_message (ae_fmt env) (ae_uuid env) d s)))"

fun dispatch_loop :: "alert_env \<Rightarrow> disc_row list \<Rightarrow> gold \<Rightarrow> (exc + nat) \<times> gold" where
  "dispatch_loop env [] g = (Inr 0, g)"
| "dispatch_loop env (d # ds) g = (case reply_to env g d of
     Inl e \<Rightarrow> (Inl e, g)
   | Inr failure \<Rightarrow> (case log_attempt env d failure g of
       Inl e \<Rightarrow> (Inl e, g)
     | Inr g1 \<Rightarrow> (case dispatch_loop env ds g1 of
         (Inl e, h) \<Rightarrow> (Inl e, h)
       | (Inr n, h) \<Rightarrow> (Inr (if failure = None then Suc n else n), h))))"

definition dispatch_pending_alerts :: "alert_env \<Rightarrow> gold \<Rightarrow> (exc + nat) \<times> gold" where
  "dispatch_pending_alerts env g = (if \<not> ae_configured env then (Inr 0, g)
     else dispatch_loop env (pending_alerts env g) g)"

subsection \<open>Logging an attempt\<close>

definition unalerted :: "gold \<Rightarrow> disc_row \<Rightarrow> bool" where
  "unalerted g d \<longleftrightarrow> d \<in> set (g_discs g) \<and> d_alerted d = None"

abbreviation mark :: "time \<Rightarrow> disc_row \<Rightarrow> disc_row" where
  "mark now \<equiv> d_alerted_update (\<lambda>_. Some now)"

lemma log_attempt_Inr:
  assumes "log_attempt env d failure g = Inr h"
  shows "g_discs h = map (\<lambda>c. if failure = None \<and> d_id c = d_id d then mark (ae_now env) c else c) (g_discs g)"
    "g_alerts h = g_alerts g @ [attempt_row (ae_now env) d failure]" "g_silver h = g_silver g" "g_pairs h = g_pairs g"
    "g_matched h = g_matched g" "g_events h = g_events g" "g_runs h = g_runs g" "d_id d \<in> d_id ` set (g_discs g)"
  using assms by (auto simp: log_attempt_def Let_def update_discs_def split: if_splits)

lemma log_attempt_evolves:
  assumes run: "log_attempt env d failure g = Inr h" and un: "unalerted g d"
  shows "evolves g h"
proof -
  note h = log_attempt_Inr [OF run]
  let ?f = "\<lambda>c. if failure = None \<and> d_id c = d_id d then mark (ae_now env) c else c"
  have "discs_inv h" if "gold_inv g"
    using that by (intro discs_inv_touched [OF _ h(1,6,3)]) (auto simp: gold_inv_def disc_ok_def)
  moreover have "alerts_inv h" if inv: "gold_inv g"
  proof -
    have old: "alerts_inv g" and dist: "distinct (map d_id (g_discs g))" using inv by (simp_all add: gold_inv_def discs_inv_def)
    have "map d_id (g_discs h) = map d_id (g_discs g)" by (simp add: h(1))
    from arg_cong [OF this, of set] have ids: "d_id ` set (g_discs h) = d_id ` set (g_discs g)" by simp
    have acc: "accepted_alerts h i = accepted_alerts g i @ (if i = d_id d \<and> failure = None then [attempt_row (ae_now env) d failure] else [])" for i
      by (simp add: accepted_alerts_def h(2) attempt_row_def)
    have one: "length (accepted_alerts h (d_id c)) = (if d_alerted (?f c) = None then 0 else 1)" if c: "c \<in> set (g_discs g)" for c
    proof (cases "d_id c = d_id d \<and> failure = None")
      case True
      then have "c = d" using distinct_map_filter_eq [OF dist c] un by (auto simp: unalerted_def)
      then show ?thesis using old un True acc [of "d_id d"] unfolding alerts_inv_def unalerted_def by auto
    next
      case False
      then show ?thesis using old c acc [of "d_id c"] unfolding alerts_inv_def by auto
    qed
    have "\<forall>a \<in> set (g_alerts h). al_disc a \<in> d_id ` set (g_discs h)"
      using old h(8) unfolding alerts_inv_def ids h(2) by (simp add: attempt_row_def)
    moreover have "length (accepted_alerts h (d_id (?f c))) = (if d_alerted (?f c) = None then 0 else 1)"
      if c: "c \<in> set (g_discs g)" for c
    proof -
      have "d_id (?f c) = d_id c" by simp
      with one [OF c] show ?thesis by (simp only:)
    qed
    then have "\<forall>c \<in> set (g_discs h). length (accepted_alerts h (d_id c)) = (if d_alerted c = None then 0 else 1)"
      unfolding h(1) set_map by (intro ballI, elim imageE) (simp only:)
    ultimately show ?thesis unfolding alerts_inv_def by blast
  qed
  moreover have "life h = life g"
    by (rule life_touched [OF h(1)]) simp_all
  ultimately show ?thesis
    using pairs_inv_cong [of h g] h by (intro evolvesI) (auto simp: gold_inv_def)
qed

lemma dispatch_loop_evolves:
  "dispatch_loop env ds g = (res, h) \<Longrightarrow> distinct (map d_id ds) \<Longrightarrow> \<forall>d \<in> set ds. unalerted g d \<Longrightarrow> evolves g h"
proof (induction ds arbitrary: g res)
  case (Cons d ds)
  consider "h = g" | failure g1 res' where "reply_to env g d = Inr failure" "log_attempt env d failure g = Inr g1"
      "dispatch_loop env ds g1 = (res', h)"
    using Cons.prems(1) by (auto split: sum.splits prod.splits)
  then show ?case
  proof cases
    case 2
    have ev: "evolves g g1" using log_attempt_evolves [OF 2(2)] Cons.prems(3) by simp
    have "unalerted g1 c" if "c \<in> set ds" for c
    proof -
      have "unalerted g c" "d_id c \<noteq> d_id d" using Cons.prems(2,3) that by (auto simp: image_iff)
      then show ?thesis using log_attempt_Inr(1) [OF 2(2)] unfolding unalerted_def by (auto simp: image_iff)
    qed
    then have "evolves g1 h" using Cons.IH [OF 2(3)] Cons.prems(2) by simp
    then show ?thesis by (rule evolves_trans [OF ev])
  qed (simp add: evolves_refl)
qed (simp add: evolves_refl)

lemma pending_rows:
  "d \<in> set (pending_alerts env g) \<Longrightarrow> d \<in> set (g_discs g) \<and> alert_due env d \<and> tx_row g (d_tx d) \<noteq> None"
  unfolding pending_alerts_def by (drule in_set_takeD) simp

lemma pending_distinct:
  assumes "distinct (map d_id (g_discs g))"
  shows "distinct (map d_id (pending_alerts env g))"
proof -
  have "distinct (map d_id (sort_key k xs))" if "distinct (map d_id xs)" for k :: "disc_row \<Rightarrow> 'b::linorder" and xs
    using that by (simp add: distinct_map)
  then show ?thesis unfolding pending_alerts_def take_map [symmetric]
    using assms by (intro distinct_take) (simp add: distinct_map distinct_map_filter inj_on_def)
qed

lemma dispatch_evolves [inv_intros]:
  assumes "dispatch_pending_alerts env g = (res, h)"
  shows "evolves g h"
proof (cases "gold_inv g")
  case True
  then have "distinct (map d_id (g_discs g))" by (simp add: gold_inv_def discs_inv_def)
  from pending_distinct [OF this, of env] show ?thesis
    using assms pending_rows [of _ env g]
    by (auto simp: dispatch_pending_alerts_def unalerted_def alert_due_def split: if_splits
        intro: evolves_refl dispatch_loop_evolves)
qed (simp add: evolves_def)

subsection \<open>Which alerts are sent\<close>

definition sent_ok :: "alert_env \<Rightarrow> gold \<Rightarrow> disc_row \<Rightarrow> bool" where
  "sent_ok env g d \<longleftrightarrow> reply_to env g d = Inr None"

definition failure_text :: "alert_env \<Rightarrow> gold \<Rightarrow> disc_row \<Rightarrow> string option" where
  "failure_text env g d = (case reply_to env g d of Inl e \<Rightarrow> None | Inr f \<Rightarrow> f)"

lemma reply_to_cong: "g_silver h = g_silver g \<Longrightarrow> reply_to env h = reply_to env g"
  by (simp add: fun_eq_iff reply_to_def tx_row_def)

lemma dispatch_loop_exact:
  "\<forall>d \<in> set ds. \<exists>f. reply_to env g d = Inr f \<Longrightarrow> \<forall>i. ae_commits env i \<Longrightarrow>
    \<forall>d \<in> set ds. d_id d \<in> d_id ` set (g_discs g) \<Longrightarrow>
    \<exists>h. dispatch_loop env ds g = (Inr (length (filter (sent_ok env g) ds)), h) \<and>
      g_discs h = map (\<lambda>c. if d_id c \<in> d_id ` set (filter (sent_ok env g) ds) then mark (ae_now env) c else c) (g_discs g) \<and>
      g_alerts h = g_alerts g @ map (\<lambda>d. attempt_row (ae_now env) d (failure_text env g d)) ds"
proof (induction ds arbitrary: g)
  case (Cons d ds)
  obtain f where f: "reply_to env g d = Inr f" using Cons.prems(1) by auto
  obtain g1 where g1: "log_attempt env d f g = Inr g1"
    using Cons.prems(2,3) by (simp add: log_attempt_def Let_def)
  note l = log_attempt_Inr [OF g1]
  have rep: "reply_to env g1 = reply_to env g" by (rule reply_to_cong [OF l(3)])
  then have same: "sent_ok env g1 = sent_ok env g" "failure_text env g1 = failure_text env g"
    by (simp_all add: fun_eq_iff sent_ok_def failure_text_def)
  have "map d_id (g_discs g1) = map d_id (g_discs g)" by (simp add: l(1))
  from arg_cong [OF this, of set] have ids: "d_id ` set (g_discs g1) = d_id ` set (g_discs g)" by simp
  obtain h where h: "dispatch_loop env ds g1 = (Inr (length (filter (sent_ok env g) ds)), h)"
      "g_discs h = map (\<lambda>c. if d_id c \<in> d_id ` set (filter (sent_ok env g) ds) then mark (ae_now env) c else c) (g_discs g1)"
      "g_alerts h = g_alerts g1 @ map (\<lambda>d. attempt_row (ae_now env) d (failure_text env g d)) ds"
    using Cons.IH [of g1] Cons.prems unfolding rep same ids by auto
  have "g_discs h = map (\<lambda>c. if d_id c \<in> d_id ` set (filter (sent_ok env g) (d # ds)) then mark (ae_now env) c else c) (g_discs g)"
    unfolding h(2) l(1) map_map using f by (intro map_cong refl) (auto simp: sent_ok_def)
  moreover have "sent_ok env g d \<longleftrightarrow> f = None" "failure_text env g d = f"
    using f by (simp_all add: sent_ok_def failure_text_def)
  ultimately show ?case using f g1 h(1,3) l(2) by simp
qed simp

lemma sorted_take_drop:
  assumes "sorted (map f xs)" "x \<in> set (take n xs)" "y \<in> set (drop n xs)"
  shows "f x \<le> f y"
proof -
  have "sorted (map f (take n xs) @ map f (drop n xs))" using assms(1) by (metis append_take_drop_id map_append)
  then show ?thesis using assms(2,3) by (auto simp: sorted_append)
qed

lemma pending_overflow:
  assumes "d \<in> set (g_discs g)" "alert_due env d" "d \<notin> set (pending_alerts env g)" and "tx_row g (d_tx d) \<noteq> None"
  shows "length (pending_alerts env g) = 20 \<and> (\<forall>s \<in> set (pending_alerts env g). d_exposure d \<le> d_exposure s)"
proof -
  define xs where "xs = sort_key (\<lambda>d. - d_exposure d) (sort_key (ae_tie env)
    (filter (\<lambda>d. alert_due env d \<and> tx_row g (d_tx d) \<noteq> None) (g_discs g)))"
  have s: "pending_alerts env g = take 20 xs" by (simp add: pending_alerts_def xs_def MAX_ALERTS_PER_RUN_def)
  have "d \<in> set xs" using assms by (simp add: xs_def)
  then have dr: "d \<in> set (drop 20 xs)" using assms(3) unfolding s by (metis append_take_drop_id UnE set_append)
  then have "20 < length xs" by (metis drop_all empty_iff list.set(1) not_le)
  moreover have "sorted (map (\<lambda>d. - d_exposure d) xs)" unfolding xs_def by (rule sorted_sort_key)
  ultimately show ?thesis using sorted_take_drop [OF _ _ dr] unfolding s by fastforce
qed

text \<open>
  C19 Alerts go out once, largest exposure first: a dispatch whose sessions commit sends at most
  twenty messages, for open discrepancies not yet alerted that are critical or above the
  threshold; a due one left out has an exposure no larger than any chosen; exactly those Slack
  accepted are marked and counted, every attempt is logged, and the tables stay sound, in
  particular each discrepancy has one accepted alert if it is marked and none otherwise.
\<close>

theorem alerts_dispatched_exactly:
  assumes "gold_inv g" and "ae_configured env" and "\<forall>i. ae_commits env i" and "\<forall>m e. ae_reply env m \<noteq> Raises e"
  shows "\<exists>h. let sel = pending_alerts env g in
    dispatch_pending_alerts env g = (Inr (length (filter (sent_ok env g) sel)), h) \<and> gold_inv h \<and> length sel \<le> 20 \<and>
    (\<forall>d \<in> set sel. d \<in> set (g_discs g) \<and> alert_due env d) \<and>
    (\<forall>d \<in> set (g_discs g). alert_due env d \<and> d \<notin> set sel \<longrightarrow> length sel = 20 \<and> (\<forall>s \<in> set sel. d_exposure d \<le> d_exposure s)) \<and>
    (\<forall>d \<in> set (g_discs g). find_disc h (d_id d) =
      Some (if d \<in> set sel \<and> sent_ok env g d then d\<lparr>d_alerted := Some (ae_now env)\<rparr> else d)) \<and>
    g_alerts h = g_alerts g @ map (\<lambda>d. attempt_row (ae_now env) d (failure_text env g d)) sel"
proof -
  define sel where "sel = pending_alerts env g"
  have dist: "distinct (map d_id (g_discs g))" and rows: "\<forall>d \<in> set (g_discs g). d_tx d \<in> tx_ids g"
    using assms(1) by (simp_all add: gold_inv_def discs_inv_def)
  have sel: "d \<in> set (g_discs g) \<and> alert_due env d \<and> tx_row g (d_tx d) \<noteq> None" if "d \<in> set sel" for d
    using pending_rows that unfolding sel_def by blast
  have tx: "tx_row g (d_tx d) \<noteq> None" if "d \<in> set (g_discs g)" for d
    using rows that find_key_None [of tx_id "d_tx d" "g_silver g"] by (simp add: tx_row_def tx_ids_def)
  have "\<exists>f. reply_to env g d = Inr f" if "d \<in> set sel" for d
  proof -
    obtain s where s: "tx_row g (d_tx d) = Some s" using sel [OF \<open>d \<in> set sel\<close>] by blast
    have "failure_of (ae_reply env m) = Inl e \<Longrightarrow> False" for m e
      using assms(4) by (cases "ae_reply env m") (auto simp: failure_of_def)
    then show ?thesis unfolding reply_to_def s by (cases "failure_of (ae_reply env (build_discrepancy_message (ae_fmt env) (ae_uuid env) d s))") auto
  qed
  moreover have "\<forall>d \<in> set sel. d_id d \<in> d_id ` set (g_discs g)" using sel by blast
  ultimately obtain h where h: "dispatch_loop env sel g = (Inr (length (filter (sent_ok env g) sel)), h)"
      "g_discs h = map (\<lambda>c. if d_id c \<in> d_id ` set (filter (sent_ok env g) sel) then mark (ae_now env) c else c) (g_discs g)"
      "g_alerts h = g_alerts g @ map (\<lambda>d. attempt_row (ae_now env) d (failure_text env g d)) sel"
    using dispatch_loop_exact [OF _ assms(3)] by blast
  have run: "dispatch_pending_alerts env g = (Inr (length (filter (sent_ok env g) sel)), h)"
    using h(1) assms(2) by (simp add: dispatch_pending_alerts_def sel_def)
  have inv: "gold_inv h" using dispatch_evolves [OF run] assms(1) by (simp add: evolves_def)
  have len: "length sel \<le> 20" by (simp add: sel_def pending_alerts_def MAX_ALERTS_PER_RUN_def)
  have rest: "length sel = 20 \<and> (\<forall>s \<in> set sel. d_exposure d \<le> d_exposure s)"
    if d: "d \<in> set (g_discs g)" "alert_due env d" "d \<notin> set sel" for d
    using pending_overflow [OF d(1,2) d(3) [unfolded sel_def] tx [OF d(1)]] unfolding sel_def .
  have found: "find_disc h (d_id d) = Some (if d \<in> set sel \<and> sent_ok env g d then d\<lparr>d_alerted := Some (ae_now env)\<rparr> else d)"
    if d: "d \<in> set (g_discs g)" for d
  proof -
    have eq: "d_id d \<in> d_id ` set (filter (sent_ok env g) sel) \<longleftrightarrow> d \<in> set sel \<and> sent_ok env g d"
      using sel distinct_map_filter_eq [OF dist d] by auto
    have "find_disc h (d_id d) = map_option (\<lambda>c. if d_id c \<in> d_id ` set (filter (sent_ok env g) sel) then mark (ae_now env) c else c) (find_disc g (d_id d))"
      by (rule find_update [OF _ h(2)]) simp
    then show ?thesis using find_disc_row [OF dist d] eq by simp
  qed
  show ?thesis
    unfolding Let_def sel_def [symmetric] using run inv len sel rest found h(3) by blast
qed

definition example_alerts :: alert_env where
  "example_alerts = \<lparr>ae_configured = True, ae_threshold = 1000000, ae_now = 9, ae_reply = (\<lambda>m. Answer 200),
     ae_commits = (\<lambda>i. True), ae_tie = d_id, ae_fmt = (\<lambda>t. ''2026-10-02 09:00''), ae_uuid = (\<lambda>i. show_nat (int i))\<rparr>"

theorem alerts_dispatched_exactly_witness:
  "\<exists>h. dispatch_pending_alerts example_alerts example_raised = (Inr 1, h) \<and>
     find_disc h 7 = Some (example_disc\<lparr>d_alerted := Some 9\<rparr>)"
proof -
  have a: "ae_configured example_alerts" "\<forall>i. ae_commits example_alerts i" "\<forall>m e. ae_reply example_alerts m \<noteq> Raises e"
    "ae_now example_alerts = 9"
    by (simp_all add: example_alerts_def)
  have p: "pending_alerts example_alerts example_raised = [example_disc]"
    by (simp add: pending_alerts_def MAX_ALERTS_PER_RUN_def alert_due_def tx_row_def example_alerts_def
        example_raised_def example_disc_def example_gold_def example_tx_def)
  have o: "sent_ok example_alerts example_raised example_disc"
    by (simp add: sent_ok_def reply_to_def failure_of_def tx_row_def example_alerts_def example_raised_def
        example_disc_def example_gold_def example_tx_def)
  have d: "example_disc \<in> set (g_discs example_raised)" "d_id example_disc = 7"
    by (simp_all add: example_raised_def example_disc_def)
  from alerts_dispatched_exactly [OF example_raised_inv a(1-3)] d o
  show ?thesis unfolding Let_def p a(4) by fastforce
qed

end
