(* ===== verification/Reconciliation.thy ===== *)
theory Reconciliation
  imports Matching_Flow Alerting Consumer
begin

text \<open>
  The matching flow as a whole (\<open>silver_to_gold_matching_flow\<close>), and the system it runs in: Silver
  grows, matching runs overlap, analysts resolve discrepancies, alerts go out. A run in flight is
  the pair of the candidates it loaded and the pairs it found; it may write them at any later
  time, whatever the other parts have written since. Each database transaction is one step: the
  unique keys make a second writer of the same row wait for the first.
\<close>

subsection \<open>The matching flow\<close>

record flow_env =
  fe_config :: match_config
  fe_new_run :: nat
  fe_start :: time
  fe_load :: time
  fe_persist :: persist_env
  fe_missing :: persist_env
  fe_refresh :: "exc option"
  fe_alerts :: alert_env
  fe_finish :: time
  fe_finish_commits :: bool

record flow_summary =
  fs_candidates :: nat
  fs_pairs_written :: nat
  fs_amount_discrepancies :: nat
  fs_missing :: nat
  fs_alerts_sent :: nat
  fs_strategies :: "(strategy \<times> nat) list"

definition matching_phases :: "flow_env \<Rightarrow> gold \<Rightarrow> (exc + flow_summary) \<times> gold" where
  "matching_phases env g = (
     let cs = fetch_match_candidates (probabilistic_time_window (fe_config env) * 2) (fe_load env) g in
     case match_all cs (fe_config env) of Inl e \<Rightarrow> (Inl e, g) | Inr ps \<Rightarrow>
     (case persist_pairs (fe_persist env) ps cs g of Inl e \<Rightarrow> (Inl e, g) | Inr ((w, k), g1) \<Rightarrow>
     (case raise_missing_settlements (fe_missing env) g1 of Inl e \<Rightarrow> (Inl e, g1) | Inr (n, g2) \<Rightarrow>
     (case fe_refresh env of Some e \<Rightarrow> (Inl e, g2) | None \<Rightarrow>
     (case dispatch_pending_alerts (fe_alerts env) g2 of (Inl e, g3) \<Rightarrow> (Inl e, g3) | (Inr a, g3) \<Rightarrow>
       (Inr \<lparr>fs_candidates = length cs, fs_pairs_written = w, fs_amount_discrepancies = k, fs_missing = n,
          fs_alerts_sent = a, fs_strategies = map (\<lambda>st. (st, length (filter (\<lambda>p. mr_strategy p = st) ps)))
            [EXACT_PRIMARY, PROBABILISTIC_SECONDARY]\<rparr>, g3))))))"

definition with_runs :: "run_table \<Rightarrow> gold \<Rightarrow> gold" where
  "with_runs rs g = g\<lparr>g_runs := rs\<rparr>"

definition silver_to_gold_matching_flow :: "flow_env \<Rightarrow> gold \<Rightarrow> (exc + flow_summary) \<times> gold" where
  "silver_to_gold_matching_flow env g = (
     case start_run (fe_new_run env) (fe_start env) ''silver-to-gold-matching-flow'' ''scheduler'' (g_runs g) of
       Inl e \<Rightarrow> (Inl e, g)
     | Inr (run, rs) \<Rightarrow>
         let (res, h) = matching_phases env (with_runs rs g);
             finish = (\<lambda>n err. with_runs (finish_run run (fe_finish env) n 0 err (g_runs h)) h)
         in if \<not> fe_finish_commits env then (Inl DatabaseError, h)
            else case res of Inl e \<Rightarrow> (Inl e, finish 0 (Some (exc_text e)))
              | Inr s \<Rightarrow> (Inr s, finish (fs_candidates s) None))"

subsection \<open>The system\<close>

record recon =
  rc_gold :: gold
  rc_inflight :: "(candidate list \<times> match_result list) list"

text \<open>The writes that depend on the tables alone.\<close>

inductive gold_write :: "gold \<Rightarrow> gold \<Rightarrow> bool" where
  missing: "raise_missing_settlements env g = Inr (n, h) \<Longrightarrow> gold_write g h"
| alerts: "dispatch_pending_alerts aenv g = (res, h) \<Longrightarrow> gold_write g h"
| resolve: "resolve_discrepancy commits now name i memo oc g = Inr (out, h) \<Longrightarrow> gold_write g h"
| bulk: "bulk_resolve_discrepancies commits now name req memo oc g = Inr ((closing, skipped), h) \<Longrightarrow> gold_write g h"
| started: "start_run i now flow by (g_runs g) = Inr (j, rs) \<Longrightarrow> gold_write g (with_runs rs g)"
| finished: "gold_write g (with_runs (finish_run i now p f err (g_runs g)) g)"

definition grown :: "canonical \<Rightarrow> gold \<Rightarrow> gold" where
  "grown r g = g\<lparr>g_silver := g_silver g @ [r]\<rparr>"

inductive recon_step :: "recon \<Rightarrow> recon \<Rightarrow> bool" where
  transact: "tx_id r \<notin> tx_ids (rc_gold s) \<Longrightarrow> recon_step s (s\<lparr>rc_gold := grown r (rc_gold s)\<rparr>)"
| load: "config_ok config \<Longrightarrow> cs = fetch_match_candidates lookback now (rc_gold s) \<Longrightarrow> match_all cs config = Inr ps \<Longrightarrow>
    recon_step s (s\<lparr>rc_inflight := (cs, ps) # rc_inflight s\<rparr>)"
| persist: "(cs, ps) \<in> set (rc_inflight s) \<Longrightarrow> persist_pairs env ps cs (rc_gold s) = Inr (wk, h) \<Longrightarrow>
    recon_step s (s\<lparr>rc_gold := h\<rparr>)"
| other: "gold_write (rc_gold s) h \<Longrightarrow> recon_step s (s\<lparr>rc_gold := h\<rparr>)"

subsection \<open>The invariant\<close>

definition recon_inv :: "recon \<Rightarrow> bool" where
  "recon_inv s \<longleftrightarrow> gold_inv (rc_gold s) \<and>
     (\<forall>(cs, ps) \<in> set (rc_inflight s). pairs_from (rc_gold s) (by_id cs) ps)"

lemma missing_evolves: "raise_missing_settlements env g = Inr (n, h) \<Longrightarrow> evolves g h"
  using upsert_all_evolves by (auto simp: raise_missing_settlements_def split: if_splits)

lemma persist_pairs_evolves:
  "persist_pairs env ps cs g = Inr (wk, h) \<Longrightarrow> pairs_from g (by_id cs) ps \<Longrightarrow> evolves g h"
  using persist_loop_evolves by (auto simp: persist_pairs_def split: if_splits)

lemma gold_write_evolves: "gold_write g h \<Longrightarrow> evolves g h"
proof (induction rule: gold_write.induct)
  case (finished g i now p f err)
  then show ?case unfolding with_runs_def by (rule evolves_log) (rule finish_run_ok)
next
  case (started i now flow by' g j rs)
  then show ?case unfolding with_runs_def by (intro evolves_log) (rule start_run_ok)
qed (auto intro: missing_evolves dispatch_evolves resolve_evolves bulk_evolves)

lemma opposite_grown: "opposite g a b \<Longrightarrow> opposite (grown r g) a b"
  unfolding opposite_def grown_def by (simp, blast)

lemma grown_inv: "gold_inv g \<Longrightarrow> tx_id r \<notin> tx_ids g \<Longrightarrow> gold_inv (grown r g)"
proof -
  assume inv: "gold_inv g" and new: "tx_id r \<notin> tx_ids g"
  have "pairs_inv (grown r g)"
    using inv opposite_grown [of g _ _ r] unfolding gold_inv_def pairs_inv_def by (simp add: grown_def)
  moreover have "discs_inv (grown r g)"
    using inv unfolding gold_inv_def discs_inv_def trail_ok_def by (auto simp: grown_def tx_ids_def events_of_def)
  moreover have "alerts_inv (grown r g) = alerts_inv g" by (rule alerts_inv_cong) (simp_all add: grown_def)
  ultimately show ?thesis using inv new by (simp add: gold_inv_def grown_def tx_ids_def)
qed

lemma recon_step_inv:
  assumes "recon_step s t" and inv: "recon_inv s"
  shows "recon_inv t \<and> life_step\<^sup>*\<^sup>* (life (rc_gold s)) (life (rc_gold t))"
  using assms(1)
proof cases
  case (transact r)
  have "pairs_from (grown r (rc_gold s)) f ps" if "pairs_from (rc_gold s) f ps" for f ps
    using that opposite_grown unfolding pairs_from_def by blast
  moreover have "life (grown r (rc_gold s)) = life (rc_gold s)" by (simp add: life_def grown_def)
  ultimately show ?thesis using inv grown_inv transact by (auto simp: recon_inv_def)
next
  case (load config cs lookback now ps)
  then show ?thesis using inv match_all_pairs_from [OF load(2,3,4)] by (auto simp: recon_inv_def)
next
  case (persist cs ps env wk h)
  have ev: "evolves (rc_gold s) h"
    using inv persist(2) by (intro persist_pairs_evolves [OF persist(3)]) (auto simp: recon_inv_def)
  then show ?thesis using inv pairs_from_evolves [OF ev] by (auto simp: recon_inv_def evolves_def persist(1))
next
  case (other h)
  have ev: "evolves (rc_gold s) h" by (rule gold_write_evolves [OF other(2)])
  then show ?thesis using inv pairs_from_evolves [OF ev] by (auto simp: recon_inv_def evolves_def other(1))
qed

lemma recon_run_inv:
  "recon_step\<^sup>*\<^sup>* s t \<Longrightarrow> recon_inv s \<Longrightarrow> recon_inv t \<and> life_step\<^sup>*\<^sup>* (life (rc_gold s)) (life (rc_gold t))"
proof (induction rule: rtranclp_induct)
  case (step y z)
  then show ?case using recon_step_inv [OF step.hyps(2)] by (meson rtranclp_trans)
qed simp

definition empty_recon :: recon where
  "empty_recon = \<lparr>rc_gold = \<lparr>g_silver = [], g_pairs = [], g_matched = [], g_discs = [], g_events = [], g_alerts = [],
     g_runs = []\<rparr>, rc_inflight = []\<rparr>"

lemma empty_inv: "recon_inv empty_recon"
  by (simp add: recon_inv_def empty_recon_def gold_inv_def pairs_inv_def discs_inv_def alerts_inv_def runs_ok_def)

subsection \<open>The flow is a run of the system\<close>

lemma recon_other: "gold_write g h \<Longrightarrow> recon_step\<^sup>*\<^sup>* \<lparr>rc_gold = g, rc_inflight = F\<rparr> \<lparr>rc_gold = h, rc_inflight = F\<rparr>"
  using recon_step.other [of "\<lparr>rc_gold = g, rc_inflight = F\<rparr>" h] by (simp add: r_into_rtranclp)

text \<open>None of the phases touches the run table.\<close>

lemma raise_amount_runs: "raise_amount_discrepancy env pair a b g = Inr (n, h) \<Longrightarrow> g_runs h = g_runs g"
  by (erule raise_amount_cases) (auto simp: update_pairs_def dest!: insert_event_Inr elim!: insert_disc_cases)

lemma persist_pair_runs: "persist_pair env r a b g = Inr (n, h) \<Longrightarrow> g_runs h = g_runs g"
  by (auto simp: persist_pair_def Let_def dest!: insert_pair_Inr insert_matched_Inr raise_amount_runs
      split: if_splits option.splits)

lemma persist_loop_runs: "persist_loop env f rs g = Inr (wk, h) \<Longrightarrow> g_runs h = g_runs g"
proof (induction rs arbitrary: wk g)
  case (Cons r rs)
  then show ?case using persist_pair_runs by (fastforce split: option.splits sum.splits exc.splits)
qed simp

lemma upsert_missing_runs: "upsert_missing env r g = Inr (as, h) \<Longrightarrow> g_runs h = g_runs g"
  by (auto simp: upsert_missing_def Let_def update_discs_def dest!: insert_event_Inr elim!: insert_disc_cases
      split: option.splits if_splits)

lemma upsert_all_runs: "upsert_all env rs g = Inr (as, h) \<Longrightarrow> g_runs h = g_runs g"
proof (induction rs arbitrary: as g)
  case (Cons r rs)
  then show ?case using upsert_missing_runs by (fastforce simp: split_def)
qed simp

lemma dispatch_loop_runs: "dispatch_loop env ds g = (res, h) \<Longrightarrow> g_runs h = g_runs g"
proof (induction ds arbitrary: res g)
  case (Cons d ds)
  then show ?case using log_attempt_Inr(7) by (fastforce split: sum.splits prod.splits)
qed simp

lemma phases_run:
  assumes ok: "config_ok (fe_config env)" and run: "matching_phases env g = (res, h)"
  shows "(\<exists>F. recon_step\<^sup>*\<^sup>* \<lparr>rc_gold = g, rc_inflight = []\<rparr> \<lparr>rc_gold = h, rc_inflight = F\<rparr>) \<and> g_runs h = g_runs g"
proof -
  define cs where "cs = fetch_match_candidates (probabilistic_time_window (fe_config env) * 2) (fe_load env) g"
  obtain ps where ps: "match_all cs (fe_config env) = Inr ps"
    using match_loop_total [OF ok] unfolding match_all_def by blast
  have load: "recon_step\<^sup>*\<^sup>* \<lparr>rc_gold = g, rc_inflight = []\<rparr> \<lparr>rc_gold = g, rc_inflight = [(cs, ps)]\<rparr>"
    using recon_step.load [OF ok _ ps, of _ _ "\<lparr>rc_gold = g, rc_inflight = []\<rparr>"] cs_def
    by (simp add: r_into_rtranclp)
  show ?thesis
  proof (cases "persist_pairs (fe_persist env) ps cs g")
    case (Inl e)
    then have "h = g" using run ps by (simp add: matching_phases_def Let_def cs_def [symmetric])
    then show ?thesis by auto
  next
    case (Inr x)
    obtain w k g1 where p: "persist_pairs (fe_persist env) ps cs g = Inr ((w, k), g1)" using Inr by (metis surj_pair)
    have "recon_step \<lparr>rc_gold = g, rc_inflight = [(cs, ps)]\<rparr> \<lparr>rc_gold = g1, rc_inflight = [(cs, ps)]\<rparr>"
      using recon_step.persist [of cs ps "\<lparr>rc_gold = g, rc_inflight = [(cs, ps)]\<rparr>"] p by simp
    then have r1: "recon_step\<^sup>*\<^sup>* \<lparr>rc_gold = g, rc_inflight = []\<rparr> \<lparr>rc_gold = g1, rc_inflight = [(cs, ps)]\<rparr>" "g_runs g1 = g_runs g"
      using load persist_loop_runs p by (auto simp: persist_pairs_def split: if_splits)
    consider "h = g1" | n g2 where "raise_missing_settlements (fe_missing env) g1 = Inr (n, g2)"
        "h = g2 \<or> (\<exists>r. dispatch_pending_alerts (fe_alerts env) g2 = (r, h))"
      using run ps p by (auto simp: matching_phases_def Let_def cs_def [symmetric] split: sum.splits option.splits prod.splits)
    then show ?thesis
    proof cases
      case 1
      then show ?thesis using r1 by blast
    next
      case 2
      have r2: "recon_step\<^sup>*\<^sup>* \<lparr>rc_gold = g, rc_inflight = []\<rparr> \<lparr>rc_gold = g2, rc_inflight = [(cs, ps)]\<rparr>"
        by (rule rtranclp_trans [OF r1(1) recon_other [OF gold_write.missing [OF 2(1)]]])
      have "g_runs g2 = g_runs g" using 2(1) r1(2) upsert_all_runs by (auto simp: raise_missing_settlements_def split: if_splits)
      then show ?thesis
        using 2(2) r2 rtranclp_trans [OF r2 recon_other [OF gold_write.alerts]] dispatch_loop_runs
        by (auto simp: dispatch_pending_alerts_def split: if_splits) metis+
    qed
  qed
qed

subsection \<open>A reachable state\<close>

text \<open>One overdue transaction arrives and the matching flow raises it.\<close>

definition example_silver :: gold where
  "example_silver = grown (example_tx 1 ''paystack'' ''credit'' 50000 (Some 0)) (rc_gold empty_recon)"

lemma example_reached:
  "\<exists>h d. recon_step\<^sup>*\<^sup>* empty_recon \<lparr>rc_gold = h, rc_inflight = []\<rparr> \<and> find_disc h (d_id d) = Some d \<and> d_state d = OPEN"
proof -
  let ?r = "example_tx 1 ''paystack'' ''credit'' 50000 (Some 0)"
  have "recon_step empty_recon \<lparr>rc_gold = example_silver, rc_inflight = []\<rparr>"
    using recon_step.transact [of ?r empty_recon] by (simp add: example_silver_def empty_recon_def tx_ids_def)
  then have r1: "recon_step\<^sup>*\<^sup>* empty_recon \<lparr>rc_gold = example_silver, rc_inflight = []\<rparr>" by (rule r_into_rtranclp)
  have rows: "filter (overdue (pe_now example_env) example_silver) (g_silver example_silver) = [?r]"
    by (simp add: overdue_def directed_def is_matched_def example_silver_def grown_def empty_recon_def example_env_def example_tx_def)
  have "\<forall>r \<in> set [?r]. tx_id r \<in> tx_ids example_silver \<and> storable r"
    using pg_round_int [of 6 50000] by (simp add: storable_def tx_ids_def example_silver_def grown_def example_tx_def)
  moreover have "fresh_ids example_env (map tx_id [?r]) example_silver"
    by (simp add: fresh_ids_def example_silver_def grown_def empty_recon_def)
  ultimately obtain as h where up: "upsert_all example_env [?r] example_silver = Inr (as, h)" using upsert_all_total by blast
  then have mis: "raise_missing_settlements example_env example_silver = Inr (count_list as Raised, h)"
    by (simp only: raise_missing_settlements_def rows sbind.simps) (simp add: example_env_def)
  have r2: "recon_step\<^sup>*\<^sup>* empty_recon \<lparr>rc_gold = h, rc_inflight = []\<rparr>"
    by (rule rtranclp_trans [OF r1 recon_other [OF gold_write.missing [OF mis]]])
  have "disc_at h (missing_key ?r) = Some (upserted example_env 0 ?r None)"
    using upsert_all_at [OF up] by (simp add: disc_at_def example_silver_def grown_def empty_recon_def example_tx_def)
  then have d: "upserted example_env 0 ?r None \<in> set (g_discs h)" unfolding disc_at_def by (rule find_key_Some [THEN conjunct1])
  have "gold_inv h" using recon_run_inv [OF r2 empty_inv] by (simp add: recon_inv_def)
  then have "distinct (map d_id (g_discs h))" by (simp add: gold_inv_def discs_inv_def)
  from find_disc_row [OF this d] have "find_disc h (d_id (upserted example_env 0 ?r None)) = Some (upserted example_env 0 ?r None)" .
  moreover have "d_state (upserted example_env 0 ?r None) = OPEN" by (simp add: upserted_def missing_disc_def)
  ultimately show ?thesis using r2 by blast
qed

subsection \<open>Properties\<close>

text \<open>
  C2 No transaction is matched twice (C-004), under any interleaving: whatever runs overlap and
  whatever else writes, in every reachable state a transaction is in at most one pair, each pair
  joins two Silver transactions of opposite directions on different PSPs that did not fail, both
  sides and only they are recorded as matched, there is one discrepancy per transaction and
  class with a non-negative exposure, and its append-only trail replays to its status.
\<close>

theorem reconciliation_sound:
  assumes "recon_step\<^sup>*\<^sup>* empty_recon s" and "g = rc_gold s"
  shows "(\<forall>p \<in> set (g_pairs g). \<forall>q \<in> set (g_pairs g). {p_a p, p_b p} \<inter> {p_a q, p_b q} \<noteq> {} \<longrightarrow> p = q) \<and>
    (\<forall>p \<in> set (g_pairs g). p_a p \<noteq> p_b p \<and> opposite g (p_a p) (p_b p) \<and> 0 \<le> p_confidence p \<and> p_confidence p \<le> 1) \<and>
    (\<forall>t. is_matched g t \<longleftrightarrow> (\<exists>p \<in> set (g_pairs g). t \<in> {p_a p, p_b p})) \<and>
    distinct (map disc_key (g_discs g)) \<and>
    (\<forall>d \<in> set (g_discs g). 0 \<le> d_exposure d \<and> replay None (events_of g (d_id d)) = Some (Some (d_state d)) \<and>
      length (accepted_alerts g (d_id d)) = (if d_alerted d = None then 0 else 1))"
proof -
  have inv: "gold_inv g" using recon_run_inv [OF assms(1) empty_inv] assms(2) by (simp add: recon_inv_def)
  then have dist: "distinct (map p_id (g_pairs g))" "distinct (map fst (g_matched g))"
    and m: "set (g_matched g) = (\<Union>p \<in> set (g_pairs g). {(p_a p, p_id p), (p_b p, p_id p)})"
    and rows: "\<forall>p \<in> set (g_pairs g). pair_checks p \<and> opposite g (p_a p) (p_b p)"
    unfolding gold_inv_def pairs_inv_def by blast+
  have "p = q" if pq: "p \<in> set (g_pairs g)" "q \<in> set (g_pairs g)" and t: "t \<in> {p_a p, p_b p}" "t \<in> {p_a q, p_b q}" for p q t
  proof -
    have "(t, p_id p) \<in> set (g_matched g)" "(t, p_id q) \<in> set (g_matched g)" using pq t unfolding m by blast+
    then have "p_id p = p_id q" using dist(2) by (metis eq_key_imp_eq_value)
    then show ?thesis using distinct_map_filter_eq [OF dist(1) pq] by blast
  qed
  moreover have "is_matched g t \<longleftrightarrow> (\<exists>p \<in> set (g_pairs g). t \<in> {p_a p, p_b p})" for t
    unfolding is_matched_def m by (simp add: image_UN)
  ultimately show ?thesis
    using inv rows unfolding gold_inv_def discs_inv_def alerts_inv_def disc_ok_def trail_ok_def pair_checks_def by blast
qed

text \<open>
  C4 The tables refine the lifecycle: between any two reachable states the statuses move by raising
  a discrepancy that did not exist and closing an open one; hence one that was closed keeps its
  outcome for ever, and its transaction and class are never raised again (migration 014).
\<close>

theorem workflow_refines_lifecycle:
  assumes "recon_step\<^sup>*\<^sup>* empty_recon s" and "recon_step\<^sup>*\<^sup>* s t"
  shows "life_step\<^sup>*\<^sup>* (life (rc_gold s)) (life (rc_gold t)) \<and>
    (\<forall>k st. life (rc_gold s) k = Some st \<and> closed st \<longrightarrow> life (rc_gold t) k = Some st)"
proof -
  have "recon_inv s" using recon_run_inv [OF assms(1) empty_inv] by blast
  from recon_run_inv [OF assms(2) this] have "life_step\<^sup>*\<^sup>* (life (rc_gold s)) (life (rc_gold t))" by blast
  then show ?thesis using life_run_final by blast
qed

text \<open>
  Every execution of the matching flow is a run of the system, whichever phase fails, and it is
  recorded: the run row is completed when the flow returned and failed, with the error, when it
  raised.
\<close>

theorem matching_flow_runs:
  assumes "config_ok (fe_config env)" and "silver_to_gold_matching_flow env g = (res, h)"
    and "runs_ok (g_runs g)" and "fe_new_run env \<notin> run_id ` set (g_runs g)" and "fe_finish_commits env"
  shows "(\<exists>F. recon_step\<^sup>*\<^sup>* \<lparr>rc_gold = g, rc_inflight = []\<rparr> \<lparr>rc_gold = h, rc_inflight = F\<rparr>) \<and>
    (\<exists>r. List.find (\<lambda>r. run_id r = fe_new_run env) (g_runs h) = Some r \<and> completed_at r = Some (fe_finish env) \<and>
      (case res of Inr s \<Rightarrow> run_state r = COMPLETED \<and> records_processed r = fs_candidates s
         | Inl e \<Rightarrow> run_state r = FAILED \<and> error_message r = Some (exc_text e)))"
proof -
  let ?flow = "''silver-to-gold-matching-flow''"
  obtain rs where st: "start_run (fe_new_run env) (fe_start env) ?flow ''scheduler'' (g_runs g) = Inr (fe_new_run env, rs)"
    using assms(4) by (simp add: start_run_def)
  obtain r1 h1 where ph: "matching_phases env (with_runs rs g) = (r1, h1)" by force
  have sel: "g_runs (with_runs q k) = q" "with_runs q (with_runs q' k) = with_runs q k" for q q' k by (simp_all add: with_runs_def)
  obtain F where F: "recon_step\<^sup>*\<^sup>* \<lparr>rc_gold = with_runs rs g, rc_inflight = []\<rparr> \<lparr>rc_gold = h1, rc_inflight = F\<rparr>"
    and runs: "g_runs h1 = rs"
    using phases_run [OF assms(1) ph] by (auto simp: sel)
  define n err where "n = (case r1 of Inl e \<Rightarrow> 0 | Inr s \<Rightarrow> fs_candidates s)"
    and "err = (case r1 of Inl e \<Rightarrow> Some (exc_text e) | Inr s \<Rightarrow> None)"
  have h: "h = with_runs (finish_run (fe_new_run env) (fe_finish env) n 0 err rs) h1" and res: "res = r1"
    using assms(2,5) st ph runs by (auto simp: silver_to_gold_matching_flow_def Let_def n_def err_def split: sum.splits)
  have "recon_step\<^sup>*\<^sup>* \<lparr>rc_gold = h1, rc_inflight = F\<rparr> \<lparr>rc_gold = h, rc_inflight = F\<rparr>"
    using recon_other [OF gold_write.finished [of h1 "fe_new_run env" "fe_finish env" n 0 err]] runs by (simp add: h)
  moreover have "recon_step\<^sup>*\<^sup>* \<lparr>rc_gold = g, rc_inflight = []\<rparr> \<lparr>rc_gold = with_runs rs g, rc_inflight = []\<rparr>"
    by (rule recon_other [OF gold_write.started [OF st]])
  ultimately have "recon_step\<^sup>*\<^sup>* \<lparr>rc_gold = g, rc_inflight = []\<rparr> \<lparr>rc_gold = h, rc_inflight = F\<rparr>"
    using F by (meson rtranclp_trans)
  then show ?thesis
    using find_run_finished [OF assms(3) st, of "fe_finish env" n 0 err]
    by (auto simp: h sel res n_def err_def finish_row_def split: sum.splits)
qed

theorem reconciliation_sound_witness:
  "\<exists>s d. recon_step\<^sup>*\<^sup>* empty_recon s \<and> d \<in> set (g_discs (rc_gold s)) \<and>
     replay None (events_of (rc_gold s) (d_id d)) = Some (Some OPEN)"
proof -
  obtain h d where r: "recon_step\<^sup>*\<^sup>* empty_recon \<lparr>rc_gold = h, rc_inflight = []\<rparr>" "find_disc h (d_id d) = Some d" "d_state d = OPEN"
    using example_reached by blast
  have "d \<in> set (g_discs h)" using find_disc_Some [OF r(2)] by blast
  with reconciliation_sound [OF r(1) refl] r show ?thesis
    by (intro exI [of _ "\<lparr>rc_gold = h, rc_inflight = []\<rparr>"] exI [of _ d]) simp
qed

theorem workflow_refines_lifecycle_witness:
  "\<exists>s t k. recon_step\<^sup>*\<^sup>* empty_recon s \<and> recon_step\<^sup>*\<^sup>* s t \<and> life (rc_gold s) k = Some OPEN \<and>
     life (rc_gold t) k = Some CLOSED_RESOLVED \<and> life_step\<^sup>*\<^sup>* (life (rc_gold s)) (life (rc_gold t))"
proof -
  obtain h d where r: "recon_step\<^sup>*\<^sup>* empty_recon \<lparr>rc_gold = h, rc_inflight = []\<rparr>" "find_disc h (d_id d) = Some d" "d_state d = OPEN"
    using example_reached by blast
  have inv: "gold_inv h" using recon_run_inv [OF r(1) empty_inv] by (simp add: recon_inv_def)
  have note_ok: "note_ok ''settled by hand''" "length (actor_of None) \<le> 200" by (simp_all add: note_ok_def actor_of_def)
  obtain k where k: "resolve_discrepancy True 5 None (d_id d) ''settled by hand'' Resolve h = Inr ((d_id d, CLOSED_RESOLVED, actor_of None), k)"
      "g_discs k = map (\<lambda>c. if d_id c = d_id d then close_row 5 (actor_of None) ''settled by hand'' Resolve c else c) (g_discs h)"
      "gold_inv k"
    using resolve_effect [OF inv r(2) _ note_ok, of 5 Resolve] r(3) by auto
  have st: "recon_step\<^sup>*\<^sup>* \<lparr>rc_gold = h, rc_inflight = []\<rparr> \<lparr>rc_gold = k, rc_inflight = []\<rparr>"
    by (rule recon_other [OF gold_write.resolve [OF k(1)]])
  have d: "d \<in> set (g_discs h)" using find_disc_Some [OF r(2)] by blast
  let ?c = "close_row 5 (actor_of None) ''settled by hand'' Resolve d"
  have c: "?c \<in> set (g_discs k)" using d unfolding k(2) by force
  have "life h (disc_key d) = Some OPEN" "life k (disc_key ?c) = Some CLOSED_RESOLVED"
    using life_row [OF _ d] life_row [OF _ c] inv k(3) r(3) by (simp_all add: gold_inv_def discs_inv_def)
  then show ?thesis
    using workflow_refines_lifecycle [OF r(1) st] r(1) st
    by (intro exI [of _ "\<lparr>rc_gold = h, rc_inflight = []\<rparr>"] exI [of _ "\<lparr>rc_gold = k, rc_inflight = []\<rparr>"] exI [of _ "disc_key d"])
      simp
qed

definition example_flow :: flow_env where
  "example_flow = \<lparr>fe_config = DEFAULT_CONFIG, fe_new_run = 3, fe_start = 0, fe_load = 1, fe_persist = example_env,
     fe_missing = example_env, fe_refresh = Some DatabaseError, fe_alerts = example_alerts, fe_finish = 2,
     fe_finish_commits = True\<rparr>"

theorem matching_flow_runs_witness:
  "\<exists>res h r. silver_to_gold_matching_flow example_flow example_gold = (res, h) \<and>
     List.find (\<lambda>r. run_id r = 3) (g_runs h) = Some r \<and> completed_at r = Some 2"
proof -
  obtain res h where run: "silver_to_gold_matching_flow example_flow example_gold = (res, h)" by force
  have e: "config_ok (fe_config example_flow)" "runs_ok (g_runs example_gold)" "fe_finish_commits example_flow"
    "fe_new_run example_flow \<notin> run_id ` set (g_runs example_gold)"
    using default_config_ok by (simp_all add: example_flow_def example_gold_def runs_ok_def)
  from matching_flow_runs [OF e(1) run e(2,4,3)] run show ?thesis by (auto simp: example_flow_def)
qed

end
