(* ===== verification/Config.thy ===== *)
theory Config
  imports Matching
begin

text \<open>
  \<open>src/config.py\<close>: the settings, after the types have been parsed from the environment, and their
  validation at start-up; and \<open>MatchingConfig.from_settings\<close> of \<open>src/engine/matching.py\<close>.
\<close>

record settings =
  s_environment :: string
  s_log_level :: string
  s_pool_size :: int
  s_max_overflow :: int
  s_producer_acks :: string
  s_delivery_timeout :: rat
  s_minio_access_key :: string
  s_minio_secret_key :: string
  s_paystack_secret_key :: string
  s_flutterwave_secret_key :: string
  s_flutterwave_secret_hash :: string
  s_fx_provider_api_key :: "string option"
  s_fx_capture_interval_minutes :: int
  s_fx_variance_threshold_pct :: rat
  s_primary_window_hours :: int
  s_secondary_window_hours :: int
  s_confidence_threshold :: rat
  s_amount_tolerance_pct :: rat
  s_matching_schedule_minutes :: int
  s_pii_tokenization_key :: string
  s_polling_interval_minutes :: int
  s_gap_detection_interval_hours :: int
  s_slack_webhook_url :: "string option"
  s_alert_exposure_threshold :: rat
  s_auth_disabled :: bool
  s_rate_limit_per_minute :: int
  s_rate_limit_max_buckets :: int

definition normalise_environment :: "string \<Rightarrow> string" where
  "normalise_environment v = py_strip (py_lower v)"

definition secret_not_empty :: "string \<Rightarrow> bool" where
  "secret_not_empty v \<longleftrightarrow> py_strip v \<noteq> ''''"

definition blank_optional_secret_is_none :: "string option \<Rightarrow> string option" where
  "blank_optional_secret_is_none v = (case v of None \<Rightarrow> None | Some s \<Rightarrow> if py_strip s = '''' then None else Some s)"

definition tokenization_key_strong :: "string \<Rightarrow> bool" where
  "tokenization_key_strong v \<longleftrightarrow> 32 \<le> length v"

definition in_range :: "'a::linorder \<Rightarrow> 'a \<Rightarrow> 'a \<Rightarrow> bool" where
  "in_range a x b \<longleftrightarrow> a \<le> x \<and> x \<le> b"

text \<open>The \<open>Literal\<close> types and the bounds of each \<open>Field\<close>.\<close>

definition fields_ok :: "settings \<Rightarrow> bool" where
  "fields_ok s \<longleftrightarrow> s_environment s \<in> set [''development'', ''staging'', ''production''] \<and>
     s_log_level s \<in> set [''DEBUG'', ''INFO'', ''WARNING'', ''ERROR''] \<and>
     in_range 1 (s_pool_size s) 50 \<and> in_range 0 (s_max_overflow s) 100 \<and>
     s_producer_acks s \<in> set [''0'', ''1'', ''all''] \<and> 0 < s_delivery_timeout s \<and> s_delivery_timeout s \<le> 60 \<and>
     in_range 5 (s_fx_capture_interval_minutes s) 1440 \<and> in_range 0 (s_fx_variance_threshold_pct s) (fl (1 / 10)) \<and>
     in_range 1 (s_primary_window_hours s) 720 \<and> in_range 1 (s_secondary_window_hours s) 720 \<and>
     in_range (1 / 2) (s_confidence_threshold s) 1 \<and> in_range 0 (s_amount_tolerance_pct s) (fl (2 / 10)) \<and>
     in_range 1 (s_matching_schedule_minutes s) 1440 \<and> in_range 5 (s_polling_interval_minutes s) 60 \<and>
     in_range 1 (s_gap_detection_interval_hours s) 24 \<and> 0 \<le> s_alert_exposure_threshold s \<and>
     1 \<le> s_rate_limit_per_minute s \<and> 100 \<le> s_rate_limit_max_buckets s"

definition secrets_ok :: "settings \<Rightarrow> bool" where
  "secrets_ok s \<longleftrightarrow> list_all secret_not_empty [s_minio_access_key s, s_minio_secret_key s, s_paystack_secret_key s,
     s_flutterwave_secret_key s, s_flutterwave_secret_hash s] \<and> tokenization_key_strong (s_pii_tokenization_key s)"

text \<open>\<open>Settings()\<close>: the normalised settings, or the validation error that stops the process.\<close>

definition load_settings :: "settings \<Rightarrow> exc + settings" where
  "load_settings raw = (
     let s = raw\<lparr>s_environment := normalise_environment (s_environment raw),
       s_fx_provider_api_key := blank_optional_secret_is_none (s_fx_provider_api_key raw),
       s_slack_webhook_url := blank_optional_secret_is_none (s_slack_webhook_url raw)\<rparr> in
     if \<not> fields_ok s then Inl (ValueError ''invalid field'')
     else if \<not> secrets_ok s then Inl (ValueError ''must not be empty'')
     else if s_auth_disabled s \<and> s_environment s \<noteq> ''development''
     then Inl (ValueError ''API_AUTH_DISABLED=true is only allowed when ENVIRONMENT=development'')
     else if s_secondary_window_hours s < s_primary_window_hours s
     then Inl (ValueError ''primary matching window must not exceed the secondary window'')
     else Inr s)"

text \<open>\<open>Decimal(str(x))\<close> of a float is \<^const>\<open>decimal_of_float\<close>.\<close>

definition from_settings :: "settings \<Rightarrow> match_config" where
  "from_settings s = DEFAULT_CONFIG\<lparr>primary_time_window := s_primary_window_hours s * us_hour,
     probabilistic_threshold := s_confidence_threshold s,
     probabilistic_time_window := s_secondary_window_hours s * us_hour,
     amount_tolerance_pct := decimal_of_float (s_amount_tolerance_pct s),
     fx_variance_threshold_pct := decimal_of_float (s_fx_variance_threshold_pct s)\<rparr>"

lemma load_settings_Inr:
  assumes "load_settings raw = Inr s"
  shows "fields_ok s" "secrets_ok s" "s_auth_disabled s \<Longrightarrow> s_environment s = ''development''"
    "s_primary_window_hours s \<le> s_secondary_window_hours s"
  using assms unfolding load_settings_def Let_def by (simp_all split: if_splits) force+

lemma from_settings_sel [simp]:
  "weight_amount (from_settings s) = weight_amount DEFAULT_CONFIG" "weight_time (from_settings s) = weight_time DEFAULT_CONFIG"
  "weight_name (from_settings s) = weight_name DEFAULT_CONFIG" "weight_bank (from_settings s) = weight_bank DEFAULT_CONFIG"
  "ambiguity_margin (from_settings s) = ambiguity_margin DEFAULT_CONFIG"
  "probabilistic_time_window (from_settings s) = s_secondary_window_hours s * us_hour"
  "primary_time_window (from_settings s) = s_primary_window_hours s * us_hour"
  "probabilistic_threshold (from_settings s) = s_confidence_threshold s"
  by (simp_all add: from_settings_def)

text \<open>
  C28 Settings that load are safe to run on: whatever the environment holds, a process that starts has
  a matching configuration the engine is proved for, with a primary window no wider than the
  secondary one and a threshold of at least one half, non-empty webhook secrets, and
  authentication switched off only in development.
\<close>

theorem loaded_settings_safe:
  assumes "load_settings raw = Inr s"
  shows "config_ok (from_settings s) \<and> weights_ok (from_settings s) \<and>
    primary_time_window (from_settings s) \<le> probabilistic_time_window (from_settings s) \<and>
    1 / 2 \<le> probabilistic_threshold (from_settings s) \<and>
    s_paystack_secret_key s \<noteq> '''' \<and> s_flutterwave_secret_hash s \<noteq> '''' \<and>
    (s_auth_disabled s \<longrightarrow> s_environment s = ''development'')"
proof -
  note l = load_settings_Inr [OF assms]
  have "py_strip '''' = ''''" by code_simp
  moreover have "0 < s_secondary_window_hours s" using l(1) by (simp add: fields_ok_def in_range_def)
  ultimately show ?thesis
    using l default_margin_pos default_weights_ok
    by (auto simp: config_ok_def window_ok_def weights_ok_def secrets_ok_def secret_not_empty_def fields_ok_def in_range_def)
qed

definition example_settings :: settings where
  "example_settings = \<lparr>s_environment = '' Production'', s_log_level = ''INFO'', s_pool_size = 10, s_max_overflow = 20,
     s_producer_acks = ''all'', s_delivery_timeout = 10, s_minio_access_key = ''k'', s_minio_secret_key = ''k'',
     s_paystack_secret_key = ''k'', s_flutterwave_secret_key = ''k'', s_flutterwave_secret_hash = ''k'',
     s_fx_provider_api_key = Some '' '', s_fx_capture_interval_minutes = 30, s_fx_variance_threshold_pct = fl (5 / 1000),
     s_primary_window_hours = 72, s_secondary_window_hours = 168, s_confidence_threshold = fl (75 / 100),
     s_amount_tolerance_pct = fl (5 / 100), s_matching_schedule_minutes = 5,
     s_pii_tokenization_key = ''0123456789abcdef0123456789abcdef'', s_polling_interval_minutes = 15,
     s_gap_detection_interval_hours = 24, s_slack_webhook_url = None, s_alert_exposure_threshold = 100000,
     s_auth_disabled = False, s_rate_limit_per_minute = 100, s_rate_limit_max_buckets = 10000\<rparr>"

lemma example_settings_load: "case load_settings example_settings of Inl e \<Rightarrow> False
    | Inr s \<Rightarrow> s_environment s = ''production'' \<and> s_fx_provider_api_key s = None \<and> s_gap_detection_interval_hours s = 24"
  by code_simp

theorem loaded_settings_safe_witness:
  "\<exists>s. load_settings example_settings = Inr s \<and> config_ok (from_settings s) \<and> s_environment s = ''production''"
proof -
  obtain s where s: "load_settings example_settings = Inr s" "s_environment s = ''production''"
    using example_settings_load by (auto split: sum.splits)
  with loaded_settings_safe [OF s(1)] show ?thesis by blast
qed

end
