(* ===== verification/Rate_Limit.thy ===== *)
theory Rate_Limit
  imports Clock
begin

text \<open>
  \<open>TokenBucket\<close> and \<open>BucketStore\<close> of \<open>src/api/middleware/rate_limit.py\<close>. Times are readings of the
  monotonic clock in seconds; every float operation is rounded to binary64. The ordered dictionary
  is an association list, least recently used entry first.
\<close>

subsection \<open>The bucket\<close>

record bucket =
  b_capacity :: int
  b_tokens :: rat
  b_last :: rat

definition new_bucket :: "int \<Rightarrow> rat \<Rightarrow> bucket" where
  "new_bucket capacity now = \<lparr>b_capacity = capacity, b_tokens = fl (of_int capacity), b_last = now\<rparr>"

definition consume :: "rat \<Rightarrow> bucket \<Rightarrow> bool \<times> bucket" where
  "consume now b = (
     let elapsed = max 0 (fl (now - b_last b));
         tokens = min (fl (of_int (b_capacity b)))
           (fl (b_tokens b + fl (fl (elapsed * of_int (b_capacity b)) / 60)));
         b1 = b\<lparr>b_tokens := tokens, b_last := now\<rparr>
     in if 1 \<le> tokens then (True, b1\<lparr>b_tokens := fl (tokens - 1)\<rparr>) else (False, b1))"

definition remaining :: "bucket \<Rightarrow> int" where
  "remaining b = py_trunc (b_tokens b)"

text \<open>The header of a refusal.\<close>

definition retry_after :: "int \<Rightarrow> int" where
  "retry_after capacity = max 1 (py_trunc (fl (60 / of_int capacity)))"

definition bucket_ok :: "bucket \<Rightarrow> bool" where
  "bucket_ok b \<longleftrightarrow> 1 \<le> b_capacity b \<and> b_capacity b \<le> 2 ^ 53 \<and> 0 \<le> b_tokens b \<and> b_tokens b \<le> of_int (b_capacity b)"

lemma fl_capacity: "1 \<le> c \<Longrightarrow> c \<le> 2 ^ 53 \<Longrightarrow> fl (of_int c) = of_int c"
  by (rule fl_int) simp

lemma new_bucket_ok [inv_intros]: "1 \<le> c \<Longrightarrow> c \<le> 2 ^ 53 \<Longrightarrow> bucket_ok (new_bucket c now)"
  by (simp add: bucket_ok_def new_bucket_def fl_capacity del: of_int_le_iff)

subsection \<open>Refilling\<close>

definition refilled :: "rat \<Rightarrow> bucket \<Rightarrow> rat" where
  "refilled now b = min (fl (of_int (b_capacity b)))
     (fl (b_tokens b + fl (fl (max 0 (fl (now - b_last b)) * of_int (b_capacity b)) / 60)))"

lemma consume_eq: "consume now b = (if 1 \<le> refilled now b
    then (True, b\<lparr>b_tokens := fl (refilled now b - 1), b_last := now\<rparr>)
    else (False, b\<lparr>b_tokens := refilled now b, b_last := now\<rparr>))"
  by (simp add: consume_def refilled_def Let_def)

lemma consume_frame: "consume now b = (a, b') \<Longrightarrow> b_capacity b' = b_capacity b \<and> b_last b' = now"
  by (auto simp: consume_eq split: if_splits)

lemma gain_nonneg: "bucket_ok b \<Longrightarrow> 0 \<le> fl (fl (max 0 (fl (now - b_last b)) * of_int (b_capacity b)) / 60)"
  by (intro fl.nonneg divide_nonneg_nonneg mult_nonneg_nonneg) (auto simp: bucket_ok_def)

lemma refilled_bounds:
  assumes "bucket_ok b"
  shows "0 \<le> refilled now b" "refilled now b \<le> of_int (b_capacity b)"
proof -
  have c: "fl (of_int (b_capacity b)) = of_int (b_capacity b)" "0 \<le> b_tokens b" "1 \<le> b_capacity b"
    using assms by (auto simp: bucket_ok_def intro: fl_capacity)
  then show "0 \<le> refilled now b"
    unfolding refilled_def using gain_nonneg [OF assms, of now] by (auto intro!: fl.nonneg)
  show "refilled now b \<le> of_int (b_capacity b)" unfolding refilled_def c by simp
qed

lemma consume_ok [inv_intros]:
  assumes b: "bucket_ok b" and c: "consume now b = (a, b')"
  shows "bucket_ok b'"
proof -
  have "0 \<le> fl (refilled now b - 1)" if "1 \<le> refilled now b" using that by (intro fl.nonneg) simp
  moreover have "fl (refilled now b - 1) \<le> of_int (b_capacity b)"
  proof (rule fl.le_fixed)
    show "refilled now b - 1 \<le> of_int (b_capacity b)" using refilled_bounds(2) [OF b, of now] by linarith
    show "fl (of_int (b_capacity b)) = of_int (b_capacity b)" using b by (auto simp: bucket_ok_def intro: fl_capacity)
  qed
  ultimately show ?thesis
    using b c refilled_bounds [OF b, of now] by (auto simp: consume_eq bucket_ok_def split: if_splits)
qed

text \<open>What a wait of a whole number of seconds adds, and its two consequences.\<close>

lemma gain_after:
  assumes b: "bucket_ok b" and w: "of_int s \<le> now - b_last b" "0 \<le> s" "s * b_capacity b \<le> 2 ^ 53"
  shows "fl (of_int (s * b_capacity b) / 60) \<le> fl (fl (max 0 (fl (now - b_last b)) * of_int (b_capacity b)) / 60)"
proof -
  have c: "1 \<le> b_capacity b" using b by (simp add: bucket_ok_def)
  have "s * 1 \<le> s * b_capacity b" using c w(2) by (intro mult_left_mono) auto
  then have "fl (of_int s) = of_int s" using w(2,3) by (intro fl_int) auto
  then have "of_int s \<le> max 0 (fl (now - b_last b))" using fl.ge_fixed [OF w(1)] by simp
  then have "of_int s * of_int (b_capacity b) \<le> max 0 (fl (now - b_last b)) * of_int (b_capacity b)"
    using c by (intro mult_right_mono) auto
  then have "of_int (s * b_capacity b) \<le> fl (max 0 (fl (now - b_last b)) * of_int (b_capacity b))"
    using fl_int [of "s * b_capacity b"] w(2,3) c by (intro fl.ge_fixed) (simp_all add: abs_mult)
  then show ?thesis by (intro fl.mono divide_right_mono) auto
qed

lemma refilled_after:
  assumes b: "bucket_ok b" and w: "of_int s \<le> now - b_last b" "0 \<le> s" "s * b_capacity b \<le> 2 ^ 53"
    and k: "60 * k \<le> s * b_capacity b" "0 \<le> k" "k \<le> b_capacity b"
  shows "of_int k \<le> refilled now b"
proof -
  have c: "1 \<le> b_capacity b" "b_capacity b \<le> 2 ^ 53" "0 \<le> b_tokens b" using b by (auto simp: bucket_ok_def)
  have fk: "fl (of_int k) = of_int k" using k(2,3) c by (intro fl_int) auto
  have "(of_int (60 * k) :: rat) \<le> of_int (s * b_capacity b)" using k(1) by (simp only: of_int_le_iff)
  then have "of_int k \<le> fl (of_int (s * b_capacity b) / 60)" using fk by (intro fl.ge_fixed) (simp_all add: field_simps)
  then have "of_int k \<le> b_tokens b + fl (fl (max 0 (fl (now - b_last b)) * of_int (b_capacity b)) / 60)"
    using gain_after [OF b w] c(3) by linarith
  then show ?thesis unfolding refilled_def using fk k(3) c by (auto simp: fl_capacity intro: fl.ge_fixed)
qed

lemma consume_after_minute:
  assumes "bucket_ok b" "60 \<le> now - b_last b" "60 * b_capacity b \<le> 2 ^ 53"
  shows "consume now b = (True, b\<lparr>b_tokens := of_int (b_capacity b - 1), b_last := now\<rparr>)"
proof -
  have c: "1 \<le> b_capacity b" using assms by (simp add: bucket_ok_def)
  have "refilled now b = of_int (b_capacity b)"
    using refilled_after [of b 60 now "b_capacity b"] refilled_bounds(2) [of b now] assms c by auto
  moreover have "fl (of_int (b_capacity b - 1)) = of_int (b_capacity b - 1)" using c assms(3) by (intro fl_int) auto
  ultimately show ?thesis using c by (simp add: consume_eq)
qed

lemma consume_after_retry:
  assumes "bucket_ok b" "of_int s \<le> now - b_last b" "0 \<le> s" "60 \<le> s * b_capacity b" "s * b_capacity b \<le> 2 ^ 53"
  shows "fst (consume now b)"
proof -
  have "1 \<le> b_capacity b" using assms by (simp add: bucket_ok_def)
  then show ?thesis using refilled_after [of b s now 1] assms by (simp add: consume_eq)
qed

subsection \<open>The rate a source of tokens allows\<close>

text \<open>The calls at the given times, and how many of them are granted.\<close>

fun grants :: "(rat \<Rightarrow> 'b \<Rightarrow> bool \<times> 'b) \<Rightarrow> rat list \<Rightarrow> 'b \<Rightarrow> nat \<times> 'b" where
  "grants draw [] b = (0, b)"
| "grants draw (t # ts) b = (let (a, b1) = draw t b; (n, b2) = grants draw ts b1 in ((if a then Suc n else n), b2))"

text \<open>
  A source whose level pays for every grant and grows, per call, by no more than the elapsed time
  at a fixed rate and a slack.
\<close>

locale token_source =
  fixes ok :: "'b \<Rightarrow> bool" and level :: "'b \<Rightarrow> rat" and last_call :: "'b \<Rightarrow> rat"
    and draw :: "rat \<Rightarrow> 'b \<Rightarrow> bool \<times> 'b" and rate :: "'b \<Rightarrow> rat" and slack :: "'b \<Rightarrow> rat"
  assumes level_nonneg: "ok b \<Longrightarrow> 0 \<le> level b"
    and keeps: "ok b \<Longrightarrow> draw t b = (a, b') \<Longrightarrow> ok b' \<and> last_call b' = t \<and> rate b' = rate b \<and> slack b' = slack b"
    and pays: "ok b \<Longrightarrow> last_call b \<le> t \<Longrightarrow> draw t b = (a, b') \<Longrightarrow>
      level b' + of_bool a \<le> level b + (t - last_call b) * rate b + slack b"
begin

lemma granted_at_most:
  assumes "ok b" "sorted (last_call b # ts)" "grants draw ts b = (n, b')"
  shows "of_nat n + level b' \<le> level b + (last_call b' - last_call b) * rate b + of_nat (length ts) * slack b \<and> ok b'"
  using assms
proof (induction ts arbitrary: b n)
  case (Cons t ts)
  obtain a b1 where t: "draw t b = (a, b1)" by fastforce
  obtain m b2 where g: "grants draw ts b1 = (m, b2)" by fastforce
  have r: "n = of_bool a + m" "b2 = b'" using Cons.prems(3) t g by (auto split: if_splits)
  have k: "ok b1" "last_call b1 = t" "rate b1 = rate b" "slack b1 = slack b" using keeps [OF Cons.prems(1) t] by auto
  have p: "level b1 + of_bool a \<le> level b + (t - last_call b) * rate b + slack b"
    using pays [OF Cons.prems(1) _ t] Cons.prems(2) by simp
  have "of_nat m + level b2 \<le> level b1 + (last_call b2 - t) * rate b + of_nat (length ts) * slack b \<and> ok b2"
    using Cons.IH [of b1 m] g k Cons.prems(2) r(2) by simp
  then show ?case using p by (simp add: r algebra_simps)
qed simp

end

text \<open>The bucket is such a source, up to the rounding of its floats.\<close>

lemma fl_relative: "\<bar>fl x - x\<bar> \<le> \<bar>x\<bar> / 2 ^ 53"
proof (cases "x = 0")
  case False
  define u :: rat where "u = 2 powi (ilog 2 \<bar>x\<bar> - 52)"
  have u: "0 < u" by (simp add: u_def)
  have "fl x = of_int (rhe (x / u)) * u" using False by (simp add: fl_def round_sig_def round_to_unit_def u_def)
  then have "fl x - x = (of_int (rhe (x / u)) - x / u) * u" using u by (simp add: left_diff_distrib)
  then have "\<bar>fl x - x\<bar> = \<bar>of_int (rhe (x / u)) - x / u\<bar> * u" using u by (simp only: abs_mult abs_of_pos)
  also have "\<dots> \<le> 1 / 2 * u" using u by (intro mult_right_mono rhe_error) simp
  also have "1 / 2 * u = 2 powi ilog 2 \<bar>x\<bar> / 2 ^ 53" by (simp add: u_def power_int_diff)
  also have "\<dots> \<le> \<bar>x\<bar> / 2 ^ 53"
    using ilog_bounds [of 2 "\<bar>x\<bar>"] False by (intro divide_right_mono) auto
  finally show ?thesis .
qed (simp add: fl.zero)

lemma fl_upper: "0 \<le> x \<Longrightarrow> fl x \<le> x * (1 + 1 / 2 ^ 53)"
proof -
  assume "0 \<le> x"
  then have "fl x - x \<le> x / 2 ^ 53" using abs_le_D1 [OF fl_relative [of x]] by simp
  then show ?thesis by (simp add: distrib_left)
qed

definition refill_rate :: "bucket \<Rightarrow> rat" where
  "refill_rate b = of_int (b_capacity b) / 60 * (1 + 1 / 2 ^ 51)"

definition float_slack :: "bucket \<Rightarrow> rat" where
  "float_slack b = of_int (b_capacity b) / 2 ^ 52"

lemma gain_at_most:
  assumes c: "1 \<le> c" and t: "t0 \<le> now"
  shows "fl (fl (max 0 (fl (now - t0)) * c) / 60) \<le> (now - t0) * (c / 60 * (1 + 1 / 2 ^ 51))"
proof -
  define e :: rat where "e = 1 + 1 / 2 ^ 53"
  have e: "0 < e" "e * e * e \<le> 1 + 1 / 2 ^ 51" by (simp_all add: e_def)
  define x where "x = max 0 (fl (now - t0))"
  have x: "0 \<le> x" "x \<le> (now - t0) * e" using fl_upper [of "now - t0"] t by (auto simp: x_def e_def fl.nonneg)
  have "fl (x * c) \<le> x * c * e" unfolding e_def using x c by (intro fl_upper) auto
  then have "fl (x * c) / 60 \<le> x * c * e / 60" by simp
  then have "fl (fl (x * c) / 60) \<le> fl (x * c * e / 60)" by (rule fl.mono)
  also have "\<dots> \<le> x * c * e / 60 * e" unfolding e_def using x c by (intro fl_upper) auto
  also have "\<dots> = x * (c * e * e / 60)" by simp
  also have "\<dots> \<le> (now - t0) * e * (c * e * e / 60)" using x c e by (intro mult_right_mono) auto
  also have "\<dots> = (now - t0) * (c / 60) * (e * e * e)" by simp
  also have "\<dots> \<le> (now - t0) * (c / 60) * (1 + 1 / 2 ^ 51)" using e t c by (intro mult_left_mono) auto
  finally show ?thesis unfolding x_def by (simp only: mult.assoc)
qed

lemma capped_rounding:
  assumes "0 \<le> y" "fl C = C"
  shows "min C (fl y) \<le> y + C / 2 ^ 53"
proof (cases "y \<le> C")
  case True
  then have "fl y \<le> y + C / 2 ^ 53" using fl_upper [of y] assms(1) by (simp add: algebra_simps)
  then show ?thesis by simp
qed (use assms in \<open>auto simp: min_def\<close>)

interpretation limiter: token_source bucket_ok b_tokens b_last consume refill_rate float_slack
proof
  show "0 \<le> b_tokens b" if "bucket_ok b" for b using that by (simp add: bucket_ok_def)
  show "bucket_ok b' \<and> b_last b' = t \<and> refill_rate b' = refill_rate b \<and> float_slack b' = float_slack b"
    if "bucket_ok b" "consume t b = (a, b')" for b t a b'
    using consume_ok [OF that] consume_frame [OF that(2)] by (simp add: refill_rate_def float_slack_def)
  show "b_tokens b' + of_bool a \<le> b_tokens b + (t - b_last b) * refill_rate b + float_slack b"
    if ok: "bucket_ok b" and t: "b_last b \<le> t" and c: "consume t b = (a, b')" for b t a b'
  proof -
    define C :: rat where "C = of_int (b_capacity b)"
    have C: "1 \<le> C" "fl C = C" using ok by (auto simp: C_def bucket_ok_def intro: fl_capacity)
    define g where "g = fl (fl (max 0 (fl (t - b_last b)) * C) / 60)"
    have g: "g \<le> (t - b_last b) * refill_rate b" unfolding g_def refill_rate_def C_def [symmetric] by (rule gain_at_most [OF C(1) t])
    have "0 \<le> b_tokens b + g" using gain_nonneg [OF ok, of t] ok by (simp add: g_def C_def bucket_ok_def)
    then have r: "refilled t b \<le> b_tokens b + g + C / 2 ^ 53"
      using capped_rounding [OF _ C(2)] C(2) by (simp add: refilled_def g_def C_def)
    have m: "refilled t b \<le> C" using refilled_bounds(2) [OF ok] by (simp add: C_def)
    have "fl (refilled t b - 1) \<le> refilled t b - 1 + C / 2 ^ 53" if "1 \<le> refilled t b"
      using fl_upper [of "refilled t b - 1"] that m by (simp add: algebra_simps)
    moreover have "0 \<le> C / 2 ^ 53" using C by simp
    moreover have "float_slack b = C / 2 ^ 53 + C / 2 ^ 53" by (simp add: float_slack_def C_def)
    ultimately show ?thesis using c r g by (auto simp: consume_eq split: if_splits)
  qed
qed

subsection \<open>The bounded map of buckets\<close>

type_synonym bucket_store = "(string \<times> bucket) list"

text \<open>\<open>move_to_end\<close>, then \<open>popitem(last=False)\<close> while the map is too long.\<close>

definition move_to_end :: "nat \<Rightarrow> string \<Rightarrow> bucket \<Rightarrow> bucket_store \<Rightarrow> bucket_store" where
  "move_to_end m key b bs = (let bs1 = filter (\<lambda>e. fst e \<noteq> key) bs @ [(key, b)] in drop (length bs1 - m) bs1)"

definition get_bucket :: "nat \<Rightarrow> string \<Rightarrow> int \<Rightarrow> rat \<Rightarrow> bucket_store \<Rightarrow> bucket \<times> bucket_store" where
  "get_bucket m key capacity now bs = (
     let b = (case map_of bs key of
                None \<Rightarrow> new_bucket capacity now
              | Some b \<Rightarrow> if b_capacity b \<noteq> capacity then new_bucket capacity now else b)
     in (b, move_to_end m key b bs))"

text \<open>\<open>consume\<close> changes the bucket object the map holds.\<close>

definition set_bucket :: "string \<Rightarrow> bucket \<Rightarrow> bucket_store \<Rightarrow> bucket_store" where
  "set_bucket key b bs = map (\<lambda>e. if fst e = key then (key, b) else e) bs"

text \<open>One limited request: the clock is read when a bucket is created and when it is drawn on.\<close>

record limited =
  l_key :: string
  l_capacity :: int
  l_created :: rat
  l_now :: rat

definition take_token :: "nat \<Rightarrow> limited \<Rightarrow> bucket_store \<Rightarrow> bool \<times> bucket \<times> bucket_store" where
  "take_token m r bs = (
     let (b, bs1) = get_bucket m (l_key r) (l_capacity r) (l_created r) bs;
         (allowed, b1) = consume (l_now r) b
     in (allowed, b1, set_bucket (l_key r) b1 bs1))"

definition limit_run :: "nat \<Rightarrow> limited list \<Rightarrow> bucket_store \<Rightarrow> bucket_store" where
  "limit_run m = fold (\<lambda>r bs. snd (snd (take_token m r bs)))"

definition store_ok :: "nat \<Rightarrow> bucket_store \<Rightarrow> bool" where
  "store_ok m bs \<longleftrightarrow> distinct (map fst bs) \<and> length bs \<le> m \<and> (\<forall>e\<in>set bs. bucket_ok (snd e))"

definition limited_ok :: "limited \<Rightarrow> bool" where
  "limited_ok r \<longleftrightarrow> 1 \<le> l_capacity r \<and> l_capacity r \<le> 2 ^ 53"

lemma keys_set_bucket [simp]: "map fst (set_bucket k b bs) = map fst bs"
  by (induction bs) (auto simp: set_bucket_def)

lemma length_set_bucket [simp]: "length (set_bucket k b bs) = length bs"
  by (simp add: set_bucket_def)

lemma move_to_end_distinct: "distinct (map fst bs) \<Longrightarrow> distinct (map fst (move_to_end m k b bs))"
  unfolding move_to_end_def Let_def drop_map [symmetric]
  by (rule distinct_drop) (auto simp: distinct_map_filter)

lemma move_to_end_ok: "store_ok m bs \<Longrightarrow> bucket_ok b \<Longrightarrow> store_ok m (move_to_end m k b bs)"
  using move_to_end_distinct [of bs m k b]
  by (auto simp: store_ok_def move_to_end_def Let_def simp del: drop_append dest!: in_set_dropD)

lemma get_bucket_ok:
  assumes "store_ok m bs" "1 \<le> c" "c \<le> 2 ^ 53" "get_bucket m k c now bs = (b, bs1)"
  shows "bucket_ok b \<and> store_ok m bs1 \<and> b_capacity b = c"
proof -
  have "bucket_ok b \<and> b_capacity b = c"
    using assms unfolding get_bucket_def Let_def
    by (auto simp: store_ok_def new_bucket_ok dest!: map_of_SomeD split: option.splits) (simp_all add: new_bucket_def)
  then show ?thesis using assms(4) move_to_end_ok [OF assms(1)] by (auto simp: get_bucket_def Let_def)
qed

lemma take_token_ok:
  assumes "store_ok m bs" "limited_ok r" "take_token m r bs = (a, b, bs')"
  shows "store_ok m bs' \<and> bucket_ok b"
proof -
  obtain b0 bs1 where g: "get_bucket m (l_key r) (l_capacity r) (l_created r) bs = (b0, bs1)" by fastforce
  have c: "consume (l_now r) b0 = (a, b)" "bs' = set_bucket (l_key r) b bs1"
    using assms(3) by (auto simp: take_token_def g split: prod.splits)
  have "bucket_ok b0" "store_ok m bs1" using get_bucket_ok [OF assms(1) _ _ g] assms(2) by (auto simp: limited_ok_def)
  then show ?thesis using consume_ok [OF _ c(1)] by (auto simp: c(2) store_ok_def) (auto simp: set_bucket_def)
qed

lemma limit_run_ok: "store_ok m bs \<Longrightarrow> list_all limited_ok rs \<Longrightarrow> store_ok m (limit_run m rs bs)"
  unfolding limit_run_def
proof (induction rs arbitrary: bs)
  case (Cons r rs)
  obtain a b bs' where "take_token m r bs = (a, b, bs')" using prod_cases3 by blast
  then show ?case using Cons take_token_ok [of m bs r a b bs'] by simp
qed simp

text \<open>
  Least recently used: after a key was used, other keys that are fewer than the bound leave its
  bucket where it is.
\<close>

definition recent :: "nat \<Rightarrow> string \<Rightarrow> bucket \<Rightarrow> string set \<Rightarrow> bucket_store \<Rightarrow> bool" where
  "recent m k b K bs \<longleftrightarrow> distinct (map fst bs) \<and>
     (\<exists>xs ys. bs = xs @ (k, b) # ys \<and> fst ` set ys \<subseteq> K)"

lemma recent_lookup: "recent m k b K bs \<Longrightarrow> map_of bs k = Some b"
  by (auto simp: recent_def)

lemma recent_set_bucket:
  assumes "recent m k b K bs" "k' \<noteq> k"
  shows "recent m k b K (set_bucket k' b' bs)"
proof -
  obtain xs ys where bs: "bs = xs @ (k, b) # ys" "fst ` set ys \<subseteq> K" "distinct (map fst bs)"
    using assms(1) by (auto simp: recent_def)
  have "set_bucket k' b' bs = set_bucket k' b' xs @ (k, b) # set_bucket k' b' ys"
    using assms(2) by (simp add: bs(1) set_bucket_def)
  moreover have "set (map fst (set_bucket k' b' ys)) \<subseteq> K" unfolding keys_set_bucket using bs(2) by simp
  moreover have "distinct (map fst (set_bucket k' b' bs))" unfolding keys_set_bucket by (rule bs(3))
  ultimately show ?thesis unfolding recent_def by (metis set_map)
qed

lemma recent_move_to_end:
  assumes r: "recent m k b K bs" and k: "k' \<in> K" "k' \<noteq> k" and K: "finite K" "card K < m"
  shows "recent m k b K (move_to_end m k' b' bs)"
proof -
  define f where "f = filter (\<lambda>e::string \<times> bucket. fst e \<noteq> k')"
  obtain xs ys where bs: "bs = xs @ (k, b) # ys" "fst ` set ys \<subseteq> K" "distinct (map fst bs)"
    using r by (auto simp: recent_def)
  define zs where "zs = f ys @ [(k', b')]"
  have e: "f bs @ [(k', b')] = f xs @ (k, b) # zs" using k(2) by (simp add: bs(1) f_def zs_def)
  have zK: "fst ` set zs \<subseteq> K" using bs(2) k(1) by (auto simp: zs_def f_def)
  have "distinct (map fst (f bs @ [(k', b')]))" using bs(3) by (auto simp: f_def distinct_map_filter)
  then have "distinct (map fst zs)" by (simp add: e)
  then have "length zs \<le> card K" using distinct_card [of "map fst zs"] card_mono [OF K(1) zK] by simp
  then have n: "length (f bs @ [(k', b')]) - m \<le> length (f xs)" using K(2) by (simp add: e)
  have "move_to_end m k' b' bs = drop (length (f bs @ [(k', b')]) - m) (f bs @ [(k', b')])"
    by (simp add: move_to_end_def f_def Let_def)
  also have "\<dots> = drop (length (f bs @ [(k', b')]) - m) (f xs) @ (k, b) # zs" using n by (simp add: e)
  finally have "move_to_end m k' b' bs = drop (length (f bs @ [(k', b')]) - m) (f xs) @ (k, b) # zs" .
  moreover have "distinct (map fst (move_to_end m k' b' bs))"
    by (rule move_to_end_distinct [OF bs(3)])
  ultimately show ?thesis using zK unfolding recent_def by blast
qed

lemma recent_take_token:
  "recent m k b K bs \<Longrightarrow> l_key r \<in> K \<Longrightarrow> l_key r \<noteq> k \<Longrightarrow> finite K \<Longrightarrow> card K < m \<Longrightarrow>
    recent m k b K (snd (snd (take_token m r bs)))"
  by (auto simp: take_token_def get_bucket_def Let_def split_def intro!: recent_set_bucket recent_move_to_end)

lemma recent_take_own:
  assumes d: "distinct (map fst bs)" and m: "0 < m"
    and g: "get_bucket m (l_key r) (l_capacity r) (l_created r) bs = (b0, bs1)"
  shows "recent m (l_key r) (snd (consume (l_now r) b0)) {} (snd (snd (take_token m r bs)))"
proof -
  define b where "b = snd (consume (l_now r) b0)"
  have bs1: "bs1 = move_to_end m (l_key r) b0 bs" using g by (auto simp: get_bucket_def Let_def)
  have t: "snd (snd (take_token m r bs)) = set_bucket (l_key r) b bs1" by (simp add: take_token_def g b_def split_def Let_def)
  obtain xs where xs: "bs1 = xs @ [(l_key r, b0)]" using m by (auto simp: bs1 move_to_end_def Let_def)
  have "distinct (map fst (set_bucket (l_key r) b bs1))"
    unfolding keys_set_bucket bs1 by (rule move_to_end_distinct [OF d])
  moreover have "set_bucket (l_key r) b bs1 = set_bucket (l_key r) b xs @ [(l_key r, b)]" by (simp add: xs set_bucket_def)
  ultimately show ?thesis unfolding t recent_def b_def [symmetric] by force
qed

lemma recent_mono: "recent m k b K bs \<Longrightarrow> K \<subseteq> L \<Longrightarrow> recent m k b L bs"
  unfolding recent_def by fast

lemma recent_run:
  assumes "recent m k b K bs" "l_key ` set rs \<subseteq> K" "k \<notin> l_key ` set rs" "finite K" "card K < m"
  shows "recent m k b K (limit_run m rs bs)"
  using assms unfolding limit_run_def by (induction rs arbitrary: bs) (auto intro: recent_take_token)

subsection \<open>What a client is granted\<close>

fun granted :: "nat \<Rightarrow> string \<Rightarrow> limited list \<Rightarrow> bucket_store \<Rightarrow> nat" where
  "granted m k [] bs = 0"
| "granted m k (r # rs) bs = (let (a, b, bs1) = take_token m r bs in of_bool (a \<and> l_key r = k) + granted m k rs bs1)"

definition requests_of :: "string \<Rightarrow> limited list \<Rightarrow> limited list" where
  "requests_of k rs = filter (\<lambda>r. l_key r = k) rs"

lemma granted_recent:
  assumes "recent m k b K bs" "b_capacity b = c" "l_key ` set rs \<subseteq> insert k K" "k \<notin> K" "finite K" "card K < m"
    and "\<forall>r\<in>set (requests_of k rs). l_capacity r = c"
  shows "granted m k rs bs = fst (grants consume (map l_now (requests_of k rs)) b)"
  using assms
proof (induction rs arbitrary: b bs)
  case (Cons r rs)
  obtain a b1 bs1 where t: "take_token m r bs = (a, b1, bs1)" using prod_cases3 by blast
  show ?case
  proof (cases "l_key r = k")
    case True
    obtain a' b' where c: "consume (l_now r) b = (a', b')" by fastforce
    have g: "get_bucket m (l_key r) (l_capacity r) (l_created r) bs = (b, move_to_end m k b bs)"
      using recent_lookup [OF Cons.prems(1)] Cons.prems(2,7) True by (simp add: get_bucket_def Let_def requests_of_def)
    then have a: "a = a'" "bs1 = snd (snd (take_token m r bs))" using t by (auto simp: take_token_def c)
    have d: "distinct (map fst bs)" using Cons.prems(1) by (simp add: recent_def)
    have "recent m k b' K bs1" unfolding a
      using recent_take_own [OF d _ g] Cons.prems(6) c True by (auto intro: recent_mono)
    then have "granted m k rs bs1 = fst (grants consume (map l_now (requests_of k rs)) b')"
      using Cons.prems consume_frame [OF c] by (intro Cons.IH) (auto simp: requests_of_def)
    then show ?thesis using True by (simp add: t a(1) c requests_of_def split_def Let_def)
  next
    case False
    then have "recent m k b K bs1"
      using recent_take_token [OF Cons.prems(1), of r] Cons.prems t by auto
    then have "granted m k rs bs1 = fst (grants consume (map l_now (requests_of k rs)) b)"
      using Cons.prems False by (intro Cons.IH) (auto simp: requests_of_def)
    then show ?thesis using False by (simp add: t requests_of_def)
  qed
qed (simp add: requests_of_def)

lemma keys_take_token: "fst ` set (snd (snd (take_token m r bs))) \<subseteq> insert (l_key r) (fst ` set bs)"
  by (auto simp: take_token_def get_bucket_def move_to_end_def Let_def set_bucket_def split_def simp del: drop_append
      dest!: in_set_dropD split: if_splits)

lemma granted_absent:
  assumes "distinct (map fst bs)" "k \<notin> fst ` set bs" "l_key ` set rs \<subseteq> insert k K" "k \<notin> K" "finite K" "card K < m"
    and "\<forall>r\<in>set (requests_of k rs). l_capacity r = c"
  shows "granted m k rs bs = (case requests_of k rs of [] \<Rightarrow> 0
    | r # _ \<Rightarrow> fst (grants consume (map l_now (requests_of k rs)) (new_bucket c (l_created r))))"
  using assms
proof (induction rs arbitrary: bs)
  case (Cons r rs)
  obtain a b1 bs1 where t: "take_token m r bs = (a, b1, bs1)" using prod_cases3 by blast
  have d: "distinct (map fst bs1)"
    using Cons.prems(1) t by (auto simp: take_token_def get_bucket_def Let_def split_def intro: move_to_end_distinct)
  show ?case
  proof (cases "l_key r = k")
    case True
    obtain a' b' where c: "consume (l_now r) (new_bucket c (l_created r)) = (a', b')" by fastforce
    have g: "get_bucket m (l_key r) (l_capacity r) (l_created r) bs =
        (new_bucket c (l_created r), move_to_end m k (new_bucket c (l_created r)) bs)"
      using Cons.prems(2,7) True map_of_eq_None_iff [of bs "l_key r"] by (simp add: get_bucket_def Let_def requests_of_def)
    then have a: "a = a'" "bs1 = snd (snd (take_token m r bs))" using t by (auto simp: take_token_def c)
    have "recent m k b' K bs1" unfolding a
      using recent_take_own [OF Cons.prems(1) _ g] Cons.prems(6) c True by (auto intro: recent_mono)
    then have "granted m k rs bs1 = fst (grants consume (map l_now (requests_of k rs)) b')"
      using Cons.prems consume_frame [OF c]
      by (intro granted_recent [where c = c]) (auto simp: requests_of_def new_bucket_def)
    then show ?thesis using True by (simp add: t a(1) c requests_of_def split_def Let_def)
  next
    case False
    have "k \<notin> fst ` set bs1" using keys_take_token [of m r bs] Cons.prems(2) False t by auto
    then have "granted m k rs bs1 = (case requests_of k rs of [] \<Rightarrow> 0
        | r # _ \<Rightarrow> fst (grants consume (map l_now (requests_of k rs)) (new_bucket c (l_created r))))"
      using Cons.prems False d by (intro Cons.IH) (auto simp: requests_of_def)
    moreover have e: "requests_of k (r # rs) = requests_of k rs" using False by (simp add: requests_of_def)
    ultimately show ?thesis unfolding e using False by (simp add: t)
  qed
qed (simp add: requests_of_def)

lemma grants_last: "grants consume ts b = (n, b') \<Longrightarrow> b_last b' = (if ts = [] then b_last b else last ts)"
proof (induction ts arbitrary: b n)
  case (Cons t ts)
  obtain a b1 where c: "consume t b = (a, b1)" by fastforce
  obtain m b2 where g: "grants consume ts b1 = (m, b2)" by fastforce
  then show ?case using Cons.IH [of b1 m] Cons.prems consume_frame [OF c] by (simp add: c)
qed simp

text \<open>
  C22 The limit holds: while no more clients are seen than the map holds, a client of capacity c is
  granted, over any sequence of interleaved requests, at most c requests plus c per minute of
  elapsed time. The last two factors bound what the rounding of the floats can add: one part in
  2^51 of the refill, and c / 2^52 of a request per call.
\<close>

theorem rate_limit_enforced:
  assumes "card (l_key ` set rs) \<le> m" "1 \<le> c" "c \<le> 2 ^ 53"
    and "\<forall>r\<in>set (requests_of k rs). l_capacity r = c"
    and own: "requests_of k rs = r0 # own" "sorted (l_created r0 # map l_now (r0 # own))"
  shows "of_nat (granted m k rs []) \<le> of_int c +
    (l_now (last (r0 # own)) - l_created r0) * (of_int c / 60 * (1 + 1 / 2 ^ 51)) +
    of_nat (length (r0 # own)) * (of_int c / 2 ^ 52)"
proof -
  define K where "K = l_key ` set rs - {k}"
  have "r0 \<in> set (requests_of k rs)" by (simp add: own(1))
  then have "k \<in> l_key ` set rs" by (auto simp: requests_of_def)
  then have K: "finite K" "k \<notin> K" "card K < m" "l_key ` set rs \<subseteq> insert k K"
    using assms(1) card_Diff1_less [of "l_key ` set rs" k] by (auto simp: K_def)
  obtain n b where g: "grants consume (map l_now (r0 # own)) (new_bucket c (l_created r0)) = (n, b)" by fastforce
  have n: "granted m k rs [] = n"
    using granted_absent [OF _ _ K(4,2,1,3) assms(4), of "[]"] g by (simp add: own(1))
  have ok: "bucket_ok (new_bucket c (l_created r0))" using assms(2,3) by (rule new_bucket_ok)
  have "sorted (b_last (new_bucket c (l_created r0)) # map l_now (r0 # own))" using own(2) by (simp add: new_bucket_def)
  note limiter.granted_at_most [OF ok this g]
  moreover have "b_last b = l_now (last (r0 # own))"
    using grants_last [OF g] last_map [of "r0 # own" l_now] by simp
  moreover have "0 \<le> b_tokens b" using calculation(1) by (auto simp: bucket_ok_def)
  ultimately show ?thesis
    using fl_capacity [OF assms(2,3)] by (simp add: n new_bucket_def refill_rate_def float_slack_def)
qed

definition example_limited :: "limited list" where
  "example_limited = map (\<lambda>(k, t). \<lparr>l_key = k, l_capacity = 2, l_created = t, l_now = t\<rparr>)
     [(''key:1'', 0), (''ip:a'', 0), (''key:1'', 0), (''key:1'', 0), (''key:1'', 30)]"

lemma example_draws:
  "new_bucket 2 t = \<lparr>b_capacity = 2, b_tokens = 2, b_last = t\<rparr>"
  "consume 0 \<lparr>b_capacity = 2, b_tokens = 2, b_last = 0\<rparr> = (True, \<lparr>b_capacity = 2, b_tokens = 1, b_last = 0\<rparr>)"
  "consume 0 \<lparr>b_capacity = 2, b_tokens = 1, b_last = 0\<rparr> = (True, \<lparr>b_capacity = 2, b_tokens = 0, b_last = 0\<rparr>)"
  "consume 0 \<lparr>b_capacity = 2, b_tokens = 0, b_last = 0\<rparr> = (False, \<lparr>b_capacity = 2, b_tokens = 0, b_last = 0\<rparr>)"
  "consume 30 \<lparr>b_capacity = 2, b_tokens = 0, b_last = 0\<rparr> = (True, \<lparr>b_capacity = 2, b_tokens = 0, b_last = 30\<rparr>)"
  using fl_int [of 2] by (simp_all add: new_bucket_def) code_simp+

theorem rate_limit_enforced_witness:
  "(of_nat (granted 2 ''key:1'' example_limited []) :: rat) \<le> 2 + 30 * (2 / 60 * (1 + 1 / 2 ^ 51)) + 4 * (2 / 2 ^ 52) \<and>
   granted 2 ''key:1'' example_limited [] = 3"
proof -
  have r: "requests_of ''key:1'' example_limited = \<lparr>l_key = ''key:1'', l_capacity = 2, l_created = 0, l_now = 0\<rparr> #
      map (\<lambda>t. \<lparr>l_key = ''key:1'', l_capacity = 2, l_created = t, l_now = t\<rparr>) [0, 0, 30]"
    by (simp add: example_limited_def requests_of_def)
  have k: "l_key ` set example_limited = {''key:1'', ''ip:a''}" by (auto simp: example_limited_def)
  have "card (l_key ` set example_limited) \<le> 2" unfolding k by (simp add: card_insert_if)
  moreover have "granted 2 ''key:1'' example_limited [] = 3"
    by (simp add: example_limited_def take_token_def get_bucket_def move_to_end_def set_bucket_def Let_def example_draws)
  ultimately show ?thesis
    using rate_limit_enforced [of example_limited 2 2 "''key:1''", OF _ _ _ _ r] by (simp add: r)
qed

text \<open>
  The map of buckets is bounded and keeps what is in use: whatever requests come, it never holds
  more than the configured number of buckets, each with between 0 and its capacity of tokens; and a
  client's bucket survives any requests of fewer other clients than the bound.
\<close>

theorem bucket_store_sound:
  assumes "list_all limited_ok (rs @ r # rs')" "0 < m"
    and "card (l_key ` set rs') < m" "l_key r \<notin> l_key ` set rs'"
    and "take_token m r (limit_run m rs []) = (a, b, bs)"
  shows "length (limit_run m (rs @ r # rs') []) \<le> m \<and>
    (\<forall>e\<in>set (limit_run m (rs @ r # rs') []). 0 \<le> b_tokens (snd e) \<and> b_tokens (snd e) \<le> of_int (b_capacity (snd e))) \<and>
    map_of (limit_run m (rs @ r # rs') []) (l_key r) = Some b"
proof -
  have 0: "store_ok m []" by (simp add: store_ok_def)
  have 1: "store_ok m (limit_run m rs [])" using assms(1) by (intro limit_run_ok [OF 0]) simp
  obtain b0 bs1 where g: "get_bucket m (l_key r) (l_capacity r) (l_created r) (limit_run m rs []) = (b0, bs1)" by fastforce
  have b: "b = snd (consume (l_now r) b0)" using assms(5) by (auto simp: take_token_def g split: prod.splits)
  have "recent m (l_key r) b (l_key ` set rs') bs"
    using recent_take_own [OF _ assms(2) g] 1 assms(5) unfolding b by (auto simp: store_ok_def intro: recent_mono)
  then have "recent m (l_key r) b (l_key ` set rs') (limit_run m rs' bs)"
    using assms by (intro recent_run) auto
  moreover have "limit_run m (rs @ r # rs') [] = limit_run m rs' bs" using assms(5) by (simp add: limit_run_def)
  moreover have "store_ok m (limit_run m (rs @ r # rs') [])" using assms(1) by (intro limit_run_ok [OF 0])
  ultimately show ?thesis by (auto simp: store_ok_def bucket_ok_def dest: recent_lookup)
qed

theorem bucket_store_sound_witness:
  "length (limit_run 2 example_limited []) \<le> 2 \<and>
   map_of (limit_run 2 example_limited []) ''key:1'' = Some (fst (snd (take_token 2 (last example_limited) (limit_run 2 (butlast example_limited) []))))"
proof -
  define r where "r = last example_limited"
  obtain a b bs where t: "take_token 2 r (limit_run 2 (butlast example_limited) []) = (a, b, bs)" using prod_cases3 by blast
  have e: "butlast example_limited @ r # [] = example_limited" by (simp add: example_limited_def r_def)
  have o: "list_all limited_ok example_limited" "l_key r = ''key:1''"
    by (simp_all add: example_limited_def limited_ok_def r_def)
  show ?thesis
    using bucket_store_sound [of "butlast example_limited" r "[]" 2, OF _ _ _ _ t, unfolded e] o
    by (simp add: t flip: r_def)
qed

text \<open>
  A refused client that waits the time its refusal names is granted a request, when a minute holds
  a whole number of refills or the capacity is at least 60; with a capacity of 7 the named 8 seconds
  are too short, because the quotient is cut off.
\<close>

lemma retry_after_honest:
  assumes "bucket_ok b" "60 \<le> retry_after (b_capacity b) * b_capacity b" "retry_after (b_capacity b) * b_capacity b \<le> 2 ^ 53"
    "of_int (retry_after (b_capacity b)) \<le> now - b_last b"
  shows "fst (consume now b)"
  using assms by (intro consume_after_retry) (auto simp: retry_after_def)

lemma retry_after_default: "60 \<le> retry_after 60 * 60 \<and> 60 \<le> retry_after 100 * 100 \<and> 60 \<le> retry_after 200 * 200"
  by code_simp

lemma retry_after_too_short:
  "let b = \<lparr>b_capacity = 7, b_tokens = 0, b_last = 0\<rparr> in retry_after 7 = 8 \<and> \<not> fst (consume 8 b)"
  by code_simp

end
