(* ===== verification/Access.thy ===== *)
theory Access
  imports Config Rate_Limit
begin

text \<open>
  \<open>src/api/middleware/auth.py\<close>, the middleware of \<open>src/api/middleware/rate_limit.py\<close> and the order
  \<open>src/api/main.py\<close> composes them in: authentication, rate limit, role check, handler. A call
  returns a response or raises, and passes the state of the server on.
\<close>

subsection \<open>Requests, responses, endpoints\<close>

record request =
  rq_method :: string
  rq_path :: string
  rq_api_key :: "string option"
  rq_client :: "string option"
  st_key_id :: "string option"
  st_key_name :: "string option"
  st_role :: "string option"

record response =
  status_code :: nat
  detail :: string
  headers :: "(string \<times> string) list"

definition json_response :: "nat \<Rightarrow> string \<Rightarrow> response" where
  "json_response c d = \<lparr>status_code = c, detail = d, headers = []\<rparr>"

definition READ_ROLES :: "string list" where
  "READ_ROLES = [''admin'', ''analyst'', ''readonly'']"

definition WRITE_ROLES :: "string list" where
  "WRITE_ROLES = [''admin'', ''analyst'']"

datatype endpoint = Summary | Trend | PspHealth | Pairs | Discrepancies | DiscrepancyEvents
  | ResolveDiscrepancy | BulkResolve | Exposure | Transactions | TransactionDetail | PairDetail
  | ExposureAging | PipelineRuns | Search | DailyReports | DailyReport
  | PaystackWebhook | FlutterwaveWebhook | Health | HealthReady | Metrics

fun endpoint_method :: "endpoint \<Rightarrow> string" where
  "endpoint_method ResolveDiscrepancy = ''POST''"
| "endpoint_method BulkResolve = ''POST''"
| "endpoint_method PaystackWebhook = ''POST''"
| "endpoint_method FlutterwaveWebhook = ''POST''"
| "endpoint_method _ = ''GET''"

text \<open>The literal prefix of each route, up to its first path parameter.\<close>

fun endpoint_prefix :: "endpoint \<Rightarrow> string" where
  "endpoint_prefix Summary = ''/v1/reconciliation/summary''"
| "endpoint_prefix Trend = ''/v1/reconciliation/trend''"
| "endpoint_prefix PspHealth = ''/v1/reconciliation/psp-health''"
| "endpoint_prefix Pairs = ''/v1/reconciliation/pairs''"
| "endpoint_prefix Discrepancies = ''/v1/reconciliation/discrepancies''"
| "endpoint_prefix DiscrepancyEvents = ''/v1/reconciliation/discrepancies/''"
| "endpoint_prefix ResolveDiscrepancy = ''/v1/reconciliation/discrepancies/''"
| "endpoint_prefix BulkResolve = ''/v1/reconciliation/discrepancies/bulk-resolve''"
| "endpoint_prefix Exposure = ''/v1/reconciliation/exposure''"
| "endpoint_prefix Transactions = ''/v1/reconciliation/transactions''"
| "endpoint_prefix TransactionDetail = ''/v1/reconciliation/transactions/''"
| "endpoint_prefix PairDetail = ''/v1/reconciliation/pairs/''"
| "endpoint_prefix ExposureAging = ''/v1/reconciliation/exposure/aging''"
| "endpoint_prefix PipelineRuns = ''/v1/system/pipeline-runs''"
| "endpoint_prefix Search = ''/v1/search''"
| "endpoint_prefix DailyReports = ''/v1/reports/daily''"
| "endpoint_prefix DailyReport = ''/v1/reports/daily/''"
| "endpoint_prefix PaystackWebhook = ''/v1/webhooks/paystack''"
| "endpoint_prefix FlutterwaveWebhook = ''/v1/webhooks/flutterwave''"
| "endpoint_prefix Health = ''/health''"
| "endpoint_prefix HealthReady = ''/health/ready''"
| "endpoint_prefix Metrics = ''/metrics''"

text \<open>The roles \<open>require_role\<close> was given for the route, if it has that dependency.\<close>

fun endpoint_roles :: "endpoint \<Rightarrow> string list option" where
  "endpoint_roles ResolveDiscrepancy = Some WRITE_ROLES"
| "endpoint_roles BulkResolve = Some WRITE_ROLES"
| "endpoint_roles PaystackWebhook = None"
| "endpoint_roles FlutterwaveWebhook = None"
| "endpoint_roles Health = None"
| "endpoint_roles HealthReady = None"
| "endpoint_roles Metrics = None"
| "endpoint_roles _ = Some READ_ROLES"

text \<open>
  The framework's routing is a parameter. What the code relies on: a matched path begins with the
  literal prefix of its route, under the route's method.
\<close>

type_synonym routing = "string \<Rightarrow> string \<Rightarrow> endpoint option"

definition routing_sound :: "routing \<Rightarrow> bool" where
  "routing_sound routing \<longleftrightarrow> (\<forall>m p e. routing m p = Some e \<longrightarrow>
     m = endpoint_method e \<and> take (length (endpoint_prefix e)) p = endpoint_prefix e)"

subsection \<open>Authentication\<close>

record api_key =
  k_id :: string
  k_hash :: string
  k_client :: string
  k_scopes :: "string list option"
  k_active :: bool
  k_expires :: "time option"
  k_last_used :: "time option"
  k_usage :: nat

definition PUBLIC_PATHS :: "string list" where
  "PUBLIC_PATHS = [''/health'', ''/health/ready'', ''/metrics'', ''/v1/webhooks/paystack'', ''/v1/webhooks/flutterwave'']"

definition DOCS_PATHS :: "string list" where
  "DOCS_PATHS = [''/docs'', ''/redoc'', ''/openapi.json'', ''/docs/oauth2-redirect'']"

definition role_from_scopes :: "string list option \<Rightarrow> string" where
  "role_from_scopes scopes = (
     let granted = set (case scopes of None \<Rightarrow> [] | Some xs \<Rightarrow> xs) in
     if ''admin'' \<in> granted then ''admin'' else if ''write'' \<in> granted then ''analyst'' else ''readonly'')"

definition rstrip_slash :: "string \<Rightarrow> string" where
  "rstrip_slash p = rev (dropWhile (\<lambda>c. c = CHR ''/'') (rev p))"

definition is_public_path :: "string \<Rightarrow> string \<Rightarrow> bool" where
  "is_public_path path environment = (
     let normalised = (if rstrip_slash path = '''' then ''/'' else rstrip_slash path) in
     if normalised \<in> set PUBLIC_PATHS then True else environment \<noteq> ''production'' \<and> normalised \<in> set DOCS_PATHS)"

text \<open>
  What the process reads while it serves a request: whether the database answers, its clock, the
  wall clock, and the monotonic clock when a bucket is created and when it is drawn on.
\<close>

record access_env =
  ae_db_ok :: bool
  ae_db_now :: time
  ae_clock :: time
  ae_created :: rat
  ae_mono :: rat

definition touch_key :: "time \<Rightarrow> api_key \<Rightarrow> api_key" where
  "touch_key now k = k\<lparr>k_last_used := Some now, k_usage := k_usage k + 1\<rparr>"

definition touch_keys :: "time \<Rightarrow> string \<Rightarrow> api_key list \<Rightarrow> api_key list" where
  "touch_keys now h = map (\<lambda>k. if k_hash k = h then touch_key now k else k)"

text \<open>\<open>dispatch\<close> of the middleware up to \<open>call_next\<close>: a rejection, or the request with its identity.\<close>

definition authenticate ::
  "settings \<Rightarrow> (string \<Rightarrow> string) \<Rightarrow> access_env \<Rightarrow> request \<Rightarrow> api_key list \<Rightarrow> (response + request) \<times> api_key list" where
  "authenticate s sha256hex env req keys = (
     if rq_method req = ''OPTIONS'' then (Inr req, keys)
     else if is_public_path (rq_path req) (s_environment s) then (Inr req, keys)
     else let raw_key = (case rq_api_key req of None \<Rightarrow> '''' | Some k \<Rightarrow> k) in
       if raw_key = '''' then
         if s_auth_disabled s
         then (Inr (req\<lparr>st_key_id := None, st_key_name := Some ''dev-unauthenticated'', st_role := Some ''analyst''\<rparr>), keys)
         else (Inl (json_response 401 ''Missing X-API-Key header''), keys)
       else if \<not> ae_db_ok env then (Inl (json_response 503 ''Auth service unavailable''), keys)
       else let keys1 = touch_keys (ae_db_now env) (sha256hex raw_key) keys in
         case List.find (\<lambda>k. k_hash k = sha256hex raw_key) keys1 of
           None \<Rightarrow> (Inl (json_response 401 ''Invalid API key''), keys1)
         | Some row \<Rightarrow>
             if \<not> k_active row then (Inl (json_response 403 ''API key deactivated''), keys1)
             else if (case k_expires row of None \<Rightarrow> False | Some x \<Rightarrow> x < ae_clock env)
             then (Inl (json_response 403 ''API key expired''), keys1)
             else (Inr (req\<lparr>st_key_id := Some (k_id row), st_key_name := Some (k_client row),
                     st_role := Some (role_from_scopes (k_scopes row))\<rparr>), keys1))"

text \<open>\<open>require_role\<close>: the dependency that runs before the handler.\<close>

definition py_repr_roles :: "string list \<Rightarrow> string" where
  "py_repr_roles roles = ''['' @ py_join '', '' (map (\<lambda>r. CHR 0x27 # r @ [CHR 0x27]) roles) @ '']''"

definition check_role :: "string list \<Rightarrow> request \<Rightarrow> response option" where
  "check_role allowed_roles req = (case st_role req of
       Some role \<Rightarrow> if role \<in> set allowed_roles then None
         else Some (json_response 403 (''Insufficient permissions. Required: '' @ py_repr_roles allowed_roles))
     | None \<Rightarrow> Some (json_response 403 (''Insufficient permissions. Required: '' @ py_repr_roles allowed_roles)))"

subsection \<open>The server\<close>

text \<open>\<open>'w\<close> is the data the handlers work on.\<close>

record 'w server =
  sv_keys :: "api_key list"
  sv_buckets :: bucket_store
  sv_data :: 'w

type_synonym 'w handler = "endpoint \<Rightarrow> request \<Rightarrow> 'w \<Rightarrow> (exc + response) \<times> 'w"
type_synonym 'w next_call = "request \<Rightarrow> 'w server \<Rightarrow> (exc + response) \<times> 'w server"

text \<open>
  The router: a path no route matches, or with another method, is answered by the framework with the
  status it chooses (404, 405 or a redirect), given as a parameter.
\<close>

definition route :: "routing \<Rightarrow> response \<Rightarrow> 'w handler \<Rightarrow> 'w next_call" where
  "route routing no_route handler req sv = (case routing (rq_method req) (rq_path req) of
       None \<Rightarrow> (Inr no_route, sv)
     | Some e \<Rightarrow>
         (case (case endpoint_roles e of None \<Rightarrow> None | Some roles \<Rightarrow> check_role roles req) of
            Some r \<Rightarrow> (Inr r, sv)
          | None \<Rightarrow> let (res, d) = handler e req (sv_data sv) in (res, sv\<lparr>sv_data := d\<rparr>)))"

definition ROLE_LIMITS :: "(string \<times> int) list" where
  "ROLE_LIMITS = [(''admin'', 200), (''analyst'', 100), (''readonly'', 60)]"

definition EXEMPT_PATHS :: "string list" where
  "EXEMPT_PATHS = [''/health'', ''/health/ready'', ''/metrics'']"

definition starts_with :: "string \<Rightarrow> string \<Rightarrow> bool" where
  "starts_with p x \<longleftrightarrow> take (length x) p = x"

definition bucket_of :: "settings \<Rightarrow> request \<Rightarrow> string \<times> int" where
  "bucket_of s req = (case st_key_id req of
       Some key_id \<Rightarrow> (''key:'' @ key_id,
         case map_of ROLE_LIMITS (case st_role req of None \<Rightarrow> '''' | Some r \<Rightarrow> r) of
           Some n \<Rightarrow> n | None \<Rightarrow> s_rate_limit_per_minute s)
     | None \<Rightarrow> (''ip:'' @ (case rq_client req of Some host \<Rightarrow> host | None \<Rightarrow> ''unknown''), s_rate_limit_per_minute s))"

definition limited_request :: "settings \<Rightarrow> access_env \<Rightarrow> request \<Rightarrow> limited" where
  "limited_request s env req = \<lparr>l_key = fst (bucket_of s req), l_capacity = snd (bucket_of s req),
     l_created = ae_created env, l_now = ae_mono env\<rparr>"

definition exempt :: "request \<Rightarrow> bool" where
  "exempt req \<longleftrightarrow> rq_method req = ''OPTIONS'' \<or> rstrip_slash (rq_path req) \<in> set EXEMPT_PATHS \<or>
     starts_with (rstrip_slash (rq_path req)) ''/v1/webhooks''"

definition too_many :: "int \<Rightarrow> response" where
  "too_many capacity = \<lparr>status_code = 429, detail = ''Rate limit exceeded. Try again later.'',
     headers = [(''X-RateLimit-Limit'', show_int capacity), (''X-RateLimit-Remaining'', ''0''),
       (''Retry-After'', show_int (retry_after capacity))]\<rparr>"

definition rate_limit_dispatch :: "settings \<Rightarrow> access_env \<Rightarrow> 'w next_call \<Rightarrow> 'w next_call" where
  "rate_limit_dispatch s env call_next req sv = (if exempt req then call_next req sv else
     let capacity = snd (bucket_of s req);
         (allowed, b, store) = take_token (nat (s_rate_limit_max_buckets s)) (limited_request s env req) (sv_buckets sv);
         sv1 = sv\<lparr>sv_buckets := store\<rparr>
     in if \<not> allowed then (Inr (too_many capacity), sv1)
     else case call_next req sv1 of
       (Inl e, sv2) \<Rightarrow> (Inl e, sv2)
     | (Inr r, sv2) \<Rightarrow> (Inr (r\<lparr>headers := headers r @ [(''X-RateLimit-Limit'', show_int capacity),
           (''X-RateLimit-Remaining'', show_int (remaining b))]\<rparr>), sv2))"

definition auth_dispatch :: "settings \<Rightarrow> (string \<Rightarrow> string) \<Rightarrow> access_env \<Rightarrow> 'w next_call \<Rightarrow> 'w next_call" where
  "auth_dispatch s sha256hex env call_next req sv = (case authenticate s sha256hex env req (sv_keys sv) of
       (Inl r, keys) \<Rightarrow> (Inr r, sv\<lparr>sv_keys := keys\<rparr>)
     | (Inr req1, keys) \<Rightarrow> call_next req1 (sv\<lparr>sv_keys := keys\<rparr>))"

text \<open>\<open>create_app\<close>: the last middleware added runs first.\<close>

definition serve :: "settings \<Rightarrow> (string \<Rightarrow> string) \<Rightarrow> routing \<Rightarrow> response \<Rightarrow> access_env \<Rightarrow> 'w handler \<Rightarrow> 'w next_call" where
  "serve s sha256hex routing no_route env handler =
     auth_dispatch s sha256hex env (rate_limit_dispatch s env (route routing no_route handler))"

subsection \<open>Access control\<close>

text \<open>
  Who may call a protected endpoint, stated without the middleware: the presented key is active,
  unexpired, and its scopes include write or admin unless the endpoint is for every role; or, in
  development with authentication switched off, nobody presented a key. \<open>q\<close> is the request the
  handler sees.
\<close>

definition presented :: "request \<Rightarrow> string" where
  "presented req = (case rq_api_key req of None \<Rightarrow> '''' | Some k \<Rightarrow> k)"

definition may_call :: "settings \<Rightarrow> (string \<Rightarrow> string) \<Rightarrow> access_env \<Rightarrow> api_key list \<Rightarrow> request \<Rightarrow> string list \<Rightarrow> request \<Rightarrow> bool" where
  "may_call s sha256hex env keys req roles q \<longleftrightarrow>
     (\<exists>k\<in>set keys. presented req \<noteq> '''' \<and> k_hash k = sha256hex (presented req) \<and>
        k_active k \<and> (case k_expires k of None \<Rightarrow> True | Some x \<Rightarrow> ae_clock env \<le> x) \<and>
        (roles = READ_ROLES \<or> (case k_scopes k of None \<Rightarrow> False | Some xs \<Rightarrow> ''write'' \<in> set xs \<or> ''admin'' \<in> set xs)) \<and>
        q = req\<lparr>st_key_id := Some (k_id k), st_key_name := Some (k_client k), st_role := Some (role_from_scopes (k_scopes k))\<rparr>) \<or>
     s_environment s = ''development'' \<and> s_auth_disabled s \<and> presented req = '''' \<and>
        q = req\<lparr>st_key_id := None, st_key_name := Some ''dev-unauthenticated'', st_role := Some ''analyst''\<rparr>"

lemma role_from_scopes_roles: "role_from_scopes x \<in> set READ_ROLES"
  by (simp add: role_from_scopes_def READ_ROLES_def Let_def)

lemma role_from_scopes_write:
  "role_from_scopes x \<in> set WRITE_ROLES \<longleftrightarrow> (case x of None \<Rightarrow> False | Some xs \<Rightarrow> ''write'' \<in> set xs \<or> ''admin'' \<in> set xs)"
  by (auto simp: role_from_scopes_def WRITE_ROLES_def Let_def split: option.splits)

lemma endpoint_roles_cases: "endpoint_roles e = Some roles \<Longrightarrow> roles = READ_ROLES \<or> roles = WRITE_ROLES"
  by (cases e) auto

lemma protected_prefix:
  "endpoint_roles e = Some roles \<Longrightarrow> take 5 (endpoint_prefix e) \<in> set [''/v1/r'', ''/v1/s''] \<and> 5 \<le> length (endpoint_prefix e)"
  by (cases e) auto

lemma touched_key:
  assumes "List.find (\<lambda>k. k_hash k = h) (touch_keys t h keys) = Some row"
  shows "\<exists>k\<in>set keys. k_hash k = h \<and> row = touch_key t k"
proof -
  have "row \<in> set (touch_keys t h keys)" "k_hash row = h" using find_key_Some [OF assms] by auto
  then show ?thesis by (auto simp: touch_keys_def touch_key_def split: if_splits)
qed

lemma rstrip_slash_append: "\<exists>x. p = rstrip_slash p @ x"
proof -
  have "rev p = takeWhile (\<lambda>c. c = CHR ''/'') (rev p) @ rev (rstrip_slash p)" by (simp add: rstrip_slash_def)
  then have "p = rstrip_slash p @ rev (takeWhile (\<lambda>c. c = CHR ''/'') (rev p))" by (metis rev_append rev_rev_ident)
  then show ?thesis by blast
qed

lemma public_prefix:
  assumes "is_public_path p e"
  shows "take 5 p \<notin> set [''/v1/r'', ''/v1/s'']"
proof -
  define n where "n = rstrip_slash p"
  have "n \<in> set PUBLIC_PATHS \<or> n \<in> set DOCS_PATHS"
    using assms by (auto simp: is_public_path_def n_def Let_def PUBLIC_PATHS_def DOCS_PATHS_def split: if_splits)
  then have n: "take 5 n \<notin> set [''/v1/r'', ''/v1/s'']" "5 \<le> length n" by (auto simp: PUBLIC_PATHS_def DOCS_PATHS_def)
  obtain x where "p = n @ x" using rstrip_slash_append n_def by blast
  then show ?thesis using n by simp
qed

text \<open>A request for a protected endpoint is never taken for a public one.\<close>

lemma protected_not_public:
  assumes "routing_sound routing" "routing (rq_method req) (rq_path req) = Some e" "endpoint_roles e = Some roles"
  shows "\<not> is_public_path (rq_path req) env" "rq_method req \<noteq> ''OPTIONS''"
proof -
  have r: "rq_method req = endpoint_method e" "take (length (endpoint_prefix e)) (rq_path req) = endpoint_prefix e"
    using assms by (auto simp: routing_sound_def)
  have p: "take 5 (endpoint_prefix e) \<in> set [''/v1/r'', ''/v1/s'']" "5 \<le> length (endpoint_prefix e)"
    using protected_prefix [OF assms(3)] by auto
  have "take 5 (rq_path req) = take 5 (take (length (endpoint_prefix e)) (rq_path req))" using p(2) by (simp add: min_def)
  then have "take 5 (rq_path req) = take 5 (endpoint_prefix e)" by (simp only: r(2))
  then have "take 5 (rq_path req) \<in> set [''/v1/r'', ''/v1/s'']" using p(1) by simp
  then show "\<not> is_public_path (rq_path req) env" using public_prefix by blast
  show "rq_method req \<noteq> ''OPTIONS''" unfolding r(1) by (cases e) simp_all
qed

lemma authenticate_protected:
  assumes "\<not> is_public_path (rq_path req) (s_environment s)" "rq_method req \<noteq> ''OPTIONS''"
    and "load_settings raw = Inr s" "authenticate s sha256hex env req keys = (Inr q, keys')"
    and "roles = READ_ROLES \<or> roles = WRITE_ROLES" "check_role roles q = None"
  shows "may_call s sha256hex env keys req roles q"
proof (cases "presented req = ''''")
  case True
  then show ?thesis
    using assms(1,2,4) load_settings_Inr(3) [OF assms(3)]
    by (auto simp: authenticate_def may_call_def presented_def Let_def split: if_splits)
next
  case False
  define h where "h = sha256hex (presented req)"
  obtain row where row: "List.find (\<lambda>k. k_hash k = h) (touch_keys (ae_db_now env) h keys) = Some row"
      "k_active row" "case k_expires row of None \<Rightarrow> True | Some x \<Rightarrow> ae_clock env \<le> x"
      "q = req\<lparr>st_key_id := Some (k_id row), st_key_name := Some (k_client row), st_role := Some (role_from_scopes (k_scopes row))\<rparr>"
    using assms(1,2,4) False
    by (auto simp: authenticate_def Let_def presented_def [symmetric] h_def [symmetric] not_less split: if_splits option.splits)
  obtain k where k: "k \<in> set keys" "k_hash k = h" "row = touch_key (ae_db_now env) k" using touched_key [OF row(1)] by blast
  have "role_from_scopes (k_scopes k) \<in> set roles"
    using assms(6) row(4) k(3) by (auto simp: check_role_def touch_key_def split: if_splits)
  then show ?thesis
    using assms(5) row k False role_from_scopes_write [of "k_scopes k"]
    unfolding may_call_def by (intro disjI1 bexI [of _ k]) (auto simp: touch_key_def h_def)
qed

text \<open>The calls behind authentication: the handler runs on the request as identified, or not at all.\<close>

lemma route_calls:
  assumes "routing (rq_method q) (rq_path q) = Some e" "endpoint_roles e = Some roles"
  shows "route routing no_route handler q sv = (case check_role roles q of Some r \<Rightarrow> (Inr r, sv)
    | None \<Rightarrow> let (res, d) = handler e q (sv_data sv) in (res, sv\<lparr>sv_data := d\<rparr>))"
  using assms by (simp add: route_def)

lemma rate_limit_calls:
  assumes "rate_limit_dispatch s env nxt q sv = (res, sv')"
  shows "(sv_data sv' = sv_data sv \<and> (\<forall>nxt'. rate_limit_dispatch s env nxt' q sv = (res, sv'))) \<or>
    (\<exists>store r. sv' = snd (nxt q (sv\<lparr>sv_buckets := store\<rparr>)) \<and>
       (\<forall>nxt'. nxt' q (sv\<lparr>sv_buckets := store\<rparr>) = nxt q (sv\<lparr>sv_buckets := store\<rparr>) \<longrightarrow>
         rate_limit_dispatch s env nxt' q sv = (res, sv')))"
proof (cases "exempt q")
  case True
  then show ?thesis using assms by (intro disjI2 exI [of _ "sv_buckets sv"]) (auto simp: rate_limit_dispatch_def)
next
  case False
  obtain a b store where t: "take_token (nat (s_rate_limit_max_buckets s)) (limited_request s env q) (sv_buckets sv) = (a, b, store)"
    using prod_cases3 by blast
  show ?thesis
  proof (cases a)
    case True
    then show ?thesis using assms False t
      by (intro disjI2 exI [of _ store]) (auto simp: rate_limit_dispatch_def Let_def split: prod.splits sum.splits)
  qed (use assms False t in \<open>auto simp: rate_limit_dispatch_def Let_def\<close>)
qed

lemma authenticate_request:
  "authenticate s sha256hex env req keys = (Inr q, keys') \<Longrightarrow>
    rq_method q = rq_method req \<and> rq_path q = rq_path req \<and> rq_client q = rq_client req"
  by (auto simp: authenticate_def Let_def split: if_splits option.splits)

text \<open>
  C20 Access control is fail-closed: for a protected endpoint, whatever the handlers do, either the
  request may be served (an active, unexpired key whose scopes cover the endpoint, or the switched
  off authentication of a development process) and the data changes as the handler changes it
  on the request carrying the identity of that key, or the data is untouched and the answer
  does not depend on any handler. An OPTIONS request, a trailing slash or a public path never
  reaches a protected handler.
\<close>

theorem access_fail_closed:
  assumes "load_settings raw = Inr s" "routing_sound routing"
    and "routing (rq_method req) (rq_path req) = Some e" "endpoint_roles e = Some roles"
    and "serve s sha256hex routing no_route env handler req sv = (res, sv')"
  shows "(sv_data sv' = sv_data sv \<and> (\<forall>h. serve s sha256hex routing no_route env h req sv = (res, sv'))) \<or>
    (\<exists>q. may_call s sha256hex env (sv_keys sv) req roles q \<and> sv_data sv' = snd (handler e q (sv_data sv)))"
proof -
  note np = protected_not_public [OF assms(2,3,4)]
  obtain v keys where a: "authenticate s sha256hex env req (sv_keys sv) = (v, keys)" by fastforce
  show ?thesis
  proof (cases v)
    case (Inl r)
    then show ?thesis using assms(5) a by (auto simp: serve_def auth_dispatch_def)
  next
    case (Inr q)
    define sv1 where "sv1 = sv\<lparr>sv_keys := keys\<rparr>"
    have s: "serve s sha256hex routing no_route env h req sv =
        rate_limit_dispatch s env (route routing no_route h) q sv1" for h
      using a Inr by (simp add: serve_def auth_dispatch_def sv1_def)
    have e: "routing (rq_method q) (rq_path q) = Some e"
      using authenticate_request [OF a [unfolded Inr]] assms(3) by simp
    note rc = route_calls [of routing q e roles, OF e assms(4)]
    have d: "sv_data sv1 = sv_data sv" by (simp add: sv1_def)
    consider "sv_data sv' = sv_data sv1 \<and> (\<forall>h. serve s sha256hex routing no_route env h req sv = (res, sv'))"
      | store where "sv' = snd (route routing no_route handler q (sv1\<lparr>sv_buckets := store\<rparr>))"
          "\<And>h. route routing no_route h q (sv1\<lparr>sv_buckets := store\<rparr>) = route routing no_route handler q (sv1\<lparr>sv_buckets := store\<rparr>) \<Longrightarrow>
             rate_limit_dispatch s env (route routing no_route h) q sv1 = (res, sv')"
      using rate_limit_calls [OF assms(5) [unfolded s]] unfolding s by metis
    then show ?thesis
    proof cases
      case 2
      show ?thesis
      proof (cases "check_role roles q")
        case None
        then have "may_call s sha256hex env (sv_keys sv) req roles q"
          using authenticate_protected [OF np assms(1) a [unfolded Inr] endpoint_roles_cases [OF assms(4)]] by blast
        then show ?thesis using 2(1) d None by (auto simp: rc split_def Let_def)
      next
        case (Some r)
        then show ?thesis using 2 d by (auto simp: rc s)
      qed
    qed (simp add: d)
  qed
qed

definition example_routing :: routing where
  "example_routing m p = (if m = ''POST'' \<and> p = ''/v1/reconciliation/discrepancies/7/resolve'' then Some ResolveDiscrepancy else None)"

definition example_request :: request where
  "example_request = \<lparr>rq_method = ''POST'', rq_path = ''/v1/reconciliation/discrepancies/7/resolve'', rq_api_key = Some ''abc'',
     rq_client = None, st_key_id = None, st_key_name = None, st_role = None\<rparr>"

definition example_server :: "nat server" where
  "example_server = \<lparr>sv_keys = [\<lparr>k_id = ''1'', k_hash = ''cba'', k_client = ''dashboard'', k_scopes = Some [''read''], k_active = True,
     k_expires = None, k_last_used = None, k_usage = 4\<rparr>], sv_buckets = [], sv_data = 0\<rparr>"

definition example_handler :: "nat handler" where
  "example_handler e q n = (Inr (json_response 200 ''ok''), Suc n)"

lemma example_routing_sound: "routing_sound example_routing"
  by (auto simp: routing_sound_def example_routing_def split: if_splits)

theorem access_fail_closed_witness:
  "\<exists>s res sv'. load_settings example_settings = Inr s \<and>
     serve s rev example_routing (json_response 404 '''') \<lparr>ae_db_ok = True, ae_db_now = 0, ae_clock = 0, ae_created = 0, ae_mono = 0\<rparr>
       example_handler example_request example_server = (res, sv') \<and> sv_data sv' = 0"
proof -
  define env where "env = \<lparr>ae_db_ok = True, ae_db_now = 0, ae_clock = 0, ae_created = 0, ae_mono = 0\<rparr>"
  obtain s where s: "load_settings example_settings = Inr s" "s_environment s = ''production''"
    using example_settings_load by (auto split: sum.splits)
  obtain res sv' where r: "serve s rev example_routing (json_response 404 '''') env example_handler example_request example_server = (res, sv')"
    by fastforce
  have "\<not> may_call s rev env (sv_keys example_server) example_request WRITE_ROLES q" for q
    using s(2) by (simp add: may_call_def example_server_def example_request_def READ_ROLES_def WRITE_ROLES_def)
  then have "sv_data sv' = 0"
    using access_fail_closed [OF s(1) example_routing_sound _ _ r, of ResolveDiscrepancy WRITE_ROLES]
    by (simp add: example_routing_def example_request_def example_server_def)
  then show ?thesis using s(1) r unfolding env_def by blast
qed

end
