(* ===== verification/Scheduler.thy ===== *)
theory Scheduler
  imports Ingestion Config Fx Cbn_Report
begin

text \<open>
  \<open>src/flows/scheduler.py\<close>, \<open>src/flows/gap_detection_flow.py\<close>, \<open>src/flows/fx_capture_flow.py\<close> and the
  flow of \<open>src/flows/polling_backfill_flow.py\<close>. The endless loops are run against a finite list of
  what the event loop delivers: how long each job took and how late each sleep woke up.
\<close>

subsection \<open>Loops\<close>

text \<open>\<open>_run_safely\<close>: a failed job is logged, and the loop goes on.\<close>

datatype 'a job_log = JobCompleted 'a | JobFailed exc

definition run_safely :: "exc + 'a \<Rightarrow> 'a job_log" where
  "run_safely r = (case r of Inr a \<Rightarrow> JobCompleted a | Inl e \<Rightarrow> JobFailed e)"

record 'a tick =
  tk_outcome :: "exc + 'a"
  tk_duration :: span
  tk_late :: span

text \<open>The start of each run and what it logged. \<open>asyncio.sleep\<close> wakes up at or after its delay.\<close>

fun every_loop :: "span \<Rightarrow> time \<Rightarrow> 'a tick list \<Rightarrow> (time \<times> 'a job_log) list" where
  "every_loop interval t [] = []"
| "every_loop interval t (k # ks) = (t, run_safely (tk_outcome k)) #
     every_loop interval (t + tk_duration k + interval + tk_late k) ks"

definition every :: "span \<Rightarrow> bool \<Rightarrow> time \<Rightarrow> span \<Rightarrow> 'a tick list \<Rightarrow> (time \<times> 'a job_log) list" where
  "every interval run_at_start t late ks = (if run_at_start then every_loop interval t ks
     else every_loop interval (t + interval + late) ks)"

text \<open>Wall-clock readings in Lagos; \<open>at\<close> is the time of day in microseconds.\<close>

definition daily_target :: "int \<Rightarrow> time \<Rightarrow> time" where
  "daily_target hour_minute now = (let target = us_day * date_of now + hour_minute in
     if target \<le> now then target + us_day else target)"

definition seconds_until :: "int \<Rightarrow> time \<Rightarrow> rat" where
  "seconds_until hour_minute now = total_seconds (daily_target hour_minute now - now)"

fun daily_at :: "int \<Rightarrow> time \<Rightarrow> 'a tick list \<Rightarrow> (time \<times> 'a job_log) list" where
  "daily_at hour_minute t [] = []"
| "daily_at hour_minute t (k # ks) = (let start = daily_target hour_minute t + tk_late k in
     (start, run_safely (tk_outcome k)) # daily_at hour_minute (start + tk_duration k) ks)"

text \<open>The jobs \<open>main\<close> starts, by name, with their interval; the daily return is apart.\<close>

definition interval_jobs :: "settings \<Rightarrow> (string \<times> span \<times> bool) list" where
  "interval_jobs s = (''matching'', s_matching_schedule_minutes s * us_minute, True) #
     (case s_fx_provider_api_key s of None \<Rightarrow> [] | Some _ \<Rightarrow>
        [(''fx_capture'', s_fx_capture_interval_minutes s * us_minute, True)]) @
     map (\<lambda>p. (''gap_detection:'' @ psp_label p, s_gap_detection_interval_hours s * us_hour, False)) [Paystack, Flutterwave]"

definition tick_ok :: "'a tick \<Rightarrow> bool" where
  "tick_ok k \<longleftrightarrow> 0 \<le> tk_duration k \<and> 0 \<le> tk_late k"

text \<open>A job never overlaps itself: each run starts an interval after the previous one ended.\<close>

lemma every_loop_gap:
  "Suc i < length ks \<Longrightarrow>
    fst (every_loop interval t ks ! i) + tk_duration (ks ! i) + interval + tk_late (ks ! i) = fst (every_loop interval t ks ! Suc i)"
proof (induction ks arbitrary: t i)
  case (Cons k ks)
  show ?case
  proof (cases i)
    case 0
    then show ?thesis using Cons.prems by (cases ks) auto
  next
    case (Suc j)
    then show ?thesis using Cons.prems Cons.IH [of j "t + tk_duration k + interval + tk_late k"] by simp
  qed
qed simp

lemma every_loop_length [simp]: "length (every_loop interval t ks) = length ks"
  by (induction ks arbitrary: t) auto

lemma daily_target_next:
  assumes "0 \<le> hm" "hm < us_day"
  shows "now < daily_target hm now \<and> daily_target hm now \<le> now + us_day \<and> clock_of (daily_target hm now) = hm"
proof -
  have "us_day * date_of now + clock_of now = now" "0 \<le> clock_of now" "clock_of now < us_day"
    using date_clock clock_range by auto
  moreover have "clock_of (us_day * d + hm) = hm" "clock_of (us_day * d + hm + us_day) = hm" for d
    using assms by (simp_all add: clock_of_def mod_add_eq [of _ us_day hm, symmetric])
  ultimately show ?thesis using assms by (auto simp: daily_target_def Let_def)
qed

subsection \<open>Polling\<close>

text \<open>
  The pages of a PSP's API for a requested window: the Paystack client asks for whole seconds and
  takes what it gets, the Flutterwave client asks for whole days and filters itself.
\<close>

record psp_api =
  api_paystack :: "time \<Rightarrow> time \<Rightarrow> nat \<Rightarrow> exc + json list"
  api_flutterwave :: "date \<Rightarrow> date \<Rightarrow> nat \<Rightarrow> exc + json"

definition whole_second :: "time \<Rightarrow> time" where
  "whole_second t = us_second * (t div us_second)"

fun fetch_successful_transactions :: "psp_api \<Rightarrow> psp \<Rightarrow> time \<Rightarrow> time \<Rightarrow> exc + json list" where
  "fetch_successful_transactions api Paystack since until =
     paystack_list_all (api_paystack api (whole_second since) (whole_second until))"
| "fetch_successful_transactions api Flutterwave since until =
     flutterwave_list_all (api_flutterwave api (date_of since) (date_of until)) since until"

text \<open>
  What one poll meets: the API, the clock, the serialiser of payloads, and per transaction the
  time stamp and the environment of its ingestion.
\<close>

record poll_env =
  pe_api :: psp_api
  pe_now :: time
  pe_dumps :: "json \<Rightarrow> string"
  pe_ingest :: "nat \<Rightarrow> ingest_env"
  pe_received :: "nat \<Rightarrow> string"

definition polled_events :: "poll_env \<Rightarrow> ingest_settings \<Rightarrow> psp \<Rightarrow> json list \<Rightarrow> (ingest_env \<times> webhook_event) list" where
  "polled_events env cfg p txs =
     map (\<lambda>(i, tx). (pe_ingest env i, polled_event (pe_dumps env) cfg p (pe_received env i) tx)) (List.enumerate 0 txs)"

definition polling_backfill_flow ::
  "poll_env \<Rightarrow> ingest_settings \<Rightarrow> psp \<Rightarrow> int \<Rightarrow> idem_table \<Rightarrow> kafka_log \<Rightarrow> (exc + nat \<times> poll_stats) \<times> idem_table \<times> kafka_log" where
  "polling_backfill_flow env cfg p days_back t klog = (
     case fetch_successful_transactions (pe_api env) p (pe_now env - days_back * us_day) (pe_now env) of
       Inl e \<Rightarrow> (Inl e, t, klog)
     | Inr txs \<Rightarrow> let (stats, t1, klog1) = ingest_polled cfg (polled_events env cfg p txs) t klog
                 in (Inr (length txs, stats), t1, klog1))"

subsection \<open>Gap detection\<close>

definition WINDOW_OVERLAP :: span where
  "WINDOW_OVERLAP = us_hour"

definition gap_window :: "int \<Rightarrow> time \<Rightarrow> time \<times> time" where
  "gap_window hours_back now = (now - hours_back * us_hour - WINDOW_OVERLAP, now)"

record gap_result =
  gr_hours :: int
  gr_polled :: nat
  gr_recovered :: nat
  gr_rate :: rat
  gr_errors :: nat

definition gap_detection_flow ::
  "poll_env \<Rightarrow> ingest_settings \<Rightarrow> psp \<Rightarrow> int \<Rightarrow> idem_table \<Rightarrow> kafka_log \<Rightarrow> (exc + gap_result) \<times> idem_table \<times> kafka_log" where
  "gap_detection_flow env cfg p hours_back t klog = (
     let (since, until) = gap_window hours_back (pe_now env) in
     case fetch_successful_transactions (pe_api env) p since until of
       Inl e \<Rightarrow> (Inl e, t, klog)
     | Inr txs \<Rightarrow> let (stats, t1, klog1) = ingest_polled cfg (polled_events env cfg p txs) t klog in
         (Inr \<lparr>gr_hours = hours_back, gr_polled = length txs, gr_recovered = ps_new stats,
            gr_rate = (if txs = [] then 0 else rate_pct (ps_new stats) (length txs)), gr_errors = ps_errors stats\<rparr>, t1, klog1))"

text \<open>The scheduler calls the flow with its default of six hours.\<close>

definition DEFAULT_HOURS_BACK :: int where
  "DEFAULT_HOURS_BACK = 6"

definition scheduled_gap_detection ::
  "poll_env \<Rightarrow> ingest_settings \<Rightarrow> psp \<Rightarrow> idem_table \<Rightarrow> kafka_log \<Rightarrow> (exc + gap_result) \<times> idem_table \<times> kafka_log" where
  "scheduled_gap_detection env cfg p = gap_detection_flow env cfg p DEFAULT_HOURS_BACK"

subsection \<open>Rate capture\<close>

text \<open>One transaction; the task is retried three times by its runner, each time from scratch.\<close>

fun with_retries :: "nat \<Rightarrow> (nat \<Rightarrow> 's \<Rightarrow> (exc + 'a) \<times> 's) \<Rightarrow> nat \<Rightarrow> 's \<Rightarrow> (exc + 'a) \<times> 's" where
  "with_retries 0 f i s = f i s"
| "with_retries (Suc n) f i s = (case f i s of (Inl e, s1) \<Rightarrow> with_retries n f (Suc i) s1 | (Inr a, s1) \<Rightarrow> (Inr a, s1))"

record capture_env =
  ce_provider :: "nat \<Rightarrow> string \<Rightarrow> fetch"
  ce_new_id :: "nat \<Rightarrow> string \<Rightarrow> nat"
  ce_now :: "nat \<Rightarrow> time"
  ce_commits :: "nat \<Rightarrow> bool"

definition capture_fx_rates_task :: "bool \<Rightarrow> capture_env \<Rightarrow> nat \<Rightarrow> fx_table \<Rightarrow> (exc + string list) \<times> fx_table" where
  "capture_fx_rates_task has_key env i t = (
     case capture_fx_rates has_key (ce_provider env i) (ce_new_id env i) (ce_now env i) t of
       Inl e \<Rightarrow> (Inl e, t)
     | Inr (t1, pairs) \<Rightarrow> if ce_commits env i then (Inr pairs, t1) else (Inl DatabaseError, t))"

definition fx_rate_capture_flow :: "bool \<Rightarrow> capture_env \<Rightarrow> fx_table \<Rightarrow> (exc + nat \<times> string list) \<times> fx_table" where
  "fx_rate_capture_flow has_key env t = (case with_retries 3 (capture_fx_rates_task has_key env) 0 t of
       (Inl e, t1) \<Rightarrow> (Inl e, t1) | (Inr pairs, t1) \<Rightarrow> (Inr (length pairs, pairs), t1))"

text \<open>Retrying keeps what every attempt keeps; an attempt that fails leaves the table as it was.\<close>

lemma with_retries_inv:
  assumes "\<And>i s. I s \<Longrightarrow> I (snd (f i s))"
  shows "I s \<Longrightarrow> I (snd (with_retries n f i s))"
proof (induction n arbitrary: i s)
  case (Suc n)
  obtain r s1 where f: "f i s = (r, s1)" by fastforce
  have "I s1" using assms [OF Suc.prems, of i] f by simp
  then show ?case using Suc.IH f by (cases r) auto
qed (use assms in auto)

lemma with_retries_Inl:
  assumes "\<And>i s e s'. f i s = (Inl e, s') \<Longrightarrow> s' = s"
  shows "with_retries n f i s = (Inl e, s') \<Longrightarrow> s' = s"
proof (induction n arbitrary: i s)
  case (Suc n)
  obtain r s1 where f: "f i s = (r, s1)" by fastforce
  show ?case
  proof (cases r)
    case (Inl e1)
    then have "s1 = s" "with_retries n f (Suc i) s1 = (Inl e, s')" using assms f Suc.prems by auto
    then show ?thesis using Suc.IH by blast
  qed (use f Suc.prems in simp)
qed (use assms in auto)

lemma fx_capture_failure: "fx_rate_capture_flow has_key env t = (Inl e, t') \<Longrightarrow> t' = t"
  by (auto simp: fx_rate_capture_flow_def capture_fx_rates_task_def split: prod.splits sum.splits if_splits
      dest!: with_retries_Inl [rotated])

subsection \<open>What gap detection covers\<close>

definition covered :: "(time \<times> time) list \<Rightarrow> time \<Rightarrow> bool" where
  "covered ws x \<longleftrightarrow> list_ex (\<lambda>(a, b). a \<le> x \<and> x \<le> b) ws"

text \<open>The windows the scheduler's gap detection polls, run by run.\<close>

definition polled_windows :: "settings \<Rightarrow> time \<Rightarrow> span \<Rightarrow> 'a tick list \<Rightarrow> (time \<times> time) list" where
  "polled_windows s t late ks = map (\<lambda>(start, _). gap_window DEFAULT_HOURS_BACK start)
     (every (s_gap_detection_interval_hours s * us_hour) False t late ks)"

lemma chained_windows_cover:
  assumes "\<And>i. Suc i < length ws \<Longrightarrow> fst (ws ! Suc i) \<le> snd (ws ! i)" "ws \<noteq> []"
    and "fst (hd ws) \<le> x" "x \<le> snd (last ws)"
  shows "covered ws x"
  using assms
proof (induction ws)
  case (Cons w ws)
  show ?case
  proof (cases "x \<le> snd w \<or> ws = []")
    case True
    then show ?thesis using Cons.prems by (cases w) (auto simp: covered_def)
  next
    case False
    then have "fst (hd ws) \<le> x" using Cons.prems(1) [of 0] by (cases ws) auto
    moreover have "fst (ws ! Suc i) \<le> snd (ws ! i)" if "Suc i < length ws" for i
      using Cons.prems(1) [of "Suc i"] that by simp
    ultimately have "covered ws x" using Cons.IH Cons.prems(4) False by auto
    then show ?thesis by (simp add: covered_def)
  qed
qed simp

lemma every_loop_starts:
  assumes "list_all tick_ok ks" "0 \<le> interval" "i < j" "j < length ks"
  shows "fst (every_loop interval t ks ! i) + interval \<le> fst (every_loop interval t ks ! j)"
  using assms(3,4)
proof (induction j)
  case (Suc j)
  have k: "tick_ok (ks ! j)" using assms(1) Suc.prems(2) by (simp add: list_all_length)
  have "fst (every_loop interval t ks ! j) + interval \<le> fst (every_loop interval t ks ! Suc j)"
    using every_loop_gap [OF Suc.prems(2), of interval t] k by (simp add: tick_ok_def)
  then show ?case using Suc assms(2) by (cases "i = j") auto
qed simp

lemma polled_windows_nth:
  "i < length ks \<Longrightarrow> polled_windows s t late ks ! i = gap_window DEFAULT_HOURS_BACK
     (fst (every_loop (s_gap_detection_interval_hours s * us_hour) (t + s_gap_detection_interval_hours s * us_hour + late) ks ! i))"
  by (simp add: polled_windows_def every_def split_def)

lemma polled_windows_length [simp]: "length (polled_windows s t late ks) = length ks"
  by (simp add: polled_windows_def every_def)


definition example_ticks :: "(exc + gap_result) tick list" where
  "example_ticks = replicate 2 \<lparr>tk_outcome = Inl DatabaseError, tk_duration = us_minute, tk_late = 0\<rparr>"


text \<open>
  The daily return wakes up at the next 02:00: the scheduler always sleeps a positive time of at
  most a day, and what it waits for is the first 02:00 after now, so no day is skipped and none
  runs twice.
\<close>

theorem daily_run_next:
  assumes "0 \<le> hour_minute" "hour_minute < us_day"
  shows "0 < seconds_until hour_minute now \<and> seconds_until hour_minute now \<le> 86400 \<and>
    clock_of (daily_target hour_minute now) = hour_minute \<and>
    (\<forall>x. now < x \<and> clock_of x = hour_minute \<longrightarrow> daily_target hour_minute now \<le> x)"
proof -
  note n = daily_target_next [OF assms, of now]
  have "0 < total_seconds (daily_target hour_minute now - now)"
    using n by (simp add: total_seconds_def fl_def round_sig_pos)
  moreover have "total_seconds (daily_target hour_minute now - now) \<le> total_seconds (86400 * us_second)"
    using n by (intro total_seconds_mono) simp
  moreover have "total_seconds (86400 * us_second) = 86400" using total_seconds_whole [of 86400] by simp
  moreover have "daily_target hour_minute now \<le> x" if x: "now < x" "clock_of x = hour_minute" for x
  proof (rule ccontr)
    assume "\<not> daily_target hour_minute now \<le> x"
    then have l: "x < daily_target hour_minute now" by simp
    have "us_day * date_of x + hour_minute = x" "us_day * date_of (daily_target hour_minute now) + hour_minute = daily_target hour_minute now"
      using date_clock [of x] date_clock [of "daily_target hour_minute now"] x(2) n by auto
    moreover from this l have "date_of x < date_of (daily_target hour_minute now)" by linarith
    then have "date_of x + 1 \<le> date_of (daily_target hour_minute now)" by simp
    ultimately have "x + us_day \<le> daily_target hour_minute now" by linarith
    then show False using n x(1) by linarith
  qed
  ultimately show ?thesis using n by (simp add: seconds_until_def)
qed

theorem daily_run_next_witness:
  "0 < seconds_until (2 * us_hour) (5 * us_hour) \<and> daily_target (2 * us_hour) (5 * us_hour) = 26 * us_hour"
  using daily_run_next [of "2 * us_hour" "5 * us_hour"] by (simp add: daily_target_def date_of_def)

end
