(* ===== verification/Render.thy ===== *)
theory Render
  imports Clock
begin

text \<open>
  What the API renders values with: \<open>money\<close> of \<open>src/api/v1/routes/reconciliation.py\<close>,
  \<open>datetime.isoformat\<close> of a UTC time, and the escaped \<open>ILIKE\<close> prefixes of
  \<open>src/api/v1/routes/transactions.py\<close> and \<open>src/api/v1/routes/system.py\<close>.
\<close>

subsection \<open>Money\<close>

definition pad_left :: "nat \<Rightarrow> string \<Rightarrow> string" where
  "pad_left n s = replicate (n - length s) (CHR ''0'') @ s"

text \<open>
  \<open>str(Decimal(value).quantize(Decimal("0.01")))\<close>: half-even to the kobo; a result of more than 28
  digits is an \<open>InvalidOperation\<close>.
\<close>

definition money :: "rat \<Rightarrow> exc + string" where
  "money x = (let n = rhe (\<bar>x\<bar> * 100) in
     if 10 ^ 28 \<le> n then Inl InvalidOperation
     else Inr ((if x < 0 then ''-'' else '''') @ show_nat (n div 100) @ ''.'' @ pad_left 2 (show_nat (n mod 100))))"

definition money_opt :: "rat option \<Rightarrow> exc + string option" where
  "money_opt v = (case v of None \<Rightarrow> Inr None | Some x \<Rightarrow> sbind (money x) (\<lambda>s. Inr (Some s)))"

text \<open>The number such a text denotes.\<close>

definition money_value :: "string \<Rightarrow> rat" where
  "money_value s = (let neg = (s \<noteq> [] \<and> hd s = CHR ''-''); u = (if neg then tl s else s);
       n = read_nat (filter (\<lambda>c. c \<noteq> CHR ''.'') u)
     in (if neg then - 1 else 1) * of_int n / 100)"

lemma read_nat_append: "read_nat (s @ t) = read_nat s * 10 ^ length t + read_nat t"
proof (induction t rule: rev_induct)
  case (snoc c t)
  show ?case unfolding append_assoc [symmetric] read_nat_snoc snoc by (simp add: algebra_simps)
qed (simp add: read_nat_def)

lemma read_pad_left [simp]: "read_nat (pad_left n s) = read_nat s"
proof -
  have "read_nat (replicate k (CHR ''0'')) = 0" for k
  proof (induction k)
    case (Suc k)
    then show ?case using read_nat_snoc [of "replicate k (CHR ''0'')" "CHR ''0''"]
      by (simp add: replicate_append_same code_def)
  qed (simp add: read_nat_def)
  then show ?thesis by (simp add: pad_left_def read_nat_append)
qed

lemma show_nat_small: "0 \<le> n \<Longrightarrow> n < 100 \<Longrightarrow> length (show_nat n) \<le> 2"
proof -
  assume n: "0 \<le> n" "n < 100"
  then have "n < 10 \<or> n div 10 < 10" by linarith
  then show ?thesis by (subst show_nat.simps, simp, subst show_nat.simps) auto
qed

lemma length_pad_left: "length s \<le> n \<Longrightarrow> length (pad_left n s) = n"
  by (simp add: pad_left_def)

lemma digits_no_dot: "list_all is_digit s \<Longrightarrow> filter (\<lambda>c. c \<noteq> CHR ''.'') s = s"
  by (induction s) (auto simp: is_digit_def code_def)

lemma digits_no_minus: "list_all is_digit s \<Longrightarrow> s \<noteq> [] \<Longrightarrow> hd s \<noteq> CHR ''-''"
  by (cases s) (auto simp: is_digit_def code_def)

lemma rhe_abs: "rhe \<bar>y\<bar> = \<bar>rhe y\<bar>"
  using rhe_mono [of 0 y] rhe_mono [of y 0] by (cases "0 \<le> y") (simp_all add: rhe_uminus)

text \<open>
  Amounts are rendered exactly: the text of an amount, read back, is the amount rounded half-even
  to the kobo, and an amount in whole kobo is read back unchanged; anything a NUMERIC(20, 6)
  column can hold is rendered.
\<close>

theorem money_roundtrip:
  assumes "\<bar>x\<bar> \<le> 10 ^ 14"
  shows "\<exists>s. money x = Inr s \<and> money_value s = quant 2 x \<and> (\<forall>k. x = of_int k / 100 \<longrightarrow> money_value s = x)"
proof -
  define n where "n = rhe (\<bar>x\<bar> * 100)"
  have n0: "0 \<le> n" unfolding n_def by (rule rhe_ge_of_int) simp
  have "n \<le> 10 ^ 16" unfolding n_def using assms by (intro rhe_le_of_int) simp
  then have small: "\<not> 10 ^ 28 \<le> n" by simp
  define u where "u = show_nat (n div 100) @ ''.'' @ pad_left 2 (show_nat (n mod 100))"
  have m: "money x = Inr ((if x < 0 then ''-'' else '''') @ u)"
    using small by (simp add: money_def Let_def u_def flip: n_def)
  have d: "list_all is_digit (show_nat (n div 100))" "list_all is_digit (pad_left 2 (show_nat (n mod 100)))"
    using n0 show_nat_digits [of "n div 100"] show_nat_digits [of "n mod 100"]
    by (auto simp: pad_left_def pos_imp_zdiv_nonneg_iff list_all_append list_all_iff[of _ "replicate _ _"] is_digit_def code_def)
  have "length (show_nat (n mod 100)) \<le> 2" using show_nat_small [of "n mod 100"] by simp
  then have "read_nat (filter (\<lambda>c. c \<noteq> CHR ''.'') u) = n div 100 * 10 ^ 2 + n mod 100"
    using n0 by (simp add: u_def digits_no_dot [OF d(1)] digits_no_dot [OF d(2)] read_nat_append length_pad_left
        read_show_nat pos_imp_zdiv_nonneg_iff)
  then have r: "read_nat (filter (\<lambda>c. c \<noteq> CHR ''.'') u) = n" by simp
  have hd: "u \<noteq> []" "hd u \<noteq> CHR ''-''" using digits_no_minus [OF d(1)] by (simp_all add: u_def)
  have "rhe (x * 100) = (if x < 0 then - n else n)" unfolding n_def
    by (cases "x < 0") (simp_all add: rhe_uminus)
  then have v: "money_value ((if x < 0 then ''-'' else '''') @ u) = quant 2 x"
    using hd r by (auto simp: money_value_def Let_def quant_def)
  moreover have "quant 2 x = x" if "x = of_int k / 100" for k
    using quant_of_scaled [of 2 k] unfolding that power2_eq_square by simp
  ultimately have "money_value t = quant 2 x \<and> (\<forall>k. x = of_int k / 100 \<longrightarrow> money_value t = x)"
    if "t = (if x < 0 then ''-'' else '''') @ u" for t using that by metis
  then show ?thesis using m by blast
qed

theorem money_roundtrip_witness: "\<exists>s. money (- 12345 / 1000) = Inr s \<and> s = ''-12.34'' \<and> money_value s = - 1234 / 100"
proof -
  have "money (- 12345 / 1000) = Inr ''-12.34''" "quant 2 (- 12345 / 1000) = - 1234 / 100" by code_simp+
  then show ?thesis using money_roundtrip [of "- 12345 / 1000"] by auto
qed

subsection \<open>Times\<close>

definition month_of :: "int \<Rightarrow> int \<Rightarrow> int" where
  "month_of y n = int (length (filter (\<lambda>m. days_before_month y m \<le> n) [1..12]))"

text \<open>The year, month and day of a date; the year by the cycles of 400, 100, 4 and 1 years.\<close>

definition date_fields :: "date \<Rightarrow> int \<times> int \<times> int" where
  "date_fields d = (
     let n = d + epoch_ordinal - 1; n400 = n div 146097; r = n mod 146097;
         n100 = r div 36524; r100 = r mod 36524; n4 = r100 div 1461; r4 = r100 mod 1461; n1 = r4 div 365; k = r4 mod 365;
         y = n400 * 400 + n100 * 100 + n4 * 4 + n1 + 1
     in if n1 = 4 \<or> n100 = 4 then (y - 1, 12, 31)
        else let m = month_of y k in (y, m, k - days_before_month y m + 1))"

definition show_padded :: "nat \<Rightarrow> int \<Rightarrow> string" where
  "show_padded w n = pad_left w (show_nat n)"

definition iso_date_text :: "date \<Rightarrow> string" where
  "iso_date_text d = (case date_fields d of (y, m, dd) \<Rightarrow>
     show_padded 4 y @ ''-'' @ show_padded 2 m @ ''-'' @ show_padded 2 dd)"

definition isoformat :: "time \<Rightarrow> string" where
  "isoformat t = (let c = clock_of t; us = c mod us_second; sec = c div us_second in
     iso_date_text (date_of t) @ ''T'' @ show_padded 2 (sec div 3600) @ '':'' @ show_padded 2 (sec div 60 mod 60) @ '':'' @
     show_padded 2 (sec mod 60) @ (if us = 0 then '''' else ''.'' @ show_padded 6 us) @ ''+00:00'')"

lemma isoformat_examples:
  "isoformat 0 = ''1970-01-01T00:00:00+00:00''"
  "isoformat 1709210096000120 = ''2024-02-29T12:34:56.000120+00:00''"
  "from_isoformat (isoformat 1709210096000120) = Some (1709210096000120, Some 0)"
  by code_simp+

subsection \<open>Prefix search\<close>

text \<open>
  \<open>q.replace("\", "\\").replace("%", "\%").replace("_", "\_") + "%"\<close>: each replacement scans the
  whole text of the one before.
\<close>

definition backslash :: char where
  "backslash = CHR 0x5C"

definition escape_like :: "string \<Rightarrow> string" where
  "escape_like q = replace_char (CHR ''_'') [backslash, CHR ''_'']
     (replace_char (CHR ''%'') [backslash, CHR ''%''] (replace_char backslash [backslash, backslash] q))"

definition prefix_pattern :: "string \<Rightarrow> string" where
  "prefix_pattern q = escape_like q @ ''%''"

text \<open>
  PostgreSQL's \<open>LIKE\<close>: a percent sign matches any text, an underscore any character, a backslash makes
  the next character literal; a pattern that ends in a lone backslash is an error, here no match.
\<close>

fun like :: "string \<Rightarrow> string \<Rightarrow> bool" where
  "like [] s \<longleftrightarrow> s = []"
| "like (p # ps) s \<longleftrightarrow> (
     if p = CHR ''%'' then list_ex (\<lambda>k. like ps (drop k s)) [0..<Suc (length s)]
     else if p = backslash then (case ps of [] \<Rightarrow> False | e # es \<Rightarrow> s \<noteq> [] \<and> hd s = e \<and> like es (tl s))
     else s \<noteq> [] \<and> (p = CHR ''_'' \<or> hd s = p) \<and> like ps (tl s))"

definition ilike :: "string \<Rightarrow> string \<Rightarrow> bool" where
  "ilike s pat \<longleftrightarrow> like (py_lower pat) (py_lower s)"

definition escape_char :: "char \<Rightarrow> string" where
  "escape_char c = (if c \<in> {backslash, CHR ''%'', CHR ''_''} then [backslash, c] else [c])"

lemma escape_like_concat: "escape_like q = concat (map escape_char q)"
  by (induction q) (auto simp: escape_like_def replace_char_def escape_char_def backslash_def)

lemma like_escaped: "like (concat (map escape_char q) @ ps) s \<longleftrightarrow> (\<exists>t. s = q @ t \<and> like ps t)"
proof (induction q arbitrary: s)
  case (Cons c q)
  have "like (escape_char c @ r) s \<longleftrightarrow> s \<noteq> [] \<and> hd s = c \<and> like r (tl s)" for r
    by (auto simp: escape_char_def backslash_def)
  then have "like (concat (map escape_char (c # q)) @ ps) s \<longleftrightarrow> s \<noteq> [] \<and> hd s = c \<and> (\<exists>t. tl s = q @ t \<and> like ps t)"
    by (simp only: list.map concat.simps append_assoc Cons.IH)
  also have "\<dots> \<longleftrightarrow> (\<exists>t. s = (c # q) @ t \<and> like ps t)" by (cases s) auto
  finally show ?case .
qed simp

lemma lower_special: "c \<in> {backslash, CHR ''%'', CHR ''_''} \<longleftrightarrow> to_lower c \<in> {backslash, CHR ''%'', CHR ''_''}"
proof -
  have "x = backslash \<longleftrightarrow> code x = 92" "x = CHR ''%'' \<longleftrightarrow> code x = 37" "x = CHR ''_'' \<longleftrightarrow> code x = 95" for x
    by (simp_all add: code_eq_iff backslash_def) (simp_all add: code_def)
  then show ?thesis by (auto simp: code_to_lower is_upper_def split: if_splits)
qed

lemma lower_escape: "py_lower (concat (map escape_char q)) = concat (map escape_char (py_lower q))"
proof (induction q)
  case (Cons c q)
  have "map to_lower (escape_char c) = escape_char (to_lower c)"
    using lower_special [of c] by (auto simp: escape_char_def) (auto simp: to_lower_def is_upper_def code_def backslash_def)
  then show ?case using Cons.IH by (simp add: py_lower_def)
qed (simp add: py_lower_def)

text \<open>
  A reference search is a literal prefix search: whatever wildcards and backslashes the query
  contains, the pattern built from it matches exactly the texts that begin with it, up to the
  case of ASCII letters, and the empty query matches every text.
\<close>

lemma ilike_prefix: "ilike s (prefix_pattern q) \<longleftrightarrow> take (length q) (py_lower s) = py_lower q"
proof -
  have "like ''%'' t" for t by (auto simp: list_ex_iff intro: bexI [of _ "length t"])
  moreover have "py_lower (prefix_pattern q) = concat (map escape_char (py_lower q)) @ ''%''"
    using lower_escape [of q] by (simp add: prefix_pattern_def escape_like_concat py_lower_def to_lower_def is_upper_def code_def)
  ultimately have "ilike s (prefix_pattern q) \<longleftrightarrow> (\<exists>t. py_lower s = py_lower q @ t)"
    by (simp only: ilike_def like_escaped simp_thms)
  also have "\<dots> \<longleftrightarrow> take (length q) (py_lower s) = py_lower q"
    using length_py_lower [of q] by (metis append_eq_conv_conj append_take_drop_id)
  finally show ?thesis .
qed

end
