(* ===== verification/Daily_Return.thy ===== *)
theory Daily_Return
  imports Gold Cbn_Report Render Consumer
begin

text \<open>
  \<open>src/flows/daily_report_flow.py\<close>, the table \<open>gold_cbn_daily_returns\<close> of migration 009, and
  \<open>src/api/v1/routes/reports.py\<close>. One row per date; a row that has left the draft status is never
  written again. The payload column holds the summary.
\<close>

subsection \<open>The table\<close>

datatype submission = Draft | Approved | Submitted | Acknowledged

record return_row =
  rr_date :: date
  rr_generated :: time
  rr_run :: nat
  rr_total :: nat
  rr_credits :: nat
  rr_debits :: nat
  rr_credit_volume :: rat
  rr_debit_volume :: rat
  rr_xb_count :: nat
  rr_xb_volume :: rat
  rr_suspicious :: nat
  rr_unreconciled :: nat
  rr_exposure :: rat
  rr_matched :: nat
  rr_match_rate :: "rat option"
  rr_open :: nat
  rr_payload :: daily_summary
  rr_status :: submission
  rr_approved_by :: "string option"
  rr_approved_at :: "time option"

type_synonym return_table = "return_row list"

text \<open>Column types: \<open>INTEGER\<close>, \<open>NUMERIC(25, 2)\<close> and \<open>NUMERIC(7, 4)\<close>.\<close>

definition stored_return :: "return_row \<Rightarrow> return_row" where
  "stored_return r = r\<lparr>rr_credit_volume := pg_round 2 (rr_credit_volume r), rr_debit_volume := pg_round 2 (rr_debit_volume r),
     rr_xb_volume := pg_round 2 (rr_xb_volume r), rr_exposure := pg_round 2 (rr_exposure r),
     rr_match_rate := map_option (pg_round 4) (rr_match_rate r)\<rparr>"

definition return_types_ok :: "return_row \<Rightarrow> bool" where
  "return_types_ok r \<longleftrightarrow> list_all (\<lambda>n. n < 2 ^ 31) [rr_total r, rr_credits r, rr_debits r, rr_xb_count r, rr_suspicious r,
       rr_unreconciled r, rr_matched r, rr_open r] \<and>
     list_all (\<lambda>x. \<bar>x\<bar> < 10 ^ 23) [rr_credit_volume r, rr_debit_volume r, rr_xb_volume r, rr_exposure r] \<and>
     (case rr_match_rate r of None \<Rightarrow> True | Some x \<Rightarrow> \<bar>x\<bar> < 1000)"

definition return_checks :: "return_row \<Rightarrow> bool" where
  "return_checks r \<longleftrightarrow> 0 \<le> rr_credit_volume r \<and> 0 \<le> rr_debit_volume r \<and> rr_credits r + rr_debits r \<le> rr_total r \<and>
     (rr_status r \<in> {Submitted, Acknowledged} \<longrightarrow> rr_approved_by r \<noteq> None \<and> rr_approved_at r \<noteq> None)"

text \<open>
  \<open>INSERT ... ON CONFLICT (return_date) DO UPDATE ... WHERE submission_status = 'draft'\<close>, and whether
  a row came back. The update leaves the status and the approval as they are.
\<close>

definition regenerate :: "return_row \<Rightarrow> return_row \<Rightarrow> return_row" where
  "regenerate new old = new\<lparr>rr_status := rr_status old, rr_approved_by := rr_approved_by old, rr_approved_at := rr_approved_at old\<rparr>"

definition upsert_return :: "nat set \<Rightarrow> return_row \<Rightarrow> return_table \<Rightarrow> exc + return_table \<times> bool" where
  "upsert_return runs r t = (let q = stored_return r in
     if \<not> return_types_ok q then Inl DatabaseError
     else if \<not> return_checks q then Inl IntegrityError
     else case List.find (\<lambda>u. rr_date u = rr_date q) t of
         None \<Rightarrow> if rr_run q \<notin> runs then Inl IntegrityError else Inr (t @ [q], True)
       | Some old \<Rightarrow>
           if rr_status old \<noteq> Draft then Inr (t, False)
           else if rr_run q \<notin> runs then Inl IntegrityError
           else Inr (map (\<lambda>u. if rr_date u = rr_date q then regenerate q u else u) t, True))"

subsection \<open>Building the return\<close>

definition lagos_day :: "time \<Rightarrow> date" where
  "lagos_day t = date_of (wat t)"

text \<open>The day's credits and debits, with their match status.\<close>

definition day_transactions :: "date \<Rightarrow> gold \<Rightarrow> canonical list" where
  "day_transactions d g = filter (\<lambda>s. transaction_type s \<in> {''credit'', ''debit''} \<and> lagos_day (initiated_at s) = d) (g_silver g)"

definition report_txn_of :: "gold \<Rightarrow> canonical \<Rightarrow> report_txn" where
  "report_txn_of g s = \<lparr>rt_amount = Some (amount_ngn s), rt_psp = Some (psp_name s),
     rt_match_status = Some (if is_matched g (tx_id s) then ''matched'' else ''unmatched''),
     rt_currency = Some (currency_raw s), rt_beneficiary = Some (beneficiary_account_masked s),
     rt_timestamp = Some (isoformat (initiated_at s))\<rparr>"

definition disc_status_text :: "disc_status \<Rightarrow> string" where
  "disc_status_text s = (case s of OPEN \<Rightarrow> ''open'' | UNDER_REVIEW \<Rightarrow> ''under_review'' | CLOSED_RESOLVED \<Rightarrow> ''resolved''
     | CLOSED_FALSE_POSITIVE \<Rightarrow> ''false_positive'' | ESCALATED \<Rightarrow> ''escalated'')"

definition day_discrepancies :: "date \<Rightarrow> gold \<Rightarrow> report_disc list" where
  "day_discrepancies d g = map (\<lambda>r. \<lparr>rd_status = Some (disc_status_text (d_state r)), rd_amount = Some (d_exposure r)\<rparr>)
     (filter (\<lambda>r. lagos_day (d_raised r) = d) (g_discs g))"

definition dec_sum :: "rat list \<Rightarrow> rat" where
  "dec_sum xs = foldl (\<lambda>a x. dec (a + x)) 0 xs"

definition return_of :: "date \<Rightarrow> nat \<Rightarrow> time \<Rightarrow> string \<Rightarrow> gold \<Rightarrow> return_row" where
  "return_of d run now rid g = (
     let txns = day_transactions d g;
         summary = generate_daily_return (iso_date_text d) rid (isoformat now) (map (report_txn_of g) txns) (day_discrepancies d g);
         credits = filter (\<lambda>t. transaction_type t = ''credit'') txns;
         debits = filter (\<lambda>t. transaction_type t = ''debit'') txns
     in \<lparr>rr_date = d, rr_generated = now, rr_run = run, rr_total = total_transactions summary, rr_credits = length credits,
          rr_debits = length debits, rr_credit_volume = dec_sum (map amount_ngn credits),
          rr_debit_volume = dec_sum (map amount_ngn debits), rr_xb_count = cross_border_count summary,
          rr_xb_volume = cross_border_volume_ngn summary, rr_suspicious = suspicious_transaction_count summary,
          rr_unreconciled = unmatched_transactions summary, rr_exposure = total_exposure_ngn summary,
          rr_matched = matched_transactions summary,
          rr_match_rate = (if total_transactions summary = 0 then None else Some (match_rate_pct summary)),
          rr_open = open_discrepancies summary, rr_payload = summary, rr_status = Draft, rr_approved_by = None,
          rr_approved_at = None\<rparr>)"

record return_result =
  re_date :: date
  re_stored :: bool
  re_total :: nat

record return_env =
  en_commits :: bool
  en_now :: time
  en_report_id :: string

text \<open>One transaction over the tables it reads; only the table of returns is written.\<close>

definition build_and_store_return ::
  "return_env \<Rightarrow> date \<Rightarrow> nat \<Rightarrow> gold \<Rightarrow> return_table \<Rightarrow> exc + return_result \<times> return_table" where
  "build_and_store_return env d run g t = (let r = return_of d run (en_now env) (en_report_id env) g in
     sbind (upsert_return (run_id ` set (g_runs g)) r t) (\<lambda>(t1, wrote).
       if \<not> en_commits env then Inl DatabaseError
       else Inr (\<lparr>re_date = d, re_stored = wrote, re_total = rr_total r\<rparr>, t1)))"

record return_flow_env =
  rf_new_run :: nat
  rf_start :: time
  rf_build :: return_env
  rf_finish :: time

text \<open>
  \<open>daily_return_flow\<close>: without a date it takes yesterday's in Lagos. The run row is committed before
  the work and finished after it, failed or not.
\<close>

definition daily_return_flow ::
  "return_flow_env \<Rightarrow> date option \<Rightarrow> gold \<Rightarrow> return_table \<Rightarrow> (exc + return_result) \<times> gold \<times> return_table" where
  "daily_return_flow env requested g t = (
     let target = (case requested of None \<Rightarrow> lagos_day (rf_start env) - 1 | Some d \<Rightarrow> d) in
     case start_run (rf_new_run env) (rf_start env) ''daily-return-flow'' ''scheduler'' (g_runs g) of
       Inl e \<Rightarrow> (Inl e, g, t)
     | Inr (run, runs) \<Rightarrow> let g1 = g\<lparr>g_runs := runs\<rparr> in
         (case build_and_store_return (rf_build env) target run g1 t of
            Inl e \<Rightarrow> (Inl e, g1\<lparr>g_runs := finish_run run (rf_finish env) 0 0 (Some (exc_text e)) runs\<rparr>, t)
          | Inr (res, t1) \<Rightarrow> (Inr res, g1\<lparr>g_runs := finish_run run (rf_finish env) (re_total res) 0 None runs\<rparr>, t1)))"

subsection \<open>The API\<close>

record report_view =
  rv_date :: string
  rv_total :: nat
  rv_volume :: string
  rv_match_rate :: "rat option"
  rv_xb_count :: nat
  rv_suspicious :: nat
  rv_open :: nat
  rv_exposure :: string
  rv_status :: submission
  rv_generated :: string

text \<open>\<open>match_rate_pct\<close> is the text of the stored decimal; it stands for itself.\<close>

definition serialise_return :: "return_row \<Rightarrow> exc + report_view" where
  "serialise_return r = sbind (money (dec (rr_credit_volume r + rr_debit_volume r))) (\<lambda>volume.
     sbind (money (rr_exposure r)) (\<lambda>exposure.
       Inr \<lparr>rv_date = iso_date_text (rr_date r), rv_total = rr_total r, rv_volume = volume,
         rv_match_rate = rr_match_rate r, rv_xb_count = rr_xb_count r, rv_suspicious = rr_suspicious r,
         rv_open = rr_open r, rv_exposure = exposure, rv_status = rr_status r, rv_generated = isoformat (rr_generated r)\<rparr>))"

text \<open>\<open>LIMIT :limit OFFSET :offset\<close> of an ordered result.\<close>

definition page_of :: "nat \<Rightarrow> nat \<Rightarrow> 'a list \<Rightarrow> 'a list" where
  "page_of limit offset xs = take limit (drop offset xs)"

definition list_daily_reports :: "nat \<Rightarrow> nat \<Rightarrow> return_table \<Rightarrow> exc + report_view list" where
  "list_daily_reports limit offset t = (if limit < 1 \<or> 90 < limit then Inl (HTTPException 422 ''Unprocessable Entity'')
     else smap serialise_return (page_of limit offset (sort_key (\<lambda>r. - rr_date r) t)))"

definition get_daily_report :: "date \<Rightarrow> return_table \<Rightarrow> exc + report_view" where
  "get_daily_report d t = (case List.find (\<lambda>r. rr_date r = d) t of
       None \<Rightarrow> Inl (HTTPException 404 (''No daily return for '' @ iso_date_text d))
     | Some r \<Rightarrow> serialise_return r)"

subsection \<open>What a run leaves\<close>

definition returns_inv :: "return_table \<Rightarrow> bool" where
  "returns_inv t \<longleftrightarrow> distinct (map rr_date t) \<and> (\<forall>r\<in>set t. return_checks r)"

lemma stored_return_sel [simp]:
  "rr_date (stored_return r) = rr_date r" "rr_status (stored_return r) = rr_status r" "rr_run (stored_return r) = rr_run r"
  "rr_total (stored_return r) = rr_total r" "rr_credits (stored_return r) = rr_credits r" "rr_debits (stored_return r) = rr_debits r"
  "rr_matched (stored_return r) = rr_matched r" "rr_unreconciled (stored_return r) = rr_unreconciled r"
  by (simp_all add: stored_return_def)

lemma regenerate_sel [simp]: "rr_date (regenerate q u) = rr_date q" "rr_status (regenerate q u) = rr_status u"
  by (simp_all add: regenerate_def)

lemma regenerate_checks: "return_checks q \<Longrightarrow> rr_status u = Draft \<Longrightarrow> return_checks (regenerate q u)"
  by (simp add: return_checks_def regenerate_def)

text \<open>The three outcomes of the upsert.\<close>

lemma upsert_return_cases:
  assumes "upsert_return runs r t = Inr (t', wrote)" "distinct (map rr_date t)"
  obtains (added) "wrote" "rr_date r \<notin> rr_date ` set t" "t' = t @ [stored_return r]"
  | (locked) u where "\<not> wrote" "u \<in> set t" "rr_date u = rr_date r" "rr_status u \<noteq> Draft" "t' = t"
  | (regenerated) u where "wrote" "u \<in> set t" "rr_date u = rr_date r" "rr_status u = Draft"
      "t' = map (\<lambda>v. if rr_date v = rr_date r then regenerate (stored_return r) v else v) t"
proof (cases "List.find (\<lambda>u. rr_date u = rr_date r) t")
  case None
  then have "rr_date r \<notin> rr_date ` set t" by (simp add: find_key_None)
  then show ?thesis using None assms added by (auto simp: upsert_return_def Let_def split: if_splits)
next
  case (Some u)
  then have u: "u \<in> set t" "rr_date u = rr_date r" using find_key_Some [OF Some] by simp_all
  show ?thesis
  proof (cases "rr_status u = Draft")
    case True
    then have "wrote \<and> t' = map (\<lambda>v. if rr_date v = rr_date r then regenerate (stored_return r) v else v) t"
      using assms(1) Some by (simp add: upsert_return_def Let_def split: if_splits)
    then show ?thesis using regenerated [OF _ u True] by simp
  next
    case False
    then have "\<not> wrote \<and> t' = t" using assms(1) Some by (simp add: upsert_return_def Let_def split: if_splits)
    then show ?thesis using locked [OF _ u False] by simp
  qed
qed

lemma upsert_return_checks: "upsert_return runs r t = Inr (t', wrote) \<Longrightarrow> return_checks (stored_return r)"
  by (auto simp: upsert_return_def Let_def split: if_splits)

lemma upsert_return_inv [inv_intros]:
  assumes inv: "returns_inv t" and up: "upsert_return runs r t = Inr (t', wrote)"
  shows "returns_inv t'"
proof -
  have d: "distinct (map rr_date t)" using inv by (simp add: returns_inv_def)
  note c = upsert_return_checks [OF up]
  show ?thesis
  proof (cases rule: upsert_return_cases [OF up d])
    case 1
    then show ?thesis using inv c by (auto simp: returns_inv_def)
  next
    case (2 u)
    then show ?thesis using inv by simp
  next
    case (3 u)
    have "map rr_date t' = map rr_date t" unfolding 3(5) by (induction t) auto
    moreover have "rr_status v = Draft" if "v \<in> set t" "rr_date v = rr_date r" for v
      using distinct_map_filter_eq [OF d that(1) 3(2)] that(2) 3(3,4) by simp
    then have "\<forall>v\<in>set t'. return_checks v" unfolding 3(5) using inv regenerate_checks [OF c] by (auto simp: returns_inv_def)
    ultimately show ?thesis using d by (simp add: returns_inv_def)
  qed
qed

lemma day_transactions_runs [simp]: "day_transactions d (g\<lparr>g_runs := rs\<rparr>) = day_transactions d g"
  by (simp add: day_transactions_def)

lemma is_matched_runs [simp]: "is_matched (g\<lparr>g_runs := rs\<rparr>) = is_matched g"
  by (simp add: is_matched_def fun_eq_iff)

lemma length_filter_two:
  "(\<And>x. x \<in> set xs \<Longrightarrow> P x \<noteq> Q x) \<Longrightarrow> length (filter P xs) + length (filter Q xs) = length xs"
  by (induction xs) auto

text \<open>The counts of a return are those of the day's transactions.\<close>

definition counts_of_day :: "date \<Rightarrow> gold \<Rightarrow> return_row \<Rightarrow> bool" where
  "counts_of_day d g r \<longleftrightarrow> rr_date r = d \<and> rr_total r = length (day_transactions d g) \<and>
     rr_credits r + rr_debits r = rr_total r \<and> rr_matched r + rr_unreconciled r = rr_total r \<and>
     rr_matched r = length (filter (\<lambda>s. is_matched g (tx_id s)) (day_transactions d g))"

lemma return_of_counts: "counts_of_day d g (return_of d run now rid g)"
proof -
  define txns where "txns = day_transactions d g"
  have "length (filter (\<lambda>t. transaction_type t = ''credit'') txns) + length (filter (\<lambda>t. transaction_type t = ''debit'') txns) = length txns"
    by (rule length_filter_two) (auto simp: txns_def day_transactions_def)
  moreover have "txn_matched (report_txn_of g s) \<longleftrightarrow> is_matched g (tx_id s)" for s
    by (simp add: txn_matched_def report_txn_of_def)
  then have "length (filter txn_matched (map (report_txn_of g) txns)) = length (filter (\<lambda>s. is_matched g (tx_id s)) txns)"
    "length (filter (\<lambda>t. \<not> txn_matched t) (map (report_txn_of g) txns)) = length (filter (\<lambda>s. \<not> is_matched g (tx_id s)) txns)"
    by (simp_all add: filter_map comp_def)
  moreover have "length (filter (\<lambda>s. is_matched g (tx_id s)) txns) + length (filter (\<lambda>s. \<not> is_matched g (tx_id s)) txns) = length txns"
    by (rule length_filter_two) simp
  ultimately show ?thesis by (simp add: counts_of_day_def return_of_def Let_def generated_summary flip: txns_def)
qed

lemma counts_of_day_rows [simp]:
  "counts_of_day d g (stored_return r) = counts_of_day d g r"
  "counts_of_day d g (regenerate r u) = counts_of_day d g r"
  "counts_of_day d (g\<lparr>g_runs := rs\<rparr>) r = counts_of_day d g r"
  by (simp_all add: counts_of_day_def regenerate_def stored_return_def)

lemma upsert_day:
  assumes up: "upsert_return ids r t = Inr (t1, wrote)" and dt: "distinct (map rr_date t)"
    and c: "counts_of_day d g r" and rd: "rr_date r = d" and rs: "rr_status r = Draft"
  shows "(\<forall>x\<in>set t. rr_date x \<noteq> d \<or> rr_status x \<noteq> Draft \<longrightarrow> x \<in> set t1) \<and> (\<forall>x\<in>set t1. rr_date x \<noteq> d \<longrightarrow> x \<in> set t) \<and>
      (if wrote then \<exists>x\<in>set t1. rr_status x = Draft \<and> counts_of_day d g x
       else t1 = t \<and> (\<exists>x\<in>set t. rr_date x = d \<and> rr_status x \<noteq> Draft))"
proof (cases rule: upsert_return_cases [OF up dt])
  case 1
  then show ?thesis using c rd rs by auto
next
  case (2 u)
  then show ?thesis using rd by auto
next
  case (3 u)
  have draft: "rr_status x = Draft" if "x \<in> set t" "rr_date x = d" for x
    using distinct_map_filter_eq [OF dt that(1) 3(2)] that(2) 3(3,4) rd by simp
  have "regenerate (stored_return r) u \<in> set t1" unfolding 3(5) using 3(2,3) by force
  then have "\<exists>x\<in>set t1. rr_status x = Draft \<and> counts_of_day d g x"
    using c 3(4) by (intro bexI [of _ "regenerate (stored_return r) u"]) auto
  then show ?thesis using 3 draft rd by auto
qed


definition example_return_env :: return_flow_env where
  "example_return_env = \<lparr>rf_new_run = 9, rf_start = us_day, rf_build = \<lparr>en_commits = True, en_now = us_day, en_report_id = ''r''\<rparr>,
     rf_finish = us_day + 1\<rparr>"

lemma example_day: "day_transactions 0 example_gold = g_silver example_gold"
  by (simp add: day_transactions_def example_gold_def example_tx_def lagos_day_def wat_def date_of_def)

lemma example_return: "return_types_ok (stored_return (return_of 0 9 t rid (example_gold\<lparr>g_runs := rs\<rparr>))) \<and>
    return_checks (stored_return (return_of 0 9 t rid (example_gold\<lparr>g_runs := rs\<rparr>)))"
proof -
  define ts where "ts = map (report_txn_of (example_gold\<lparr>g_runs := rs\<rparr>)) (g_silver example_gold)"
  define s where "s = generate_daily_return (iso_date_text 0) rid (isoformat t) ts []"
  have g: "total_transactions s = 2" "unmatched_transactions s = 2" "matched_transactions s = 0"
    "cross_border_count s = 0" "cross_border_volume_ngn s = 0" "total_exposure_ngn s = 0" "open_discrepancies s = 0"
    "suspicious_transaction_count s = 0" "match_rate_pct s = 0"
    unfolding s_def ts_def generate_daily_return_def detect_suspicious_def
    by (simp_all add: example_gold_def example_tx_def report_txn_of_def add_txn_def Let_def empty_summary_def get_or_def txn_amount_def
        txn_matched_def is_matched_def rate_pct_def fl.zero quant.zero)
  have c: "map amount_ngn (filter (\<lambda>t. transaction_type t = x) (g_silver example_gold)) = [50000] \<and>
      length (filter (\<lambda>t. transaction_type t = x) (g_silver example_gold)) = 1" if "x \<in> {''credit'', ''debit''}" for x
    using that by (auto simp: example_gold_def example_tx_def)
  have "dec 50000 = 50000" using dec_int [of 50000] by simp
  moreover have "day_discrepancies 0 (example_gold\<lparr>g_runs := rs\<rparr>) = []" by (simp add: day_discrepancies_def example_gold_def)
  moreover have "pg_round k 0 = 0" "pg_round k 50000 = 50000" for k
    using pg_round_int [of k 0] pg_round_int [of k 50000] by simp_all
  ultimately show ?thesis
    using c [of "''credit''"] c [of "''debit''"] unfolding return_of_def day_transactions_runs example_day
    by (simp add: Let_def g [unfolded s_def ts_def] stored_return_def return_types_ok_def return_checks_def dec_sum_def)
qed

lemma example_return_run: "\<exists>out g' t'. daily_return_flow example_return_env None example_gold [] = (Inr out, g', t') \<and> re_stored out"
proof -
  have "lagos_day us_day - 1 = 0" by (simp add: lagos_day_def wat_def date_of_def)
  then show ?thesis
    using example_return
    by (simp add: daily_return_flow_def example_return_env_def start_run_def example_gold_def build_and_store_return_def
        upsert_return_def Let_def return_of_def)
qed


end
