(* ===== verification/Api_Read.thy ===== *)
theory Api_Read
  imports Alerting Daily_Return
begin

text \<open>
  The read side of the API: \<open>src/api/v1/routes/reconciliation.py\<close>, \<open>transactions.py\<close> and
  \<open>system.py\<close>. Each request reads one snapshot of the tables. A date cast to a timestamp is midnight
  in the time zone of the database session, whose offset east of UTC is \<open>tz\<close>. Rows the query does
  not order keep the order of the table.
\<close>

record api_db =
  ad_gold :: gold
  ad_bronze :: "(bronze_row \<times> time) list"

abbreviation invalid_query :: exc where
  "invalid_query \<equiv> HTTPException 422 ''Unprocessable Entity''"

definition is_open :: "disc_row \<Rightarrow> bool" where
  "is_open d \<longleftrightarrow> d_state d \<in> {OPEN, UNDER_REVIEW, ESCALATED}"

definition counted_type :: "canonical \<Rightarrow> bool" where
  "counted_type s \<longleftrightarrow> transaction_type s \<in> {''credit'', ''debit''}"

definition match_rate :: "nat \<Rightarrow> nat \<Rightarrow> rat option" where
  "match_rate matched n = (if n = 0 then None else Some (rate_pct matched n))"

definition exposure_of :: "disc_row list \<Rightarrow> rat" where
  "exposure_of ds = sum_list (map d_exposure ds)"

subsection \<open>Summary and trend\<close>

definition classes :: "discrepancy_type list" where
  "classes = [MISSING_SETTLEMENT, AMOUNT_MISMATCH, FX_VARIANCE, DUPLICATE_CREDIT, LATE_SETTLEMENT]"

record summary_view =
  su_date :: string
  su_total :: nat
  su_matched :: nat
  su_unmatched :: nat
  su_rate :: "rat option"
  su_groups :: "(discrepancy_type \<times> nat \<times> string) list"
  su_generated :: string

definition raised_on :: "date \<Rightarrow> gold \<Rightarrow> disc_row list" where
  "raised_on d g = filter (\<lambda>r. lagos_day (d_raised r) = d) (g_discs g)"

definition group_line :: "disc_row list \<Rightarrow> discrepancy_type \<Rightarrow> exc + discrepancy_type \<times> nat \<times> string" where
  "group_line ds c = (let rs = filter (\<lambda>r. d_class r = c) ds in
     sbind (Render.money (exposure_of rs)) (\<lambda>m. Inr (c, length rs, m)))"

definition get_reconciliation_summary :: "time \<Rightarrow> date option \<Rightarrow> gold \<Rightarrow> exc + summary_view" where
  "get_reconciliation_summary now report_day g = (
     let d = (case report_day of None \<Rightarrow> lagos_day now | Some d \<Rightarrow> d);
         txs = day_transactions d g; matched = length (filter (\<lambda>s. is_matched g (tx_id s)) txs)
     in sbind (smap (group_line (raised_on d g)) (filter (\<lambda>c. c \<in> d_class ` set (raised_on d g)) classes)) (\<lambda>groups.
       Inr \<lparr>su_date = iso_date_text d, su_total = length txs, su_matched = matched, su_unmatched = length txs - matched,
         su_rate = match_rate matched (length txs), su_groups = groups, su_generated = isoformat now\<rparr>))"

record trend_day =
  td_date :: string
  td_total :: nat
  td_matched :: nat
  td_rate :: "rat option"
  td_volume :: string
  td_raised :: nat

text \<open>\<open>CAST(:start AS date) - INTERVAL '1 hour'\<close> as an instant.\<close>

definition trend_cutoff :: "span \<Rightarrow> date \<Rightarrow> time" where
  "trend_cutoff tz start = us_day * start - us_hour - tz"

definition trend_row :: "span \<Rightarrow> date \<Rightarrow> gold \<Rightarrow> date \<Rightarrow> exc + trend_day" where
  "trend_row tz start g day = (
     let txs = filter (\<lambda>s. lagos_day (initiated_at s) = day)
           (filter (\<lambda>s. counted_type s \<and> trend_cutoff tz start \<le> initiated_at s) (g_silver g));
         matched = length (filter (\<lambda>s. is_matched g (tx_id s)) txs);
         raised = filter (\<lambda>r. lagos_day (d_raised r) = day) (filter (\<lambda>r. trend_cutoff tz start \<le> d_raised r) (g_discs g))
     in sbind (Render.money (sum_list (map amount_ngn txs))) (\<lambda>volume.
       Inr \<lparr>td_date = iso_date_text day, td_total = length txs, td_matched = matched,
         td_rate = match_rate matched (length txs), td_volume = volume, td_raised = length raised\<rparr>))"

definition get_trend :: "span \<Rightarrow> time \<Rightarrow> int \<Rightarrow> gold \<Rightarrow> exc + trend_day list" where
  "get_trend tz now days g = (if days < 1 \<or> 180 < days then Inl invalid_query else
     let stop = lagos_day now; start = stop - (days - 1) in
     smap (trend_row tz start g) [start..stop])"

subsection \<open>PSP health\<close>

record health_line =
  hl_psp :: string
  hl_events_24h :: nat
  hl_last_event :: "string option"
  hl_rate_7d :: "rat option"
  hl_open :: nat
  hl_exposure :: string

definition psp_of :: "gold \<Rightarrow> disc_row \<Rightarrow> string option" where
  "psp_of g d = map_option psp_name (tx_row g (d_tx d))"

definition open_of_psp :: "gold \<Rightarrow> string \<Rightarrow> disc_row list" where
  "open_of_psp g p = filter (\<lambda>d. is_open d \<and> psp_of g d = Some p) (g_discs g)"

definition psp_line_of :: "time \<Rightarrow> api_db \<Rightarrow> string \<Rightarrow> exc + health_line" where
  "psp_line_of now db p = (
     let g = ad_gold db; evs = map snd (filter (\<lambda>e. b_psp (fst e) = p) (ad_bronze db));
         txs = filter (\<lambda>s. counted_type s \<and> psp_name s = p \<and> now - 7 * us_day \<le> initiated_at s) (g_silver g)
     in sbind (Render.money (exposure_of (open_of_psp g p))) (\<lambda>m.
       Inr \<lparr>hl_psp = p, hl_events_24h = length (filter (\<lambda>t. now - 24 * us_hour \<le> t) evs),
         hl_last_event = (if evs = [] then None else Some (isoformat (fold max (tl evs) (hd evs)))),
         hl_rate_7d = match_rate (length (filter (\<lambda>s. is_matched g (tx_id s)) txs)) (length txs),
         hl_open = length (open_of_psp g p), hl_exposure = m\<rparr>))"

definition get_psp_health :: "time \<Rightarrow> api_db \<Rightarrow> exc + health_line list" where
  "get_psp_health now db = smap (psp_line_of now db) [''flutterwave'', ''paystack'']"

subsection \<open>Lists\<close>

definition limit_ok :: "nat \<Rightarrow> bool" where
  "limit_ok limit \<longleftrightarrow> 1 \<le> limit \<and> limit \<le> 200"

record pair_view =
  pv_row :: pair_row
  pv_psp_a :: string
  pv_psp_b :: string
  pv_amount_a :: string
  pv_amount_b :: string
  pv_delta :: string
  pv_created :: string

definition pair_visible :: "gold \<Rightarrow> pair_status option \<Rightarrow> string option \<Rightarrow> pair_row \<Rightarrow> bool" where
  "pair_visible g status psp p \<longleftrightarrow> (case (tx_row g (p_a p), tx_row g (p_b p)) of
     (Some a, Some b) \<Rightarrow> (case status of None \<Rightarrow> True | Some st \<Rightarrow> p_state p = st) \<and>
       (case psp of None \<Rightarrow> True | Some q \<Rightarrow> psp_name a = q \<or> psp_name b = q)
   | _ \<Rightarrow> False)"

definition render_pair :: "gold \<Rightarrow> pair_row \<Rightarrow> exc + pair_view" where
  "render_pair g p = sbind (Render.money (p_amount_a p)) (\<lambda>a. sbind (Render.money (p_amount_b p)) (\<lambda>b.
     sbind (Render.money (p_delta p)) (\<lambda>delta.
       Inr \<lparr>pv_row = p, pv_psp_a = psp_name (the (tx_row g (p_a p))), pv_psp_b = psp_name (the (tx_row g (p_b p))),
         pv_amount_a = a, pv_amount_b = b, pv_delta = delta, pv_created = isoformat (p_created p)\<rparr>)))"

definition list_reconciliation_pairs ::
  "pair_status option \<Rightarrow> string option \<Rightarrow> nat \<Rightarrow> nat \<Rightarrow> gold \<Rightarrow> exc + pair_view list" where
  "list_reconciliation_pairs status psp limit offset g = (if \<not> limit_ok limit then Inl invalid_query else
     smap (render_pair g) (page_of limit offset (sort_key (\<lambda>p. - p_created p) (sort_key p_id
       (filter (pair_visible g status psp) (g_pairs g))))))"

record disc_view =
  dv_row :: disc_row
  dv_psp :: string
  dv_ref :: string
  dv_amount :: string
  dv_exposure :: string
  dv_detected :: string

definition disc_visible :: "gold \<Rightarrow> disc_status option \<Rightarrow> severity option \<Rightarrow> string option \<Rightarrow> disc_row \<Rightarrow> bool" where
  "disc_visible g status sev psp d \<longleftrightarrow> (case tx_row g (d_tx d) of None \<Rightarrow> False | Some s \<Rightarrow>
     (case status of None \<Rightarrow> True | Some st \<Rightarrow> d_state d = st) \<and> (case sev of None \<Rightarrow> True | Some x \<Rightarrow> d_severity d = x) \<and>
     (case psp of None \<Rightarrow> True | Some q \<Rightarrow> psp_name s = q))"

definition render_disc :: "gold \<Rightarrow> disc_row \<Rightarrow> exc + disc_view" where
  "render_disc g d = (let s = the (tx_row g (d_tx d)) in
     sbind (Render.money (d_exposure d)) (\<lambda>e. sbind (Render.money (amount_ngn s)) (\<lambda>a.
       Inr \<lparr>dv_row = d, dv_psp = psp_name s, dv_ref = psp_transaction_ref s, dv_amount = a, dv_exposure = e,
         dv_detected = isoformat (d_raised d)\<rparr>)))"

text \<open>\<open>status\<close> is absent for \<open>all\<close>. Critical first, then the latest, then by identifier.\<close>

definition disc_order :: "disc_row list \<Rightarrow> disc_row list" where
  "disc_order ds = sort_key (\<lambda>d. 3 - severity_rank (d_severity d)) (sort_key (\<lambda>d. - d_raised d) (sort_key d_id ds))"

definition list_discrepancies ::
  "disc_status option \<Rightarrow> severity option \<Rightarrow> string option \<Rightarrow> nat \<Rightarrow> nat \<Rightarrow> gold \<Rightarrow> exc + disc_view list" where
  "list_discrepancies status sev psp limit offset g = (if \<not> limit_ok limit then Inl invalid_query else
     smap (render_disc g) (page_of limit offset (disc_order (filter (disc_visible g status sev psp) (g_discs g)))))"

definition get_discrepancy_events :: "nat \<Rightarrow> gold \<Rightarrow> event_row list" where
  "get_discrepancy_events i g = sort_key ev_at (filter (\<lambda>e. ev_disc e = i) (g_events g))"

subsection \<open>Exposure\<close>

text \<open>Groups of the open discrepancies by PSP and a second key, with count and exposure.\<close>

definition open_joined :: "gold \<Rightarrow> disc_row list" where
  "open_joined g = filter (\<lambda>d. is_open d \<and> tx_row g (d_tx d) \<noteq> None) (g_discs g)"

definition group_by :: "('a \<Rightarrow> 'k) \<Rightarrow> 'a list \<Rightarrow> ('k \<times> 'a list) list" where
  "group_by f xs = map (\<lambda>k. (k, filter (\<lambda>x. f x = k) xs)) (remdups (map f xs))"

record exposure_line =
  el_psp :: "string option"
  el_class :: discrepancy_type
  el_count :: nat
  el_exposure :: string

definition exposure_groups :: "gold \<Rightarrow> ((string option \<times> discrepancy_type) \<times> disc_row list) list" where
  "exposure_groups g = sort_key (\<lambda>p. - exposure_of (snd p)) (group_by (\<lambda>d. (psp_of g d, d_class d)) (open_joined g))"

definition render_exposure :: "(string option \<times> discrepancy_type) \<times> disc_row list \<Rightarrow> exc + exposure_line" where
  "render_exposure p = sbind (Render.money (exposure_of (snd p))) (\<lambda>m.
     Inr \<lparr>el_psp = fst (fst p), el_class = snd (fst p), el_count = length (snd p), el_exposure = m\<rparr>)"

definition get_exposure :: "gold \<Rightarrow> exc + string \<times> exposure_line list" where
  "get_exposure g = (let rows = exposure_groups g; total_exposure = dec_sum (map (exposure_of \<circ> snd) rows) in
     sbind (Render.money total_exposure) (\<lambda>m. sbind (smap render_exposure rows) (\<lambda>lines. Inr (m, lines))))"

definition AGING_BUCKETS :: "string list" where
  "AGING_BUCKETS = [''0-1d'', ''1-3d'', ''3-7d'', ''7d+'']"

definition age_bucket :: "time \<Rightarrow> disc_row \<Rightarrow> string" where
  "age_bucket now d = (let age = now - d_raised d in
     if age < us_day then ''0-1d'' else if age < 3 * us_day then ''1-3d'' else if age < 7 * us_day then ''3-7d'' else ''7d+'')"

definition aging_groups :: "time \<Rightarrow> gold \<Rightarrow> ((string option \<times> string) \<times> disc_row list) list" where
  "aging_groups now g = group_by (\<lambda>d. (psp_of g d, age_bucket now d)) (open_joined g)"

text \<open>Each query row is added to its bucket: a count and a Decimal exposure per bucket name.\<close>

type_synonym buckets = "(string \<times> nat \<times> rat) list"

definition empty_buckets :: buckets where
  "empty_buckets = map (\<lambda>n. (n, 0, 0)) AGING_BUCKETS"

definition add_bucket :: "string \<Rightarrow> nat \<Rightarrow> rat \<Rightarrow> buckets \<Rightarrow> buckets" where
  "add_bucket b n x = map (\<lambda>(name, c, e). if name = b then (name, c + n, dec (e + x)) else (name, c, e))"

definition overall_buckets :: "((string option \<times> string) \<times> disc_row list) list \<Rightarrow> buckets" where
  "overall_buckets rows = fold (\<lambda>r. add_bucket (snd (fst r)) (length (snd r)) (exposure_of (snd r))) rows empty_buckets"

definition render_buckets :: "buckets \<Rightarrow> exc + (string \<times> nat \<times> string) list" where
  "render_buckets = smap (\<lambda>(name, c, e). sbind (Render.money e) (\<lambda>m. Inr (name, c, m)))"

definition get_exposure_aging ::
  "time \<Rightarrow> gold \<Rightarrow> exc + (string \<times> nat \<times> string) list \<times> (string \<times> (string \<times> nat \<times> string) list) list" where
  "get_exposure_aging now g = (let rows = aging_groups now g;
       psps = sort (remdups (map (\<lambda>r. the (fst (fst r))) rows)) in
     sbind (render_buckets (overall_buckets rows)) (\<lambda>overall.
     sbind (smap (\<lambda>p. sbind (render_buckets (overall_buckets (filter (\<lambda>r. fst (fst r) = Some p) rows))) (\<lambda>bs. Inr (p, bs))) psps) (\<lambda>per_psp.
       Inr (overall, per_psp))))"

subsection \<open>Transactions\<close>

record tx_view =
  tv_row :: canonical
  tv_amount :: string
  tv_currency :: string
  tv_initiated :: string
  tv_match_status :: string
  tv_pair :: "nat option"
  tv_open :: nat

definition pair_of :: "gold \<Rightarrow> nat \<Rightarrow> nat option" where
  "pair_of g t = map_of (g_matched g) t"

definition serialise_summary :: "gold \<Rightarrow> canonical \<Rightarrow> exc + tx_view" where
  "serialise_summary g s = sbind (Render.money (amount_ngn s)) (\<lambda>m.
     Inr \<lparr>tv_row = s, tv_amount = m, tv_currency = py_strip (currency_raw s), tv_initiated = isoformat (initiated_at s),
       tv_match_status = (if pair_of g (tx_id s) \<noteq> None then ''matched'' else ''unmatched''), tv_pair = pair_of g (tx_id s),
       tv_open = length (filter (\<lambda>d. d_tx d = tx_id s \<and> is_open d) (g_discs g))\<rparr>)"

record tx_query =
  tq_q :: "string option"
  tq_psp :: "string option"
  tq_type :: "string option"
  tq_match :: "string option"
  tq_settlement :: "string option"
  tq_from :: "date option"
  tq_to :: "date option"

text \<open>
  \<open>uuid\<close> is the UUID constructor: the identifier a text denotes, or none for its \<open>ValueError\<close>. The
  query is an identifier or a prefix; an empty one is no filter.
\<close>

definition search_terms :: "(string \<Rightarrow> nat option) \<Rightarrow> string option \<Rightarrow> nat option \<times> string option" where
  "search_terms uuid q = (case q of None \<Rightarrow> (None, None) | Some s \<Rightarrow>
     if s = '''' then (None, None)
     else let t = py_strip s in
       case uuid t of Some i \<Rightarrow> (Some i, None) | None \<Rightarrow> (None, Some (prefix_pattern t)))"

definition opt_holds :: "('a \<Rightarrow> bool) \<Rightarrow> 'a option \<Rightarrow> bool" where
  "opt_holds P v \<longleftrightarrow> (case v of None \<Rightarrow> True | Some x \<Rightarrow> P x)"

text \<open>The \<open>WHERE\<close> clause.\<close>

definition tx_where :: "span \<Rightarrow> (string \<Rightarrow> nat option) \<Rightarrow> tx_query \<Rightarrow> gold \<Rightarrow> canonical \<Rightarrow> bool" where
  "tx_where tz uuid q g s \<longleftrightarrow>
     opt_holds (\<lambda>i. tx_id s = i) (fst (search_terms uuid (tq_q q))) \<and>
     opt_holds (\<lambda>pat. ilike (psp_transaction_ref s) pat) (snd (search_terms uuid (tq_q q))) \<and>
     opt_holds (\<lambda>p. psp_name s = p) (tq_psp q) \<and> opt_holds (\<lambda>t. transaction_type s = t) (tq_type q) \<and>
     opt_holds (\<lambda>t. settlement_status s = t) (tq_settlement q) \<and>
     opt_holds (\<lambda>m. (m = ''matched'') = is_matched g (tx_id s)) (tq_match q) \<and>
     opt_holds (\<lambda>d. us_day * d - us_hour - tz \<le> initiated_at s) (tq_from q) \<and>
     opt_holds (\<lambda>d. initiated_at s < us_day * d + 23 * us_hour - tz) (tq_to q)"

definition list_transactions ::
  "span \<Rightarrow> (string \<Rightarrow> nat option) \<Rightarrow> tx_query \<Rightarrow> nat \<Rightarrow> nat \<Rightarrow> gold \<Rightarrow> exc + tx_view list \<times> nat" where
  "list_transactions tz uuid q limit offset g = (
     if \<not> limit_ok limit \<or> \<not> opt_holds (\<lambda>s. length s \<le> 200) (tq_q q) then Inl invalid_query else
     let rows = filter (tx_where tz uuid q g) (g_silver g) in
     sbind (smap (serialise_summary g) (page_of limit offset (sort_key (\<lambda>s. - initiated_at s) (sort_key tx_id rows)))) (\<lambda>views.
       Inr (views, length rows)))"

record brief_view =
  bv_row :: disc_row
  bv_exposure :: string
  bv_detected :: string

definition serialise_discrepancy_brief :: "disc_row \<Rightarrow> exc + brief_view" where
  "serialise_discrepancy_brief d = sbind (Render.money (d_exposure d)) (\<lambda>m.
     Inr \<lparr>bv_row = d, bv_exposure = m, bv_detected = isoformat (d_raised d)\<rparr>)"

definition briefs_of :: "nat list \<Rightarrow> gold \<Rightarrow> exc + brief_view list" where
  "briefs_of ids g = smap serialise_discrepancy_brief
     (sort_key (\<lambda>d. - d_raised d) (filter (\<lambda>d. d_tx d \<in> set ids) (g_discs g)))"

record pair_brief =
  pb_row :: pair_row
  pb_delta :: string
  pb_counterpart :: canonical
  pb_amount :: string

record lineage =
  ln_bronze :: bronze_row
  ln_received :: string
  ln_run :: nat

record tx_detail =
  td_tx :: tx_view
  td_pair :: "pair_brief option"
  td_discrepancies :: "brief_view list"
  td_lineage :: lineage

definition counterpart_of :: "pair_row \<Rightarrow> nat \<Rightarrow> nat" where
  "counterpart_of p t = (if p_a p = t then p_b p else p_a p)"

definition pair_brief_of :: "gold \<Rightarrow> nat \<Rightarrow> nat option \<Rightarrow> exc + pair_brief option" where
  "pair_brief_of g t pid = (case pid of None \<Rightarrow> Inr None | Some i \<Rightarrow>
     (case List.find (\<lambda>p. p_id p = i) (g_pairs g) of None \<Rightarrow> Inr None | Some p \<Rightarrow>
       (case tx_row g (counterpart_of p t) of None \<Rightarrow> Inr None | Some c \<Rightarrow>
         sbind (Render.money (p_delta p)) (\<lambda>delta. sbind (Render.money (amount_ngn c)) (\<lambda>a.
           Inr (Some \<lparr>pb_row = p, pb_delta = delta, pb_counterpart = c, pb_amount = a\<rparr>))))))"

definition get_transaction :: "nat \<Rightarrow> api_db \<Rightarrow> exc + tx_detail" where
  "get_transaction i db = (let g = ad_gold db; missing = Inl (HTTPException 404 ''Transaction not found'') in
     case tx_row g i of None \<Rightarrow> missing | Some s \<Rightarrow>
     (case List.find (\<lambda>e. b_id (fst e) = bronze_ingestion_id s) (ad_bronze db) of None \<Rightarrow> missing | Some (b, received) \<Rightarrow>
       sbind (pair_brief_of g i (pair_of g i)) (\<lambda>pair.
       sbind (briefs_of [i] g) (\<lambda>discs.
       sbind (serialise_summary g s) (\<lambda>v.
         Inr \<lparr>td_tx = v, td_pair = pair, td_discrepancies = discs,
           td_lineage = \<lparr>ln_bronze = b, ln_received = isoformat received, ln_run = processed_by_run_id s\<rparr>\<rparr>)))))"

record pair_detail =
  pd_pair :: pair_row
  pd_amounts :: "string \<times> string \<times> string"
  pd_a :: "tx_view option"
  pd_b :: "tx_view option"
  pd_discrepancies :: "brief_view list"

definition leg_of :: "gold \<Rightarrow> nat \<Rightarrow> exc + tx_view option" where
  "leg_of g t = (case tx_row g t of None \<Rightarrow> Inr None | Some s \<Rightarrow> sbind (serialise_summary g s) (\<lambda>v. Inr (Some v)))"

definition get_pair :: "nat \<Rightarrow> gold \<Rightarrow> exc + pair_detail" where
  "get_pair i g = (case List.find (\<lambda>p. p_id p = i) (g_pairs g) of
       None \<Rightarrow> Inl (HTTPException 404 ''Pair not found'')
     | Some p \<Rightarrow> sbind (leg_of g (p_a p)) (\<lambda>a. sbind (leg_of g (p_b p)) (\<lambda>b.
         sbind (Render.money (p_amount_a p)) (\<lambda>ma. sbind (Render.money (p_amount_b p)) (\<lambda>mb.
         sbind (Render.money (p_delta p)) (\<lambda>md. sbind (briefs_of [p_a p, p_b p] g) (\<lambda>discs.
           Inr \<lparr>pd_pair = p, pd_amounts = (ma, mb, md), pd_a = a, pd_b = b, pd_discrepancies = discs\<rparr>)))))))"

subsection \<open>Runs and search\<close>

text \<open>\<open>str.splitlines\<close> for the line ends ASCII has: CR, LF, VT, FF, FS, GS and RS.\<close>

definition line_end :: "char \<Rightarrow> bool" where
  "line_end c \<longleftrightarrow> code c \<in> {10, 11, 12, 13, 28, 29, 30}"

definition first_line :: "string option \<Rightarrow> string option" where
  "first_line message = (let s = py_strip (case message of None \<Rightarrow> '''' | Some m \<Rightarrow> m) in
     if s = '''' then None else Some (take 300 (takeWhile (\<lambda>c. \<not> line_end c) s)))"

record run_view =
  rn_row :: pipeline_run
  rn_started :: string
  rn_completed :: "string option"
  rn_error :: "string option"

definition list_pipeline_runs :: "nat \<Rightarrow> string option \<Rightarrow> run_table \<Rightarrow> exc + run_view list" where
  "list_pipeline_runs limit flow runs = (if \<not> limit_ok limit \<or> \<not> opt_holds (\<lambda>s. length s \<le> 200) flow then Inl invalid_query else
     Inr (map (\<lambda>r. \<lparr>rn_row = r, rn_started = isoformat (started_at r), rn_completed = map_option isoformat (completed_at r),
         rn_error = first_line (error_message r)\<rparr>)
       (page_of limit 0 (sort_key (\<lambda>r. - started_at r) (sort_key run_id (filter (\<lambda>r. opt_holds (\<lambda>f. flow_name r = f) flow) runs))))))"

definition SEARCH_LIMIT :: nat where
  "SEARCH_LIMIT = 20"

datatype hit = HitDisc disc_row string | HitPair pair_row | HitTx canonical string

definition search_disc :: "nat \<Rightarrow> gold \<Rightarrow> exc + hit list" where
  "search_disc i g = (case List.find (\<lambda>d. d_id d = i \<and> tx_row g (d_tx d) \<noteq> None) (g_discs g) of None \<Rightarrow> Inr []
     | Some d \<Rightarrow> sbind (Render.money (d_exposure d)) (\<lambda>m. Inr [HitDisc d m]))"

definition search_pair :: "nat \<Rightarrow> gold \<Rightarrow> hit list" where
  "search_pair i g = (case List.find (\<lambda>p. p_id p = i) (g_pairs g) of None \<Rightarrow> [] | Some p \<Rightarrow> [HitPair p])"

definition search_txs :: "nat option \<Rightarrow> string \<Rightarrow> gold \<Rightarrow> canonical list" where
  "search_txs i pat g = page_of SEARCH_LIMIT 0 (sort_key (\<lambda>s. - initiated_at s)
     (filter (\<lambda>s. i = Some (tx_id s) \<or> ilike (psp_transaction_ref s) pat) (g_silver g)))"

definition search :: "(string \<Rightarrow> nat option) \<Rightarrow> string \<Rightarrow> gold \<Rightarrow> exc + hit list" where
  "search uuid q g = (if length q < 3 \<or> 200 < length q then Inl invalid_query else
     let term = py_strip q; i = uuid term in
     sbind (case i of None \<Rightarrow> Inr [] | Some k \<Rightarrow> sbind (search_disc k g) (\<lambda>ds. Inr (ds @ search_pair k g))) (\<lambda>found.
     sbind (smap (\<lambda>s. sbind (Render.money (amount_ngn s)) (\<lambda>m. Inr (HitTx s m))) (search_txs i (prefix_pattern term) g)) (\<lambda>txs.
       Inr (take SEARCH_LIMIT (found @ txs)))))"

subsection \<open>Sums over groups\<close>

lemma sum_list_single: "distinct ks \<Longrightarrow> c \<in> set ks \<Longrightarrow> sum_list (map (\<lambda>k. if c = k then v else 0) ks) = (v::'b::comm_monoid_add)"
proof (induction ks)
  case (Cons k ks)
  show ?case
  proof (cases "c = k")
    case True
    then have "sum_list (map (\<lambda>k. if c = k then v else 0) ks) = sum_list (map (\<lambda>_. 0) ks)"
      using Cons.prems(1) by (intro arg_cong [where f = sum_list] map_cong) auto
    then show ?thesis using True by simp
  qed (use Cons in auto)
qed simp

lemma sum_groups:
  fixes f :: "'a \<Rightarrow> 'b::comm_monoid_add"
  assumes "distinct ks" "h ` set xs \<subseteq> set ks"
  shows "sum_list (map (\<lambda>k. sum_list (map f (filter (\<lambda>x. h x = k) xs))) ks) = sum_list (map f xs)"
  using assms(2)
proof (induction xs)
  case (Cons x xs)
  have "sum_list (map (\<lambda>k. sum_list (map f (filter (\<lambda>x. h x = k) (x # xs)))) ks) =
      sum_list (map (\<lambda>k. (if h x = k then f x else 0) + sum_list (map f (filter (\<lambda>x. h x = k) xs))) ks)"
    by (intro arg_cong [where f = sum_list] map_cong) auto
  also have "\<dots> = f x + sum_list (map f xs)"
    using Cons assms(1) by (simp add: sum_list_addf sum_list_single)
  finally show ?case by simp
qed simp

lemma sum_list_sort: "sum_list (map f (sort_key k xs)) = sum_list (map (f :: 'a \<Rightarrow> 'b::comm_monoid_add) xs)"
proof -
  have "mset (map f (sort_key k xs)) = mset (map f xs)" by simp
  then show ?thesis by (simp only: sum_mset_sum_list [symmetric])
qed

lemma length_sum: "length xs = sum_list (map (\<lambda>_. 1) xs)"
  by (induction xs) auto

lemma length_groups:
  "distinct ks \<Longrightarrow> h ` set xs \<subseteq> set ks \<Longrightarrow> sum_list (map (\<lambda>k. length (filter (\<lambda>x. h x = k) xs)) ks) = length xs"
  using sum_groups [of ks h xs "\<lambda>_. 1::nat"] by (simp add: length_sum [symmetric] sum_list_triv)

lemma sum_group_by: "sum_list (map (\<lambda>p. sum_list (map f (snd p))) (group_by h xs)) = sum_list (map (f :: 'a \<Rightarrow> 'b::comm_monoid_add) xs)"
  using sum_groups [of "remdups (map h xs)" h xs f] by (simp add: group_by_def comp_def)

lemma length_group_by: "sum_list (map (\<lambda>p. length (snd p)) (group_by h xs)) = length xs"
  using length_groups [of "remdups (map h xs)" h xs] by (simp add: group_by_def comp_def)

lemma smap_Inr_map: "smap f xs = Inr ys \<Longrightarrow> (\<And>x y. x \<in> set xs \<Longrightarrow> f x = Inr y \<Longrightarrow> h y = k x) \<Longrightarrow> map h ys = map k xs"
  by (induction xs arbitrary: ys) auto

lemma sum_list_map_filter_zero: "(\<And>x. x \<in> set xs \<Longrightarrow> \<not> P x \<Longrightarrow> f x = 0) \<Longrightarrow>
    sum_list (map f (filter P xs)) = sum_list (map (f :: 'a \<Rightarrow> 'b::comm_monoid_add) xs)"
  by (induction xs) auto

subsection \<open>The trend agrees with the summary\<close>

lemma prefilter_keeps: "0 \<le> tz \<Longrightarrow> start \<le> lagos_day t \<Longrightarrow> trend_cutoff tz start \<le> t"
proof -
  assume "0 \<le> tz" "start \<le> lagos_day t"
  moreover have "us_day * lagos_day t \<le> t + us_hour"
    using date_clock [of "wat t"] clock_range [of "wat t"] by (simp add: lagos_day_def wat_def)
  ultimately show ?thesis by (simp add: trend_cutoff_def)
qed

lemma prefiltered:
  assumes "0 \<le> tz" "start \<le> day"
  shows "filter (\<lambda>x. lagos_day (at_time x) = day) (filter (\<lambda>x. P x \<and> trend_cutoff tz start \<le> at_time x) xs) =
    filter (\<lambda>x. P x \<and> lagos_day (at_time x) = day) xs"
  unfolding filter_filter by (rule filter_cong) (use assms prefilter_keeps in auto)

lemma class_in_classes: "d_class r \<in> set classes"
  by (cases "d_class r") (simp_all add: classes_def)

lemma group_lines_count:
  assumes "smap (group_line ds) (filter (\<lambda>c. c \<in> d_class ` set ds) classes) = Inr groups"
  shows "sum_list (map (\<lambda>(c, n, m). n) groups) = length ds"
proof -
  have "map (\<lambda>(c, n, m). n) groups = map (\<lambda>c. length (filter (\<lambda>r. d_class r = c) ds)) (filter (\<lambda>c. c \<in> d_class ` set ds) classes)"
    by (rule smap_Inr_map [OF assms]) (auto simp: group_line_def Let_def)
  also have "sum_list \<dots> = sum_list (map (\<lambda>c. length (filter (\<lambda>r. d_class r = c) ds)) classes)"
    by (rule sum_list_map_filter_zero) (auto simp: filter_empty_conv)
  also have "\<dots> = length ds"
    using class_in_classes by (intro length_groups) (auto simp: classes_def)
  finally show ?thesis .
qed

lemma day_transactions_counted:
  "day_transactions d g = filter (\<lambda>s. counted_type s \<and> lagos_day (initiated_at s) = d) (g_silver g)"
  by (simp add: day_transactions_def counted_type_def)

text \<open>
  The trend query is an optimised summary: its pre-filter on the raw timestamps drops nothing a
  day counts, as long as the database session is not west of UTC, and each of its rows, one per
  Lagos day from the oldest, shows the date, totals and match rate the daily summary of that day
  shows, and as many discrepancies as the groups of that summary hold together.
\<close>

theorem trend_agrees_with_summary:
  assumes "0 \<le> tz" "get_trend tz now days g = Inr rows" "i < length rows"
    and "get_reconciliation_summary now' (Some (lagos_day now - (days - 1) + int i)) g = Inr v"
  shows "length rows = nat days \<and> td_date (rows ! i) = su_date v \<and> td_total (rows ! i) = su_total v \<and>
    td_matched (rows ! i) = su_matched v \<and> td_rate (rows ! i) = su_rate v \<and>
    td_raised (rows ! i) = sum_list (map (\<lambda>(c, n, m). n) (su_groups v))"
proof -
  define start where "start = lagos_day now - (days - 1)"
  define day where "day = start + int i"
  have rows: "smap (trend_row tz start g) [start..lagos_day now] = Inr rows" "1 \<le> days"
    using assms(2) by (auto simp: get_trend_def Let_def start_def split: if_splits)
  have len: "length rows = nat days" using smap_length [OF rows(1)] rows(2) by (simp add: start_def)
  have "map Inr rows = map (trend_row tz start g) [start..lagos_day now]"
    using rows(1) by (intro smap_Inr_map [OF rows(1)]) auto
  then have "map Inr rows ! i = map (trend_row tz start g) [start..lagos_day now] ! i" by simp
  moreover have "[start..lagos_day now] ! i = day"
    using assms(3) len rows(2) by (subst nth_upto) (simp_all add: start_def day_def)
  ultimately have r: "trend_row tz start g day = Inr (rows ! i)"
    using assms(3) smap_length [OF rows(1)] by simp
  have txs: "filter (\<lambda>s. lagos_day (initiated_at s) = day)
      (filter (\<lambda>s. counted_type s \<and> trend_cutoff tz start \<le> initiated_at s) (g_silver g)) = day_transactions day g"
    unfolding day_transactions_counted by (rule prefiltered) (use assms(1) in \<open>simp_all add: day_def\<close>)
  have raised: "filter (\<lambda>r. lagos_day (d_raised r) = day) (filter (\<lambda>r. trend_cutoff tz start \<le> d_raised r) (g_discs g)) = raised_on day g"
    using prefiltered [of tz start day d_raised "\<lambda>_. True"] assms(1) by (simp add: raised_on_def day_def)
  obtain groups where v: "smap (group_line (raised_on day g)) (filter (\<lambda>c. c \<in> d_class ` set (raised_on day g)) classes) = Inr groups"
      "su_groups v = groups" "su_date v = iso_date_text day" "su_total v = length (day_transactions day g)"
      "su_matched v = length (filter (\<lambda>s. is_matched g (tx_id s)) (day_transactions day g))"
      "su_rate v = match_rate (su_matched v) (su_total v)"
    using assms(4) by (auto simp: get_reconciliation_summary_def Let_def day_def start_def)
  define n where "n = length (day_transactions day g)"
  define k where "k = length (filter (\<lambda>s. is_matched g (tx_id s)) (day_transactions day g))"
  obtain a where "rows ! i = \<lparr>td_date = iso_date_text day, td_total = n, td_matched = k, td_rate = match_rate k n, td_volume = a,
      td_raised = length (raised_on day g)\<rparr>"
    using r unfolding trend_row_def Let_def txs raised n_def k_def by (auto simp: eq_commute [of _ "rows ! i"])
  then show ?thesis using len group_lines_count [OF v(1)] v(2-6) by (simp add: n_def k_def)
qed

definition example_disc2 :: disc_row where
  "example_disc2 = example_disc\<lparr>d_id := 8, d_tx := 2, d_class := LATE_SETTLEMENT, d_exposure := 1 / 10 ^ 6\<rparr>"

definition example_read :: gold where
  "example_read = example_gold\<lparr>g_discs := [example_disc, example_disc2]\<rparr>"

lemma example_read_results:
  "case get_trend 0 (2 * us_day) 3 example_read of Inl e \<Rightarrow> False | Inr rows \<Rightarrow> length rows = 3 \<and> td_total (rows ! 0) = 2 \<and> td_raised (rows ! 0) = 2"
  "case get_reconciliation_summary (2 * us_day) (Some 0) example_read of Inl e \<Rightarrow> False | Inr v \<Rightarrow> su_total v = 2"
  by code_simp+

theorem trend_agrees_with_summary_witness:
  "\<exists>rows v. get_trend 0 (2 * us_day) 3 example_read = Inr rows \<and> get_reconciliation_summary (2 * us_day) (Some 0) example_read = Inr v \<and>
     td_total (rows ! 0) = su_total v \<and> su_total v = 2 \<and> sum_list (map (\<lambda>(c, n, m). n) (su_groups v)) = 2"
proof -
  obtain rows where r: "get_trend 0 (2 * us_day) 3 example_read = Inr rows" "length rows = 3" "td_raised (rows ! 0) = 2"
    using example_read_results(1) by (auto split: sum.splits)
  obtain v where v: "get_reconciliation_summary (2 * us_day) (Some 0) example_read = Inr v" "su_total v = 2"
    using example_read_results(2) by (auto split: sum.splits)
  have "lagos_day (2 * us_day) = 2" by (simp add: lagos_day_def wat_def date_of_def)
  then show ?thesis
    using trend_agrees_with_summary [OF _ r(1), of 0 "2 * us_day" v] r v by simp
qed

subsection \<open>Exposure adds up\<close>

text \<open>A value of a \<open>NUMERIC(20, 6)\<close> column; Decimal sums of them are exact while they fit 28 digits.\<close>

definition micro :: "rat \<Rightarrow> bool" where
  "micro x \<longleftrightarrow> (\<exists>n. x = of_int n / 10 ^ 6)"

lemma micro_0 [simp]: "micro 0"
  unfolding micro_def by (intro exI [of _ 0]) simp

lemma micro_add: "micro x \<Longrightarrow> micro y \<Longrightarrow> micro (x + y)"
  unfolding micro_def by (metis add_divide_distrib of_int_add)

lemma micro_sum: "(\<And>x. x \<in> set xs \<Longrightarrow> micro x) \<Longrightarrow> micro (sum_list xs)"
  by (induction xs) (auto intro: micro_add)

lemma dec_micro: "micro x \<Longrightarrow> \<bar>x\<bar> \<le> 10 ^ 22 \<Longrightarrow> dec x = x"
proof -
  assume "micro x" "\<bar>x\<bar> \<le> 10 ^ 22"
  then obtain n where n: "x = of_int n / 10 ^ 6" "\<bar>of_int n :: rat\<bar> \<le> of_int (10 ^ 28)" by (auto simp: micro_def)
  then have "\<bar>n\<bar> \<le> 10 ^ 28" by (metis of_int_abs of_int_le_iff)
  then show ?thesis unfolding n(1) by (rule dec_scaled)
qed

lemma foldl_dec_exact:
  "\<forall>x\<in>set xs. micro x \<and> 0 \<le> x \<Longrightarrow> micro a \<Longrightarrow> 0 \<le> a \<Longrightarrow> a + sum_list xs \<le> 10 ^ 22 \<Longrightarrow>
    foldl (\<lambda>a x. dec (a + x)) a xs = a + sum_list xs"
proof (induction xs arbitrary: a)
  case (Cons x xs)
  have "0 \<le> sum_list xs" using Cons.prems(1) by (intro sum_list_nonneg) auto
  then have "\<bar>a + x\<bar> \<le> 10 ^ 22" "a + x + sum_list xs \<le> 10 ^ 22" "0 \<le> a + x" using Cons.prems by auto
  then show ?case using Cons.IH [of "a + x"] Cons.prems dec_micro [of "a + x"] by (simp add: micro_add add.assoc)
qed simp

lemma dec_sum_exact: "\<forall>x\<in>set xs. micro x \<and> 0 \<le> x \<Longrightarrow> sum_list xs \<le> 10 ^ 22 \<Longrightarrow> dec_sum xs = sum_list xs"
  using foldl_dec_exact [of xs 0] by (simp add: dec_sum_def)

definition add_row :: "string \<times> nat \<times> rat \<Rightarrow> buckets \<Rightarrow> buckets" where
  "add_row r = add_bucket (fst r) (fst (snd r)) (snd (snd r))"

lemma fold_buckets:
  assumes "\<forall>r\<in>set rows. micro (snd (snd r)) \<and> 0 \<le> snd (snd r)"
    and "\<forall>(name, c, e)\<in>set bs. micro e \<and> 0 \<le> e \<and> e + sum_list (map (snd \<circ> snd) rows) \<le> 10 ^ 22"
  shows "fold add_row rows bs = map (\<lambda>(name, c, e). (name, c + sum_list (map (fst \<circ> snd) (filter (\<lambda>r. fst r = name) rows)),
    e + sum_list (map (snd \<circ> snd) (filter (\<lambda>r. fst r = name) rows)))) bs"
  using assms
proof (induction rows arbitrary: bs)
  case (Cons r rows)
  obtain b n x where r: "r = (b, n, x)" by (metis prod_cases3)
  have s: "0 \<le> sum_list (map (snd \<circ> snd) rows)" using Cons.prems(1) by (intro sum_list_nonneg) auto
  have x: "micro x" "0 \<le> x" using Cons.prems(1) r by auto
  have d: "dec (e + x) = e + x" if "(name, c, e) \<in> set bs" for name c e
  proof (rule dec_micro)
    have "micro e \<and> 0 \<le> e \<and> e + (x + sum_list (map (snd \<circ> snd) rows)) \<le> 10 ^ 22"
      using Cons.prems(2) that r by (auto simp: comp_def)
    then show "micro (e + x)" "\<bar>e + x\<bar> \<le> 10 ^ 22" using x s by (auto intro: micro_add)
  qed
  have a: "add_row r bs = map (\<lambda>(name, c, e). if name = b then (name, c + n, e + x) else (name, c, e)) bs"
    unfolding add_row_def add_bucket_def r by (rule map_cong) (auto simp: d)
  have "\<forall>(name, c, e)\<in>set (add_row r bs). micro e \<and> 0 \<le> e \<and> e + sum_list (map (snd \<circ> snd) rows) \<le> 10 ^ 22"
    unfolding a using Cons.prems(2) x s r by (fastforce intro: micro_add split: if_splits)
  then have "fold add_row rows (add_row r bs) = map (\<lambda>(name, c, e). (name, c + sum_list (map (fst \<circ> snd) (filter (\<lambda>r. fst r = name) rows)),
    e + sum_list (map (snd \<circ> snd) (filter (\<lambda>r. fst r = name) rows)))) (add_row r bs)"
    by (rule Cons.IH [rotated]) (use Cons.prems(1) in auto)
  also have "\<dots> = map (\<lambda>(name, c, e). (name, c + sum_list (map (fst \<circ> snd) (filter (\<lambda>q. fst q = name) (r # rows))),
    e + sum_list (map (snd \<circ> snd) (filter (\<lambda>q. fst q = name) (r # rows))))) bs"
    unfolding a by (auto simp: r)
  finally show ?case unfolding fold.simps o_apply .
qed auto

definition aging_row :: "(string option \<times> string) \<times> disc_row list \<Rightarrow> string \<times> nat \<times> rat" where
  "aging_row r = (snd (fst r), length (snd r), exposure_of (snd r))"

lemma overall_rows: "overall_buckets rows = fold add_row (map aging_row rows) empty_buckets"
  unfolding overall_buckets_def fold_map comp_def by (simp add: add_row_def aging_row_def)

definition exposures_ok :: "gold \<Rightarrow> bool" where
  "exposures_ok g \<longleftrightarrow> length (g_discs g) \<le> 10 ^ 8 \<and>
     (\<forall>d\<in>set (g_discs g). micro (d_exposure d) \<and> 0 \<le> d_exposure d \<and> d_exposure d \<le> 10 ^ 14 \<and> tx_row g (d_tx d) \<noteq> None)"

lemma open_joined_eq: "exposures_ok g \<Longrightarrow> open_joined g = filter is_open (g_discs g)"
  unfolding open_joined_def exposures_ok_def by (intro filter_cong) auto

lemma sum_le_length: "(\<And>x. x \<in> set xs \<Longrightarrow> x \<le> (c::rat)) \<Longrightarrow> sum_list xs \<le> of_nat (length xs) * c"
  by (induction xs) (auto simp: algebra_simps intro: add_mono)

lemma exposure_bounds:
  assumes "exposures_ok g"
  shows "micro (exposure_of (open_joined g)) \<and> 0 \<le> exposure_of (open_joined g) \<and> exposure_of (open_joined g) \<le> 10 ^ 22"
proof -
  have m: "\<forall>d\<in>set (open_joined g). micro (d_exposure d) \<and> 0 \<le> d_exposure d \<and> d_exposure d \<le> 10 ^ 14"
    using assms by (auto simp: open_joined_def exposures_ok_def)
  have "length (open_joined g) \<le> 10 ^ 8"
    using assms le_trans [OF length_filter_le] unfolding open_joined_def exposures_ok_def by blast
  then have l: "(of_nat (length (open_joined g)) :: rat) \<le> 10 ^ 8" by (metis of_nat_le_iff of_nat_numeral of_nat_power)
  have "exposure_of (open_joined g) \<le> of_nat (length (open_joined g)) * 10 ^ 14"
    unfolding exposure_of_def using m sum_le_length [of "map d_exposure (open_joined g)" "10 ^ 14"] by auto
  also have "\<dots> \<le> 10 ^ 8 * 10 ^ 14" using l by (intro mult_right_mono) auto
  finally show ?thesis using m by (auto simp: exposure_of_def intro!: micro_sum sum_list_nonneg)
qed

lemma age_bucket_in: "age_bucket now d \<in> set AGING_BUCKETS"
  by (simp add: age_bucket_def AGING_BUCKETS_def Let_def)

lemma money_ok: "\<bar>x\<bar> \<le> 10 ^ 22 \<Longrightarrow> \<exists>s. Render.money x = Inr s"
proof -
  assume "\<bar>x\<bar> \<le> 10 ^ 22"
  then have "rhe (\<bar>x\<bar> * 100) \<le> 10 ^ 24" by (intro rhe_le_of_int) simp
  then show ?thesis by (simp add: Render.money_def Let_def)
qed

lemma smap_returns: "(\<And>x. x \<in> set xs \<Longrightarrow> \<exists>y. f x = Inr y) \<Longrightarrow> \<exists>ys. smap f xs = Inr ys"
  by (induction xs) fastforce+

lemma exposure_part:
  assumes "\<forall>d\<in>set xs. 0 \<le> d_exposure d"
  shows "0 \<le> exposure_of (filter P xs) \<and> exposure_of (filter P xs) \<le> exposure_of xs"
  using assms by (induction xs) (auto simp: exposure_of_def)

lemma group_exposure:
  assumes m: "\<forall>d\<in>set ds. micro (d_exposure d) \<and> 0 \<le> d_exposure d" and "exposure_of ds \<le> 10 ^ 22" and p: "p \<in> set (group_by h ds)"
  shows "micro (exposure_of (snd p)) \<and> 0 \<le> exposure_of (snd p) \<and> exposure_of (snd p) \<le> 10 ^ 22"
proof -
  obtain k where k: "snd p = filter (\<lambda>x. h x = k) ds" using p by (auto simp: group_by_def)
  have "micro (exposure_of (snd p))" unfolding exposure_of_def k using m by (intro micro_sum) auto
  then show ?thesis using exposure_part [of ds "\<lambda>x. h x = k"] assms(1,2) unfolding k by auto
qed

lemma exposure_lines:
  assumes "exposures_ok g"
  shows "\<exists>m lines. get_exposure g = Inr (m, lines) \<and> Render.money (exposure_of (open_joined g)) = Inr m \<and>
    sum_list (map el_count lines) = length (open_joined g)"
proof -
  define ds where "ds = open_joined g"
  have ds: "ds = filter is_open (g_discs g)" using open_joined_eq [OF assms] by (simp add: ds_def)
  have b: "micro (exposure_of ds)" "0 \<le> exposure_of ds" "exposure_of ds \<le> 10 ^ 22" using exposure_bounds [OF assms] by (simp_all add: ds_def)
  have m: "\<forall>d\<in>set ds. micro (d_exposure d) \<and> 0 \<le> d_exposure d" using assms by (auto simp: ds exposures_ok_def)
  note gm = group_exposure [OF m b(3)]
  have groups: "set (exposure_groups g) = set (group_by (\<lambda>d. (psp_of g d, d_class d)) ds)" by (simp add: exposure_groups_def ds_def)
  have sums: "sum_list (map (exposure_of \<circ> snd) (exposure_groups g)) = exposure_of ds"
    using sum_group_by [of d_exposure "\<lambda>d. (psp_of g d, d_class d)" ds]
    unfolding exposure_groups_def sum_list_sort ds_def exposure_of_def comp_def .
  have counts: "sum_list (map (\<lambda>p. length (snd p)) (exposure_groups g)) = length ds"
    using length_group_by [of "\<lambda>d. (psp_of g d, d_class d)" ds] unfolding exposure_groups_def sum_list_sort ds_def .
  have "dec_sum (map (exposure_of \<circ> snd) (exposure_groups g)) = exposure_of ds"
  proof (subst dec_sum_exact)
    show "\<forall>x\<in>set (map (exposure_of \<circ> snd) (exposure_groups g)). micro x \<and> 0 \<le> x"
      unfolding set_map groups using gm [where h = "\<lambda>d. (psp_of g d, d_class d)"] by simp
  qed (use b(3) in \<open>simp_all only: sums\<close>)
  moreover obtain t where t: "Render.money (exposure_of ds) = Inr t" using money_ok [of "exposure_of ds"] b by auto
  moreover have "\<exists>y. render_exposure p = Inr y" if "p \<in> set (exposure_groups g)" for p
  proof -
    have "\<bar>exposure_of (snd p)\<bar> \<le> 10 ^ 22" using gm that unfolding groups by (metis abs_of_nonneg)
    then obtain s where "Render.money (exposure_of (snd p)) = Inr s" using money_ok by blast
    then show ?thesis by (simp add: render_exposure_def)
  qed
  then obtain lines where l: "smap render_exposure (exposure_groups g) = Inr lines" using smap_returns by blast
  moreover have "map el_count lines = map (\<lambda>p. length (snd p)) (exposure_groups g)"
    by (rule smap_Inr_map [OF l]) (auto simp: render_exposure_def)
  ultimately have "get_exposure g = Inr (t, lines)" "sum_list (map el_count lines) = length ds"
    using counts by (simp_all add: get_exposure_def Let_def)
  then show ?thesis using t by (simp add: ds_def)
qed

lemma bucket_sums:
  assumes "exposures_ok g"
  shows "map fst (overall_buckets (aging_groups now g)) = AGING_BUCKETS \<and>
    sum_list (map (fst \<circ> snd) (overall_buckets (aging_groups now g))) = length (open_joined g) \<and>
    sum_list (map (snd \<circ> snd) (overall_buckets (aging_groups now g))) = exposure_of (open_joined g)"
proof -
  define ds where "ds = open_joined g"
  have ds: "ds = filter is_open (g_discs g)" using open_joined_eq [OF assms] by (simp add: ds_def)
  have b: "exposure_of ds \<le> 10 ^ 22" using exposure_bounds [OF assms] by (simp add: ds_def)
  have m: "\<forall>d\<in>set ds. micro (d_exposure d) \<and> 0 \<le> d_exposure d" using assms by (auto simp: ds exposures_ok_def)
  define rows where "rows = aging_groups now g"
  define rs where "rs = map aging_row rows"
  have r: "\<forall>r\<in>set rs. micro (snd (snd r)) \<and> 0 \<le> snd (snd r)"
    using group_exposure [OF m b, where h = "\<lambda>d. (psp_of g d, age_bucket now d)"]
    by (auto simp: rs_def rows_def aging_groups_def aging_row_def ds_def [symmetric])
  have rsum: "sum_list (map (snd \<circ> snd) rs) = exposure_of ds" "sum_list (map (fst \<circ> snd) rs) = length ds"
    using sum_group_by [of d_exposure "\<lambda>d. (psp_of g d, age_bucket now d)" ds] length_group_by [of "\<lambda>d. (psp_of g d, age_bucket now d)" ds]
    by (simp_all add: rs_def rows_def aging_groups_def aging_row_def comp_def exposure_of_def ds_def)
  have o: "overall_buckets rows = map (\<lambda>name. (name, sum_list (map (fst \<circ> snd) (filter (\<lambda>r. fst r = name) rs)),
      sum_list (map (snd \<circ> snd) (filter (\<lambda>r. fst r = name) rs)))) AGING_BUCKETS"
    unfolding overall_rows rs_def [symmetric]
    using fold_buckets [OF r, of empty_buckets] b rsum(1) by (auto simp: empty_buckets_def comp_def)
  have k: "distinct AGING_BUCKETS" "fst ` set rs \<subseteq> set AGING_BUCKETS"
    by (auto simp: rs_def rows_def aging_groups_def group_by_def aging_row_def age_bucket_in) (simp add: AGING_BUCKETS_def)
  show ?thesis unfolding rows_def [symmetric] ds_def [symmetric]
    using sum_groups [OF k, of "fst \<circ> snd"] sum_groups [OF k, of "snd \<circ> snd"] rsum by (simp add: o comp_def)
qed

text \<open>
  C25 Exposure adds up: over amounts the columns can hold, and up to 10^8 discrepancies, the exposure
  endpoint answers with exactly the sum of all open exposures, never negative, its lines count every
  open discrepancy once, and the four age buckets split the same discrepancies and the same sum.
\<close>

theorem exposure_adds_up:
  assumes "exposures_ok g"
  shows "\<exists>m lines. get_exposure g = Inr (m, lines) \<and> 0 \<le> exposure_of (filter is_open (g_discs g)) \<and>
    Render.money (exposure_of (filter is_open (g_discs g))) = Inr m \<and>
    sum_list (map el_count lines) = length (filter is_open (g_discs g)) \<and>
    map fst (overall_buckets (aging_groups now g)) = AGING_BUCKETS \<and>
    sum_list (map (fst \<circ> snd) (overall_buckets (aging_groups now g))) = length (filter is_open (g_discs g)) \<and>
    sum_list (map (snd \<circ> snd) (overall_buckets (aging_groups now g))) = exposure_of (filter is_open (g_discs g))"
  using exposure_lines [OF assms] bucket_sums [OF assms, of now] exposure_bounds [OF assms] unfolding open_joined_eq [OF assms] by blast

lemma example_exposures_ok: "exposures_ok example_read"
proof -
  have "micro 50000" unfolding micro_def by (intro exI [of _ "50000 * 10 ^ 6"]) simp
  moreover have "micro (1 / 10 ^ 6)" unfolding micro_def by (intro exI [of _ 1]) simp
  ultimately show ?thesis
    by (simp add: exposures_ok_def example_read_def example_disc2_def example_disc_def example_gold_def example_tx_def tx_row_def)
qed

theorem exposure_adds_up_witness:
  "\<exists>lines. get_exposure example_read = Inr (''50000.00'', lines) \<and> sum_list (map el_count lines) = 2"
proof -
  have "filter is_open (g_discs example_read) = [example_disc, example_disc2]"
    by (simp add: example_read_def example_disc2_def example_disc_def is_open_def)
  moreover have "Render.money (exposure_of [example_disc, example_disc2]) = Inr ''50000.00''" by code_simp
  ultimately show ?thesis using exposure_adds_up [OF example_exposures_ok, of 0] by auto
qed

subsection \<open>Transaction search\<close>

text \<open>What a search asks for, in Lagos days and literal prefixes.\<close>

definition tx_matches :: "(string \<Rightarrow> nat option) \<Rightarrow> tx_query \<Rightarrow> gold \<Rightarrow> canonical \<Rightarrow> bool" where
  "tx_matches uuid q g s \<longleftrightarrow>
     (case tq_q q of None \<Rightarrow> True | Some t \<Rightarrow> t = '''' \<or>
        (case uuid (py_strip t) of Some i \<Rightarrow> tx_id s = i
         | None \<Rightarrow> take (length (py_strip t)) (py_lower (psp_transaction_ref s)) = py_lower (py_strip t))) \<and>
     opt_holds (\<lambda>p. psp_name s = p) (tq_psp q) \<and> opt_holds (\<lambda>t. transaction_type s = t) (tq_type q) \<and>
     opt_holds (\<lambda>t. settlement_status s = t) (tq_settlement q) \<and>
     opt_holds (\<lambda>m. (m = ''matched'') = is_matched g (tx_id s)) (tq_match q) \<and>
     opt_holds (\<lambda>d. d \<le> lagos_day (initiated_at s)) (tq_from q) \<and> opt_holds (\<lambda>d. lagos_day (initiated_at s) \<le> d) (tq_to q)"

lemma lagos_day_ge: "us_day * d - us_hour \<le> t \<longleftrightarrow> d \<le> lagos_day t"
proof -
  have "us_day * lagos_day t + clock_of (wat t) = t + us_hour" "0 \<le> clock_of (wat t)" "clock_of (wat t) < us_day"
    using date_clock [of "wat t"] clock_range [of "wat t"] by (simp_all add: lagos_day_def wat_def)
  moreover have "d \<le> lagos_day t \<Longrightarrow> us_day * d \<le> us_day * lagos_day t" by simp
  moreover have "lagos_day t + 1 \<le> d \<Longrightarrow> us_day * (lagos_day t + 1) \<le> us_day * d" by simp
  ultimately show ?thesis by (cases "d \<le> lagos_day t") (auto simp: not_le)
qed

lemma lagos_day_le: "t < us_day * d + 23 * us_hour \<longleftrightarrow> lagos_day t \<le> d"
  using lagos_day_ge [of "d + 1" t] by auto

lemma tx_where_matches: "tx_where 0 uuid q g s = tx_matches uuid q g s"
  using lagos_day_ge [of _ "initiated_at s"] lagos_day_le [of "initiated_at s"]
  by (auto simp: tx_where_def tx_matches_def search_terms_def opt_holds_def ilike_prefix Let_def split: option.splits)

lemma serialise_summary_row: "serialise_summary g s = Inr v \<Longrightarrow> tv_row v = s"
  by (auto simp: serialise_summary_def)

lemma pages_concat: "concat (map (\<lambda>k. page_of n (k * n) xs) [0..<K]) = take (K * n) xs"
proof (induction K)
  case (Suc K)
  then show ?case by (simp add: page_of_def add.commute [of n] take_add)
qed simp

lemma sorted_wrt_two_keys:
  fixes f :: "'a \<Rightarrow> 'b::linorder" and g :: "'a \<Rightarrow> 'c::linorder"
  assumes "sorted (map f xs)" "\<And>k. sorted (map g (filter (\<lambda>x. f x = k) xs))"
  shows "sorted_wrt (\<lambda>a b. f a < f b \<or> f a = f b \<and> g a \<le> g b) xs"
  using assms
proof (induction xs)
  case (Cons x xs)
  have "sorted (map g (filter (\<lambda>y. f y = k) xs))" for k using Cons.prems(2) [of k] by (auto split: if_splits)
  then have "sorted_wrt (\<lambda>a b. f a < f b \<or> f a = f b \<and> g a \<le> g b) xs" using Cons.IH Cons.prems(1) by simp
  moreover have "g x \<le> g y" if "y \<in> set xs" "f y = f x" for y using Cons.prems(2) [of "f x"] that by auto
  moreover have "f x \<le> f y" if "y \<in> set xs" for y using Cons.prems(1) that by auto
  ultimately show ?case by (simp add: order.order_iff_strict [of "f x" for x]) (metis order.order_iff_strict)
qed simp

lemma two_sorts: "sorted_wrt (\<lambda>a b. f a < f b \<or> f a = f b \<and> g a \<le> g b) (sort_key f (sort_key g xs))"
proof (rule sorted_wrt_two_keys)
  show "sorted (map g (filter (\<lambda>x. f x = k) (sort_key f (sort_key g xs))))" for k
    unfolding sort_key_stable by (rule sorted_filter) simp
qed simp

text \<open>
  C27 Browsing finds everything once: with the database session in UTC, the pages of a transaction
  search, put together, are exactly the transactions that match (the identifier, or the literal
  prefix of the reference up to case; the filters; the Lagos days, both inclusive), each as often
  as the ledger has it, latest first and by identifier within the same instant, and every page
  reports their number.
\<close>

theorem transaction_pages_complete:
  assumes "\<forall>k<K. list_transactions 0 uuid q limit (k * limit) g = Inr (vs k, n k)"
    and "length (filter (tx_matches uuid q g) (g_silver g)) \<le> K * limit"
  shows "mset (map tv_row (concat (map vs [0..<K]))) = mset (filter (tx_matches uuid q g) (g_silver g)) \<and>
    sorted_wrt (\<lambda>a b. initiated_at b < initiated_at a \<or> initiated_at a = initiated_at b \<and> tx_id a \<le> tx_id b)
      (map tv_row (concat (map vs [0..<K]))) \<and>
    (\<forall>k<K. n k = length (filter (tx_matches uuid q g) (g_silver g)))"
proof -
  define rows where "rows = filter (tx_matches uuid q g) (g_silver g)"
  define xs where "xs = sort_key (\<lambda>s. - initiated_at s) (sort_key tx_id rows)"
  have "tx_where 0 uuid q g = tx_matches uuid q g" by (rule ext) (rule tx_where_matches)
  then have p: "smap (serialise_summary g) (page_of limit (k * limit) xs) = Inr (vs k)" "n k = length rows" if "k < K" for k
    using assms(1) that by (auto simp: list_transactions_def Let_def rows_def xs_def split: if_splits)
  have "map tv_row (vs k) = page_of limit (k * limit) xs" if k: "k < K" for k
    using smap_Inr_map [OF p(1) [OF k], of tv_row "\<lambda>x. x"] serialise_summary_row by simp
  then have "map (\<lambda>k. map tv_row (vs k)) [0..<K] = map (\<lambda>k. page_of limit (k * limit) xs) [0..<K]" by simp
  from arg_cong [OF this, of concat]
  have "map tv_row (concat (map vs [0..<K])) = concat (map (\<lambda>k. page_of limit (k * limit) xs) [0..<K])"
    by (simp only: map_concat map_map comp_def)
  also have "\<dots> = xs" using assms(2) by (simp add: pages_concat xs_def rows_def)
  finally have e: "map tv_row (concat (map vs [0..<K])) = xs" .
  have "sorted_wrt (\<lambda>a b. - initiated_at a < - initiated_at b \<or> - initiated_at a = - initiated_at b \<and> tx_id a \<le> tx_id b) xs"
    unfolding xs_def by (rule two_sorts)
  then have "sorted_wrt (\<lambda>a b. initiated_at b < initiated_at a \<or> initiated_at a = initiated_at b \<and> tx_id a \<le> tx_id b) xs" by simp
  then show ?thesis unfolding e using p(2) by (auto simp: rows_def xs_def)
qed

definition example_query :: tx_query where
  "example_query = \<lparr>tq_q = Some '' REF'', tq_psp = None, tq_type = Some ''credit'', tq_match = None, tq_settlement = None,
     tq_from = Some 0, tq_to = Some 0\<rparr>"

lemma example_page: "case list_transactions 0 (\<lambda>_. None) example_query 1 0 example_read of
    Inl e \<Rightarrow> False | Inr (vs, n) \<Rightarrow> map (tx_id \<circ> tv_row) vs = [1] \<and> n = 1"
  by code_simp

theorem transaction_pages_complete_witness:
  "\<exists>vs n. list_transactions 0 (\<lambda>_. None) example_query 1 0 example_read = Inr (vs, n) \<and>
     mset (map tv_row vs) = mset (filter (tx_matches (\<lambda>_. None) example_query example_read) (g_silver example_read)) \<and> n = 1"
proof -
  obtain vs n where v: "list_transactions 0 (\<lambda>_. None) example_query 1 0 example_read = Inr (vs, n)" "n = 1"
    using example_page by (auto split: sum.splits)
  have "tx_where 0 (\<lambda>_. None) example_query example_read = tx_matches (\<lambda>_. None) example_query example_read"
    by (rule ext) (rule tx_where_matches)
  then have "length (filter (tx_matches (\<lambda>_. None) example_query example_read) (g_silver example_read)) = n"
    using v(1) by (auto simp: list_transactions_def Let_def split: if_splits)
  then show ?thesis
    using transaction_pages_complete [of 1 "\<lambda>_. None" example_query 1 example_read "\<lambda>_. vs" "\<lambda>_. n"] v by auto
qed

end
