(* ===== verification/Pipeline.thy ===== *)
theory Pipeline
  imports Consumer
begin

text \<open>
  Ingestion and the consumer joined through the topic: the webhook endpoint and the polling flow
  append to the partitions the worker reads, in any interleaving, while either side fails or
  restarts. What a message is written as is \<open>encode\<close> (the producer's \<open>json.dumps\<close>), \<open>loads\<close> reads it
  back, and the partition of a message is the broker's choice.
\<close>

subsection \<open>The composed system\<close>

record pipeline =
  pl_registry :: idem_table
  pl_topic :: kafka_log
  pl_parts :: partitions
  pl_group :: group

definition place :: "(json \<Rightarrow> string) \<Rightarrow> int \<Rightarrow> kafka_record \<Rightarrow> partitions \<Rightarrow> partitions" where
  "place encode n m parts = parts((kr_topic m, n) := parts (kr_topic m, n) @ [encode (JObj (kr_value m))])"

text \<open>The messages one call added to the topic, placed in the partitions.\<close>

definition placed :: "(json \<Rightarrow> string) \<Rightarrow> int \<Rightarrow> kafka_log \<Rightarrow> kafka_log \<Rightarrow> partitions \<Rightarrow> partitions" where
  "placed encode n l l' parts = fold (place encode n) (drop (length l) l') parts"

inductive pipeline_step ::
  "(string \<Rightarrow> json option) \<Rightarrow> (json \<Rightarrow> string) \<Rightarrow> ingest_settings \<Rightarrow> string \<Rightarrow> pipeline \<Rightarrow> pipeline \<Rightarrow> bool"
  for loads encode cfg dlq where
  webhook: "acks_all (ie_broker env) \<Longrightarrow>
    receive loads cfg env received r (pl_registry s) (pl_topic s) = (res, t, l) \<Longrightarrow>
    pipeline_step loads encode cfg dlq s
      (s\<lparr>pl_registry := t, pl_topic := l, pl_parts := placed encode n (pl_topic s) l (pl_parts s)\<rparr>)"
| poll: "acks_all (ie_broker env) \<Longrightarrow>
    ingest_event cfg env (polled_event dumps cfg p received tx) (pl_registry s) (pl_topic s) = (out, t, l) \<Longrightarrow>
    pipeline_step loads encode cfg dlq s
      (s\<lparr>pl_registry := t, pl_topic := l, pl_parts := placed encode n (pl_topic s) l (pl_parts s)\<rparr>)"
| work: "worker_step loads dlq (pl_parts s) (pl_group s) g \<Longrightarrow>
    pipeline_step loads encode cfg dlq s (s\<lparr>pl_group := g\<rparr>)"

inductive pipeline_run ::
  "(string \<Rightarrow> json option) \<Rightarrow> (json \<Rightarrow> string) \<Rightarrow> ingest_settings \<Rightarrow> string \<Rightarrow> pipeline \<Rightarrow> pipeline \<Rightarrow> bool"
  for loads encode cfg dlq where
  idle: "pipeline_run loads encode cfg dlq s s"
| more: "pipeline_run loads encode cfg dlq s s1 \<Longrightarrow> pipeline_step loads encode cfg dlq s1 s2 \<Longrightarrow>
    pipeline_run loads encode cfg dlq s s2"

definition initial_pipeline :: "lake \<Rightarrow> pipeline" where
  "initial_pipeline L = \<lparr>pl_registry = Map.empty, pl_topic = [], pl_parts = (\<lambda>pt. []), pl_group = initial_group L\<rparr>"

subsection \<open>Growing partitions\<close>

text \<open>Partitions are append-only, and every message of the topic is in one of them.\<close>

definition extends :: "partitions \<Rightarrow> partitions \<Rightarrow> bool" where
  "extends parts parts' \<longleftrightarrow> (\<forall>pt. \<exists>new. parts' pt = parts pt @ new)"

definition stored_at :: "(json \<Rightarrow> string) \<Rightarrow> partitions \<Rightarrow> kafka_record \<Rightarrow> string \<times> int \<Rightarrow> nat \<Rightarrow> bool" where
  "stored_at encode parts m pt i \<longleftrightarrow> fst pt = kr_topic m \<and> i < length (parts pt) \<and>
     parts pt ! i = encode (JObj (kr_value m))"

lemma extends_nth: "extends parts parts' \<Longrightarrow> i < length (parts pt) \<Longrightarrow> i < length (parts' pt) \<and> parts' pt ! i = parts pt ! i"
  unfolding extends_def by (metis nth_append length_append trans_less_add1)

lemma extends_refl [simp]: "extends parts parts"
  by (simp add: extends_def)

lemma extends_trans: "extends p q \<Longrightarrow> extends q r \<Longrightarrow> extends p r"
  unfolding extends_def by (metis append.assoc)

lemma extends_place: "extends parts (place encode n m parts)"
  by (simp add: extends_def place_def)

lemma extends_fold: "extends parts (fold (place encode n) ms parts)"
  by (induction ms arbitrary: parts) (auto intro: extends_trans extends_place)

lemma stored_extends: "extends parts parts' \<Longrightarrow> stored_at encode parts m pt i \<Longrightarrow> stored_at encode parts' m pt i"
  using extends_nth unfolding stored_at_def by metis

lemma place_stored: "\<exists>pt i. stored_at encode (place encode n m parts) m pt i"
  by (rule exI [of _ "(kr_topic m, n)"], rule exI [of _ "length (parts (kr_topic m, n))"])
    (simp add: stored_at_def place_def)

lemma fold_stored: "m \<in> set ms \<Longrightarrow> \<exists>pt i. stored_at encode (fold (place encode n) ms parts) m pt i"
proof (induction ms arbitrary: parts)
  case (Cons x ms)
  then show ?case using place_stored [of encode n m parts] stored_extends [OF extends_fold]
    by (cases "m = x") (simp, blast, auto)
qed simp

lemma group_inv_extends: "extends parts parts' \<Longrightarrow> group_inv loads parts g \<Longrightarrow> group_inv loads parts' g"
  using extends_nth unfolding group_inv_def by metis

subsection \<open>The invariant of the pipeline\<close>

text \<open>An event as the endpoint or the poller builds it: its type is the one its payload names.\<close>

definition well_typed :: "webhook_event \<Rightarrow> bool" where
  "well_typed e \<longleftrightarrow> we_type e = extract_event_type (we_payload e)"

definition announces :: "ingest_settings \<Rightarrow> string \<Rightarrow> kafka_record \<Rightarrow> bool" where
  "announces cfg k m \<longleftrightarrow> (\<exists>e. well_typed e \<and> event_key e = Inr k \<and> m = event_message cfg e k)"

definition pipeline_inv :: "(string \<Rightarrow> json option) \<Rightarrow> (json \<Rightarrow> string) \<Rightarrow> ingest_settings \<Rightarrow> pipeline \<Rightarrow> bool" where
  "pipeline_inv loads encode cfg s \<longleftrightarrow>
     (\<forall>m \<in> set (pl_topic s). \<exists>pt i. stored_at encode (pl_parts s) m pt i) \<and>
     (\<forall>k \<in> dom (pl_registry s). \<exists>m \<in> set (pl_topic s). announces cfg k m) \<and>
     group_inv loads (pl_parts s) (pl_group s)"

lemma built_well_typed: "well_typed (build_event cfg p raw payload received)"
  by (simp add: well_typed_def build_event_def)

lemma polled_well_typed: "well_typed (polled_event dumps cfg p received tx)"
  by (cases p) (simp_all add: well_typed_def polled_event_def extract_event_type_def dict_get_def jor_def Let_def)

lemma ingested:
  assumes "acks_all (ie_broker env)" and "ingest_event cfg env e t l = (r, t', l')" and "well_typed e"
  shows "(\<exists>new. l' = l @ new) \<and> (\<forall>k \<in> dom t'. k \<in> dom t \<or> (\<exists>m \<in> set l'. announces cfg k m))"
  using assms(1,2)
proof (cases rule: ingest_cases)
  case (new k res)
  then show ?thesis using assms(3) unfolding announces_def by auto
qed auto

lemma received_ingested:
  assumes "acks_all (ie_broker env)" and run: "receive loads cfg env received r t l = (res, t', l')"
  shows "(\<exists>new. l' = l @ new) \<and> (\<forall>k \<in> dom t'. k \<in> dom t \<or> (\<exists>m \<in> set l'. announces cfg k m))"
proof (cases "\<exists>payload. loads (wr_body r) = Some (JObj payload) \<and> validate_signature cfg (wr_psp r) (wr_body r) (wr_signature r)")
  case True
  then obtain payload where p: "loads (wr_body r) = Some (JObj payload)"
    and v: "validate_signature cfg (wr_psp r) (wr_body r) (wr_signature r)" by blast
  define e where "e = build_event cfg (wr_psp r) (wr_body r) payload received"
  obtain q t1 l1 where i: "ingest_event cfg env e t l = (q, t1, l1)" by (metis prod_cases3)
  have "t' = t1" "l' = l1" using run p v i by (auto simp: receive_def e_def split: sum.splits)
  then show ?thesis using ingested [OF assms(1) i] built_well_typed by (simp add: e_def)
next
  case False
  then have "t' = t \<and> l' = l" using run by (auto simp: receive_def split: if_splits option.splits json.splits)
  then show ?thesis by auto
qed

lemma pipeline_inv_ingest:
  assumes inv: "pipeline_inv loads encode cfg s" and l: "l = pl_topic s @ new"
    and t: "\<forall>k \<in> dom t. k \<in> dom (pl_registry s) \<or> (\<exists>m \<in> set l. announces cfg k m)"
  shows "pipeline_inv loads encode cfg
    (s\<lparr>pl_registry := t, pl_topic := l, pl_parts := placed encode n (pl_topic s) l (pl_parts s)\<rparr>)"
proof -
  let ?parts = "placed encode n (pl_topic s) l (pl_parts s)"
  have p: "?parts = fold (place encode n) new (pl_parts s)" by (simp add: placed_def l)
  have ext: "extends (pl_parts s) ?parts" unfolding p by (rule extends_fold)
  have "\<exists>pt i. stored_at encode ?parts m pt i" if "m \<in> set l" for m
    using that inv fold_stored [of m new encode n "pl_parts s"] stored_extends [OF ext]
    unfolding pipeline_inv_def l p [symmetric] by fastforce
  moreover have "\<exists>m \<in> set l. announces cfg k m" if "k \<in> dom t" for k
    using that t inv unfolding pipeline_inv_def l by fastforce
  ultimately show ?thesis using inv group_inv_extends [OF ext] by (simp add: pipeline_inv_def)
qed

lemma pipeline_inv_step:
  assumes "pipeline_step loads encode cfg dlq s s'" and inv: "pipeline_inv loads encode cfg s"
  shows "pipeline_inv loads encode cfg s'"
  using assms(1)
proof cases
  case (webhook env received r res t l n)
  then show ?thesis using received_ingested [OF webhook(2,3)] pipeline_inv_ingest [OF inv] by blast
next
  case (poll env dumps p received tx out t l n)
  then show ?thesis using ingested [OF poll(2,3) polled_well_typed] pipeline_inv_ingest [OF inv] by blast
next
  case (work g)
  then show ?thesis using inv group_inv_step [OF work(2)] by (simp add: pipeline_inv_def)
qed

lemma pipeline_inv_run:
  "pipeline_run loads encode cfg dlq s s' \<Longrightarrow> pipeline_inv loads encode cfg s \<Longrightarrow> pipeline_inv loads encode cfg s'"
  by (induction rule: pipeline_run.induct) (auto intro: pipeline_inv_step)

lemma initial_pipeline_inv: "lake_inv L \<Longrightarrow> pipeline_inv loads encode cfg (initial_pipeline L)"
  by (simp add: pipeline_inv_def initial_pipeline_def group_inv_def initial_group_def fresh_worker_def)

subsection \<open>Where an accepted event ends\<close>

text \<open>
  The event is parked with the bytes of its message, or logged in Bronze at the position of its
  message and, unless the transform keeps such events in Bronze only, in Silver under its key.
\<close>

definition event_done :: "worker \<Rightarrow> string \<times> int \<Rightarrow> nat \<Rightarrow> string \<Rightarrow> webhook_event \<Rightarrow> string \<Rightarrow> bool" where
  "event_done w pt i raw e k \<longleftrightarrow> parked (dead_letters w) pt i raw \<or>
     (fst pt, snd pt, int i) \<in> bronze_keys (bronze_log (w_lake w)) \<and>
     (\<not> process (classify_event (we_psp e) (we_type e) (we_payload e)) \<or> k \<in> silver_keys (silver_txs (w_lake w)))"

lemma message_fields:
  "dict_get (kr_value (event_message cfg e k)) ''payload'' = JObj (we_payload e)"
  "dict_get (kr_value (event_message cfg e k)) ''psp_name'' = JStr (we_psp e)"
  "dict_get (kr_value (event_message cfg e k)) ''event_type'' = JStr (we_type e)"
  by (simp_all add: event_message_def dict_get_def)

lemma settled_done:
  assumes "settled loads w pt i raw" and "loads raw = Some (JObj (kr_value (event_message cfg e k)))"
    and e: "well_typed e" "event_key e = Inr k"
  shows "event_done w pt i raw e k"
proof (cases "parked (dead_letters w) pt i raw")
  case False
  then have t: "transformed loads (w_lake w) pt i raw" using assms(1) by (simp add: settled_def)
  have same: "\<lparr>we_psp = we_psp e, we_type = extract_event_type (we_payload e), we_payload = we_payload e,
      we_hash = we_hash e, we_received = we_received e\<rparr> = e"
    using e(1) by (simp add: well_typed_def)
  have "k \<in> keys" if "in_silver (we_psp e) (we_payload e) keys" for keys
    using that e(2) unfolding in_silver_def by (metis same sum.inject(2))
  then show ?thesis
    using t assms(2) by (auto simp: transformed_def event_done_def message_fields Let_def)
qed (simp add: event_done_def)

subsection \<open>Draining a partition\<close>

lemma worker_run_trans: "worker_run loads dlq parts g g1 \<Longrightarrow> worker_run loads dlq parts g1 g2 \<Longrightarrow> worker_run loads dlq parts g g2"
  by (rotate_tac, induction rule: worker_run.induct) (auto intro: worker_run.step)

lemma message_at_exists: "i < length (parts pt) \<Longrightarrow> \<exists>m. message_at loads parts pt i = Some m"
  by (simp add: message_at_def poll_one_def Let_def split: prod.splits)

text \<open>Attempts on the next message of a partition are a run of the worker that commits it.\<close>

lemma deliver_run:
  assumes "message_at loads parts pt (g_position g pt) = Some m"
    and "list_all (acks_all \<circ> snd) es" and "deliver dlq es m (g_worker g) = (True, w)"
  shows "\<exists>g'. worker_run loads dlq parts g g' \<and> g_committed g' pt = g_position g pt + 1 \<and>
    g_position g' pt = g_position g pt + 1"
  using assms
proof (induction es arbitrary: g)
  case (Cons x es)
  obtain env b where x: "x = (env, b)" by force
  have b: "acks_all b" using Cons.prems(2) x by simp
  obtain ok w1 where h: "handle dlq env b m (g_worker g) = (ok, w1)" by force
  show ?case
  proof (cases ok)
    case True
    then have "handle dlq env b m (g_worker g) = (True, w1)" using h by simp
    from worker_run.step [OF worker_run.start worker_step.commit [OF Cons.prems(1) b this]]
    show ?thesis by fastforce
  next
    case False
    let ?g = "g\<lparr>g_worker := after_rewind w1\<rparr>"
    have h': "handle dlq env b m (g_worker g) = (False, w1)" using h False by simp
    have s: "worker_run loads dlq parts g ?g"
      using worker_run.step [OF worker_run.start worker_step.rewind [OF Cons.prems(1) b h']] .
    have "\<exists>g'. worker_run loads dlq parts ?g g' \<and> g_committed g' pt = g_position ?g pt + 1 \<and>
        g_position g' pt = g_position ?g pt + 1"
      using Cons.prems h x False by (intro Cons.IH) simp_all
    then show ?thesis using worker_run_trans [OF s] by auto
  qed
qed simp

text \<open>Five attempts settle any message, whatever was tried before.\<close>

lemma deliver_any:
  assumes "list_all (acknowledges \<circ> snd) es" and "length es = MAX_TRANSIENT_ATTEMPTS"
  shows "fst (deliver dlq es m w)"
proof (cases "tries m w < MAX_TRANSIENT_ATTEMPTS")
  case True
  then show ?thesis using deliver_settles [OF assms(1)] assms(2) by simp
next
  case False
  obtain env b es' where es: "es = (env, b) # es'"
    using assms(2) by (cases es) (auto simp: MAX_TRANSIENT_ATTEMPTS_def)
  obtain ok w' where h: "handle dlq env b m w = (ok, w')" by force
  then have ok using handle_progress [of b dlq env m w] assms(1) es False by auto
  then show ?thesis using es h by simp
qed

lemma next_committed:
  assumes "i < length (parts pt)" and "g_position g pt = i"
  shows "\<exists>g'. worker_run loads dlq parts g g' \<and> g_committed g' pt = i + 1 \<and> g_position g' pt = i + 1"
proof -
  obtain m where m: "message_at loads parts pt (g_position g pt) = Some m"
    using message_at_exists assms by blast
  define es where "es = replicate MAX_TRANSIENT_ATTEMPTS (example_transform_env, acked)"
  have es: "list_all (acknowledges \<circ> snd) es" "list_all (acks_all \<circ> snd) es" "length es = MAX_TRANSIENT_ATTEMPTS"
    by (simp_all add: es_def list_all_iff acknowledges_def acked_def acks_all_def)
  obtain w where "deliver dlq es m (g_worker g) = (True, w)"
    using deliver_any [OF es(1,3), of dlq m "g_worker g"] by (metis fst_conv surj_pair)
  from deliver_run [OF m es(2) this] assms(2) show ?thesis by simp
qed

lemma drained:
  assumes "g_committed g pt = g_position g pt" and "n \<le> length (parts pt)" and "g_position g pt \<le> n"
  shows "\<exists>g'. worker_run loads dlq parts g g' \<and> g_committed g' pt = n"
  using assms
proof (induction "n - g_position g pt" arbitrary: g)
  case 0
  then show ?case by (intro exI [of _ g]) (auto intro: worker_run.start)
next
  case (Suc d)
  then have "g_position g pt < length (parts pt)" by simp
  then obtain g1 where g1: "worker_run loads dlq parts g g1"
      "g_committed g1 pt = g_position g pt + 1" "g_position g1 pt = g_position g pt + 1"
    using next_committed [of "g_position g pt" parts pt g loads dlq] by blast
  have "\<exists>g'. worker_run loads dlq parts g1 g' \<and> g_committed g' pt = n"
    using Suc.hyps(2) Suc.prems g1 by (intro Suc.hyps(1)) simp_all
  then show ?case using worker_run_trans [OF g1(1)] by blast
qed

lemma pipeline_run_trans:
  "pipeline_run loads encode cfg dlq s s1 \<Longrightarrow> pipeline_run loads encode cfg dlq s1 s2 \<Longrightarrow> pipeline_run loads encode cfg dlq s s2"
  by (rotate_tac, induction rule: pipeline_run.induct) (auto intro: pipeline_run.more)

lemma work_run:
  assumes "worker_run loads dlq (pl_parts s) g g'" and "pl_group s = g"
  shows "pipeline_run loads encode cfg dlq s (s\<lparr>pl_group := g'\<rparr>)"
  using assms
proof (induction rule: worker_run.induct)
  case (start h)
  then have "s\<lparr>pl_group := h\<rparr> = s" by simp
  then show ?case using pipeline_run.idle [of loads encode cfg dlq s] by (rule ssubst)
next
  case (step g0 g1 g2)
  have "pipeline_step loads encode cfg dlq (s\<lparr>pl_group := g1\<rparr>) (s\<lparr>pl_group := g2\<rparr>)"
    using pipeline_step.work [of loads dlq "s\<lparr>pl_group := g1\<rparr>" g2] step.hyps(2) by simp
  then show ?case using pipeline_run.more step.IH [OF step.prems] by blast
qed

lemma committable:
  assumes "pipeline_run loads encode cfg dlq (initial_pipeline L) s" and "lake_inv L" and "i < length (pl_parts s pt)"
  shows "\<exists>g. worker_run loads dlq (pl_parts s) (pl_group s) g \<and> i < g_committed g pt"
proof (cases "i < g_committed (pl_group s) pt")
  case False
  have "group_inv loads (pl_parts s) (pl_group s)"
    using pipeline_inv_run [OF assms(1) initial_pipeline_inv [OF assms(2)]] unfolding pipeline_inv_def by blast
  then have "g_committed (pl_group s) pt = g_position (pl_group s) pt" by (simp add: group_inv_def)
  then show ?thesis
    using drained [of "pl_group s" pt "i + 1" "pl_parts s" loads dlq] assms(3) False by auto
qed (use worker_run.start in blast)

subsection \<open>An example\<close>

definition example_key :: string where
  "example_key = ''paystack:T1:charge.success''"

definition example_topic_message :: kafka_record where
  "example_topic_message = event_message example_settings example_event example_key"

definition example_loads :: "string \<Rightarrow> json option" where
  "example_loads b = Some (JObj (if b = ''m'' then kr_value example_topic_message else example_payload))"

definition example_encode :: "json \<Rightarrow> string" where
  "example_encode v = ''m''"

lemma example_lake_inv: "lake_inv example_lake"
  by (simp add: lake_inv_def example_lake_def bronze_inv_def silver_inv_def one_current_def current_def)

lemma example_received:
  "case receive example_loads example_settings example_ingest_env ''now'' example_request Map.empty [] of
     (res, t, l) \<Rightarrow> res = Inr (True, example_key) \<and> l = [example_topic_message] \<and> t example_key \<noteq> None"
  by code_simp

lemma example_accepted:
  obtains s where "pipeline_run example_loads example_encode example_settings ''dlq'' (initial_pipeline example_lake) s"
    "pl_topic s = [example_topic_message]" "pl_registry s example_key \<noteq> None"
    "pl_parts s = (\<lambda>pt. if pt = (''raw.paystack.events'', 0) then [''m''] else [])"
proof -
  let ?s = "initial_pipeline example_lake"
  obtain t l where run: "receive example_loads example_settings example_ingest_env ''now'' example_request
      (pl_registry ?s) (pl_topic ?s) = (Inr (True, example_key), t, l)" "l = [example_topic_message]" "t example_key \<noteq> None"
    using example_received by (auto simp: initial_pipeline_def split: prod.splits)
  have "acks_all (ie_broker example_ingest_env)" by (simp add: example_ingest_env_def acks_all_def acked_def)
  from pipeline_run.more [OF pipeline_run.idle pipeline_step.webhook [OF this run(1), of example_encode "''dlq''" 0]]
  show ?thesis
    by (rule that) (simp_all add: run placed_def place_def initial_pipeline_def fun_eq_iff example_encode_def
        example_topic_message_def event_message_def topic_of_def example_settings_def example_event_def build_event_def)
qed

subsection \<open>Properties\<close>





end
