(* ===== verification/Privileges.thy ===== *)
theory Privileges
  imports Prelude
begin

text \<open>
  Who may write what: the GRANT and REVOKE statements of migrations 011 and 015, the append-only
  triggers of 015, and the tables and columns every writing statement of \<open>src/src\<close> touches under
  the role of its session. A privilege on a table or on one of its columns is an entry of the access
  control list; revoking a privilege on a table also drops it on the columns, as PostgreSQL
  documents. Reading through a trigger or a foreign key needs no privilege of the caller.
\<close>

subsection \<open>Access control lists\<close>

datatype db_role = PipelineRole | ApiRole | ReadonlyRole | DbtRole

datatype privilege = SELECT | INSERT | UPDATE | DELETE | TRUNCATE

type_synonym acl = "db_role \<Rightarrow> privilege \<Rightarrow> string \<Rightarrow> string option \<Rightarrow> bool"

datatype ddl =
    Grant "privilege list" "string list option" "string list" "db_role list"
  | Revoke "privilege list" "string list" "db_role list"

fun granted_on :: "string list option \<Rightarrow> string option \<Rightarrow> bool" where
  "granted_on None c = (c = None)"
| "granted_on (Some cs) c = (case c of None \<Rightarrow> False | Some x \<Rightarrow> x \<in> set cs)"

fun exec_ddl :: "ddl \<Rightarrow> acl \<Rightarrow> acl" where
  "exec_ddl (Grant ps cols tables rs) a =
     (\<lambda>r p t c. a r p t c \<or> (r \<in> set rs \<and> p \<in> set ps \<and> t \<in> set tables \<and> granted_on cols c))"
| "exec_ddl (Revoke ps tables rs) a =
     (\<lambda>r p t c. a r p t c \<and> \<not> (r \<in> set rs \<and> p \<in> set ps \<and> t \<in> set tables))"

text \<open>A statement needs the privilege on the table, or on each of the columns it names.\<close>

definition allowed :: "acl \<Rightarrow> db_role \<Rightarrow> privilege \<Rightarrow> string \<Rightarrow> string list \<Rightarrow> bool" where
  "allowed a r p t cols \<longleftrightarrow> a r p t None \<or> (cols \<noteq> [] \<and> list_all (\<lambda>c. a r p t (Some c)) cols)"

subsection \<open>The tables\<close>

definition TABLES_010 :: "string list" where
  "TABLES_010 = [''system_pipeline_runs'', ''system_api_keys'', ''bronze_ingestion_log'',
     ''silver_fx_rate_snapshots'', ''silver_canonical_transactions'', ''silver_idempotency_keys'',
     ''silver_psp_settlement_windows'', ''silver_transaction_audit_log'', ''gold_reconciliation_pairs'',
     ''gold_discrepancies'', ''system_alert_events'', ''gold_cbn_daily_returns'', ''gold_exposure_tracker'',
     ''gold_reconciliation_summary'']"

definition TABLES_015 :: "string list" where
  "TABLES_015 = TABLES_010 @ [''gold_matched_transactions'', ''gold_discrepancy_events'']"

subsection \<open>Migration 011\<close>

definition resolution_columns :: "string list" where
  "resolution_columns = [''status'', ''resolved_by'', ''resolved_at'', ''resolution_note'',
     ''resolution_type'', ''reviewed_at'', ''updated_at'']"

definition grants_011 :: "ddl list" where
  "grants_011 = [
     Grant [SELECT] None TABLES_010 [PipelineRole],
     Grant [INSERT, UPDATE] None [''bronze_ingestion_log'', ''silver_canonical_transactions'',
       ''silver_fx_rate_snapshots'', ''silver_idempotency_keys'', ''silver_psp_settlement_windows'',
       ''silver_transaction_audit_log'', ''gold_reconciliation_pairs'', ''gold_discrepancies'',
       ''gold_cbn_daily_returns'', ''gold_exposure_tracker'', ''system_pipeline_runs'',
       ''system_alert_events''] [PipelineRole],
     Grant [SELECT] None TABLES_010 [ApiRole],
     Grant [UPDATE] (Some resolution_columns) [''gold_discrepancies''] [ApiRole],
     Grant [UPDATE] (Some [''status'', ''reviewed_at'', ''resolved_by'', ''resolved_at'', ''resolution_note'',
       ''updated_at'']) [''gold_reconciliation_pairs''] [ApiRole],
     Grant [SELECT] None [''silver_canonical_transactions'', ''silver_fx_rate_snapshots'',
       ''silver_psp_settlement_windows''] [DbtRole],
     Grant [INSERT, UPDATE] None [''gold_reconciliation_pairs'', ''gold_discrepancies'',
       ''gold_cbn_daily_returns'', ''gold_exposure_tracker''] [DbtRole],
     Grant [SELECT] None TABLES_010 [ReadonlyRole]]"

subsection \<open>Migration 015\<close>

definition revokes_015 :: "ddl list" where
  "revokes_015 = [
     Revoke [INSERT, UPDATE, DELETE, TRUNCATE] TABLES_015 [ApiRole],
     Revoke [INSERT, UPDATE, DELETE, TRUNCATE] TABLES_015 [ReadonlyRole],
     Revoke [INSERT, UPDATE, DELETE, TRUNCATE] TABLES_015 [DbtRole],
     Revoke [UPDATE, DELETE, TRUNCATE] TABLES_015 [PipelineRole]]"

definition grants_015 :: "ddl list" where
  "grants_015 = [
     Grant [SELECT] None TABLES_015 [PipelineRole, ApiRole, ReadonlyRole],
     Grant [INSERT] None [''bronze_ingestion_log'', ''silver_canonical_transactions'', ''silver_fx_rate_snapshots'',
       ''silver_idempotency_keys'', ''silver_transaction_audit_log'', ''gold_reconciliation_pairs'',
       ''gold_matched_transactions'', ''gold_discrepancies'', ''gold_discrepancy_events'',
       ''gold_cbn_daily_returns'', ''gold_exposure_tracker'', ''system_pipeline_runs'', ''system_alert_events'']
       [PipelineRole],
     Grant [UPDATE] (Some [''occurrence_count'', ''last_seen_at'', ''canonical_tx_id''])
       [''silver_idempotency_keys''] [PipelineRole],
     Grant [UPDATE] (Some [''valid_until'']) [''silver_fx_rate_snapshots''] [PipelineRole],
     Grant [UPDATE] (Some [''status'', ''completed_at'', ''records_processed'', ''records_failed'',
       ''error_message'', ''error_traceback'', ''metadata'']) [''system_pipeline_runs''] [PipelineRole],
     Grant [UPDATE] (Some [''severity'', ''estimated_exposure_ngn'', ''evidence'', ''updated_at'',
       ''has_alert_sent'', ''alert_sent_at'']) [''gold_discrepancies''] [PipelineRole],
     Grant [UPDATE] (Some [''status'', ''sent_at'', ''delivery_confirmed_at'', ''failure_reason'', ''retry_count''])
       [''system_alert_events''] [PipelineRole],
     Grant [UPDATE] (Some [''status'', ''updated_at'']) [''gold_reconciliation_pairs''] [PipelineRole],
     Grant [UPDATE] None [''gold_cbn_daily_returns'', ''gold_exposure_tracker''] [PipelineRole],
     Grant [UPDATE] (Some resolution_columns) [''gold_discrepancies''] [ApiRole],
     Grant [INSERT] None [''gold_discrepancy_events''] [ApiRole],
     Grant [UPDATE] (Some [''last_used_at'', ''usage_count'']) [''system_api_keys''] [ApiRole]]"

text \<open>
  The database as migrated: whatever the roles held before, for instance from the default
  privileges of an old installation, then both migrations.
\<close>

definition migrated :: "acl \<Rightarrow> acl" where
  "migrated a = fold exec_ddl (grants_011 @ revokes_015 @ grants_015) a"

definition no_privileges :: acl where
  "no_privileges = (\<lambda>r p t c. False)"

text \<open>The triggers of \<open>fn_block_mutation\<close>, which fire for the owner of the table too.\<close>

definition APPEND_ONLY :: "string list" where
  "APPEND_ONLY = [''gold_discrepancy_events'', ''silver_transaction_audit_log'']"

definition trigger_blocks :: "privilege \<Rightarrow> string \<Rightarrow> bool" where
  "trigger_blocks p t \<longleftrightarrow> t \<in> set APPEND_ONLY \<and> p \<in> {UPDATE, DELETE, TRUNCATE}"

datatype db_user = Owner | Login db_role

fun may_execute :: "acl \<Rightarrow> db_user \<Rightarrow> privilege \<Rightarrow> string \<Rightarrow> string list \<Rightarrow> bool" where
  "may_execute a Owner p t cols \<longleftrightarrow> \<not> trigger_blocks p t"
| "may_execute a (Login r) p t cols \<longleftrightarrow> allowed a r p t cols \<and> \<not> trigger_blocks p t"

subsection \<open>The statements of the code\<close>

text \<open>
  Every INSERT and UPDATE the code issues, with the role of its session. An upsert needs both
  privileges, \<open>SELECT ... FOR UPDATE\<close> needs UPDATE on some column: the lock is listed with one of the
  columns the request then writes.
\<close>

type_synonym sql_write = "db_role \<times> privilege \<times> string \<times> string list"

definition idempotency_writes :: "sql_write list" where
  "idempotency_writes = [
     (PipelineRole, INSERT, ''silver_idempotency_keys'', [''key'', ''first_seen_at'', ''occurrence_count'', ''last_seen_at'']),
     (PipelineRole, UPDATE, ''silver_idempotency_keys'', [''occurrence_count'', ''last_seen_at''])]"

definition link_writes :: "sql_write list" where
  "link_writes = [(PipelineRole, UPDATE, ''silver_idempotency_keys'', [''canonical_tx_id''])]"

definition fx_writes :: "sql_write list" where
  "fx_writes = [
     (PipelineRole, UPDATE, ''silver_fx_rate_snapshots'', [''valid_until'']),
     (PipelineRole, INSERT, ''silver_fx_rate_snapshots'',
       [''currency_pair'', ''rate'', ''source_provider'', ''captured_at'', ''valid_from''])]"

definition bronze_writes :: "sql_write list" where
  "bronze_writes = [(PipelineRole, INSERT, ''bronze_ingestion_log'',
     [''psp_name'', ''source_type'', ''kafka_topic'', ''kafka_partition'', ''kafka_offset'', ''content_hash'',
      ''file_path'', ''event_count'', ''ingestion_run_id'', ''status''])]"

definition silver_writes :: "sql_write list" where
  "silver_writes = [(PipelineRole, INSERT, ''silver_canonical_transactions'',
     [''id'', ''idempotency_key'', ''bronze_ingestion_id'', ''psp_name'', ''psp_transaction_ref'', ''psp_event_type'',
      ''psp_event_received_at'', ''transaction_type'', ''amount_raw'', ''currency_raw'', ''amount_ngn'',
      ''fx_rate_snapshot_id'', ''fx_rate_applied'', ''sender_account_masked'', ''sender_bank_code'',
      ''sender_bank_name'', ''beneficiary_account_masked'', ''beneficiary_bank_code'', ''beneficiary_bank_name'',
      ''beneficiary_name_masked'', ''counterparty_name_tokens'', ''narration'', ''initiated_at'', ''settled_at'',
      ''expected_settlement_at'', ''settlement_status'', ''has_pii_masked'', ''psp_metadata'', ''processed_by_run_id''])]"

definition missing_settlement_writes :: "sql_write list" where
  "missing_settlement_writes = [
     (PipelineRole, INSERT, ''gold_discrepancies'', [''transaction_id'', ''classification'', ''severity'',
       ''confidence_score'', ''estimated_exposure_ngn'', ''evidence'', ''dbt_run_id'', ''status'']),
     (PipelineRole, UPDATE, ''gold_discrepancies'', [''severity'', ''evidence'', ''updated_at'']),
     (PipelineRole, INSERT, ''gold_discrepancy_events'',
       [''discrepancy_id'', ''action'', ''from_status'', ''to_status'', ''actor''])]"

definition pair_writes :: "sql_write list" where
  "pair_writes = [
     (PipelineRole, INSERT, ''gold_reconciliation_pairs'', [''transaction_a_id'', ''transaction_b_id'', ''match_strategy'',
       ''confidence_score'', ''amount_a_ngn'', ''amount_b_ngn'', ''amount_delta_ngn'', ''is_within_fx_threshold'',
       ''status'', ''match_evidence'', ''dbt_run_id'']),
     (PipelineRole, INSERT, ''gold_matched_transactions'', [''transaction_id'', ''pair_id''])]"

definition amount_writes :: "sql_write list" where
  "amount_writes = [
     (PipelineRole, INSERT, ''gold_discrepancies'', [''reconciliation_pair_id'', ''transaction_id'', ''classification'',
       ''severity'', ''confidence_score'', ''estimated_exposure_ngn'', ''evidence'', ''dbt_run_id'', ''status'']),
     (PipelineRole, UPDATE, ''gold_reconciliation_pairs'', [''status'', ''updated_at'']),
     (PipelineRole, INSERT, ''gold_discrepancy_events'',
       [''discrepancy_id'', ''action'', ''from_status'', ''to_status'', ''actor''])]"

definition daily_return_writes :: "sql_write list" where
  "daily_return_writes = (let cols = [''generated_by_run_id'', ''total_transaction_count'', ''total_credit_count'',
       ''total_debit_count'', ''total_credit_volume_ngn'', ''total_debit_volume_ngn'', ''cross_border_count'',
       ''cross_border_volume_ngn'', ''suspicious_tx_count'', ''unreconciled_count'', ''unreconciled_exposure_ngn'',
       ''matched_count'', ''match_rate_pct'', ''open_discrepancy_count'', ''report_payload''] in
     [(PipelineRole, INSERT, ''gold_cbn_daily_returns'', ''return_date'' # cols),
      (PipelineRole, UPDATE, ''gold_cbn_daily_returns'', ''generated_at'' # cols)])"

definition run_writes :: "sql_write list" where
  "run_writes = [
     (PipelineRole, INSERT, ''system_pipeline_runs'', [''id'', ''flow_name'', ''status'', ''triggered_by'', ''metadata'']),
     (PipelineRole, UPDATE, ''system_pipeline_runs'', [''status'', ''completed_at'', ''records_processed'',
       ''records_failed'', ''error_message'', ''error_traceback''])]"

definition progress_writes :: "sql_write list" where
  "progress_writes = [(PipelineRole, UPDATE, ''system_pipeline_runs'', [''records_processed'', ''records_failed''])]"

definition alert_writes :: "sql_write list" where
  "alert_writes = [
     (PipelineRole, INSERT, ''system_alert_events'', [''discrepancy_id'', ''alert_channel'', ''alert_type'',
       ''recipient'', ''payload'', ''status'', ''sent_at'', ''failure_reason'']),
     (PipelineRole, UPDATE, ''gold_discrepancies'', [''has_alert_sent'', ''alert_sent_at'', ''updated_at''])]"

definition resolve_writes :: "sql_write list" where
  "resolve_writes = [
     (ApiRole, UPDATE, ''gold_discrepancies'', [''status'']),
     (ApiRole, UPDATE, ''gold_discrepancies'',
       [''status'', ''resolved_at'', ''resolved_by'', ''resolution_note'', ''updated_at'']),
     (ApiRole, INSERT, ''gold_discrepancy_events'',
       [''discrepancy_id'', ''action'', ''from_status'', ''to_status'', ''actor'', ''note''])]"

definition bulk_writes :: "sql_write list" where
  "bulk_writes = [
     (ApiRole, UPDATE, ''gold_discrepancies'', [''status'']),
     (ApiRole, INSERT, ''gold_discrepancy_events'',
       [''discrepancy_id'', ''action'', ''from_status'', ''to_status'', ''actor'', ''note'']),
     (ApiRole, UPDATE, ''gold_discrepancies'',
       [''status'', ''resolved_at'', ''resolved_by'', ''resolution_note'', ''updated_at''])]"

definition auth_writes :: "sql_write list" where
  "auth_writes = [(ApiRole, UPDATE, ''system_api_keys'', [''last_used_at'', ''usage_count''])]"

definition code_writes :: "sql_write list" where
  "code_writes = concat [idempotency_writes, link_writes, fx_writes, bronze_writes, silver_writes,
     missing_settlement_writes, pair_writes, amount_writes, daily_return_writes, run_writes, progress_writes,
     alert_writes, resolve_writes, bulk_writes, auth_writes]"

subsection \<open>What the migrations leave\<close>

fun gives :: "ddl \<Rightarrow> db_role \<Rightarrow> privilege \<Rightarrow> string \<Rightarrow> string option \<Rightarrow> bool" where
  "gives (Grant ps cols tables rs) r p t c \<longleftrightarrow> r \<in> set rs \<and> p \<in> set ps \<and> t \<in> set tables \<and> granted_on cols c"
| "gives (Revoke ps tables rs) r p t c \<longleftrightarrow> False"

fun is_grant :: "ddl \<Rightarrow> bool" where
  "is_grant (Grant ps cols tables rs) = True"
| "is_grant (Revoke ps tables rs) = False"

lemma fold_grants:
  "list_all is_grant gs \<Longrightarrow> fold exec_ddl gs a r p t c \<longleftrightarrow> a r p t c \<or> list_ex (\<lambda>g. gives g r p t c) gs"
proof (induction gs arbitrary: a)
  case (Cons g gs)
  then show ?case by (cases g) auto
qed simp

text \<open>Nothing of what a role held on a table before survives the revocations, except what they leave out.\<close>

fun revoked :: "db_role \<Rightarrow> privilege \<Rightarrow> bool" where
  "revoked r SELECT = False"
| "revoked PipelineRole INSERT = False"
| "revoked r p = True"

lemma fold_revokes: "t \<in> set TABLES_015 \<Longrightarrow> revoked r p \<Longrightarrow> \<not> fold exec_ddl revokes_015 a r p t c"
  by (cases r; cases p) (simp_all add: revokes_015_def)

lemma migrated_gives:
  assumes "t \<in> set TABLES_015" and "revoked r p"
  shows "migrated a r p t c \<longleftrightarrow> list_ex (\<lambda>g. gives g r p t c) grants_015"
proof -
  have "list_all is_grant grants_015" by (simp add: grants_015_def)
  then show ?thesis
    using fold_grants [of grants_015 "fold exec_ddl (grants_011 @ revokes_015) a"] fold_revokes [OF assms]
    by (simp add: migrated_def)
qed

lemma migrated_keeps_grants: "list_ex (\<lambda>g. gives g r p t c) grants_015 \<Longrightarrow> migrated a r p t c"
proof -
  have "list_all is_grant grants_015" by (simp add: grants_015_def)
  moreover assume "list_ex (\<lambda>g. gives g r p t c) grants_015"
  ultimately show ?thesis
    using fold_grants [of grants_015 "fold exec_ddl (grants_011 @ revokes_015) a"] by (simp add: migrated_def)
qed

text \<open>The columns the pipeline may update, a whole table as \<open>None\<close>.\<close>

definition pipeline_updates :: "(string \<times> string list option) list" where
  "pipeline_updates = [
     (''silver_idempotency_keys'', Some [''occurrence_count'', ''last_seen_at'', ''canonical_tx_id'']),
     (''silver_fx_rate_snapshots'', Some [''valid_until'']),
     (''system_pipeline_runs'', Some [''status'', ''completed_at'', ''records_processed'', ''records_failed'',
        ''error_message'', ''error_traceback'', ''metadata'']),
     (''gold_discrepancies'', Some [''severity'', ''estimated_exposure_ngn'', ''evidence'', ''updated_at'',
        ''has_alert_sent'', ''alert_sent_at'']),
     (''system_alert_events'', Some [''status'', ''sent_at'', ''delivery_confirmed_at'', ''failure_reason'', ''retry_count'']),
     (''gold_reconciliation_pairs'', Some [''status'', ''updated_at'']),
     (''gold_cbn_daily_returns'', None), (''gold_exposure_tracker'', None)]"

definition api_updates :: "(string \<times> string list option) list" where
  "api_updates = [(''gold_discrepancies'', Some resolution_columns),
     (''system_api_keys'', Some [''last_used_at'', ''usage_count''])]"

fun update_list :: "db_role \<Rightarrow> (string \<times> string list option) list" where
  "update_list PipelineRole = pipeline_updates"
| "update_list ApiRole = api_updates"
| "update_list _ = []"

definition covers :: "(string \<times> string list option) list \<Rightarrow> string \<Rightarrow> string option \<Rightarrow> bool" where
  "covers us t c \<longleftrightarrow> (\<exists>(u, cs) \<in> set us. u = t \<and> granted_on cs c)"

lemma revoked_update [simp]: "revoked r UPDATE" "revoked r DELETE" "revoked r TRUNCATE"
  by (cases r; simp)+

lemma migrated_update:
  assumes "t \<in> set TABLES_015"
  shows "migrated a r UPDATE t c \<longleftrightarrow> covers (update_list r) t c"
  unfolding migrated_gives [OF assms revoked_update(1)]
  by (cases r) (auto simp: grants_015_def covers_def pipeline_updates_def api_updates_def)

lemma migrated_no_delete:
  assumes "t \<in> set TABLES_015" and "p = DELETE \<or> p = TRUNCATE"
  shows "\<not> migrated a r p t c"
  using assms(2) migrated_gives [OF assms(1), of r p a c] by (cases r) (auto simp: grants_015_def)

lemma migrated_insert:
  assumes "t \<in> set TABLES_015" and "r \<noteq> PipelineRole"
  shows "migrated a r INSERT t c \<longleftrightarrow> r = ApiRole \<and> t = ''gold_discrepancy_events'' \<and> c = None"
proof -
  have "revoked r INSERT" using assms(2) by (cases r) simp_all
  from migrated_gives [OF assms(1) this] show ?thesis by (cases r) (use assms(2) in \<open>auto simp: grants_015_def\<close>)
qed

lemma allowed_update:
  assumes "t \<in> set TABLES_015"
  shows "allowed (migrated a) r UPDATE t cols \<longleftrightarrow> covers (update_list r) t None \<or>
    cols \<noteq> [] \<and> list_all (\<lambda>c. covers (update_list r) t (Some c)) cols"
  unfolding allowed_def migrated_update [OF assms] by simp

lemma api_update:
  assumes "t \<in> set TABLES_015" and "allowed (migrated a) ApiRole UPDATE t cols"
  shows "t = ''gold_discrepancies'' \<and> set cols \<subseteq> set resolution_columns \<or>
    t = ''system_api_keys'' \<and> set cols \<subseteq> {''last_used_at'', ''usage_count''}"
  using assms(2) unfolding allowed_update [OF assms(1)]
  by (cases "t = ''gold_discrepancies''"; cases "t = ''system_api_keys''")
    (auto simp: covers_def api_updates_def list_all_iff neq_Nil_conv)

lemma pipeline_update:
  assumes "allowed (migrated a) PipelineRole UPDATE ''gold_discrepancies'' cols"
  shows "set cols \<inter> set resolution_columns \<subseteq> {''updated_at''}"
proof -
  let ?cs = "[''severity'', ''estimated_exposure_ngn'', ''evidence'', ''updated_at'', ''has_alert_sent'', ''alert_sent_at'']"
  have t: "''gold_discrepancies'' \<in> set TABLES_015" by (simp add: TABLES_015_def TABLES_010_def)
  have c: "covers pipeline_updates ''gold_discrepancies'' c \<longleftrightarrow> granted_on (Some ?cs) c" for c
    unfolding covers_def pipeline_updates_def by simp
  have "set cols \<subseteq> set ?cs"
    using assms unfolding allowed_update [OF t] update_list.simps c by (simp add: list_all_iff subset_iff)
  moreover have "set ?cs \<inter> set resolution_columns \<subseteq> {''updated_at''}" by (simp add: resolution_columns_def)
  ultimately show ?thesis by blast
qed

lemma no_delete:
  assumes "t \<in> set TABLES_015" and "p = DELETE \<or> p = TRUNCATE"
  shows "\<not> allowed (migrated a) r p t cols"
  using migrated_no_delete [OF assms] by (cases cols) (simp_all add: allowed_def)

lemma readers_write_nothing:
  assumes "t \<in> set TABLES_015" and "r = ReadonlyRole \<or> r = DbtRole" and "p \<noteq> SELECT"
  shows "\<not> allowed (migrated a) r p t cols"
proof -
  have "revoked r p" using assms(2,3) by (cases p) auto
  moreover have "\<not> list_ex (\<lambda>g. gives g r p t c) grants_015" for c
    using assms(2) by (rule disjE) (use assms(3) in \<open>simp_all add: grants_015_def\<close>)
  ultimately have "\<not> migrated a r p t c" for c using migrated_gives [OF assms(1)] by simp
  then show ?thesis by (cases cols) (simp_all add: allowed_def)
qed

lemma granted: "list_ex (\<lambda>g. gives g r p t None) grants_015 \<or>
    cols \<noteq> [] \<and> list_all (\<lambda>c. list_ex (\<lambda>g. gives g r p t (Some c)) grants_015) cols \<Longrightarrow>
  allowed (migrated a) r p t cols"
  using migrated_keeps_grants unfolding allowed_def list_all_iff by blast

definition granted_by_015 :: "sql_write \<Rightarrow> bool" where
  "granted_by_015 = (\<lambda>(r, p, t, cols). \<not> trigger_blocks p t \<and> (list_ex (\<lambda>g. gives g r p t None) grants_015 \<or>
     cols \<noteq> [] \<and> list_all (\<lambda>c. list_ex (\<lambda>g. gives g r p t (Some c)) grants_015) cols))"

lemma code_writes_granted: "list_all granted_by_015 code_writes"
  by code_simp

lemma code_writes_allowed: "(r, p, t, cols) \<in> set code_writes \<Longrightarrow> may_execute (migrated a) (Login r) p t cols"
  using code_writes_granted granted [of r p t cols a] unfolding list_all_iff granted_by_015_def by fastforce

subsection \<open>Properties\<close>


definition owner_defaults :: acl where
  "owner_defaults = (\<lambda>r p t c. c = None \<and> p \<noteq> TRUNCATE)"


end
