(* ===== verification/Backfill.thy ===== *)
theory Backfill
  imports Resolution "HOL-Library.Product_Lexorder"
begin

text \<open>
  The data part of migration 015 (\<open>alembic/versions/015_integrity_hardening.py\<close>): the one-to-one table
  of matched transactions filled from the pairs an older engine wrote, the pairs that lost a
  transaction to an earlier pair flagged for review, and one event for every discrepancy. A pair
  of the old engine may lack its second transaction and may overlap with others. Identifiers are
  compared as PostgreSQL compares them, as numbers here.
\<close>

subsection \<open>The pairs of the old engine\<close>

record old_pair =
  o_id :: nat
  o_a :: nat
  o_b :: "nat option"
  o_matched_at :: time
  o_status :: pair_status
  o_evidence :: "(string \<rightharpoonup> json) option"

definition txs_of :: "old_pair \<Rightarrow> nat set" where
  "txs_of p = insert (o_a p) (set_option (o_b p))"

text \<open>The rows of the union, a transaction with its pair and the time of the match.\<close>

definition claims_of :: "old_pair \<Rightarrow> (nat \<times> nat \<times> time) list" where
  "claims_of p = (o_a p, o_id p, o_matched_at p) # (case o_b p of None \<Rightarrow> [] | Some b \<Rightarrow> [(b, o_id p, o_matched_at p)])"

abbreviation claim_order :: "nat \<times> nat \<times> time \<Rightarrow> time \<times> nat" where
  "claim_order \<equiv> \<lambda>(t, p, m). (m, p)"

text \<open>\<open>ON CONFLICT (transaction_id) DO NOTHING\<close>.\<close>

definition insert_claim :: "nat \<times> nat \<times> time \<Rightarrow> (nat \<times> nat \<times> time) list \<Rightarrow> (nat \<times> nat \<times> time) list" where
  "insert_claim c rows = (if fst c \<in> fst ` set rows then rows else rows @ [c])"

definition backfill_matched :: "old_pair list \<Rightarrow> (nat \<times> nat \<times> time) list" where
  "backfill_matched ps = fold insert_claim (sort_key claim_order (concat (map claims_of ps))) []"

definition conflicting :: "(nat \<times> nat \<times> time) list \<Rightarrow> old_pair \<Rightarrow> bool" where
  "conflicting rows p \<longleftrightarrow> list_ex (\<lambda>(t, q, m). t \<in> txs_of p \<and> q \<noteq> o_id p) rows"

definition flag_pair :: "old_pair \<Rightarrow> old_pair" where
  "flag_pair p = p\<lparr>o_status := PAIR_UNDER_REVIEW, o_evidence := Some ((case o_evidence p of None \<Rightarrow> Map.empty | Some e \<Rightarrow> e)
     (''review_reason'' \<mapsto> JStr ''transaction matched in more than one pair''))\<rparr>"

definition flag_conflicts :: "old_pair list \<Rightarrow> old_pair list" where
  "flag_conflicts ps = map (\<lambda>p. if conflicting (backfill_matched ps) p then flag_pair p else p) ps"

subsection \<open>The history of the discrepancies\<close>

definition backfill_event :: "disc_row \<Rightarrow> event_row" where
  "backfill_event d = \<lparr>ev_disc = d_id d, ev_action = Raised, ev_from = None, ev_to = OPEN,
     ev_actor = ''system:backfill-015'', ev_note = None, ev_at = d_raised d\<rparr>"

definition backfill_events :: "gold \<Rightarrow> gold" where
  "backfill_events g = g\<lparr>g_events := g_events g @ map backfill_event (g_discs g)\<rparr>"

subsection \<open>First come, first served\<close>

lemma set_claims_of: "set (claims_of p) = (\<lambda>t. (t, o_id p, o_matched_at p)) ` txs_of p"
  by (auto simp: claims_of_def txs_of_def split: option.splits)

lemma fold_insert_claim_keys:
  "distinct (map fst rows) \<Longrightarrow> distinct (map fst (fold insert_claim cs rows)) \<and>
     fst ` set (fold insert_claim cs rows) = fst ` set rows \<union> fst ` set cs"
  by (induction cs arbitrary: rows) (auto simp: insert_claim_def)

lemma map_of_insert_claim:
  "map_of (fold insert_claim cs rows) t = (case map_of rows t of None \<Rightarrow> map_of cs t | Some v \<Rightarrow> Some v)"
proof (induction cs arbitrary: rows)
  case (Cons c cs)
  have "map_of (insert_claim c rows) t = (case map_of rows t of None \<Rightarrow> map_of [c] t | Some v \<Rightarrow> Some v)"
  proof (cases "fst c \<in> fst ` set rows")
    case True
    then have "map_of rows (fst c) \<noteq> None" by (simp add: map_of_eq_None_iff)
    then show ?thesis using True by (cases c) (auto simp: insert_claim_def split: option.splits)
  next
    case False
    then have "insert_claim c rows = rows @ [c]" by (simp add: insert_claim_def)
    then show ?thesis by (simp add: map_add_def split: option.splits)
  qed
  then show ?case using Cons [of "insert_claim c rows"] by (auto split: option.splits)
qed (simp split: option.splits)

text \<open>In an ordered list of claims the first one for a transaction is the least.\<close>

lemma sorted_map_of_least:
  "sorted (map claim_order cs) \<Longrightarrow> map_of cs t = Some (p, m) \<Longrightarrow> (t, q, n) \<in> set cs \<Longrightarrow> (m, p) \<le> (n, q)"
proof (induction cs)
  case (Cons c cs)
  then show ?case by (cases c) (auto split: if_splits dest: map_of_SomeD)
qed simp

definition old_history :: "old_pair list \<Rightarrow> bool" where
  "old_history ps \<longleftrightarrow> distinct (map o_id ps) \<and> (\<forall>p \<in> set ps. o_b p \<noteq> Some (o_a p))"

lemma backfill_row:
  "(t, i, m) \<in> set (backfill_matched ps) \<longleftrightarrow>
     map_of (sort_key claim_order (concat (map claims_of ps))) t = Some (i, m)"
proof -
  let ?cs = "sort_key claim_order (concat (map claims_of ps))"
  have "distinct (map fst (fold insert_claim ?cs []))" using fold_insert_claim_keys [of "[]" ?cs] by simp
  then have "(t, i, m) \<in> set (fold insert_claim ?cs []) \<longleftrightarrow> map_of (fold insert_claim ?cs []) t = Some (i, m)"
    by simp
  then show ?thesis using map_of_insert_claim [of ?cs "[]" t] by (simp add: backfill_matched_def)
qed

text \<open>Each transaction of a pair gets one row, that of its earliest pair.\<close>

lemma backfill_keys:
  "distinct (map fst (backfill_matched ps))" "fst ` set (backfill_matched ps) = (\<Union>p \<in> set ps. txs_of p)"
proof -
  let ?cs = "sort_key claim_order (concat (map claims_of ps))"
  show "distinct (map fst (backfill_matched ps))"
    using fold_insert_claim_keys [of "[]" ?cs] by (simp add: backfill_matched_def)
  show "fst ` set (backfill_matched ps) = (\<Union>p \<in> set ps. txs_of p)"
    using fold_insert_claim_keys [of "[]" ?cs] by (force simp: backfill_matched_def set_claims_of image_iff)
qed

lemma backfill_earliest:
  assumes "(t, i, m) \<in> set (backfill_matched ps)"
  obtains p where "p \<in> set ps" "o_id p = i" "o_matched_at p = m" "t \<in> txs_of p"
    "\<forall>q \<in> set ps. t \<in> txs_of q \<longrightarrow> (m, i) \<le> (o_matched_at q, o_id q)"
proof -
  let ?cs = "sort_key claim_order (concat (map claims_of ps))"
  have m: "map_of ?cs t = Some (i, m)" using assms by (simp add: backfill_row)
  then have "(t, i, m) \<in> set ?cs" by (rule map_of_SomeD)
  then obtain p where p: "p \<in> set ps" "o_id p = i" "o_matched_at p = m" "t \<in> txs_of p"
    by (auto simp: set_claims_of)
  have "(m, i) \<le> (o_matched_at q, o_id q)" if "q \<in> set ps" "t \<in> txs_of q" for q
  proof (rule sorted_map_of_least [OF _ m])
    show "sorted (map claim_order ?cs)" by simp
    show "(t, o_id q, o_matched_at q) \<in> set ?cs" using that by (auto simp: set_claims_of)
  qed
  then show ?thesis using that p by blast
qed

lemma conflicting_iff:
  "conflicting rows p \<longleftrightarrow> (\<exists>t i m. (t, i, m) \<in> set rows \<and> t \<in> txs_of p \<and> i \<noteq> o_id p)"
  by (auto simp: conflicting_def list_ex_iff)

lemma backfill_own:
  assumes "p \<in> set ps" and "\<not> conflicting (backfill_matched ps) p" and "t \<in> txs_of p" and "distinct (map o_id ps)"
  shows "(t, o_id p, o_matched_at p) \<in> set (backfill_matched ps)"
proof -
  have "t \<in> fst ` set (backfill_matched ps)" using assms(1,3) unfolding backfill_keys(2) by blast
  then obtain i m where r: "(t, i, m) \<in> set (backfill_matched ps)" by force
  then have i: "i = o_id p" using assms(2,3) unfolding conflicting_iff by blast
  from r obtain q where "q \<in> set ps" "o_id q = i" "o_matched_at q = m" by (rule backfill_earliest)
  then have "q = p" using i assms(1,4) by (metis distinct_map inj_onD)
  then show ?thesis using r i \<open>o_matched_at q = m\<close> by simp
qed

lemma conflicting_earlier:
  assumes "p \<in> set ps" and "distinct (map o_id ps)"
  shows "conflicting (backfill_matched ps) p \<longleftrightarrow>
    (\<exists>q \<in> set ps. txs_of q \<inter> txs_of p \<noteq> {} \<and> (o_matched_at q, o_id q) < (o_matched_at p, o_id p))"
proof
  assume "conflicting (backfill_matched ps) p"
  then obtain t i m where r: "(t, i, m) \<in> set (backfill_matched ps)" "t \<in> txs_of p" "i \<noteq> o_id p"
    unfolding conflicting_iff by blast
  from r(1) obtain q where "q \<in> set ps" "o_id q = i" "o_matched_at q = m" "t \<in> txs_of q"
    "\<forall>q \<in> set ps. t \<in> txs_of q \<longrightarrow> (m, i) \<le> (o_matched_at q, o_id q)" by (rule backfill_earliest)
  then show "\<exists>q \<in> set ps. txs_of q \<inter> txs_of p \<noteq> {} \<and> (o_matched_at q, o_id q) < (o_matched_at p, o_id p)"
    using r(2,3) assms(1) by (intro bexI [of _ q]) (auto simp: less_le)
next
  assume "\<exists>q \<in> set ps. txs_of q \<inter> txs_of p \<noteq> {} \<and> (o_matched_at q, o_id q) < (o_matched_at p, o_id p)"
  then obtain q t where q: "q \<in> set ps" "t \<in> txs_of q" "t \<in> txs_of p" "(o_matched_at q, o_id q) < (o_matched_at p, o_id p)"
    by blast
  then have "t \<in> fst ` set (backfill_matched ps)" unfolding backfill_keys(2) by blast
  then obtain i m where r: "(t, i, m) \<in> set (backfill_matched ps)" by force
  then obtain p' where p': "p' \<in> set ps" "o_id p' = i" "o_matched_at p' = m"
    "\<forall>q \<in> set ps. t \<in> txs_of q \<longrightarrow> (m, i) \<le> (o_matched_at q, o_id q)" by (rule backfill_earliest)
  have "i \<noteq> o_id p"
  proof
    assume "i = o_id p"
    then have "p' = p" using p'(1,2) assms by (metis distinct_map inj_onD)
    then have "(o_matched_at p, o_id p) \<le> (o_matched_at q, o_id q)" using p'(2,3,4) q(1,2) by metis
    then show False using q(4) by (meson leD)
  qed
  then show "conflicting (backfill_matched ps) p" using r q(3) unfolding conflicting_iff by blast
qed

subsection \<open>Properties\<close>

text \<open>
  C16 The one-to-one backfill: whatever the old engine matched, every transaction of its pairs gets
  exactly one row, owned by the earliest pair (by time, then identifier) it was matched in; a pair
  is flagged exactly when an earlier pair shares a transaction with it, nothing else about it
  changes, every other pair is left as it was and owns all of its transactions, and no two
  pairs that were not flagged share one.
\<close>

theorem backfill_one_to_one:
  assumes "distinct (map o_id ps)"
  shows "distinct (map fst (backfill_matched ps)) \<and> fst ` set (backfill_matched ps) = (\<Union>p \<in> set ps. txs_of p) \<and>
    (\<forall>(t, i, m) \<in> set (backfill_matched ps). \<exists>p \<in> set ps. o_id p = i \<and> o_matched_at p = m \<and> t \<in> txs_of p \<and>
       (\<forall>q \<in> set ps. t \<in> txs_of q \<longrightarrow> (o_matched_at p, o_id p) \<le> (o_matched_at q, o_id q))) \<and>
    list_all2 (\<lambda>p p'. p' = (if \<exists>q \<in> set ps. txs_of q \<inter> txs_of p \<noteq> {} \<and>
         (o_matched_at q, o_id q) < (o_matched_at p, o_id p) then flag_pair p else p)) ps (flag_conflicts ps) \<and>
    (\<forall>p \<in> set ps. \<not> conflicting (backfill_matched ps) p \<longrightarrow>
       (\<lambda>t. (t, o_id p, o_matched_at p)) ` txs_of p \<subseteq> set (backfill_matched ps) \<and>
       (\<forall>q \<in> set ps. \<not> conflicting (backfill_matched ps) q \<longrightarrow> q = p \<or> txs_of q \<inter> txs_of p = {}))"
proof (intro conjI ballI impI)
  show "distinct (map fst (backfill_matched ps))" "fst ` set (backfill_matched ps) = (\<Union>p \<in> set ps. txs_of p)"
    by (rule backfill_keys)+
next
  fix x assume x: "x \<in> set (backfill_matched ps)"
  obtain t i m where e: "x = (t, i, m)" by (rule prod_cases3)
  have "\<exists>p \<in> set ps. o_id p = i \<and> o_matched_at p = m \<and> t \<in> txs_of p \<and>
      (\<forall>q \<in> set ps. t \<in> txs_of q \<longrightarrow> (o_matched_at p, o_id p) \<le> (o_matched_at q, o_id q))"
    by (rule backfill_earliest [OF x [unfolded e]]) blast
  then show "case x of (t, i, m) \<Rightarrow> \<exists>p \<in> set ps. o_id p = i \<and> o_matched_at p = m \<and> t \<in> txs_of p \<and>
      (\<forall>q \<in> set ps. t \<in> txs_of q \<longrightarrow> (o_matched_at p, o_id p) \<le> (o_matched_at q, o_id q))"
    by (simp add: e)
next
  show "list_all2 (\<lambda>p p'. p' = (if \<exists>q \<in> set ps. txs_of q \<inter> txs_of p \<noteq> {} \<and>
      (o_matched_at q, o_id q) < (o_matched_at p, o_id p) then flag_pair p else p)) ps (flag_conflicts ps)"
    using conflicting_earlier [OF _ assms] by (simp add: flag_conflicts_def list_all2_map2 list_all2_same)
next
  fix p assume "p \<in> set ps" "\<not> conflicting (backfill_matched ps) p"
  then show "(\<lambda>t. (t, o_id p, o_matched_at p)) ` txs_of p \<subseteq> set (backfill_matched ps)"
    using backfill_own assms by blast
next
  fix p q assume p: "p \<in> set ps" "\<not> conflicting (backfill_matched ps) p"
    and q: "q \<in> set ps" "\<not> conflicting (backfill_matched ps) q"
  have "q = p" if "t \<in> txs_of q" "t \<in> txs_of p" for t
  proof -
    have "(t, o_id p, o_matched_at p) \<in> set (backfill_matched ps)" by (rule backfill_own [OF p that(2) assms])
    then have "o_id p = o_id q" using q(2) that(1) unfolding conflicting_iff by blast
    then show ?thesis using p(1) q(1) assms by (metis distinct_map inj_onD)
  qed
  then show "q = p \<or> txs_of q \<inter> txs_of p = {}" by blast
qed

definition old_match :: "nat \<Rightarrow> nat \<Rightarrow> nat \<Rightarrow> time \<Rightarrow> old_pair" where
  "old_match i a b m = \<lparr>o_id = i, o_a = a, o_b = Some b, o_matched_at = m, o_status = PAIR_MATCHED, o_evidence = None\<rparr>"

theorem backfill_one_to_one_witness:
  "map o_status (flag_conflicts [old_match 1 10 11 5, old_match 2 10 12 9, old_match 3 13 14 7]) =
     [PAIR_MATCHED, PAIR_UNDER_REVIEW, PAIR_MATCHED] \<and>
   (12, 2, 9) \<in> set (backfill_matched [old_match 1 10 11 5, old_match 2 10 12 9, old_match 3 13 14 7])"
proof -
  let ?ps = "[old_match 1 10 11 5, old_match 2 10 12 9, old_match 3 13 14 7]"
  have "distinct (map o_id ?ps)" by (simp add: old_match_def)
  note b = backfill_one_to_one [OF this]
  have "map o_status (flag_conflicts ?ps) = [PAIR_MATCHED, PAIR_UNDER_REVIEW, PAIR_MATCHED]"
    using b by (auto simp: list_all2_Cons1 old_match_def txs_of_def flag_pair_def)
  moreover have "12 \<in> fst ` set (backfill_matched ?ps)" using b by (simp add: old_match_def txs_of_def)
  ultimately show ?thesis using b by (force simp: old_match_def txs_of_def)
qed

text \<open>
  The event written for a discrepancy says it is open. The history of a discrepancy that was closed
  before the migration therefore does not end in its status.
\<close>

lemma backfilled_trail:
  assumes "distinct (map d_id (g_discs g))" and "g_events g = []" and "d \<in> set (g_discs g)"
  shows "trail_ok (backfill_events g) d \<longleftrightarrow> d_state d = OPEN"
proof -
  have "filter (\<lambda>e. ev_disc e = d_id d) (map backfill_event (g_discs g)) =
      map backfill_event (filter (\<lambda>e. d_id e = d_id d) (g_discs g))"
    by (simp add: filter_map o_def backfill_event_def)
  also have "filter (\<lambda>e. d_id e = d_id d) (g_discs g) = [d]"
    using assms(1,3) by (rule filter_one)
  finally have "events_of (backfill_events g) (d_id d) = [backfill_event d]"
    using assms(2) by (simp add: events_of_def backfill_events_def)
  then show ?thesis by (auto simp: trail_ok_def backfill_event_def)
qed

end
