(* ===== verification/Summary_View.thy ===== *)
theory Summary_View
  imports Api_Read
begin

text \<open>
  The materialised view \<open>gold_reconciliation_summary\<close>: the query of migration 015 that the matching
  flow refreshes, and the one of migration 010 it replaced. The primary key of
  \<open>gold_matched_transactions\<close> makes its join a membership test. A quotient is rounded to four
  decimals from its exact value; the column \<open>avg_settlement_lag_minutes\<close> of the old query is left out,
  since nothing fills the column it averages.
\<close>

record summary_row =
  sr_date :: date
  sr_psp :: string
  sr_total :: nat
  sr_volume :: rat
  sr_matched :: nat
  sr_matched_volume :: "rat option"
  sr_rate :: "rat option"
  sr_open :: nat
  sr_resolved :: nat
  sr_exposure :: rat
  sr_breaches :: nat

subsection \<open>Migration 015\<close>

definition is_closed :: "disc_row \<Rightarrow> bool" where
  "is_closed d \<longleftrightarrow> d_state d \<in> {CLOSED_RESOLVED, CLOSED_FALSE_POSITIVE}"

definition discs_of :: "gold \<Rightarrow> canonical \<Rightarrow> disc_row list" where
  "discs_of g s = filter (\<lambda>d. d_tx d = tx_id s) (g_discs g)"

definition sla_breach :: "time \<Rightarrow> canonical \<Rightarrow> bool" where
  "sla_breach now s \<longleftrightarrow> (case expected_settlement_at s of None \<Rightarrow> False
     | Some due \<Rightarrow> due < (case settled_at s of None \<Rightarrow> now | Some t \<Rightarrow> t))"

definition summary_key :: "canonical \<Rightarrow> date \<times> string" where
  "summary_key s = (lagos_day (initiated_at s), psp_name s)"

definition summary_row_of :: "time \<Rightarrow> gold \<Rightarrow> (date \<times> string) \<times> canonical list \<Rightarrow> summary_row" where
  "summary_row_of now g = (\<lambda>((day, psp), txs).
     let matched = filter (\<lambda>s. is_matched g (tx_id s)) txs;
         open_per_tx = map (\<lambda>s. filter is_open (discs_of g s)) txs
     in \<lparr>sr_date = day, sr_psp = psp, sr_total = length txs, sr_volume = sum_list (map amount_ngn txs),
       sr_matched = length matched, sr_matched_volume = Some (sum_list (map amount_ngn matched)),
       sr_rate = (if txs = [] then None else Some (pg_round 4 (of_nat (length matched) * 100 / of_nat (length txs)))),
       sr_open = sum_list (map length open_per_tx),
       sr_resolved = sum_list (map (\<lambda>s. length (filter is_closed (discs_of g s))) txs),
       sr_exposure = sum_list (map exposure_of open_per_tx),
       sr_breaches = length (filter (sla_breach now) txs)\<rparr>)"

definition summary_view :: "time \<Rightarrow> gold \<Rightarrow> summary_row list" where
  "summary_view now g = map (summary_row_of now g) (group_by summary_key (filter counted_type (g_silver g)))"

subsection \<open>Migration 010\<close>

text \<open>
  Every transaction beside the pairs it is the first of and its discrepancies, one row for each
  combination; a missing partner is NULL.
\<close>

definition outer :: "'a list \<Rightarrow> 'a option list" where
  "outer xs = (if xs = [] then [None] else map Some xs)"

definition legacy_rows :: "gold \<Rightarrow> (canonical \<times> pair_row option \<times> disc_row option) list" where
  "legacy_rows g = concat (map (\<lambda>s. concat (map (\<lambda>p. map (\<lambda>d. (s, p, d)) (outer (discs_of g s)))
     (outer (filter (\<lambda>p. p_a p = tx_id s) (g_pairs g))))) (g_silver g))"

definition legacy_key :: "canonical \<times> pair_row option \<times> disc_row option \<Rightarrow> date \<times> string" where
  "legacy_key r = summary_key (fst r)"

fun some_matched :: "pair_row option \<Rightarrow> bool" where
  "some_matched None = False"
| "some_matched (Some p) = (p_state p = PAIR_MATCHED)"

definition in_state :: "disc_status \<Rightarrow> disc_row option \<Rightarrow> bool" where
  "in_state st d = (case d of None \<Rightarrow> False | Some d \<Rightarrow> d_state d = st)"

definition legacy_breach :: "time \<Rightarrow> canonical \<Rightarrow> bool" where
  "legacy_breach now s \<longleftrightarrow> (case (settled_at s, expected_settlement_at s) of
     (Some t, Some due) \<Rightarrow> due < t | (None, Some due) \<Rightarrow> due < now | _ \<Rightarrow> False)"

definition count_distinct :: "'a list \<Rightarrow> nat" where
  "count_distinct xs = length (remdups xs)"

text \<open>\<open>SUM\<close> of no rows is NULL.\<close>

definition sql_sum :: "rat list \<Rightarrow> rat option" where
  "sql_sum xs = (if xs = [] then None else Some (sum_list xs))"

definition legacy_row_of ::
  "time \<Rightarrow> (date \<times> string) \<times> (canonical \<times> pair_row option \<times> disc_row option) list \<Rightarrow> summary_row" where
  "legacy_row_of now = (\<lambda>((day, psp), rows).
     let ids = (\<lambda>P. map (\<lambda>(s, p, d). tx_id s) (filter P rows));
         total = count_distinct (map (\<lambda>(s, p, d). tx_id s) rows);
         matched = count_distinct (map (\<lambda>(s, p, d). map_option p_id p) (filter (\<lambda>(s, p, d). some_matched p) rows));
         in_st = (\<lambda>st. map (\<lambda>(s, p, d). d) (filter (\<lambda>(s, p, d). in_state st d) rows))
     in \<lparr>sr_date = day, sr_psp = psp, sr_total = total, sr_volume = sum_list (map (\<lambda>(s, p, d). amount_ngn s) rows),
       sr_matched = matched,
       sr_matched_volume = sql_sum (map (\<lambda>(s, p, d). amount_ngn s) (filter (\<lambda>(s, p, d). some_matched p) rows)),
       sr_rate = (if total = 0 then None else Some (pg_round 4 (of_nat matched * 100 / of_nat total))),
       sr_open = count_distinct (map (map_option d_id) (in_st OPEN)),
       sr_resolved = count_distinct (map (map_option d_id) (in_st CLOSED_RESOLVED)),
       sr_exposure = sum_list (map (\<lambda>d. case d of None \<Rightarrow> 0 | Some d \<Rightarrow> d_exposure d) (in_st OPEN)),
       sr_breaches = count_distinct (ids (\<lambda>(s, p, d). legacy_breach now s))\<rparr>)"

definition legacy_view :: "time \<Rightarrow> gold \<Rightarrow> summary_row list" where
  "legacy_view now g = map (legacy_row_of now) (group_by legacy_key (legacy_rows g))"

subsection \<open>Rows and transactions\<close>

lemma group_keys: "(k, ys) \<in> set (group_by f xs) \<Longrightarrow> y \<in> set ys \<Longrightarrow> f y = k"
  by (auto simp: group_by_def)

lemma row_fields [simp]:
  "sr_date (summary_row_of now g ((day, psp), xs)) = day"
  "sr_psp (summary_row_of now g ((day, psp), xs)) = psp"
  "sr_total (summary_row_of now g ((day, psp), xs)) = length xs"
  "sr_matched (summary_row_of now g ((day, psp), xs)) = length (filter (\<lambda>s. is_matched g (tx_id s)) xs)"
  "sr_volume (summary_row_of now g ((day, psp), xs)) = sum_list (map amount_ngn xs)"
  "sr_open (summary_row_of now g ((day, psp), xs)) = sum_list (map (\<lambda>s. length (filter is_open (discs_of g s))) xs)"
  "sr_exposure (summary_row_of now g ((day, psp), xs)) = sum_list (map (\<lambda>s. exposure_of (filter is_open (discs_of g s))) xs)"
  by (simp_all add: summary_row_of_def Let_def comp_def)

text \<open>A column that adds up over transactions adds up over the rows, of a day and of the whole view.\<close>

lemma view_sum:
  fixes h :: "summary_row \<Rightarrow> 'a::comm_monoid_add"
  assumes "\<And>day psp xs. h (summary_row_of now g ((day, psp), xs)) = sum_list (map f xs)"
  shows "sum_list (map h (summary_view now g)) = sum_list (map f (filter counted_type (g_silver g)))"
proof -
  have "map h (summary_view now g) = map (\<lambda>p. sum_list (map f (snd p))) (group_by summary_key (filter counted_type (g_silver g)))"
    by (auto simp: summary_view_def assms)
  then show ?thesis by (simp only: sum_group_by)
qed

lemma sum_list_if: "sum_list (map f (filter P xs)) = sum_list (map (\<lambda>x. if P x then f x else 0) xs)"
  by (induction xs) auto

lemma view_day_sum:
  fixes h :: "summary_row \<Rightarrow> 'a::comm_monoid_add"
  assumes "\<And>day psp xs. h (summary_row_of now g ((day, psp), xs)) = sum_list (map f xs)"
  shows "sum_list (map h (filter (\<lambda>r. sr_date r = d) (summary_view now g))) = sum_list (map f (day_transactions d g))"
proof -
  let ?f = "\<lambda>s. if lagos_day (initiated_at s) = d then f s else 0"
  have row: "(if sr_date (summary_row_of now g p) = d then h (summary_row_of now g p) else 0) = sum_list (map ?f (snd p))"
    if p: "p \<in> set (group_by summary_key xs)" for p xs
  proof -
    obtain day psp ys where e: "p = ((day, psp), ys)" by (metis prod.collapse)
    have "lagos_day (initiated_at s) = day" if "s \<in> set ys" for s
      using group_keys [OF p [unfolded e] that] by (simp add: summary_key_def)
    then have m: "map ?f ys = map (\<lambda>s. if day = d then f s else 0) ys" by simp
    show ?thesis unfolding e snd_conv m by (cases "day = d") (simp_all add: assms)
  qed
  have "sum_list (map h (filter (\<lambda>r. sr_date r = d) (summary_view now g))) =
      sum_list (map (\<lambda>p. sum_list (map ?f (snd p))) (group_by summary_key (filter counted_type (g_silver g))))"
    unfolding sum_list_if summary_view_def map_map comp_def using row by (intro arg_cong [of _ _ sum_list] map_cong) auto
  also have "\<dots> = sum_list (map ?f (filter counted_type (g_silver g)))" by (rule sum_group_by)
  also have "\<dots> = sum_list (map f (day_transactions d g))"
    by (simp add: day_transactions_counted sum_list_if [symmetric] filter_filter conj_commute)
  finally show ?thesis .
qed

text \<open>Each discrepancy of a listed transaction is counted once.\<close>

lemma discs_counted_once:
  fixes e :: "disc_row \<Rightarrow> 'a::comm_monoid_add"
  assumes "distinct (map tx_id xs)"
  shows "sum_list (map (\<lambda>s. sum_list (map e (filter (\<lambda>d. d_tx d = tx_id s) ds))) xs) =
    sum_list (map e (filter (\<lambda>d. d_tx d \<in> tx_id ` set xs) ds))"
proof (induction ds)
  case (Cons d ds)
  have "sum_list (map (\<lambda>s. if d_tx d = tx_id s then e d else 0) xs) = (if d_tx d \<in> tx_id ` set xs then e d else 0)"
  proof (cases "d_tx d \<in> tx_id ` set xs")
    case True
    then show ?thesis using sum_list_single [OF assms, of "d_tx d" "e d"] by (simp add: comp_def)
  next
    case False
    then have m: "map (\<lambda>s. if d_tx d = tx_id s then e d else 0) xs = map (\<lambda>s. 0) xs" by auto
    show ?thesis unfolding m using False by simp
  qed
  moreover have "sum_list (map (\<lambda>s. sum_list (map e (filter (\<lambda>d. d_tx d = tx_id s) (d # ds)))) xs) =
      sum_list (map (\<lambda>s. if d_tx d = tx_id s then e d else 0) xs) +
      sum_list (map (\<lambda>s. sum_list (map e (filter (\<lambda>d. d_tx d = tx_id s) ds))) xs)"
    unfolding sum_list_addf [symmetric] by (rule arg_cong [of _ _ sum_list]) auto
  ultimately show ?case using Cons by simp
qed simp

subsection \<open>Properties\<close>

text \<open>
  C26 The materialised view counts everything once: over the rows of a day, transactions, matched
  transactions and volume add up to what the daily summary of the API counts, so a transaction on
  either side of a pair is matched; and over all rows the open discrepancies and their
  exposure are exactly those of the credit and debit transactions, each counted once, however many
  discrepancies a transaction has.
\<close>

theorem summary_view_exact:
  assumes "distinct (map tx_id (g_silver g))" and "get_reconciliation_summary now (Some d) g = Inr v"
  shows "sum_list (map sr_total (filter (\<lambda>r. sr_date r = d) (summary_view now g))) = su_total v \<and>
    sum_list (map sr_matched (filter (\<lambda>r. sr_date r = d) (summary_view now g))) = su_matched v \<and>
    sum_list (map sr_volume (filter (\<lambda>r. sr_date r = d) (summary_view now g))) =
      sum_list (map amount_ngn (day_transactions d g)) \<and>
    (let ds = filter (\<lambda>c. is_open c \<and> (\<exists>s \<in> set (g_silver g). tx_id s = d_tx c \<and> counted_type s)) (g_discs g)
     in sum_list (map sr_open (summary_view now g)) = length ds \<and>
       sum_list (map sr_exposure (summary_view now g)) = exposure_of ds)"
proof -
  let ?xs = "filter counted_type (g_silver g)" and ?ds = "filter is_open (g_discs g)"
  have v: "su_total v = length (day_transactions d g)"
      "su_matched v = length (filter (\<lambda>s. is_matched g (tx_id s)) (day_transactions d g))"
    using assms(2) by (auto simp: get_reconciliation_summary_def Let_def split: sum.splits)
  have tx: "distinct (map tx_id ?xs)" using assms(1) by (rule distinct_map_filter)
  have mem: "filter (\<lambda>c. d_tx c \<in> tx_id ` set ?xs) ?ds =
      filter (\<lambda>c. is_open c \<and> (\<exists>s \<in> set (g_silver g). tx_id s = d_tx c \<and> counted_type s)) (g_discs g)"
    by (auto intro!: filter_cong simp: image_iff dest: sym)
  have swap: "filter is_open (discs_of g s) = filter (\<lambda>c. d_tx c = tx_id s) ?ds" for s
    by (simp add: discs_of_def conj_commute)
  have total: "sum_list (map sr_total (filter (\<lambda>r. sr_date r = d) (summary_view now g))) =
      sum_list (map (\<lambda>s. 1) (day_transactions d g))"
    by (rule view_day_sum) (simp add: length_sum)
  have matched: "sum_list (map sr_matched (filter (\<lambda>r. sr_date r = d) (summary_view now g))) =
      sum_list (map (\<lambda>s. if is_matched g (tx_id s) then 1 else 0) (day_transactions d g))"
    by (rule view_day_sum) (simp only: row_fields length_sum sum_list_if)
  have volume: "sum_list (map sr_volume (filter (\<lambda>r. sr_date r = d) (summary_view now g))) =
      sum_list (map amount_ngn (day_transactions d g))"
    by (rule view_day_sum) simp
  have opens: "sum_list (map sr_open (summary_view now g)) = sum_list (map (\<lambda>s. sum_list (map (\<lambda>c. 1) (filter (\<lambda>c. d_tx c = tx_id s) ?ds))) ?xs)"
    by (rule view_sum) (simp only: row_fields swap length_sum)
  have exposure: "sum_list (map sr_exposure (summary_view now g)) = sum_list (map (\<lambda>s. sum_list (map d_exposure (filter (\<lambda>c. d_tx c = tx_id s) ?ds))) ?xs)"
    by (rule view_sum) (simp only: row_fields swap exposure_of_def)
  show ?thesis
    using total matched volume opens exposure unfolding v discs_counted_once [OF tx] mem Let_def exposure_of_def
    by (simp only: length_sum sum_list_if simp_thms)
qed

definition example_summary :: gold where
  "example_summary = example_read\<lparr>g_pairs := [\<lparr>p_id = 9, p_a = 1, p_b = 2, p_strategy = EXACT_PRIMARY,
       p_confidence = 1, p_amount_a = 50000, p_amount_b = 50000, p_delta = 0, p_fx_flag = True, p_state = PAIR_MATCHED,
       p_evidence = NoEvidence, p_run = 1, p_created = 0\<rparr>],
     g_matched := [(1, 9), (2, 9)],
     g_discs := [example_disc, example_disc2, example_disc\<lparr>d_id := 10, d_class := AMOUNT_MISMATCH\<rparr>]\<rparr>"

lemma example_summary_view:
  "map (\<lambda>r. (sr_psp r, sr_total r, sr_matched r, sr_open r, sr_volume r)) (summary_view 5 example_summary) =
     [(''paystack'', 1, 1, 2, 50000), (''flutterwave'', 1, 1, 1, 50000)]"
  "case get_reconciliation_summary 5 (Some 0) example_summary of Inl e \<Rightarrow> False | Inr v \<Rightarrow> su_total v = 2 \<and> su_matched v = 2"
  by code_simp+

text \<open>The replaced view: the second side of a pair is unmatched, and the volume fans out over discrepancies.\<close>

lemma example_legacy_view:
  "map (\<lambda>r. (sr_psp r, sr_total r, sr_matched r, sr_open r, sr_volume r)) (legacy_view 5 example_summary) =
     [(''paystack'', 1, 1, 2, 100000), (''flutterwave'', 1, 0, 1, 50000)]"
  by code_simp

theorem summary_view_exact_witness:
  "\<exists>v. get_reconciliation_summary 5 (Some 0) example_summary = Inr v \<and> su_matched v = 2 \<and>
     sum_list (map sr_matched (filter (\<lambda>r. sr_date r = 0) (summary_view 5 example_summary))) = 2"
proof -
  obtain v where v: "get_reconciliation_summary 5 (Some 0) example_summary = Inr v" "su_matched v = 2"
    using example_summary_view(2) by (auto split: sum.splits)
  have "distinct (map tx_id (g_silver example_summary))"
    by (simp add: example_summary_def example_read_def example_gold_def example_tx_def)
  from summary_view_exact [OF this v(1)] v show ?thesis by auto
qed

end
