(* ===== verification/Key_Issue.thy ===== *)
theory Key_Issue
  imports Access
begin

text \<open>
  \<open>scripts/create_api_key.py\<close>: a new row of \<open>system_api_keys\<close>, and what the key then opens. The random
  token is a parameter, the table is the one the authentication middleware reads. The key's
  prefix is stored for display and read by no code.
\<close>

definition VALID_SCOPES :: "string list" where
  "VALID_SCOPES = [''read'', ''write'', ''admin'']"

definition raw_key :: "string \<Rightarrow> string" where
  "raw_key token = ''mmr_'' @ token"

text \<open>\<open>datetime.now(UTC) + timedelta(days=n) if n else None\<close>.\<close>

definition expiry_of :: "time \<Rightarrow> int option \<Rightarrow> exc + time option" where
  "expiry_of now days = (case days of None \<Rightarrow> Inr None
     | Some n \<Rightarrow> if n = 0 then Inr None
         else if 999999999 < \<bar>n\<bar> \<or> now + n * us_day < min_time \<or> max_time < now + n * us_day then Inl OverflowError
         else Inr (Some (now + n * us_day)))"

definition stored_scopes :: "string list \<Rightarrow> string list" where
  "stored_scopes scopes = sort (remdups (''read'' # scopes))"

text \<open>The row with its column defaults; \<open>key_hash\<close> is unique, \<open>client_name\<close> has 200 characters.\<close>

definition create_key ::
  "(string \<Rightarrow> string) \<Rightarrow> string \<Rightarrow> string \<Rightarrow> time \<Rightarrow> string \<Rightarrow> string list \<Rightarrow> int option \<Rightarrow> api_key list \<Rightarrow>
   (exc + string) \<times> api_key list" where
  "create_key sha256hex token new_id now name scopes days keys = (
     let raw = raw_key token in
     case expiry_of now days of Inl e \<Rightarrow> (Inl e, keys)
     | Inr expires \<Rightarrow>
         if 200 < length name \<or> CHR 0x00 \<in> set name then (Inl DatabaseError, keys)
         else if sha256hex raw \<in> k_hash ` set keys \<or> new_id \<in> k_id ` set keys then (Inl IntegrityError, keys)
         else (Inr raw, keys @ [\<lparr>k_id = new_id, k_hash = sha256hex raw, k_client = name,
           k_scopes = Some (stored_scopes scopes), k_active = True, k_expires = expires, k_last_used = None,
           k_usage = 0\<rparr>]))"

text \<open>The command line: argparse rejects a scope that is not listed.\<close>

definition issue_key ::
  "(string \<Rightarrow> string) \<Rightarrow> string \<Rightarrow> string \<Rightarrow> time \<Rightarrow> string \<Rightarrow> string list \<Rightarrow> int option \<Rightarrow> api_key list \<Rightarrow>
   (exc + string) \<times> api_key list" where
  "issue_key sha256hex token new_id now name scopes days keys =
     (if \<not> set scopes \<subseteq> set VALID_SCOPES then (Inl (RuntimeError ''invalid choice''), keys)
      else create_key sha256hex token new_id now name scopes days keys)"

subsection \<open>What a key opens\<close>

lemma raw_key_not_empty [simp]: "raw_key token \<noteq> []"
  by (simp add: raw_key_def)

lemma stored_scopes_set [simp]: "set (stored_scopes scopes) = insert ''read'' (set scopes)"
  by (auto simp: stored_scopes_def)

text \<open>The role a list of scopes is issued for.\<close>

definition issued_role :: "string list \<Rightarrow> string" where
  "issued_role scopes = (if ''admin'' \<in> set scopes then ''admin'' else if ''write'' \<in> set scopes then ''analyst'' else ''readonly'')"

lemma role_of_stored: "role_from_scopes (Some (stored_scopes scopes)) = issued_role scopes"
  by (simp add: role_from_scopes_def issued_role_def Let_def)

lemma issue_key_Inr:
  assumes "issue_key sha256hex token i now name scopes days keys = (Inr raw, keys')"
  obtains expires where "expiry_of now days = Inr expires" "raw = raw_key token" "sha256hex raw \<notin> k_hash ` set keys"
    "keys' = keys @ [\<lparr>k_id = i, k_hash = sha256hex raw, k_client = name, k_scopes = Some (stored_scopes scopes),
       k_active = True, k_expires = expires, k_last_used = None, k_usage = 0\<rparr>]"
  using assms by (auto simp: issue_key_def create_key_def Let_def split: if_splits sum.splits)

lemma find_touched_absent:
  "h \<notin> k_hash ` set keys \<Longrightarrow> List.find (\<lambda>k. k_hash k = h) (touch_keys t h keys @ ks) = List.find (\<lambda>k. k_hash k = h) ks"
  by (induction keys) (auto simp: touch_keys_def)

lemma find_touched_other:
  assumes "k_hash k \<noteq> h"
  shows "List.find (\<lambda>k. k_hash k = h) (touch_keys t h (keys @ [k])) = List.find (\<lambda>k. k_hash k = h) (touch_keys t h keys)"
  using assms by (induction keys) (auto simp: touch_keys_def)

lemma authenticate_new:
  assumes "sha256hex raw \<notin> k_hash ` set keys" and "k_hash k = sha256hex raw" and "raw \<noteq> []"
    and "rq_method req \<noteq> ''OPTIONS''" "\<not> is_public_path (rq_path req) (s_environment s)"
    and "rq_api_key req = Some raw" "ae_db_ok env" "k_active k"
  shows "fst (authenticate s sha256hex env req (keys @ [k])) =
    (if (case k_expires k of None \<Rightarrow> False | Some x \<Rightarrow> x < ae_clock env) then Inl (json_response 403 ''API key expired'')
     else Inr (req\<lparr>st_key_id := Some (k_id k), st_key_name := Some (k_client k), st_role := Some (role_from_scopes (k_scopes k))\<rparr>))"
proof -
  let ?k = "touch_key (ae_db_now env) k"
  have "touch_keys (ae_db_now env) (sha256hex raw) (keys @ [k]) = touch_keys (ae_db_now env) (sha256hex raw) keys @ [?k]"
    using assms(2) by (simp add: touch_keys_def)
  then have "List.find (\<lambda>k. k_hash k = sha256hex raw) (touch_keys (ae_db_now env) (sha256hex raw) (keys @ [k])) = Some ?k"
    using find_touched_absent [OF assms(1)] assms(2) by (simp add: touch_key_def)
  then show ?thesis using assms by (simp add: authenticate_def Let_def touch_key_def)
qed

subsection \<open>Properties\<close>

text \<open>
  C29 An issued key works as requested: presented on a protected path it authenticates its client with
  the role its scopes name, until its expiry and not after it (a validity of zero days means no
  expiry), every other key is answered exactly as before, and the table holds the hash of the
  new key only.
\<close>

theorem issued_key_opens:
  assumes "issue_key sha256hex token i now name scopes days keys = (Inr raw, keys')"
    and "rq_method req \<noteq> ''OPTIONS''" and "\<not> is_public_path (rq_path req) (s_environment s)"
    and "rq_api_key req = Some presented_key" and "ae_db_ok env"
  shows "set scopes \<subseteq> set VALID_SCOPES \<and> map k_hash keys' = map k_hash keys @ [sha256hex raw] \<and>
    (presented_key = raw \<longrightarrow> fst (authenticate s sha256hex env req keys') =
      (if \<exists>n. days = Some n \<and> n \<noteq> 0 \<and> now + n * us_day < ae_clock env
       then Inl (json_response 403 ''API key expired'')
       else Inr (req\<lparr>st_key_id := Some i, st_key_name := Some name, st_role := Some (issued_role scopes)\<rparr>))) \<and>
    (sha256hex presented_key \<noteq> sha256hex raw \<longrightarrow>
      fst (authenticate s sha256hex env req keys') = fst (authenticate s sha256hex env req keys))"
proof -
  obtain expires k where e: "expiry_of now days = Inr expires" "raw = raw_key token" "sha256hex raw \<notin> k_hash ` set keys"
    and k: "k = \<lparr>k_id = i, k_hash = sha256hex raw, k_client = name, k_scopes = Some (stored_scopes scopes),
       k_active = True, k_expires = expires, k_last_used = None, k_usage = 0\<rparr>" and keys': "keys' = keys @ [k]"
    using issue_key_Inr [OF assms(1)] by metis
  have expired: "(case expires of None \<Rightarrow> False | Some x \<Rightarrow> x < ae_clock env) \<longleftrightarrow>
      (\<exists>n. days = Some n \<and> n \<noteq> 0 \<and> now + n * us_day < ae_clock env)"
    using e(1) by (auto simp: expiry_of_def split: option.splits if_splits)
  have new: "fst (authenticate s sha256hex env req keys') =
      (if \<exists>n. days = Some n \<and> n \<noteq> 0 \<and> now + n * us_day < ae_clock env
       then Inl (json_response 403 ''API key expired'')
       else Inr (req\<lparr>st_key_id := Some i, st_key_name := Some name, st_role := Some (issued_role scopes)\<rparr>))"
    if "presented_key = raw"
    using authenticate_new [of sha256hex raw keys k req s env] e(3) that assms(2-5) e(2) unfolding keys'
    by (simp add: k expired role_of_stored)
  have other: "fst (authenticate s sha256hex env req keys') = fst (authenticate s sha256hex env req keys)"
    if "sha256hex presented_key \<noteq> sha256hex raw"
  proof -
    have "List.find (\<lambda>k. k_hash k = sha256hex presented_key) (touch_keys t (sha256hex presented_key) keys') =
        List.find (\<lambda>k. k_hash k = sha256hex presented_key) (touch_keys t (sha256hex presented_key) keys)" for t
      unfolding keys' by (rule find_touched_other) (use that in \<open>simp add: k\<close>)
    then show ?thesis using assms(4) by (simp add: authenticate_def Let_def split: option.splits)
  qed
  have "set scopes \<subseteq> set VALID_SCOPES" using assms(1) by (simp add: issue_key_def split: if_splits)
  then show ?thesis using new other by (simp add: keys' k)
qed

definition example_presented :: request where
  "example_presented = example_request\<lparr>rq_api_key := Some ''mmr_xyz''\<rparr>"

lemma example_issued:
  "fst (issue_key rev ''xyz'' ''2'' 0 ''ops'' [''write''] (Some 30) (sv_keys example_server)) = Inr ''mmr_xyz''"
  by code_simp

theorem issued_key_opens_witness:
  "\<exists>s keys'. load_settings example_settings = Inr s \<and>
     issue_key rev ''xyz'' ''2'' 0 ''ops'' [''write''] (Some 30) (sv_keys example_server) = (Inr ''mmr_xyz'', keys') \<and>
     fst (authenticate s rev \<lparr>ae_db_ok = True, ae_db_now = 0, ae_clock = us_day, ae_created = 0, ae_mono = 0\<rparr>
       example_presented keys') =
       Inr (example_presented\<lparr>st_key_id := Some ''2'', st_key_name := Some ''ops'', st_role := Some ''analyst''\<rparr>)"
proof -
  obtain s where s: "load_settings example_settings = Inr s" "s_environment s = ''production''"
    using example_settings_load by (auto split: sum.splits)
  obtain keys' where k: "issue_key rev ''xyz'' ''2'' 0 ''ops'' [''write''] (Some 30) (sv_keys example_server) = (Inr ''mmr_xyz'', keys')"
    using example_issued by (metis prod.collapse)
  have p: "rq_method example_presented \<noteq> ''OPTIONS''" "\<not> is_public_path (rq_path example_presented) ''production''"
    by code_simp+
  show ?thesis
    using issued_key_opens [OF k p(1), of s "''mmr_xyz''" "\<lparr>ae_db_ok = True, ae_db_now = 0, ae_clock = us_day, ae_created = 0, ae_mono = 0\<rparr>"] s k p
    by (simp add: example_presented_def issued_role_def)
qed

end
