(* ===== verification/Timestamps.thy ===== *)
theory Timestamps
  imports Render Normaliser
begin

text \<open>
  The calendar read both ways: the fields \<open>datetime\<close> prints are those it reads, so a timestamp an
  endpoint renders, a polling client sends or a simulator puts into an event denotes the instant it
  was made from.
\<close>

subsection \<open>The calendar\<close>

definition day_count :: "int \<Rightarrow> int \<Rightarrow> int \<Rightarrow> int \<Rightarrow> int" where
  "day_count a b c e = 146097 * a + 36524 * b + 1461 * c + 365 * e"

lemma days_before_year_cycles:
  assumes "0 \<le> b" "b < 4" "0 \<le> c" "c < 25" "0 \<le> e" "e < 4"
  shows "days_before_year (400 * a + 100 * b + 4 * c + e + 1) = day_count a b c e"
proof -
  let ?y = "400 * a + 100 * b + 4 * c + e"
  have "?y div 4 = 100 * a + 25 * b + c" by (rule int_div_pos_eq [of _ _ _ e]) (use assms in auto)
  moreover have "?y div 100 = 4 * a + b" by (rule int_div_pos_eq [of _ _ _ "4 * c + e"]) (use assms in auto)
  moreover have "?y div 400 = a" by (rule int_div_pos_eq [of _ _ _ "100 * b + 4 * c + e"]) (use assms in auto)
  ultimately show ?thesis by (simp add: days_before_year_def day_count_def)
qed

lemma leap_cycles:
  assumes "0 \<le> b" "b < 4" "0 \<le> c" "c < 25" "0 \<le> e" "e < 4"
  shows "is_leap (400 * a + 100 * b + 4 * c + e + 1) \<longleftrightarrow> e = 3 \<and> (c \<noteq> 24 \<or> b = 3)"
proof -
  let ?y = "400 * a + 100 * b + 4 * c + e + 1"
  consider "e \<noteq> 3" | "e = 3" "c \<noteq> 24" | "e = 3" "c = 24" "b \<noteq> 3" | "e = 3" "c = 24" "b = 3" by blast
  then show ?thesis
  proof cases
    case 1
    have "?y mod 4 = e + 1" by (rule int_mod_pos_eq [of _ _ "100 * a + 25 * b + c"]) (use assms 1 in auto)
    then show ?thesis using assms 1 by (simp add: is_leap_def)
  next
    case 2
    have "?y mod 4 = 0" by (rule int_mod_pos_eq [of _ _ "100 * a + 25 * b + c + 1"]) (use 2 in auto)
    moreover have "?y mod 100 = 4 * c + 4" by (rule int_mod_pos_eq [of _ _ "4 * a + b"]) (use assms 2 in auto)
    ultimately show ?thesis using assms 2 by (simp add: is_leap_def)
  next
    case 3
    have "?y mod 100 = 0" by (rule int_mod_pos_eq [of _ _ "4 * a + b + 1"]) (use 3 in auto)
    moreover have "?y mod 400 = 100 * b + 100" by (rule int_mod_pos_eq [of _ _ a]) (use assms 3 in auto)
    ultimately show ?thesis using assms 3 by (simp add: is_leap_def)
  next
    case 4
    have "?y mod 400 = 0" by (rule int_mod_pos_eq [of _ _ "a + 1"]) (use 4 in auto)
    moreover have "?y mod 4 = 0" by (rule int_mod_pos_eq [of _ _ "100 * a + 25 * b + c + 1"]) (use 4 in auto)
    ultimately show ?thesis using 4 by (simp add: is_leap_def)
  qed
qed

definition month_start :: "bool \<Rightarrow> int \<Rightarrow> int" where
  "month_start leap m = sum_list (map (\<lambda>i. if i = 2 then (if leap then 29 else 28) else if i \<in> {4, 6, 9, 11} then 30 else 31) [1..m - 1])"

lemma days_before_month_start: "days_before_month y m = month_start (is_leap y) m"
  unfolding days_before_month_def month_start_def days_in_month_def by simp

lemma month_starts:
  "map (month_start True) [1..12] = [0, 31, 60, 91, 121, 152, 182, 213, 244, 274, 305, 335]"
  "map (month_start False) [1..12] = [0, 31, 59, 90, 120, 151, 181, 212, 243, 273, 304, 334]"
  by code_simp+

text \<open>The month of the day number of a year is the one whose days contain it.\<close>

lemma month_of_correct:
  assumes "0 \<le> k" and "k < 365 + (if is_leap y then 1 else 0)"
  defines "m \<equiv> month_of y k"
  shows "1 \<le> m" "m \<le> 12" "days_before_month y m \<le> k" "k < days_before_month y m + days_in_month y m"
proof -
  define l :: int where "l = (if is_leap y then 1 else 0)"
  have l: "0 \<le> l" "l \<le> 1" "k < 365 + l" using assms(2) by (simp_all add: l_def)
  have up: "[1..12] = [1, 2, 3, 4, 5, 6, 7, 8, 9, 10, 11, 12 :: int]" by code_simp
  have ms: "map (days_before_month y) [1..12] = [0, 31, 59 + l, 90 + l, 120 + l, 151 + l, 181 + l, 212 + l, 243 + l,
      273 + l, 304 + l, 334 + l]"
    using month_starts unfolding days_before_month_start l_def by (cases "is_leap y") simp_all
  then have st: "days_before_month y 1 = 0" "days_before_month y 2 = 31" "days_before_month y 3 = 59 + l"
    "days_before_month y 4 = 90 + l" "days_before_month y 5 = 120 + l" "days_before_month y 6 = 151 + l"
    "days_before_month y 7 = 181 + l" "days_before_month y 8 = 212 + l" "days_before_month y 9 = 243 + l"
    "days_before_month y 10 = 273 + l" "days_before_month y 11 = 304 + l" "days_before_month y 12 = 334 + l"
    unfolding up by simp_all
  have len: "days_in_month y 2 = 28 + l" by (simp add: days_in_month_def l_def)
  have m: "m = int (length (filter (\<lambda>v. v \<le> k) (map (days_before_month y) [1..12])))"
    by (simp add: m_def month_of_def filter_map comp_def)
  consider "k < 31" | "31 \<le> k" "k < 59 + l" | "59 + l \<le> k" "k < 90 + l" | "90 + l \<le> k" "k < 120 + l"
    | "120 + l \<le> k" "k < 151 + l" | "151 + l \<le> k" "k < 181 + l" | "181 + l \<le> k" "k < 212 + l"
    | "212 + l \<le> k" "k < 243 + l" | "243 + l \<le> k" "k < 273 + l" | "273 + l \<le> k" "k < 304 + l"
    | "304 + l \<le> k" "k < 334 + l" | "334 + l \<le> k" by linarith
  then have "1 \<le> m \<and> m \<le> 12 \<and> days_before_month y m \<le> k \<and> k < days_before_month y m + days_in_month y m"
    by cases (use l assms(1) in \<open>simp_all add: m ms st len\<close>, simp_all add: days_in_month_def)
  then show "1 \<le> m" "m \<le> 12" "days_before_month y m \<le> k" "k < days_before_month y m + days_in_month y m" by auto
qed

text \<open>A day number by its cycles: the last day of a leap year is the day no cycle of 365 days reaches.\<close>

lemma date_fields_correct:
  assumes "date_fields d = (y, m, dd)"
  shows "1 \<le> m" "m \<le> 12" "1 \<le> dd" "dd \<le> days_in_month y m"
    "days_before_year y + days_before_month y m + dd - epoch_ordinal = d"
    "0 < d + epoch_ordinal \<Longrightarrow> 1 \<le> y" "d + epoch_ordinal \<le> days_before_year 10000 \<Longrightarrow> y \<le> 9999"
proof -
  define n where "n = d + epoch_ordinal - 1"
  define a r b q c r4 e k where "a = n div 146097" and "r = n mod 146097" and "b = r div 36524" and "q = r mod 36524"
    and "c = q div 1461" and "r4 = q mod 1461" and "e = r4 div 365" and "k = r4 mod 365"
  have n: "n = day_count a b c e + k"
    unfolding day_count_def a_def r_def b_def q_def c_def r4_def e_def k_def by (simp add: algebra_simps)
  have r: "0 \<le> r" "r \<le> 146096" by (simp_all add: r_def)
  have q: "0 \<le> q" "q \<le> 36523" and r4: "0 \<le> r4" "r4 \<le> 1460" and k: "0 \<le> k" "k \<le> 364" by (simp_all add: q_def r4_def k_def)
  have rq: "r = 36524 * b + q" "q = 1461 * c + r4" "r4 = 365 * e + k"
    by (simp_all add: b_def q_def c_def r4_def e_def k_def)
  have range: "0 \<le> b" "b \<le> 4" "0 \<le> c" "c \<le> 24" "0 \<le> e" "e \<le> 4" using r q r4 k rq by linarith+
  let ?y = "a * 400 + b * 100 + c * 4 + e + 1"
  have "date_fields d = (if e = 4 \<or> b = 4 then (?y - 1, 12, 31)
      else let m = month_of ?y k in (?y, m, k - days_before_month ?y m + 1))"
    unfolding date_fields_def Let_def a_def r_def b_def q_def c_def r4_def e_def k_def n_def ..
  then have f: "(y, m, dd) = (if e = 4 \<or> b = 4 then (?y - 1, 12, 31)
      else let m = month_of ?y k in (?y, m, k - days_before_month ?y m + 1))"
    using assms by simp
  have december: "days_before_month y 12 = 334 + (if is_leap y then 1 else 0)" for y
    using month_starts unfolding days_before_month_start by (cases "is_leap y") (simp_all add: upto_rec1)
  consider (normal) "e < 4" "b < 4" | (four) "e = 4" "b < 4" | (cycle) "b = 4" using range by linarith
  then have main: "1 \<le> m \<and> m \<le> 12 \<and> 1 \<le> dd \<and> dd \<le> days_in_month y m \<and> days_before_year y + days_before_month y m + dd = n + 1"
  proof cases
    case normal
    have y: "y = 400 * a + 100 * b + 4 * c + e + 1" using f normal by (simp add: Let_def split: if_splits)
    have mm: "m = month_of y k" "dd = k - days_before_month y m + 1" using f normal y by (auto simp: Let_def algebra_simps)
    have "k < 365 + (if is_leap y then 1 else 0)" using k by simp
    note mo = month_of_correct [OF k(1) this, folded mm(1)]
    have "days_before_year y = day_count a b c e" unfolding y by (rule days_before_year_cycles) (use range normal in auto)
    then show ?thesis using mo n mm(2) by simp
  next
    case four
    then have k0: "k = 0" and c24: "c < 24" using rq r4 q k range by linarith+
    have y: "y = 400 * a + 100 * b + 4 * c + 3 + 1" "m = 12" "dd = 31" using f four by auto
    have "days_before_year y = day_count a b c 3" unfolding y by (rule days_before_year_cycles) (use range four in auto)
    moreover have "is_leap y" unfolding y(1) using leap_cycles [of b c 3 a] range four c24 by simp
    ultimately show ?thesis using n k0 four by (simp add: y(2,3) december days_in_month_def day_count_def)
  next
    case cycle
    then have z: "c = 0" "e = 0" "k = 0" "r4 = 0" using rq r range k by linarith+
    have y: "y = 400 * a + 100 * 3 + 4 * 24 + 3 + 1" "m = 12" "dd = 31" using f cycle z by auto
    have "days_before_year y = day_count a 3 24 3" unfolding y by (rule days_before_year_cycles) auto
    moreover have "is_leap y" unfolding y(1) using leap_cycles [of 3 24 3 a] by simp
    ultimately show ?thesis using n cycle z by (simp add: y(2,3) december days_in_month_def day_count_def)
  qed
  then show "1 \<le> m" "m \<le> 12" "1 \<le> dd" "dd \<le> days_in_month y m"
    "days_before_year y + days_before_month y m + dd - epoch_ordinal = d" by (simp_all add: n_def)
  have year: "y = ?y - (if e = 4 \<or> b = 4 then 1 else 0)" using f by (auto simp: Let_def split: if_splits)
  show "1 \<le> y" if "0 < d + epoch_ordinal"
  proof -
    have "0 \<le> a" using that by (simp add: a_def n_def pos_imp_zdiv_nonneg_iff)
    then show ?thesis using year range by auto
  qed
  show "y \<le> 9999" if "d + epoch_ordinal \<le> days_before_year 10000"
  proof -
    have "days_before_year 10000 = 3652059" by code_simp
    then have le: "n \<le> 3652058" using that by (simp add: n_def)
    then have "a \<le> 24" using n range k unfolding day_count_def by linarith
    moreover have "\<not> (a = 24 \<and> b = 4)" "\<not> (a = 24 \<and> b = 3 \<and> c = 24 \<and> 3 \<le> e)"
      using le n range k unfolding day_count_def by auto
    moreover have "b = 4 \<longrightarrow> c = 0 \<and> e = 0" "e = 4 \<longrightarrow> c \<le> 23" using rq r q r4 k range by auto
    ultimately have "a * 400 + b * 100 + c * 4 + e - (if e = 4 \<or> b = 4 then 1 else 0) \<le> 9998"
      using range by (cases "a = 24"; cases "b = 4"; cases "e = 4"; cases "b = 3") auto
    then show ?thesis using year by simp
  qed
qed

subsection \<open>Printed fields\<close>

lemma show_nat_length: "0 \<le> n \<Longrightarrow> n < 10 ^ w \<Longrightarrow> 0 < w \<Longrightarrow> length (show_nat n) \<le> w"
proof (induction w arbitrary: n)
  case (Suc w)
  show ?case
  proof (cases "n < 10")
    case True
    then show ?thesis by (subst show_nat.simps) simp
  next
    case False
    then have "0 < w" using Suc.prems(2) by (cases w) simp_all
    moreover have "n div 10 < 10 ^ w" using Suc.prems(2) by (simp add: div_less_iff_less_mult)
    ultimately have "length (show_nat (n div 10)) \<le> w" using Suc.prems(1) by (intro Suc.IH) simp_all
    then show ?thesis using False by (subst show_nat.simps) simp
  qed
qed simp

lemma show_padded_props:
  assumes "0 \<le> n" and "n < 10 ^ w" and "0 < w"
  shows "length (show_padded w n) = w" "list_all is_digit (show_padded w n)" "digits (show_padded w n) = Some n"
proof -
  show l: "length (show_padded w n) = w"
    using show_nat_length [OF assms] by (simp add: show_padded_def length_pad_left)
  show d: "list_all is_digit (show_padded w n)"
    using show_nat_digits [OF assms(1)] by (auto simp: show_padded_def pad_left_def list_all_iff is_digit_def code_def)
  have "py_isdigit (show_padded w n)" using d l assms(3) by (auto simp: py_isdigit_def)
  then show "digits (show_padded w n) = Some n" using read_show_nat [OF assms(1)] by (simp add: digits_def show_padded_def)
qed

lemma two_digits:
  assumes "0 \<le> n" and "n < 100"
  obtains a b where "show_padded 2 n = [a, b]" "is_digit a" "is_digit b" "digits [a, b] = Some n"
proof -
  note p = show_padded_props [of n 2]
  have "length (show_padded 2 n) = 2" using p assms by simp
  then obtain a b where "show_padded 2 n = [a, b]" by (auto simp: length_Suc_conv numeral_2_eq_2)
  then show ?thesis using p assms that by simp
qed

lemma four_digits:
  assumes "0 \<le> n" and "n < 10000"
  obtains a b c d where "show_padded 4 n = [a, b, c, d]" "is_digit a" "is_digit b" "is_digit c" "is_digit d"
    "digits [a, b, c, d] = Some n"
proof -
  note p = show_padded_props [of n 4]
  have "length (show_padded 4 n) = 4" using p assms by simp
  then obtain a b c d where "show_padded 4 n = [a, b, c, d]" by (auto simp: length_Suc_conv eval_nat_numeral)
  then show ?thesis using p assms that by simp
qed

lemma digit_plain:
  "is_digit c \<Longrightarrow> c \<noteq> CHR ''-'' \<and> c \<noteq> CHR ''W'' \<and> c \<noteq> CHR '':'' \<and> c \<noteq> CHR ''+'' \<and> c \<noteq> CHR ''Z'' \<and> c \<noteq> CHR ''.''"
  by (auto simp: is_digit_def code_def)

text \<open>Dates \<open>datetime\<close> can hold.\<close>

definition valid_date :: "date \<Rightarrow> bool" where
  "valid_date d \<longleftrightarrow> 0 < d + epoch_ordinal \<and> d + epoch_ordinal \<le> days_before_year 10000"

lemma date_text_shape:
  assumes "valid_date d"
  obtains y1 y2 y3 y4 m1 m2 d1 d2 where
    "iso_date_text d = [y1, y2, y3, y4, CHR ''-'', m1, m2, CHR ''-'', d1, d2]"
    "list_all is_digit [y1, y2, y3, y4, m1, m2, d1, d2]" "iso_date (iso_date_text d) = Some d"
proof -
  obtain y m dd where f: "date_fields d = (y, m, dd)" by (rule prod_cases3)
  note c = date_fields_correct [OF f]
  have y: "1 \<le> y" "y \<le> 9999" using c(6,7) assms by (simp_all add: valid_date_def)
  have dim: "days_in_month y m \<le> 31" by (simp add: days_in_month_def)
  obtain y1 y2 y3 y4 where 4: "show_padded 4 y = [y1, y2, y3, y4]" "is_digit y1" "is_digit y2" "is_digit y3" "is_digit y4"
    "digits [y1, y2, y3, y4] = Some y" by (rule four_digits [of y]) (use y in simp_all)
  obtain m1 m2 where 2: "show_padded 2 m = [m1, m2]" "is_digit m1" "is_digit m2" "digits [m1, m2] = Some m"
    by (rule two_digits [of m]) (use c(1,2) in simp_all)
  obtain d1 d2 where 1: "show_padded 2 dd = [d1, d2]" "is_digit d1" "is_digit d2" "digits [d1, d2] = Some dd"
    by (rule two_digits [of dd]) (use c(3,4) dim in simp_all)
  have t: "iso_date_text d = [y1, y2, y3, y4, CHR ''-'', m1, m2, CHR ''-'', d1, d2]"
    by (simp add: iso_date_text_def f 4(1) 2(1) 1(1))
  have "date_from y m dd = Some d" using c y by (simp add: date_from_def)
  then have "iso_date (iso_date_text d) = Some d"
    unfolding t using 4 2 1 digit_plain [OF 2(2)] by (simp add: iso_date_def slice_def)
  then show ?thesis using that t 4 2 1 by simp
qed

subsection \<open>Printed times\<close>

definition clock_text :: "time \<Rightarrow> string" where
  "clock_text t = (let sec = clock_of t div us_second in
     show_padded 2 (sec div 3600) @ '':'' @ show_padded 2 (sec div 60 mod 60) @ '':'' @ show_padded 2 (sec mod 60))"

text \<open>The fractions that are printed: none, milliseconds or microseconds.\<close>

definition fraction_value :: "string \<Rightarrow> int \<Rightarrow> bool" where
  "fraction_value fr f \<longleftrightarrow> iso_fraction fr = Some f \<and> take 1 fr \<noteq> '':'' \<and>
     list_all (\<lambda>c. c = CHR ''.'' \<or> is_digit c) fr \<and> 0 \<le> f \<and> f < us_second"

lemma clock_of_seconds: "clock_of t = clock_of t div us_second * us_second + clock_of t mod us_second"
  by simp

lemma iso_time_offset:
  assumes "iso_tz_index s = Some k" and "iso_clock (take k s) = Some (h, m, sec, f)" and "h < 24" and "m < 60"
    and "sec < 60" and "iso_offset (s ! k) (drop (k + 1) s) = Some d" and "2 \<le> length s"
  shows "iso_time s = Some (clock_span (h, m, sec, f), Some d)"
  using assms by (simp add: iso_time_def)

lemma clock_span_seconds: "clock_span (s div 3600, s div 60 mod 60, s mod 60, f) = s * us_second + f"
proof -
  have "s div 3600 = s div 60 div 60" by (simp add: zdiv_zmult2_eq [symmetric])
  then have "s = s div 3600 * 3600 + s div 60 mod 60 * 60 + s mod 60"
    using mult_div_mod_eq [of 60 s] mult_div_mod_eq [of 60 "s div 60"] by linarith
  then show ?thesis by (simp add: clock_span_def)
qed

lemma iso_time_text:
  assumes "fraction_value fr f"
  shows "iso_time (clock_text t @ fr @ ''+00:00'') = Some (clock_of t div us_second * us_second + f, Some 0)"
proof -
  define s where "s = clock_of t div us_second"
  have s: "0 \<le> s" "s < 86400" using clock_range [of t] by (auto simp: s_def div_less_iff_less_mult pos_imp_zdiv_nonneg_iff)
  obtain h1 h2 where h: "show_padded 2 (s div 3600) = [h1, h2]" "is_digit h1" "is_digit h2" "digits [h1, h2] = Some (s div 3600)"
    by (rule two_digits [of "s div 3600"]) (use s in \<open>auto simp: div_less_iff_less_mult pos_imp_zdiv_nonneg_iff\<close>)
  have sm: "0 \<le> s div 60 mod 60" "s div 60 mod 60 < 60" "0 \<le> s mod 60" "s mod 60 < 60" by simp_all
  obtain m1 m2 where m: "show_padded 2 (s div 60 mod 60) = [m1, m2]" "is_digit m1" "is_digit m2" "digits [m1, m2] = Some (s div 60 mod 60)"
    by (rule two_digits [of "s div 60 mod 60"]) (use sm in linarith)+
  obtain c1 c2 where c: "show_padded 2 (s mod 60) = [c1, c2]" "is_digit c1" "is_digit c2" "digits [c1, c2] = Some (s mod 60)"
    by (rule two_digits [of "s mod 60"]) (use sm in linarith)+
  have t: "clock_text t = [h1, h2, CHR '':'', m1, m2, CHR '':'', c1, c2]"
    by (simp add: clock_text_def Let_def s_def [symmetric] h(1) m(1) c(1))
  note nd = digit_plain [OF h(2)] digit_plain [OF h(3)] digit_plain [OF m(2)] digit_plain [OF m(3)]
    digit_plain [OF c(2)] digit_plain [OF c(3)]
  have frd: "\<forall>x \<in> set fr. x \<noteq> CHR ''-'' \<and> x \<noteq> CHR ''+''"
    using assms digit_plain by (auto simp: fraction_value_def list_all_iff)
  have clock: "iso_clock (clock_text t @ fr) = Some (s div 3600, s div 60 mod 60, s mod 60, f)"
    using h m c nd assms by (simp add: t iso_clock_def eval_nat_numeral fraction_value_def Let_def)
  have zero: "iso_offset (CHR ''+'') ''00:00'' = Some 0" by code_simp
  have idx: "iso_tz_index (clock_text t @ fr @ ''+00:00'') = Some (8 + length fr)"
    using nd frd by (auto simp: t iso_tz_index_def takeWhile_append)
  have small: "s div 3600 < 24" using s by (simp add: div_less_iff_less_mult)
  have len: "length (clock_text t) = 8" by (simp add: t)
  let ?s = "clock_text t @ fr @ ''+00:00''"
  have parts: "take (8 + length fr) ?s = clock_text t @ fr" "?s ! (8 + length fr) = CHR ''+''"
    "drop (8 + length fr + 1) ?s = ''00:00''" "2 \<le> length ?s" by (simp_all add: len nth_append)
  show ?thesis
    unfolding s_def [symmetric] clock_span_seconds [of s f, symmetric]
    by (rule iso_time_offset [OF idx _ small sm(2,4) _ parts(4)]) (simp_all only: parts clock zero)
qed

text \<open>A date, a time and an offset of zero, read as one instant.\<close>

lemma from_isoformat_text:
  assumes "valid_date (date_of t)" and "fraction_value fr f"
  shows "from_isoformat (iso_date_text (date_of t) @ ''T'' @ clock_text t @ fr @ ''+00:00'') =
    Some (us_day * date_of t + clock_of t div us_second * us_second + f, Some 0)"
proof -
  obtain y1 y2 y3 y4 m1 m2 d1 d2 where d: "iso_date_text (date_of t) = [y1, y2, y3, y4, CHR ''-'', m1, m2, CHR ''-'', d1, d2]"
    "list_all is_digit [y1, y2, y3, y4, m1, m2, d1, d2]" "iso_date (iso_date_text (date_of t)) = Some (date_of t)"
    by (rule date_text_shape [OF assms(1)])
  have m1: "m1 \<noteq> CHR ''W''" using d(2) digit_plain by auto
  have date: "iso_date [y1, y2, y3, y4, CHR ''-'', m1, m2, CHR ''-'', d1, d2] = Some (date_of t)" using d(1,3) by simp
  have ne: "clock_text t @ fr @ ''+00:00'' \<noteq> []" by simp
  show ?thesis
    using date m1 iso_time_text [OF assms(2), of t]
    by (simp add: d(1) from_isoformat_def iso_separator_def algebra_simps)
qed

text \<open>\<open>datetime.isoformat()\<close> of an aware UTC time, and the two formats of the PSPs.\<close>

lemma isoformat_text:
  "isoformat t = (let us = clock_of t mod us_second in iso_date_text (date_of t) @ ''T'' @ clock_text t @
     (if us = 0 then '''' else ''.'' @ show_padded 6 us) @ ''+00:00'')"
  by (simp add: isoformat_def clock_text_def Let_def)

definition strftime_millis :: "time \<Rightarrow> string" where
  "strftime_millis t = iso_date_text (date_of t) @ ''T'' @ clock_text t @ ''.000Z''"

definition strftime_zulu :: "time \<Rightarrow> string" where
  "strftime_zulu t = iso_date_text (date_of t) @ ''T'' @ clock_text t @ ''Z''"

text \<open>The time cut to the second.\<close>

definition cut_to_second :: "time \<Rightarrow> time" where
  "cut_to_second t = us_day * date_of t + clock_of t div us_second * us_second"

lemma micros_fraction:
  assumes "0 \<le> u" and "u < us_second"
  shows "fraction_value (if u = 0 then '''' else ''.'' @ show_padded 6 u) u"
proof -
  note p = show_padded_props [of u 6]
  have l: "length (show_padded 6 u) = 6" "list_all is_digit (show_padded 6 u)" "digits (show_padded 6 u) = Some u"
    using p assms by simp_all
  then show ?thesis using assms by (auto simp: fraction_value_def iso_fraction_def list_all_iff)
qed

lemma isoformat_roundtrip:
  assumes "valid_date (date_of t)"
  shows "from_isoformat (isoformat t) = Some (t, Some 0)"
proof -
  have u: "0 \<le> clock_of t mod us_second" "clock_of t mod us_second < us_second" by simp_all
  have "us_day * date_of t + clock_of t div us_second * us_second + clock_of t mod us_second = t"
    using date_clock [of t] by simp
  then show ?thesis
    using from_isoformat_text [OF assms micros_fraction [OF u]] by (simp only: isoformat_text Let_def append_assoc)
qed

lemma clock_text_digits: "list_all (\<lambda>c. is_digit c \<or> c = CHR '':'') (clock_text t)"
proof -
  define s where "s = clock_of t div us_second"
  have s: "0 \<le> s" "s < 86400" using clock_range [of t] by (auto simp: s_def div_less_iff_less_mult pos_imp_zdiv_nonneg_iff)
  have "list_all is_digit (show_padded 2 n)" if "0 \<le> n" "n < 100" for n using show_padded_props(2) [of n 2] that by simp
  moreover have "0 \<le> s div 3600" "s div 3600 < 100" using s by (auto simp: div_less_iff_less_mult pos_imp_zdiv_nonneg_iff)
  moreover have "s div 60 mod 60 < 60" "s mod 60 < 60" by simp_all
  ultimately have "list_all is_digit (show_padded 2 (s div 3600))" "list_all is_digit (show_padded 2 (s div 60 mod 60))"
      "list_all is_digit (show_padded 2 (s mod 60))"
    by simp_all
  then show ?thesis by (auto simp: clock_text_def Let_def s_def [symmetric] list_all_iff)
qed

lemma replace_char_keep: "\<forall>x \<in> set s. x \<noteq> c \<Longrightarrow> replace_char c r s = s"
  unfolding replace_char_def by (induction s) simp_all

lemma replace_char_last: "\<forall>x \<in> set s. x \<noteq> c \<Longrightarrow> replace_char c r (s @ [c]) = s @ r"
  using replace_char_keep [of s c r] by (simp add: replace_char_def)

lemma replace_zulu:
  assumes "valid_date (date_of t)" and "\<forall>c \<in> set fr. c \<noteq> CHR ''Z''"
  shows "replace_char (CHR ''Z'') ''+00:00'' (iso_date_text (date_of t) @ ''T'' @ clock_text t @ fr @ ''Z'') =
    iso_date_text (date_of t) @ ''T'' @ clock_text t @ fr @ ''+00:00''"
proof -
  obtain y1 y2 y3 y4 m1 m2 d1 d2 where d: "iso_date_text (date_of t) = [y1, y2, y3, y4, CHR ''-'', m1, m2, CHR ''-'', d1, d2]"
    "list_all is_digit [y1, y2, y3, y4, m1, m2, d1, d2]" by (rule date_text_shape [OF assms(1)])
  have special: "x \<noteq> CHR ''Z''" if "is_digit x \<or> x = CHR '':'' \<or> x = CHR ''-''" for x
    using that digit_plain [of x] by auto
  have dt: "\<forall>x \<in> set (iso_date_text (date_of t)). x \<noteq> CHR ''Z''"
    using d(2) unfolding d(1) by (intro ballI special) auto
  have ct: "\<forall>x \<in> set (clock_text t). x \<noteq> CHR ''Z''"
    using clock_text_digits [of t] by (intro ballI special) (auto simp: list_all_iff)
  have nz: "\<forall>x \<in> set (iso_date_text (date_of t) @ ''T'' @ clock_text t @ fr). x \<noteq> CHR ''Z''"
    using dt ct assms(2) by (simp only: set_append ball_Un) simp
  show ?thesis using replace_char_last [OF nz, of "''+00:00''"] by (simp only: append_assoc)
qed

lemma date_text_no_zulu:
  assumes "valid_date d"
  shows "\<forall>x \<in> set (iso_date_text d). x \<noteq> CHR ''Z''"
proof -
  obtain y1 y2 y3 y4 m1 m2 d1 d2 where d: "iso_date_text d = [y1, y2, y3, y4, CHR ''-'', m1, m2, CHR ''-'', d1, d2]"
    "list_all is_digit [y1, y2, y3, y4, m1, m2, d1, d2]" by (rule date_text_shape [OF assms])
  have "x \<noteq> CHR ''Z''" if "is_digit x \<or> x = CHR ''-''" for x
    using that digit_plain [of x] by auto
  then show ?thesis using d(2) unfolding d(1) by (intro ballI) auto
qed

lemma isoformat_no_zulu:
  assumes "valid_date (date_of t)"
  shows "\<forall>x \<in> set (isoformat t). x \<noteq> CHR ''Z''"
proof -
  have special: "x \<noteq> CHR ''Z''" if "is_digit x \<or> x = CHR '':'' \<or> x = CHR ''.''" for x
    using that digit_plain [of x] by auto
  have ct: "\<forall>x \<in> set (clock_text t). x \<noteq> CHR ''Z''"
    using clock_text_digits [of t] by (intro ballI special) (auto simp: list_all_iff)
  have "list_all is_digit (show_padded 6 (clock_of t mod us_second))"
    by (rule show_padded_props(2)) (simp_all add: pos_mod_bound [of us_second, simplified])
  then have fr: "\<forall>x \<in> set (''.'' @ show_padded 6 (clock_of t mod us_second)). x \<noteq> CHR ''Z''"
    by (intro ballI special) (auto simp: list_all_iff)
  then show ?thesis using date_text_no_zulu [OF assms] ct
    unfolding isoformat_text Let_def by (simp only: set_append ball_Un) (auto split: if_splits)
qed

lemma zulu_roundtrip:
  assumes "valid_date (date_of t)"
  shows "from_isoformat (replace_char (CHR ''Z'') ''+00:00'' (strftime_zulu t)) = Some (cut_to_second t, Some 0)"
    "from_isoformat (replace_char (CHR ''Z'') ''+00:00'' (strftime_millis t)) = Some (cut_to_second t, Some 0)"
proof -
  have "fraction_value '''' 0" "fraction_value ''.000'' 0" by code_simp+
  note r = this [THEN from_isoformat_text [OF assms]]
  show "from_isoformat (replace_char (CHR ''Z'') ''+00:00'' (strftime_zulu t)) = Some (cut_to_second t, Some 0)"
    using r(1) replace_zulu [OF assms, of "''''"] by (simp add: strftime_zulu_def cut_to_second_def)
  show "from_isoformat (replace_char (CHR ''Z'') ''+00:00'' (strftime_millis t)) = Some (cut_to_second t, Some 0)"
    using r(2) replace_zulu [OF assms, of "''.000''"] by (simp add: strftime_millis_def cut_to_second_def)
qed


lemma zdiv_less_iff:
  assumes "0 < (q :: int)"
  shows "m div q < n \<longleftrightarrow> m < n * q"
proof
  assume "m div q < n"
  then have "(m div q + 1) * q \<le> n * q" using assms by (intro mult_right_mono) auto
  then have "m div q * q + q \<le> n * q" by (simp add: distrib_right)
  then show "m < n * q" using div_mult_mod_eq [of m q] pos_mod_bound [OF assms, of m] by linarith
next
  assume m: "m < n * q"
  show "m div q < n"
  proof (rule ccontr)
    assume "\<not> m div q < n"
    then have "n * q \<le> m div q * q" using assms by (intro mult_right_mono) auto
    then show False using m div_mult_mod_eq [of m q] pos_mod_sign [OF assms, of m] by linarith
  qed
qed

lemma valid_date_range: "valid_date (date_of t) \<longleftrightarrow> min_time \<le> t \<and> t \<le> max_time"
proof -
  have y: "days_before_year 10000 = 3652059" "days_before_year 1 = 0" by code_simp+
  have "t div us_day < - 719162 \<longleftrightarrow> t < - 719162 * us_day" by (rule zdiv_less_iff) simp
  moreover have "t div us_day < 2932897 \<longleftrightarrow> t < 2932897 * us_day" by (rule zdiv_less_iff) simp
  ultimately show ?thesis
    unfolding valid_date_def min_time_def max_time_def epoch_ordinal_def date_of_def y by auto
qed

lemma parse_timestamp_at:
  assumes "min_time \<le> t" and "t \<le> max_time" and "s \<noteq> []"
    and "from_isoformat (replace_char (CHR ''Z'') ''+00:00'' s) = Some (t, Some 0)"
  shows "parse_timestamp (JStr s) = Inr t"
  using assms by (simp add: parse_timestamp_def)

lemma cut_to_second_date: "date_of (cut_to_second t) = date_of t"
proof -
  have c: "0 \<le> clock_of t" "clock_of t < us_day" using clock_range [of t] by simp_all
  have "clock_of t div us_second * us_second \<le> clock_of t"
    using mult_div_mod_eq [of us_second "clock_of t"] pos_mod_sign [of us_second "clock_of t"] by linarith
  then have "clock_of t div us_second * us_second < us_day" using c by linarith
  moreover have "0 \<le> clock_of t div us_second * us_second" using c by (simp add: pos_imp_zdiv_nonneg_iff)
  ultimately show ?thesis by (simp add: cut_to_second_def date_of_def)
qed

text \<open>
  Timestamps keep their instant: what the code prints with isoformat() is read back by
  parse_timestamp as the same instant, for every UTC time a datetime can hold, and the texts of
  the two PSPs, ending in .000Z and in Z, are read as the instant cut to the second.
\<close>

theorem timestamp_roundtrip:
  assumes "min_time \<le> t" and "t \<le> max_time"
  shows "parse_timestamp (JStr (isoformat t)) = Inr t \<and>
    parse_timestamp (JStr (strftime_millis t)) = Inr (cut_to_second t) \<and>
    parse_timestamp (JStr (strftime_zulu t)) = Inr (cut_to_second t) \<and>
    cut_to_second t \<le> t \<and> t < cut_to_second t + us_second"
proof -
  have v: "valid_date (date_of t)" using assms valid_date_range by simp
  then have r: "min_time \<le> cut_to_second t" "cut_to_second t \<le> max_time"
    using valid_date_range [of "cut_to_second t"] cut_to_second_date by simp_all
  have "\<forall>x \<in> set (isoformat t). x \<noteq> CHR ''Z''" by (rule isoformat_no_zulu [OF v])
  then have iso: "from_isoformat (replace_char (CHR ''Z'') ''+00:00'' (isoformat t)) = Some (t, Some 0)"
    using isoformat_roundtrip [OF v] by (simp only: replace_char_keep)
  have ne: "isoformat t \<noteq> []" "strftime_millis t \<noteq> []" "strftime_zulu t \<noteq> []"
    by (simp_all add: isoformat_text strftime_millis_def strftime_zulu_def Let_def)
  have "t = cut_to_second t + clock_of t mod us_second" "0 \<le> clock_of t mod us_second" "clock_of t mod us_second < us_second"
    using date_clock [of t] clock_of_seconds [of t] by (simp_all add: cut_to_second_def del: mod_div_decomp)
  then have "cut_to_second t \<le> t \<and> t < cut_to_second t + us_second" by linarith
  then show ?thesis
    using parse_timestamp_at [OF assms ne(1) iso] parse_timestamp_at [OF r ne(2) zulu_roundtrip(2) [OF v]]
      parse_timestamp_at [OF r ne(3) zulu_roundtrip(1) [OF v]] by simp
qed

theorem timestamp_roundtrip_witness:
  "parse_timestamp (JStr (isoformat 1709210096000120)) = Inr 1709210096000120 \<and>
   isoformat 1709210096000120 = ''2024-02-29T12:34:56.000120+00:00'' \<and>
   parse_timestamp (JStr (strftime_zulu 1709210096000120)) = Inr 1709210096000000 \<and>
   strftime_zulu 1709210096000120 = ''2024-02-29T12:34:56Z''"
proof -
  have r: "min_time \<le> (1709210096000120 :: int)" "(1709210096000120 :: int) \<le> max_time" by code_simp+
  have "cut_to_second 1709210096000120 = 1709210096000000" "strftime_zulu 1709210096000120 = ''2024-02-29T12:34:56Z''"
    by code_simp+
  then show ?thesis using timestamp_roundtrip [OF r] isoformat_examples(2) by simp
qed

end
