(* ===== verification/Monitoring.thy ===== *)
theory Monitoring
  imports Api_Read Fx Access
begin

text \<open>
  \<open>src/observability/metrics.py\<close>, \<open>refresh_state_gauges\<close>, and the system endpoints and handlers of
  \<open>src/api/main.py\<close>: \<open>/health\<close>, \<open>/health/ready\<close>, \<open>/metrics\<close>, the latency middleware and the handler of
  unhandled exceptions. A gauge is the map from its labels to its value. The dependencies a readiness
  probe asks are parameters, with the class name and message of what they raise.
\<close>

subsection \<open>The gauges\<close>

record gauges =
  ga_open :: "string \<times> severity \<rightharpoonup> nat"
  ga_exposure :: "string \<rightharpoonup> rat"
  ga_rate :: "string \<rightharpoonup> rat"
  ga_fx_age :: "string \<rightharpoonup> rat"
  ga_refreshed :: rat

definition initial_gauges :: gauges where
  "initial_gauges = \<lparr>ga_open = Map.empty, ga_exposure = Map.empty, ga_rate = Map.empty, ga_fx_age = Map.empty,
     ga_refreshed = 0\<rparr>"

definition STATE_TTL_SECONDS :: rat where
  "STATE_TTL_SECONDS = 15"

text \<open>The three queries.\<close>

definition open_rows :: "gold \<Rightarrow> ((string \<times> severity) \<times> nat \<times> rat) list" where
  "open_rows g = map (\<lambda>(k, ds). (k, length ds, exposure_of ds))
     (group_by (\<lambda>d. (the (psp_of g d), d_severity d)) (open_joined g))"

definition last_week :: "time \<Rightarrow> gold \<Rightarrow> canonical list" where
  "last_week now g = filter (\<lambda>s. counted_type s \<and> now - 7 * us_day \<le> initiated_at s) (g_silver g)"

definition rate_rows :: "time \<Rightarrow> gold \<Rightarrow> (string \<times> nat \<times> nat) list" where
  "rate_rows now g = map (\<lambda>(p, ss). (p, length ss, length (filter (\<lambda>s. is_matched g (tx_id s)) ss)))
     (group_by psp_name (last_week now g))"

definition fx_rows :: "time \<Rightarrow> fx_table \<Rightarrow> (string \<times> rat) list" where
  "fx_rows now t = map (\<lambda>r. (fx_pair r, of_int (now - captured_at r) / 10 ^ 6)) (filter (\<lambda>r. valid_until r = None) t)"

text \<open>The rows into the gauges; \<open>exposure_by_psp\<close> is a sum of Decimals, the gauge a float.\<close>

definition set_open :: "((string \<times> severity) \<times> nat \<times> rat) list \<Rightarrow> string \<times> severity \<rightharpoonup> nat" where
  "set_open rows = fold (\<lambda>(k, n, x) m. m(k \<mapsto> n)) rows Map.empty"

definition add_exposure :: "(string \<times> severity) \<times> nat \<times> rat \<Rightarrow> (string \<rightharpoonup> rat) \<Rightarrow> string \<rightharpoonup> rat" where
  "add_exposure r m = (case r of ((p, sev), n, x) \<Rightarrow> m(p \<mapsto> dec ((case m p of None \<Rightarrow> 0 | Some y \<Rightarrow> y) + x)))"

definition exposure_by_psp :: "((string \<times> severity) \<times> nat \<times> rat) list \<Rightarrow> string \<rightharpoonup> rat" where
  "exposure_by_psp rows = fold add_exposure rows Map.empty"

definition rate_value :: "nat \<Rightarrow> nat \<Rightarrow> rat" where
  "rate_value n matched = (if n \<noteq> 0 then fl (fl (100 * of_nat matched) / of_nat n) else 0)"

definition set_rates :: "(string \<times> nat \<times> nat) list \<Rightarrow> string \<rightharpoonup> rat" where
  "set_rates rows = fold (\<lambda>(p, n, matched) m. m(p \<mapsto> rate_value n matched)) rows Map.empty"

definition set_fx_ages :: "(string \<times> rat) list \<Rightarrow> string \<rightharpoonup> rat" where
  "set_fx_ages rows = fold (\<lambda>(p, age) m. m(p \<mapsto> fl age)) rows Map.empty"

text \<open>
  One refresh: \<open>tick\<close> and \<open>tick'\<close> are the monotonic clock before the queries and after them, \<open>failure\<close> what
  the session raised. The gauges are touched only after all three queries.
\<close>

definition refresh_state_gauges ::
  "rat \<Rightarrow> rat \<Rightarrow> time \<Rightarrow> exc option \<Rightarrow> gold \<Rightarrow> fx_table \<Rightarrow> gauges \<Rightarrow> (exc + unit) \<times> gauges" where
  "refresh_state_gauges tick tick' now failure g t ga = (
     if fl (tick - ga_refreshed ga) < STATE_TTL_SECONDS then (Inr (), ga)
     else case failure of Some e \<Rightarrow> (Inl e, ga)
     | None \<Rightarrow> (Inr (), \<lparr>ga_open = set_open (open_rows g), ga_exposure = map_option fl \<circ> exposure_by_psp (open_rows g),
         ga_rate = set_rates (rate_rows now g), ga_fx_age = set_fx_ages (fx_rows now t), ga_refreshed = tick'\<rparr>))"

text \<open>\<open>/metrics\<close>: a failing refresh is logged only.\<close>

definition metrics_endpoint ::
  "rat \<Rightarrow> rat \<Rightarrow> time \<Rightarrow> exc option \<Rightarrow> gold \<Rightarrow> fx_table \<Rightarrow> gauges \<Rightarrow> nat \<times> gauges" where
  "metrics_endpoint tick tick' now failure g t ga = (200, snd (refresh_state_gauges tick tick' now failure g t ga))"

subsection \<open>Readiness\<close>

datatype check_outcome = Answered "(string \<times> json) list" | Raised string string | TimedOut

definition check_postgres :: "(string \<times> string) + unit \<Rightarrow> check_outcome" where
  "check_postgres select = (case select of Inl e \<Rightarrow> Raised (fst e) (snd e) | Inr u \<Rightarrow> Answered [])"

definition check_redpanda :: "(string \<times> string) + nat \<Rightarrow> check_outcome" where
  "check_redpanda topics = (case topics of Inl e \<Rightarrow> Raised (fst e) (snd e)
     | Inr n \<Rightarrow> Answered [(''topics'', JInt (int n))])"

definition check_minio :: "(string \<times> string) + bool \<Rightarrow> check_outcome" where
  "check_minio bucket_exists = (case bucket_exists of Inl e \<Rightarrow> Raised (fst e) (snd e)
     | Inr b \<Rightarrow> if b then Answered [] else Raised ''RuntimeError'' ''bronze bucket missing'')"

text \<open>\<open>round((now - start) * 1000, 1)\<close> in milliseconds.\<close>

definition latency_ms :: "rat \<Rightarrow> rat \<Rightarrow> rat" where
  "latency_ms start now = fl (quant 1 (fl (fl (now - start) * 1000)))"

definition timed :: "string \<Rightarrow> rat \<times> rat \<Rightarrow> check_outcome \<Rightarrow> string \<times> (string \<times> json) list" where
  "timed name clock result = (name, case result of
       Answered extra \<Rightarrow> [(''status'', JStr ''healthy''), (''latency_ms'', JFloat (latency_ms (fst clock) (snd clock)))] @ extra
     | Raised cls message \<Rightarrow> [(''status'', JStr ''unhealthy''), (''error'', JStr cls)]
     | TimedOut \<Rightarrow> [(''status'', JStr ''unhealthy''), (''error'', JStr ''TimeoutError'')])"

text \<open>
  What the three dependencies do while they are asked, with the clock before and after: nothing within
  five seconds (\<open>None\<close>), or an exception, given by its class name and message, or an answer.
\<close>

definition wait_for :: "('a \<Rightarrow> check_outcome) \<Rightarrow> 'a option \<Rightarrow> check_outcome" where
  "wait_for check reply = (case reply of None \<Rightarrow> TimedOut | Some r \<Rightarrow> check r)"

record probe =
  pr_postgres :: "(rat \<times> rat) \<times> ((string \<times> string) + unit) option"
  pr_redpanda :: "(rat \<times> rat) \<times> ((string \<times> string) + nat) option"
  pr_minio :: "(rat \<times> rat) \<times> ((string \<times> string) + bool) option"

definition is_healthy :: "(string \<times> json) list \<Rightarrow> bool" where
  "is_healthy c \<longleftrightarrow> dict_get c ''status'' = JStr ''healthy''"

definition health :: "string \<Rightarrow> nat \<times> json" where
  "health version = (200, JObj [(''status'', JStr ''healthy''), (''version'', JStr version)])"

definition health_ready :: "string \<Rightarrow> probe \<Rightarrow> nat \<times> json" where
  "health_ready version p = (
     let checks = [timed ''postgres'' (fst (pr_postgres p)) (wait_for check_postgres (snd (pr_postgres p))),
           timed ''redpanda'' (fst (pr_redpanda p)) (wait_for check_redpanda (snd (pr_redpanda p))),
           timed ''minio'' (fst (pr_minio p)) (wait_for check_minio (snd (pr_minio p)))];
         healthy = list_all (\<lambda>c. is_healthy (snd c)) checks
     in (if healthy then 200 else 503,
         JObj [(''status'', JStr (if healthy then ''healthy'' else ''degraded'')), (''version'', JStr version),
           (''checks'', JObj (map (\<lambda>(n, c). (n, JObj c)) checks))]))"

subsection \<open>The stack of \<open>create_app\<close>\<close>

text \<open>
  The latency of an answered request is observed under its method, the template of its route and its
  status class; an exception passes the middleware unobserved. The CORS middleware is a
  parameter around it. The framework runs the handler for \<open>Exception\<close> outside every middleware,
  CORS included, as its documentation says.
\<close>

record observation =
  ob_method :: string
  ob_route :: string
  ob_class :: string
  ob_seconds :: rat

type_synonym 'w app = "request \<Rightarrow> 'w server \<times> observation list \<Rightarrow> (exc + response) \<times> 'w server \<times> observation list"

definition status_class :: "nat \<Rightarrow> string" where
  "status_class c = show_nat (int (c div 100)) @ ''xx''"

definition record_request_metrics :: "string \<Rightarrow> rat \<times> rat \<Rightarrow> 'w next_call \<Rightarrow> 'w app" where
  "record_request_metrics route_path clock call_next req w = (case call_next req (fst w) of
       (Inl e, sv) \<Rightarrow> (Inl e, sv, snd w)
     | (Inr r, sv) \<Rightarrow> (Inr r, sv, snd w @ [\<lparr>ob_method = rq_method req, ob_route = route_path,
         ob_class = status_class (status_code r), ob_seconds = fl (snd clock - fst clock)\<rparr>]))"

definition global_exception_handler :: "exc \<Rightarrow> response" where
  "global_exception_handler e = json_response 500 ''internal_server_error''"

definition create_app ::
  "settings \<Rightarrow> (string \<Rightarrow> string) \<Rightarrow> routing \<Rightarrow> response \<Rightarrow> access_env \<Rightarrow> ('w app \<Rightarrow> 'w app) \<Rightarrow> string \<Rightarrow> rat \<times> rat \<Rightarrow>
   'w handler \<Rightarrow> request \<Rightarrow> 'w server \<times> observation list \<Rightarrow> response \<times> 'w server \<times> observation list" where
  "create_app s sha256hex routing no_route env cors route_path clock handler req w = (
     case cors (record_request_metrics route_path clock (serve s sha256hex routing no_route env handler)) req w of
       (Inl e, w') \<Rightarrow> (global_exception_handler e, w')
     | (Inr r, w') \<Rightarrow> (r, w'))"

subsection \<open>Rows and gauges\<close>

lemma fold_update:
  "distinct (map K xs) \<Longrightarrow> fold (\<lambda>r m. m(K r \<mapsto> V r)) xs m k = (case List.find (\<lambda>r. K r = k) xs of None \<Rightarrow> m k | Some r \<Rightarrow> Some (V r))"
proof (induction xs arbitrary: m)
  case (Cons x xs)
  have "List.find (\<lambda>r. K r = k) xs = None" if "K x = k" using Cons.prems that by (auto simp: find_None_iff image_iff)
  then show ?case using Cons by (auto split: option.splits)
qed simp

lemma find_group: "List.find (\<lambda>p. fst p = k) (group_by f xs) = (if k \<in> f ` set xs then Some (k, filter (\<lambda>x. f x = k) xs) else None)"
proof -
  have "List.find (\<lambda>p. fst p = k) (map (\<lambda>k. (k, F k)) ks) = (if k \<in> set ks then Some (k, F k) else None)" for ks and F :: "'a \<Rightarrow> 'b list"
    by (induction ks) auto
  then show ?thesis by (simp add: group_by_def)
qed

lemma distinct_groups: "distinct (map fst (group_by f xs))"
  by (simp add: group_by_def comp_def)

definition some_count :: "'a list \<Rightarrow> nat option" where
  "some_count xs = (if xs = [] then None else Some (length xs))"

lemma set_open_lookup:
  "set_open (open_rows g) k = some_count (filter (\<lambda>d. (the (psp_of g d), d_severity d) = k) (open_joined g))"
proof -
  let ?f = "\<lambda>d. (the (psp_of g d), d_severity d)"
  have "set_open (open_rows g) = fold (\<lambda>p m. m(fst p \<mapsto> length (snd p))) (group_by ?f (open_joined g)) Map.empty"
    by (simp add: set_open_def open_rows_def fold_map comp_def split_def)
  then show ?thesis
    by (auto simp: fold_update [OF distinct_groups] find_group some_count_def filter_empty_conv)
qed

lemma set_rates_lookup:
  "set_rates (rate_rows now g) p = (let ss = filter (\<lambda>s. psp_name s = p) (last_week now g) in
     if ss = [] then None else Some (rate_value (length ss) (length (filter (\<lambda>s. is_matched g (tx_id s)) ss))))"
proof -
  have "set_rates (rate_rows now g) = fold (\<lambda>q m. m(fst q \<mapsto> rate_value (length (snd q))
      (length (filter (\<lambda>s. is_matched g (tx_id s)) (snd q))))) (group_by psp_name (last_week now g)) Map.empty"
    by (simp add: set_rates_def rate_rows_def fold_map comp_def split_def)
  then show ?thesis
    by (auto simp: fold_update [OF distinct_groups] find_group Let_def filter_empty_conv)
qed

text \<open>The Decimal sums of the exposures are exact.\<close>

definition opt_value :: "rat option \<Rightarrow> rat" where
  "opt_value v = (case v of None \<Rightarrow> 0 | Some y \<Rightarrow> y)"

lemma fold_add_exposure:
  assumes "\<forall>r\<in>set rows. micro (snd (snd r)) \<and> 0 \<le> snd (snd r)" and "micro (opt_value (m p))" and "0 \<le> opt_value (m p)"
    and "opt_value (m p) + sum_list (map (snd \<circ> snd) (filter (\<lambda>r. fst (fst r) = p) rows)) \<le> 10 ^ 22"
  shows "fold add_exposure rows m p = (if p \<in> (fst \<circ> fst) ` set rows
    then Some (opt_value (m p) + sum_list (map (snd \<circ> snd) (filter (\<lambda>r. fst (fst r) = p) rows))) else m p)"
  using assms
proof (induction rows arbitrary: m)
  case (Cons r rows)
  obtain q sev n x where r: "r = ((q, sev), n, x)" by (metis prod.exhaust)
  have x: "micro x" "0 \<le> x" using Cons.prems(1) r by auto
  define rest where "rest = sum_list (map (snd \<circ> snd) (filter (\<lambda>r. fst (fst r) = p) rows))"
  have s: "0 \<le> rest" using Cons.prems(1) unfolding rest_def by (intro sum_list_nonneg) auto
  show ?case
  proof (cases "q = p")
    case True
    let ?v = "opt_value (m p) + x"
    have le: "?v + rest \<le> 10 ^ 22" using Cons.prems(4) by (simp add: r True rest_def comp_def add.assoc)
    have v: "micro ?v" "0 \<le> ?v" using Cons.prems(2,3) x by (simp_all add: micro_add)
    have "dec ?v = ?v" by (rule dec_micro) (use v le s in auto)
    then have m: "add_exposure r m = m(p \<mapsto> ?v)" by (simp add: add_exposure_def r True opt_value_def)
    have o: "opt_value ((m(p \<mapsto> ?v)) p) = ?v" by (simp add: opt_value_def)
    have "fold add_exposure rows (m(p \<mapsto> ?v)) p = (if p \<in> (fst \<circ> fst) ` set rows then Some (?v + rest) else Some ?v)"
    proof -
      have "\<forall>r\<in>set rows. micro (snd (snd r)) \<and> 0 \<le> snd (snd r)" using Cons.prems(1) by simp
      note ih = Cons.IH [of "m(p \<mapsto> ?v)", unfolded o, OF this v(1) v(2), folded rest_def, OF le]
      show ?thesis unfolding ih by simp
    qed
    moreover have "rest = 0" if "p \<notin> (fst \<circ> fst) ` set rows"
    proof -
      have "filter (\<lambda>r. fst (fst r) = p) rows = []" using that by (auto simp: filter_empty_conv)
      then show ?thesis by (simp add: rest_def)
    qed
    ultimately have "fold add_exposure rows (m(p \<mapsto> ?v)) p = Some (?v + rest)" by auto
    then have "fold add_exposure (r # rows) m p = Some (?v + rest)" using m by simp
    moreover have "p \<in> (fst \<circ> fst) ` set (r # rows)"
      "opt_value (m p) + sum_list (map (snd \<circ> snd) (filter (\<lambda>r. fst (fst r) = p) (r # rows))) = ?v + rest"
      by (simp_all add: r True rest_def comp_def add.assoc)
    ultimately show ?thesis by (simp only: if_True)
  next
    case False
    have eq: "add_exposure r m p = m p" using False by (simp add: add_exposure_def r)
    have f: "filter (\<lambda>r. fst (fst r) = p) (r # rows) = filter (\<lambda>r. fst (fst r) = p) rows"
      "p \<in> (fst \<circ> fst) ` set (r # rows) \<longleftrightarrow> p \<in> (fst \<circ> fst) ` set rows" using False by (simp_all add: r)
    have "\<forall>r\<in>set rows. micro (snd (snd r)) \<and> 0 \<le> snd (snd r)" using Cons.prems(1) by simp
    note ih = Cons.IH [of "add_exposure r m", unfolded eq, OF this Cons.prems(2,3) Cons.prems(4) [unfolded f]]
    show ?thesis unfolding f fold_simps ih ..
  qed
qed simp

lemma exposure_rows:
  assumes "exposures_ok g"
  shows "sum_list (map (snd \<circ> snd) (filter (\<lambda>r. fst (fst r) = p) (open_rows g))) = exposure_of (open_of_psp g p)"
proof -
  let ?f = "\<lambda>d. (the (psp_of g d), d_severity d)" and ?e = "\<lambda>d. if the (psp_of g d) = p then d_exposure d else 0"
  have each: "(if fst (fst q) = p then exposure_of (snd q) else 0) = sum_list (map ?e (snd q))"
    if "q \<in> set (group_by ?f (open_joined g))" for q
  proof -
    have "\<forall>d\<in>set (snd q). the (psp_of g d) = fst (fst q)" using that by (auto simp: group_by_def)
    then have "map ?e (snd q) = map (\<lambda>d. if fst (fst q) = p then d_exposure d else 0) (snd q)" by (intro map_cong) auto
    then have "sum_list (map ?e (snd q)) = sum_list (map (\<lambda>d. if fst (fst q) = p then d_exposure d else 0) (snd q))"
      by (rule arg_cong)
    also have "\<dots> = (if fst (fst q) = p then exposure_of (snd q) else 0)" by (simp add: exposure_of_def)
    finally show ?thesis ..
  qed
  have "sum_list (map (snd \<circ> snd) (filter (\<lambda>r. fst (fst r) = p) (open_rows g))) =
      sum_list (map (\<lambda>q. if fst (fst q) = p then exposure_of (snd q) else 0) (group_by ?f (open_joined g)))"
    unfolding open_rows_def by (simp add: filter_map comp_def split_def sum_list_map_filter')
  also have "\<dots> = sum_list (map (\<lambda>q. sum_list (map ?e (snd q))) (group_by ?f (open_joined g)))"
    using each by (intro arg_cong [of _ _ sum_list] map_cong) auto
  also have "\<dots> = sum_list (map ?e (open_joined g))" by (rule sum_group_by)
  also have "\<dots> = exposure_of (open_of_psp g p)"
  proof -
    have "psp_of g d = Some p \<longleftrightarrow> the (psp_of g d) = p" if "d \<in> set (g_discs g)" for d
      using assms that by (auto simp: exposures_ok_def psp_of_def)
    then show ?thesis
      unfolding exposure_of_def open_of_psp_def open_joined_eq [OF assms]
      by (simp add: sum_list_map_filter' [symmetric] conj_commute cong: filter_cong)
  qed
  finally show ?thesis .
qed

lemma sum_list_filter_mono:
  "\<forall>x\<in>set xs. 0 \<le> f x \<Longrightarrow> sum_list (map f (filter P xs)) \<le> sum_list (map (f :: 'a \<Rightarrow> rat) xs)"
  by (induction xs) auto

lemma exposure_lookup:
  assumes "exposures_ok g"
  shows "exposure_by_psp (open_rows g) p = (if open_of_psp g p = [] then None else Some (exposure_of (open_of_psp g p)))"
proof -
  have all: "\<forall>d\<in>set (open_joined g). micro (d_exposure d) \<and> 0 \<le> d_exposure d"
    using assms by (auto simp: open_joined_def exposures_ok_def)
  have rows: "\<forall>r\<in>set (open_rows g). micro (snd (snd r)) \<and> 0 \<le> snd (snd r)"
    using all by (auto simp: open_rows_def group_by_def exposure_of_def intro!: micro_sum sum_list_nonneg)
  have psp: "psp_of g d = Some p \<longleftrightarrow> the (psp_of g d) = p" if "d \<in> set (g_discs g)" for d
    using assms that by (auto simp: exposures_ok_def psp_of_def)
  have of: "open_of_psp g p = filter (\<lambda>d. the (psp_of g d) = p) (open_joined g)"
    unfolding open_of_psp_def open_joined_eq [OF assms] using psp by (auto intro: filter_cong)
  have le: "exposure_of (open_of_psp g p) \<le> 10 ^ 22"
  proof -
    have "exposure_of (open_of_psp g p) \<le> exposure_of (open_joined g)"
      unfolding of exposure_of_def using all
      by (intro sum_list_filter_mono) auto
    then show ?thesis using exposure_bounds [OF assms] by simp
  qed
  have mem: "p \<in> (fst \<circ> fst) ` set (open_rows g) \<longleftrightarrow> open_of_psp g p \<noteq> []"
    unfolding of by (force simp: open_rows_def group_by_def filter_empty_conv)
  show ?thesis
    unfolding exposure_by_psp_def
    by (subst fold_add_exposure [OF rows]) (use le mem in \<open>simp_all add: opt_value_def exposure_rows [OF assms, unfolded comp_def] comp_def\<close>)
qed

lemma open_lookup:
  assumes "exposures_ok g"
  shows "set_open (open_rows g) (p, sev) = some_count (filter (\<lambda>d. d_severity d = sev) (open_of_psp g p))"
proof -
  have psp: "psp_of g d = Some p \<longleftrightarrow> the (psp_of g d) = p" if "d \<in> set (g_discs g)" for d
    using assms that by (auto simp: exposures_ok_def psp_of_def)
  have "filter (\<lambda>d. (the (psp_of g d), d_severity d) = (p, sev)) (open_joined g) =
      filter (\<lambda>d. d_severity d = sev) (open_of_psp g p)"
    unfolding open_of_psp_def open_joined_eq [OF assms] filter_filter using psp by (auto intro: filter_cong)
  then show ?thesis by (simp only: set_open_lookup)
qed

lemma psp_health_line:
  assumes "get_psp_health now db = Inr lines" and "l \<in> set lines" and "ad_gold db = g"
  shows "hl_open l = length (open_of_psp g (hl_psp l))"
    "Render.money (exposure_of (open_of_psp g (hl_psp l))) = Inr (hl_exposure l)"
    "hl_rate_7d l = (let ss = filter (\<lambda>s. psp_name s = hl_psp l) (last_week now g) in
       match_rate (length (filter (\<lambda>s. is_matched g (tx_id s)) ss)) (length ss))"
proof -
  obtain p where p: "psp_line_of now db p = Inr l"
    using assms(1,2) by (auto simp: get_psp_health_def sbind_Inr_iff)
  have ss: "filter (\<lambda>s. counted_type s \<and> psp_name s = p \<and> now - 7 * us_day \<le> initiated_at s) (g_silver g) =
      filter (\<lambda>s. psp_name s = p) (last_week now g)"
    unfolding last_week_def filter_filter by (auto intro: filter_cong)
  show "hl_open l = length (open_of_psp g (hl_psp l))"
    "Render.money (exposure_of (open_of_psp g (hl_psp l))) = Inr (hl_exposure l)"
    "hl_rate_7d l = (let ss = filter (\<lambda>s. psp_name s = hl_psp l) (last_week now g) in
       match_rate (length (filter (\<lambda>s. is_matched g (tx_id s)) ss)) (length ss))"
    using p unfolding psp_line_of_def assms(3) Let_def ss by (auto simp: sbind_Inr_iff)
qed

definition opt_count :: "nat option \<Rightarrow> nat" where
  "opt_count v = (case v of None \<Rightarrow> 0 | Some n \<Rightarrow> n)"

lemma opt_count_some [simp]: "opt_count (some_count xs) = length xs"
  by (simp add: opt_count_def some_count_def)

lemma severity_split:
  "length (filter (\<lambda>d. d_severity d = LOW) ds) + (length (filter (\<lambda>d. d_severity d = MEDIUM) ds) +
     (length (filter (\<lambda>d. d_severity d = HIGH) ds) + length (filter (\<lambda>d. d_severity d = CRITICAL) ds))) = length ds"
proof (induction ds)
  case (Cons d ds)
  then show ?case by (cases "d_severity d") simp_all
qed simp

subsection \<open>Properties\<close>


text \<open>The probe with every exception message blanked.\<close>

definition blank :: "((string \<times> string) + 'a) option \<Rightarrow> ((string \<times> string) + 'a) option" where
  "blank r = map_option (map_sum (\<lambda>e. (fst e, [])) id) r"

definition blank_messages :: "probe \<Rightarrow> probe" where
  "blank_messages p = \<lparr>pr_postgres = apsnd blank (pr_postgres p), pr_redpanda = apsnd blank (pr_redpanda p),
     pr_minio = apsnd blank (pr_minio p)\<rparr>"

lemma timed_blank:
  "timed n c (wait_for check_postgres (blank a)) = timed n c (wait_for check_postgres a)"
  "timed n c (wait_for check_redpanda (blank b)) = timed n c (wait_for check_redpanda b)"
  "timed n c (wait_for check_minio (blank d)) = timed n c (wait_for check_minio d)"
  by (auto simp: timed_def wait_for_def blank_def check_postgres_def check_redpanda_def check_minio_def
    split: option.splits sum.splits)

lemma healthy_checks:
  "is_healthy (snd (timed n c (wait_for check_postgres a))) \<longleftrightarrow> a = Some (Inr ())"
  "is_healthy (snd (timed n c (wait_for check_redpanda b))) \<longleftrightarrow> (\<exists>k. b = Some (Inr k))"
  "is_healthy (snd (timed n c (wait_for check_minio d))) \<longleftrightarrow> d = Some (Inr True)"
  by (auto simp: timed_def wait_for_def check_postgres_def check_redpanda_def check_minio_def is_healthy_def dict_get_def
    split: option.splits sum.splits)

text \<open>
  The readiness probe answers 200 exactly when the database answers, the broker lists its
  topics and the Bronze bucket exists, each within its five seconds, and 503 otherwise; the
  unauthenticated answer never depends on the message of an exception.
\<close>

theorem readiness_contract:
  "fst (health_ready version p) = (if snd (pr_postgres p) = Some (Inr ()) \<and>
     (\<exists>topics. snd (pr_redpanda p) = Some (Inr topics)) \<and> snd (pr_minio p) = Some (Inr True) then 200 else 503) \<and>
   health_ready version (blank_messages p) = health_ready version p"
  by (simp add: health_ready_def blank_messages_def Let_def timed_blank healthy_checks)

text \<open>
  An exception no handler catches is answered by the same 500 for every exception, the
  server is left as the stack left it, and neither the CORS middleware nor the latency
  histogram sees the answer: no observation is recorded for it.
\<close>

theorem unhandled_exception_unobserved:
  assumes "serve s sha256hex routing no_route env handler req (fst w) = (Inl e, sv')"
    and "\<And>app w e w'. app req w = (Inl e, w') \<Longrightarrow> cors app req w = (Inl e, w')"
  shows "create_app s sha256hex routing no_route env cors route_path clock handler req w =
    (json_response 500 ''internal_server_error'', sv', snd w)"
  using assms(1) assms(2) [of "record_request_metrics route_path clock (serve s sha256hex routing no_route env handler)" w e "(sv', snd w)"]
  by (simp add: create_app_def record_request_metrics_def global_exception_handler_def)

definition example_health :: "health_line list" where
  "example_health = (case get_psp_health (2 * us_day) \<lparr>ad_gold = example_read, ad_bronze = []\<rparr> of Inl e \<Rightarrow> [] | Inr ls \<Rightarrow> ls)"

lemma example_health_lines:
  "get_psp_health (2 * us_day) \<lparr>ad_gold = example_read, ad_bronze = []\<rparr> = Inr example_health"
  "\<exists>l \<in> set example_health. hl_psp l = ''paystack'' \<and> hl_open l = 1 \<and> hl_exposure l = ''50000.00''"
proof -
  have "case get_psp_health (2 * us_day) \<lparr>ad_gold = example_read, ad_bronze = []\<rparr> of Inl e \<Rightarrow> False
     | Inr ls \<Rightarrow> list_ex (\<lambda>l. hl_psp l = ''paystack'' \<and> hl_open l = 1 \<and> hl_exposure l = ''50000.00'') ls"
    by code_simp
  then show "get_psp_health (2 * us_day) \<lparr>ad_gold = example_read, ad_bronze = []\<rparr> = Inr example_health"
    "\<exists>l \<in> set example_health. hl_psp l = ''paystack'' \<and> hl_open l = 1 \<and> hl_exposure l = ''50000.00''"
    unfolding example_health_def by (auto simp: list_ex_iff split: sum.splits)
qed


definition failing_handler :: "nat handler" where
  "failing_handler e q n = (Inl ZeroDivisionError, Suc n)"

definition webhook_call :: request where
  "webhook_call = \<lparr>rq_method = ''POST'', rq_path = ''/v1/webhooks/paystack'', rq_api_key = None, rq_client = None,
     st_key_id = None, st_key_name = None, st_role = None\<rparr>"

theorem unhandled_exception_unobserved_witness:
  "\<forall>s. create_app s rev (\<lambda>m p. Some PaystackWebhook) (json_response 404 []) \<lparr>ae_db_ok = True, ae_db_now = 0,
       ae_clock = 0, ae_created = 0, ae_mono = 0\<rparr> id ''/v1/webhooks/paystack'' (0, 1) failing_handler webhook_call (example_server, []) =
     (json_response 500 ''internal_server_error'', example_server\<lparr>sv_data := 1\<rparr>, [])"
proof
  fix s
  have p: "is_public_path ''/v1/webhooks/paystack'' e" for e
    by (simp add: is_public_path_def rstrip_slash_def PUBLIC_PATHS_def Let_def)
  have x: "exempt webhook_call" by code_simp
  have "serve s rev (\<lambda>m p. Some PaystackWebhook) (json_response 404 []) \<lparr>ae_db_ok = True, ae_db_now = 0,
       ae_clock = 0, ae_created = 0, ae_mono = 0\<rparr> failing_handler webhook_call example_server =
     (Inl ZeroDivisionError, example_server\<lparr>sv_data := 1\<rparr>)"
    using p x by (simp add: serve_def auth_dispatch_def authenticate_def webhook_call_def rate_limit_dispatch_def route_def
      failing_handler_def example_server_def)
  then show "create_app s rev (\<lambda>m p. Some PaystackWebhook) (json_response 404 []) \<lparr>ae_db_ok = True, ae_db_now = 0,
       ae_clock = 0, ae_created = 0, ae_mono = 0\<rparr> id ''/v1/webhooks/paystack'' (0, 1) failing_handler webhook_call (example_server, []) =
     (json_response 500 ''internal_server_error'', example_server\<lparr>sv_data := 1\<rparr>, [])"
    by (subst unhandled_exception_unobserved [where e = ZeroDivisionError and sv' = "example_server\<lparr>sv_data := 1\<rparr>"]) simp_all
qed

end
