(* ===== verification/Chronology.thy ===== *)
theory Chronology
  imports Timestamps Cbn_Report
begin

text \<open>
  The order of rendered timestamps. The daily return sorts the timestamps of a beneficiary as texts
  and the demo data generator sorts its events by them; both are right because the text of a UTC
  time is ordered as the time, with and without microseconds.
\<close>

subsection \<open>Texts of equal length\<close>

lemma append_less:
  "length (a :: string) = length b \<Longrightarrow> a @ x < b @ y \<longleftrightarrow> a < b \<or> a = b \<and> x < y"
  by (induction a b rule: list_induct2) auto

lemma code_less: "c < d \<longleftrightarrow> code c < code d"
  by (simp add: less_char_def code_def)

lemma snoc_cases:
  assumes "length (a :: string) = Suc n"
  obtains a' c where "a = a' @ [c]" "length a' = n"
  using assms by (metis append_butlast_last_id diff_Suc_1 length_butlast list.size(3) nat.simps(3))

lemma digits_order:
  assumes "length a = n" and "length b = n" and "list_all is_digit a" and "list_all is_digit b"
  shows "a < b \<longleftrightarrow> read_nat a < read_nat b"
  using assms
proof (induction n arbitrary: a b)
  case (Suc n)
  obtain a' c where a: "a = a' @ [c]" "length a' = n" using Suc.prems(1) by (rule snoc_cases)
  obtain b' d where b: "b = b' @ [d]" "length b' = n" using Suc.prems(2) by (rule snoc_cases)
  have dig: "list_all is_digit a'" "list_all is_digit b'" "is_digit c" "is_digit d" using Suc.prems(3,4) by (simp_all add: a b)
  have ih: "a' < b' \<longleftrightarrow> read_nat a' < read_nat b'" "b' < a' \<longleftrightarrow> read_nat b' < read_nat a'"
    using Suc.IH a b dig by blast+
  then have eq: "a' = b' \<longleftrightarrow> read_nat a' = read_nat b'" using linorder_less_linear [of a' b'] by auto
  have c: "48 \<le> code c" "code c \<le> 57" "48 \<le> code d" "code d \<le> 57" using dig by (simp_all add: is_digit_def)
  have "a < b \<longleftrightarrow> read_nat a' < read_nat b' \<or> read_nat a' = read_nat b' \<and> code c < code d"
    unfolding a b by (subst append_less) (simp_all add: a b ih eq code_less)
  then show ?case using c by (auto simp: a b read_nat_snoc)
qed simp

lemma read_show_padded: "0 \<le> n \<Longrightarrow> read_nat (show_padded w n) = n"
  by (simp add: show_padded_def read_show_nat)

lemma show_padded_order:
  assumes "0 \<le> m" "m < 10 ^ w" "0 \<le> n" "n < 10 ^ w" "0 < w"
  shows "show_padded w m < show_padded w n \<longleftrightarrow> m < n" "show_padded w m = show_padded w n \<longleftrightarrow> m = n"
proof -
  note p = show_padded_props [OF assms(1,2,5)] show_padded_props [OF assms(3,4,5)]
  show "show_padded w m < show_padded w n \<longleftrightarrow> m < n"
    using digits_order [OF p(1) p(4) p(2) p(5)] by (simp add: read_show_padded assms)
  show "show_padded w m = show_padded w n \<longleftrightarrow> m = n" using read_show_padded assms by metis
qed

text \<open>Two padded fields with the same separator.\<close>

lemma field_order:
  assumes "0 \<le> m" "m < 10 ^ w" "0 \<le> n" "n < 10 ^ w" "0 < w"
  shows "show_padded w m @ x < show_padded w n @ y \<longleftrightarrow> m < n \<or> m = n \<and> x < y"
  using append_less [of "show_padded w m" "show_padded w n" x y] show_padded_order [OF assms]
    show_padded_props(1) [OF assms(1,2,5)] show_padded_props(1) [OF assms(3,4,5)] by simp

subsection \<open>Dates\<close>

lemma days_before_next_month: "1 \<le> m \<Longrightarrow> days_before_month y (m + 1) = days_before_month y m + days_in_month y m"
  by (simp add: days_before_month_def upto_rec2)

lemma days_before_month_mono:
  assumes "1 \<le> m" and "m \<le> m'"
  shows "days_before_month y m \<le> days_before_month y m'"
  using assms(2)
proof (induction m' rule: int_ge_induct)
  case (step i)
  have "0 \<le> days_in_month y i" by (simp add: days_in_month_def)
  then show ?case using days_before_next_month [of i y] step assms(1) by simp
qed simp

lemma days_of_year: "days_before_month y 13 = 365 + (if is_leap y then 1 else 0)"
proof -
  have "month_start True 13 = 366" "month_start False 13 = 365" by code_simp+
  then show ?thesis by (simp add: days_before_month_start)
qed

lemma div_step:
  assumes "0 < (n :: int)"
  shows "y div n = (y - 1) div n + (if y mod n = 0 then 1 else 0)"
proof (cases "y mod n = 0")
  case True
  then have y: "y = n * (y div n)" using mult_div_mod_eq [of n y] by simp
  have "(y - 1) div n = y div n - 1"
    by (rule int_div_pos_eq [of _ _ _ "n - 1"]) (use assms in \<open>subst y, simp_all add: algebra_simps\<close>)
  then show ?thesis using True by simp
next
  case False
  then have r: "1 \<le> y mod n" "y mod n < n" using assms pos_mod_sign [OF assms, of y] pos_mod_bound [OF assms, of y] by linarith+
  have "(y - 1) div n = y div n"
    by (rule int_div_pos_eq [of _ _ _ "y mod n - 1"]) (use r mult_div_mod_eq [of n y] in \<open>linarith+\<close>)
  then show ?thesis using False by simp
qed

lemma days_before_next_year: "days_before_year (y + 1) = days_before_year y + 365 + (if is_leap y then 1 else 0)"
proof -
  have "y mod 400 = 0 \<longrightarrow> y mod 100 = 0" "y mod 100 = 0 \<longrightarrow> y mod 4 = 0"
    using dvd_trans [of "100 :: int" 400 y] dvd_trans [of "4 :: int" 100 y] by (simp_all add: mod_eq_0_iff_dvd)
  then have leap: "(if is_leap y then 1 else 0 :: int) =
      (if y mod 4 = 0 then 1 else 0) - (if y mod 100 = 0 then 1 else 0) + (if y mod 400 = 0 then 1 else 0)"
    by (cases "y mod 4 = 0"; cases "y mod 100 = 0"; cases "y mod 400 = 0") (simp_all only: is_leap_def, simp_all)
  define a b c where "a = (y - 1) div 4" and "b = (y - 1) div 100" and "c = (y - 1) div 400"
  define i j k where "i = (if y mod 4 = 0 then 1 else 0 :: int)" and "j = (if y mod 100 = 0 then 1 else 0 :: int)"
    and "k = (if y mod 400 = 0 then 1 else 0 :: int)"
  have "y div 4 = a + i" "y div 100 = b + j" "y div 400 = c + k"
    unfolding a_def b_def c_def i_def j_def k_def by (rule div_step, simp)+
  then have "days_before_year (y + 1) = y * 365 + (a + i) - (b + j) + (c + k)" by (simp only: days_before_year_def add_diff_cancel_right')
  moreover have "days_before_year y = (y - 1) * 365 + a - b + c" by (simp only: days_before_year_def a_def b_def c_def)
  moreover have l: "(if is_leap y then 1 else 0) = i - j + k" unfolding leap i_def j_def k_def ..
  ultimately show ?thesis by (simp add: l algebra_simps)
qed

lemma days_before_year_mono: "y \<le> y' \<Longrightarrow> days_before_year y \<le> days_before_year y'"
proof (induction y' rule: int_ge_induct)
  case (step i)
  then show ?case using days_before_next_year [of i] by (simp split: if_splits)
qed simp

text \<open>Dates are ordered as their fields.\<close>

lemma fields_less:
  assumes "date_fields d = (y, m, dd)" "date_fields e = (y', m', dd')"
    and "y < y' \<or> y = y' \<and> (m < m' \<or> m = m' \<and> dd < dd')"
  shows "d < e"
proof -
  note d = date_fields_correct(1-5) [OF assms(1)] and e = date_fields_correct(1-5) [OF assms(2)]
  have fin: "days_before_month y m + dd \<le> days_before_month y (m + 1)" using d days_before_next_month [of m y] by simp
  have pos: "1 \<le> days_before_month y' m' + dd'"
    using days_before_month_mono [of 1 m' y'] e by (simp add: days_before_month_def)
  consider "y < y'" | "y = y'" "m < m'" | "y = y'" "m = m'" "dd < dd'" using assms(3) by blast
  then show ?thesis
  proof cases
    case 1
    have "days_before_month y (m + 1) \<le> days_before_month y 13" by (rule days_before_month_mono) (use d in auto)
    then have "days_before_year y + days_before_month y m + dd \<le> days_before_year (y + 1)"
      using fin days_of_year [of y] days_before_next_year [of y] by simp
    moreover have "days_before_year (y + 1) \<le> days_before_year y'" using 1 by (intro days_before_year_mono) simp
    ultimately show ?thesis using pos d(5) e(5) by linarith
  next
    case 2
    have "days_before_month y (m + 1) \<le> days_before_month y m'" by (rule days_before_month_mono) (use 2 d in auto)
    then show ?thesis using fin d(5) e(3,5) 2 by simp
  next
    case 3
    then show ?thesis using d(5) e(5) by simp
  qed
qed

lemma date_text_order:
  assumes "valid_date d" and "valid_date e"
  shows "iso_date_text d < iso_date_text e \<longleftrightarrow> d < e" "iso_date_text d = iso_date_text e \<longleftrightarrow> d = e"
proof -
  obtain y m dd y' m' dd' where f: "date_fields d = (y, m, dd)" "date_fields e = (y', m', dd')" by (metis prod_cases3)
  have r: "0 \<le> y" "y < 10 ^ 4" "0 \<le> m" "m < 10 ^ 2" "0 \<le> dd" "dd < 10 ^ 2"
    using date_fields_correct(1-4,6,7) [OF f(1)] assms(1) by (auto simp: valid_date_def days_in_month_def split: if_splits)
  have r': "0 \<le> y'" "y' < 10 ^ 4" "0 \<le> m'" "m' < 10 ^ 2" "0 \<le> dd'" "dd' < 10 ^ 2"
    using date_fields_correct(1-4,6,7) [OF f(2)] assms(2) by (auto simp: valid_date_def days_in_month_def split: if_splits)
  have t: "iso_date_text d < iso_date_text e \<longleftrightarrow> y < y' \<or> y = y' \<and> (m < m' \<or> m = m' \<and> dd < dd')"
    using r r' show_padded_order(1) [of dd 2 dd'] by (simp add: iso_date_text_def f field_order)
  have t': "iso_date_text e < iso_date_text d \<longleftrightarrow> y' < y \<or> y' = y \<and> (m' < m \<or> m' = m \<and> dd' < dd)"
    using r r' show_padded_order(1) [of dd' 2 dd] by (simp add: iso_date_text_def f field_order)
  have eq: "(y, m, dd) = (y', m', dd') \<Longrightarrow> d = e" using date_fields_correct(5) [OF f(1)] date_fields_correct(5) [OF f(2)] by simp
  show "iso_date_text d < iso_date_text e \<longleftrightarrow> d < e"
    unfolding t using fields_less [OF f] fields_less [OF f(2,1)] eq by fastforce
  show "iso_date_text d = iso_date_text e \<longleftrightarrow> d = e"
    using t t' fields_less [OF f] fields_less [OF f(2,1)] eq by (metis linorder_less_linear order_less_irrefl)
qed

subsection \<open>Times\<close>

lemma clock_text_order:
  "clock_text t @ x < clock_text t' @ y \<longleftrightarrow>
     clock_of t div us_second < clock_of t' div us_second \<or> clock_of t div us_second = clock_of t' div us_second \<and> x < y"
proof -
  define s s' where "s = clock_of t div us_second" and "s' = clock_of t' div us_second"
  define h m c h' m' c' where "h = s div 3600" and "m = s div 60 mod 60" and "c = s mod 60"
    and "h' = s' div 3600" and "m' = s' div 60 mod 60" and "c' = s' mod 60"
  have r: "0 \<le> s" "s < 86400" "0 \<le> s'" "s' < 86400" using clock_range [of t] clock_range [of t']
    by (auto simp: s_def s'_def pos_imp_zdiv_nonneg_iff zdiv_less_iff)
  have eq: "s = 3600 * h + 60 * m + c" "s' = 3600 * h' + 60 * m' + c'"
    using clock_span_seconds [of s 0, folded h_def m_def c_def, unfolded clock_span_def prod.case]
      clock_span_seconds [of s' 0, folded h'_def m'_def c'_def, unfolded clock_span_def prod.case] by linarith+
  have b: "0 \<le> m" "m < 60" "0 \<le> c" "c < 60" "0 \<le> m'" "m' < 60" "0 \<le> c'" "c' < 60"
    by (simp_all add: m_def c_def m'_def c'_def)
  have h: "0 \<le> h" "h < 24" "0 \<le> h'" "h' < 24" using r
    by (auto simp: h_def h'_def pos_imp_zdiv_nonneg_iff zdiv_less_iff)
  have "clock_text t @ x < clock_text t' @ y \<longleftrightarrow> h < h' \<or> h = h' \<and> (m < m' \<or> m = m' \<and> (c < c' \<or> c = c' \<and> x < y))"
  proof -
    have 3: "show_padded 2 c @ x < show_padded 2 c' @ y \<longleftrightarrow> c < c' \<or> c = c' \<and> x < y"
      by (rule field_order) (use b in simp_all)
    have 2: "show_padded 2 m @ '':'' @ show_padded 2 c @ x < show_padded 2 m' @ '':'' @ show_padded 2 c' @ y \<longleftrightarrow>
        m < m' \<or> m = m' \<and> (c < c' \<or> c = c' \<and> x < y)"
      using field_order [of m 2 m' "'':'' @ show_padded 2 c @ x" "'':'' @ show_padded 2 c' @ y"] b 3 by simp
    have 1: "show_padded 2 h @ '':'' @ show_padded 2 m @ '':'' @ show_padded 2 c @ x <
        show_padded 2 h' @ '':'' @ show_padded 2 m' @ '':'' @ show_padded 2 c' @ y \<longleftrightarrow>
        h < h' \<or> h = h' \<and> (m < m' \<or> m = m' \<and> (c < c' \<or> c = c' \<and> x < y))"
      using field_order [of h 2 h' "'':'' @ show_padded 2 m @ '':'' @ show_padded 2 c @ x" "'':'' @ show_padded 2 m' @ '':'' @ show_padded 2 c' @ y"]
        h 2 by simp
    have "clock_text t = show_padded 2 h @ '':'' @ show_padded 2 m @ '':'' @ show_padded 2 c"
      "clock_text t' = show_padded 2 h' @ '':'' @ show_padded 2 m' @ '':'' @ show_padded 2 c'"
      unfolding clock_text_def Let_def h_def m_def c_def h'_def m'_def c'_def s_def s'_def by (rule refl)+
    then show ?thesis using 1 by (simp only: append_assoc)
  qed
  also have "\<dots> \<longleftrightarrow> s < s' \<or> s = s' \<and> x < y"
  proof -
    consider "h < h'" | "h' < h" | "h = h'" "m < m'" | "h = h'" "m' < m" | "h = h'" "m = m'" by linarith
    then show ?thesis by cases (use eq b in auto)
  qed
  finally show ?thesis by (simp add: s_def s'_def)
qed

definition fraction_text :: "int \<Rightarrow> string" where
  "fraction_text us = (if us = 0 then [] else ''.'' @ show_padded 6 us)"

lemma fraction_order:
  assumes "0 \<le> u" "u < us_second" "0 \<le> v" "v < us_second"
  shows "fraction_text u @ ''+00:00'' < fraction_text v @ ''+00:00'' \<longleftrightarrow> u < v"
proof -
  have plus: "CHR ''+'' < CHR ''.''" by (simp add: code_less code_def)
  have "show_padded 6 u @ ''+00:00'' < show_padded 6 v @ ''+00:00'' \<longleftrightarrow> u < v"
    using assms by (subst field_order) simp_all
  then show ?thesis using assms plus by (auto simp: fraction_text_def)
qed

lemma isoformat_fraction:
  "isoformat t = iso_date_text (date_of t) @ ''T'' @ clock_text t @ fraction_text (clock_of t mod us_second) @ ''+00:00''"
  by (simp add: isoformat_text fraction_text_def Let_def)

lemma date_text_length: "valid_date d \<Longrightarrow> length (iso_date_text d) = 10"
  by (rule date_text_shape [of d]) simp_all

text \<open>The order of texts is the order of times.\<close>

lemma isoformat_less:
  assumes "valid_date (date_of t)" and "valid_date (date_of t')"
  shows "isoformat t < isoformat t' \<longleftrightarrow> t < t'"
proof -
  define d d' s s' u u' where "d = date_of t" and "d' = date_of t'" and "s = clock_of t div us_second"
    and "s' = clock_of t' div us_second" and "u = clock_of t mod us_second" and "u' = clock_of t' mod us_second"
  have u: "0 \<le> u" "u < us_second" "0 \<le> u'" "u' < us_second" by (simp_all add: u_def u'_def)
  have t: "t = us_day * d + us_second * s + u" "t' = us_day * d' + us_second * s' + u'"
    using date_clock [of t] date_clock [of t'] by (simp_all add: d_def d'_def s_def s'_def u_def u'_def)
  have s: "0 \<le> s" "s < 86400" "0 \<le> s'" "s' < 86400" using clock_range [of t] clock_range [of t']
    by (auto simp: s_def s'_def pos_imp_zdiv_nonneg_iff zdiv_less_iff)
  have "isoformat t < isoformat t' \<longleftrightarrow> d < d' \<or> d = d' \<and> (s < s' \<or> s = s' \<and> u < u')"
    unfolding isoformat_fraction
    by (subst append_less) (simp_all add: date_text_length date_text_order assms clock_text_order fraction_order [OF u, unfolded u_def u'_def]
      d_def d'_def s_def s'_def u_def u'_def)
  also have "\<dots> \<longleftrightarrow> t < t'"
  proof -
    consider "d < d'" | "d' < d" | "d = d'" "s < s'" | "d = d'" "s' < s" | "d = d'" "s = s'" by linarith
    then show ?thesis by cases (use t s u in auto)
  qed
  finally show ?thesis .
qed

subsection \<open>Velocity\<close>

lemma sort_texts:
  assumes "\<forall>t \<in> set ts. min_time \<le> t \<and> t \<le> max_time"
  shows "sort (map isoformat ts) = map isoformat (sort ts)"
proof (rule properties_for_sort)
  have "sorted (map isoformat xs)" if "sorted xs" "\<forall>t \<in> set xs. min_time \<le> t \<and> t \<le> max_time" for xs
    using that
  proof (induction xs)
    case (Cons x xs)
    have "isoformat x \<le> isoformat y" if "y \<in> set xs" for y
      using Cons.prems that isoformat_less [of y x] valid_date_range by (auto simp: not_less [symmetric])
    then show ?case using Cons by auto
  qed simp
  then show "sorted (map isoformat (sort ts))" using assms by simp
qed simp

lemma six_hundred_seconds: "total_seconds d < 600 \<longleftrightarrow> d < 600 * us_second"
proof
  assume "d < 600 * us_second"
  then have "total_seconds d \<le> total_seconds 599999999" by (intro total_seconds_mono) simp
  also have "\<dots> < 600" by code_simp
  finally show "total_seconds d < 600" .
next
  assume l: "total_seconds d < 600"
  show "d < 600 * us_second"
  proof (rule ccontr)
    assume "\<not> d < 600 * us_second"
    then have "total_seconds (600 * us_second) \<le> total_seconds d" by (intro total_seconds_mono) simp
    then show False using l total_seconds_whole [of 600] by simp
  qed
qed

lemma within_ten_minutes_iff:
  assumes "min_time \<le> t" "t \<le> max_time" "min_time \<le> t'" "t' \<le> max_time"
  shows "within_ten_minutes (isoformat t) (isoformat t') \<longleftrightarrow> t' - t < 600 * us_second"
  using assms by (simp add: within_ten_minutes_def isoformat_roundtrip valid_date_range six_hundred_seconds)

text \<open>In a sorted list the elements of a window are consecutive.\<close>

lemma sorted_window:
  assumes "sorted (xs :: int list)"
  shows "filter (\<lambda>x. a \<le> x \<and> x < b) xs = takeWhile (\<lambda>x. x < b) (dropWhile (\<lambda>x. x < a) xs)"
  using assms
proof (induction xs)
  case (Cons x xs)
  have ge: "filter (\<lambda>x. a \<le> x \<and> x < b) ys = takeWhile (\<lambda>x. x < b) ys" if "sorted ys" "\<forall>y \<in> set ys. a \<le> y" for ys
    using that
  proof (induction ys)
    case (Cons y ys)
    have "filter (\<lambda>x. a \<le> x \<and> x < b) ys = []" if "\<not> y < b" using Cons.prems that by (auto simp: filter_empty_conv)
    then show ?case using Cons by auto
  qed simp
  show ?case
  proof (cases "x < a")
    case False
    then have "\<forall>y \<in> set (x # xs). a \<le> y" using Cons.prems by auto
    then have "filter (\<lambda>y. a \<le> y \<and> y < b) (x # xs) = takeWhile (\<lambda>y. y < b) (x # xs)" by (rule ge [OF Cons.prems])
    then show ?thesis using False by (simp only: dropWhile.simps if_False)
  qed (use Cons in simp)
qed simp

lemma window_of_six:
  assumes "sorted (xs :: int list)"
  shows "(\<exists>i < length xs - 5. xs ! (i + 5) - xs ! i < w) \<longleftrightarrow> (\<exists>a. 6 \<le> length (filter (\<lambda>x. a \<le> x \<and> x < a + w) xs))"
proof
  assume "\<exists>i < length xs - 5. xs ! (i + 5) - xs ! i < w"
  then obtain i where i: "i + 5 < length xs" "xs ! (i + 5) - xs ! i < w" by (auto simp: less_diff_conv)
  let ?P = "\<lambda>x. xs ! i \<le> x \<and> x < xs ! i + w"
  have ys: "\<forall>x \<in> set (take 6 (drop i xs)). ?P x"
  proof
    fix x
    assume "x \<in> set (take 6 (drop i xs))"
    then obtain j where j: "x = xs ! (i + j)" "j < 6" "i + j < length xs" using i by (auto simp: in_set_conv_nth)
    then have "xs ! i \<le> xs ! (i + j)" "xs ! (i + j) \<le> xs ! (i + 5)"
      using assms i by (auto intro!: sorted_nth_mono)
    then show "?P x" using i j by auto
  qed
  have "xs = take i xs @ take 6 (drop i xs) @ drop 6 (drop i xs)" by (simp only: append_take_drop_id)
  then have "length (filter ?P xs) = length (filter ?P (take i xs)) + length (filter ?P (take 6 (drop i xs))) +
      length (filter ?P (drop 6 (drop i xs)))" by (metis add.assoc filter_append length_append)
  moreover have "filter ?P (take 6 (drop i xs)) = take 6 (drop i xs)" using ys by (simp add: filter_id_conv)
  ultimately have "6 \<le> length (filter ?P xs)" using i by simp
  then show "\<exists>a. 6 \<le> length (filter (\<lambda>x. a \<le> x \<and> x < a + w) xs)" by blast
next
  assume "\<exists>a. 6 \<le> length (filter (\<lambda>x. a \<le> x \<and> x < a + w) xs)"
  then obtain a where "6 \<le> length (filter (\<lambda>x. a \<le> x \<and> x < a + w) xs)" by blast
  then have l: "6 \<le> length (takeWhile (\<lambda>x. x < a + w) (dropWhile (\<lambda>x. x < a) xs))" using sorted_window [OF assms] by simp
  define n where "n = length (takeWhile (\<lambda>x. x < a) xs)"
  have d: "dropWhile (\<lambda>x. x < a) xs = drop n xs" by (simp add: n_def dropWhile_eq_drop)
  have len: "6 \<le> length (drop n xs)" using l length_takeWhile_le [of "\<lambda>x. x < a + w" "drop n xs"] unfolding d by linarith
  have five: "5 < length (takeWhile (\<lambda>x. x < a + w) (drop n xs))" using l unfolding d by simp
  have "takeWhile (\<lambda>x. x < a + w) (drop n xs) ! 5 < a + w" using set_takeWhileD [OF nth_mem [OF five]] by simp
  moreover have "takeWhile (\<lambda>x. x < a + w) (drop n xs) ! 5 = drop n xs ! 5" by (rule takeWhile_nth [OF five])
  ultimately have "xs ! (n + 5) < a + w" using len by simp
  moreover have "\<not> xs ! n < a"
    using hd_dropWhile [of "\<lambda>x. x < a" xs] len unfolding d by (simp add: hd_drop_conv_nth)
  ultimately show "\<exists>i < length xs - 5. xs ! (i + 5) - xs ! i < w" using len by (intro exI [of _ n]) auto
qed

text \<open>
  C35 The velocity flag is exact: for the timestamps the daily return passes on, a beneficiary is
  flagged if and only if some period of ten minutes contains more than five of its
  transactions, although the code sorts and compares texts.
\<close>

theorem velocity_exact:
  assumes "\<forall>t \<in> set ts. min_time \<le> t \<and> t \<le> max_time"
  shows "velocity_anomaly (map isoformat ts) \<longleftrightarrow>
    (\<exists>start. 5 < length (filter (\<lambda>t. start \<le> t \<and> t < start + 600 * us_second) ts))"
proof -
  let ?xs = "sort ts"
  have n: "within_ten_minutes (map isoformat ?xs ! i) (map isoformat ?xs ! (i + 5)) \<longleftrightarrow> ?xs ! (i + 5) - ?xs ! i < 600 * us_second"
    if "i < length ?xs - 5" for i
  proof -
    have "?xs ! i \<in> set ts" "?xs ! (i + 5) \<in> set ts" using that by (metis add_lessD1 less_diff_conv nth_mem set_sort)+
    then show ?thesis using assms that by (simp add: within_ten_minutes_iff)
  qed
  have "velocity_anomaly (map isoformat ts) \<longleftrightarrow> 5 < length ts \<and> (\<exists>i < length ?xs - 5. ?xs ! (i + 5) - ?xs ! i < 600 * us_second)"
    unfolding velocity_anomaly_def Let_def sort_texts [OF assms] list_ex_iff using n by auto
  also have "\<dots> \<longleftrightarrow> (\<exists>i < length ?xs - 5. ?xs ! (i + 5) - ?xs ! i < 600 * us_second)" by auto
  also have "\<dots> \<longleftrightarrow> (\<exists>a. 6 \<le> length (filter (\<lambda>x. a \<le> x \<and> x < a + 600 * us_second) ?xs))"
    by (rule window_of_six) simp
  also have "\<dots> \<longleftrightarrow> (\<exists>a. 5 < length (filter (\<lambda>x. a \<le> x \<and> x < a + 600 * us_second) ts))"
  proof -
    have "length (filter P ?xs) = length (filter P ts)" for P by (metis mset_filter mset_sort size_mset)
    then show ?thesis by (simp add: Suc_le_eq eval_nat_numeral)
  qed
  finally show ?thesis .
qed

theorem velocity_exact_witness:
  "velocity_anomaly (map isoformat [0, 599999999, 120 * us_second, 1, 300 * us_second + 7, 240 * us_second])"
proof -
  let ?ts = "[0, 599999999, 120 * us_second, 1, 300 * us_second + 7, 240 * us_second]"
  have r: "min_time \<le> 0" "10 ^ 9 \<le> max_time" by code_simp+
  have "\<forall>t \<in> set ?ts. min_time \<le> t \<and> t \<le> max_time" using r by auto
  moreover have "5 < length (filter (\<lambda>t. 0 \<le> t \<and> t < 0 + 600 * us_second) ?ts)" by simp
  ultimately show ?thesis using velocity_exact [of ?ts] by blast
qed

end
