(* ===== verification/Sim_Events.thy ===== *)
theory Sim_Events
  imports Timestamps Matching_Flow "HOL-Library.State_Monad" "HOL-Library.Monad_Syntax"
begin

text \<open>
  What the webhook simulator and the demo data generator share: the source of random numbers, and
  the events of the two PSPs they build. \<open>random\<close> is a stream of naturals that is
  consumed in the order of the calls: every sequence of outcomes the module can produce is
  produced by some stream.
\<close>

subsection \<open>Random numbers\<close>

type_synonym seed = "nat \<Rightarrow> nat"

definition draw :: "(seed, nat) state" where
  "draw = State (\<lambda>f. (f 0, \<lambda>i. f (Suc i)))"

definition randint :: "int \<Rightarrow> int \<Rightarrow> (seed, int) state" where
  "randint lo hi = do { n \<leftarrow> draw; State_Monad.return (lo + int n mod (hi - lo + 1)) }"

definition choice :: "'a list \<Rightarrow> (seed, 'a) state" where
  "choice xs = do { n \<leftarrow> draw; State_Monad.return (xs ! (n mod length xs)) }"

text \<open>\<open>random.random()\<close> is a multiple of \<open>2 ^ -53\<close> below one; \<open>random.uniform\<close> rounds twice more.\<close>

definition random_unit :: "(seed, rat) state" where
  "random_unit = do { n \<leftarrow> draw; State_Monad.return (of_nat (n mod 2 ^ 53) / 2 ^ 53) }"

definition uniform :: "rat \<Rightarrow> rat \<Rightarrow> (seed, rat) state" where
  "uniform a b = do { r \<leftarrow> random_unit; State_Monad.return (fl (a + fl (fl (b - a) * r))) }"

fun repeated :: "nat \<Rightarrow> ('s, 'a) state \<Rightarrow> ('s, 'a list) state" where
  "repeated 0 m = State_Monad.return []"
| "repeated (Suc n) m = do { x \<leftarrow> m; xs \<leftarrow> repeated n m; State_Monad.return (x # xs) }"

text \<open>The first \<open>n\<close> hexadecimal digits of a random UUID, and the ten digits of a NUBAN.\<close>

definition hex_digits :: string where
  "hex_digits = ''0123456789abcdef''"

definition hex_char :: "nat \<Rightarrow> char" where
  "hex_char n = hex_digits ! (n mod 16)"

definition uuid_hex :: "nat \<Rightarrow> (seed, string) state" where
  "uuid_hex n = repeated n (do { d \<leftarrow> draw; State_Monad.return (hex_char d) })"

definition random_account :: "(seed, string) state" where
  "random_account = repeated 10 (do { d \<leftarrow> randint 0 9; State_Monad.return (digit_char d) })"

subsection \<open>Banks and names\<close>

record bank =
  bk_code :: string
  bk_name :: string

definition NIGERIAN_BANKS :: "bank list" where
  "NIGERIAN_BANKS = map (\<lambda>(c, n). \<lparr>bk_code = c, bk_name = n\<rparr>) [
     (''057'', ''Zenith Bank''), (''058'', ''Guaranty Trust Bank''), (''011'', ''First Bank of Nigeria''),
     (''044'', ''Access Bank''), (''033'', ''United Bank for Africa''), (''032'', ''Union Bank''),
     (''035'', ''Wema Bank''), (''050'', ''Ecobank Nigeria''), (''221'', ''Stanbic IBTC''), (''070'', ''Fidelity Bank'')]"

definition NIGERIAN_NAMES :: "string list" where
  "NIGERIAN_NAMES = [''Chioma Okonkwo'', ''Tunde Adeyemi'', ''Amina Ibrahim'',
     ''Emeka Chukwu'', ''Folake Williams'', ''Oluwaseun Balogun'',
     ''Ngozi Eze'', ''Babatunde Osinbajo'', ''Adaeze Nwankwo'',
     ''Yusuf Mohammed'', ''Kemi Adeola'', ''Ifeanyi Okoro'',
     ''Aisha Bello'', ''Chidi Anyanwu'', ''Funke Akindele'',
     ''Obinna Ike'', ''Halima Suleiman'', ''Segun Ajayi'']"

definition PAYSTACK_CHANNELS :: "string list" where
  "PAYSTACK_CHANNELS = [''card'', ''bank_transfer'', ''ussd'']"

text \<open>\<open>name.split()[0].lower()\<close> in the address of a customer.\<close>

definition customer_email :: "string \<Rightarrow> string" where
  "customer_email name = py_lower (hd (py_split name)) @ ''@example.com''"

subsection \<open>Events\<close>

text \<open>What one event takes from the random source.\<close>

record paystack_draw =
  pd_bank :: bank
  pd_name :: string
  pd_ref :: string
  pd_id :: int
  pd_channel :: string
  pd_account :: string
  pd_note :: string

text \<open>\<open>reference or f"T_{uuid.uuid4().hex[:12]}"\<close>\<close>

definition paystack_ref :: "string option \<Rightarrow> (seed, string) state" where
  "paystack_ref reference = (if reference = None \<or> reference = Some []
     then do { h \<leftarrow> uuid_hex 12; State_Monad.return (''T_'' @ h) } else State_Monad.return (the reference))"

definition draw_paystack :: "string list \<Rightarrow> int \<Rightarrow> string option \<Rightarrow> (seed, string) state \<Rightarrow> (seed, paystack_draw) state" where
  "draw_paystack names max_id reference note = do {
     bank \<leftarrow> choice NIGERIAN_BANKS;
     name \<leftarrow> choice names;
     ref \<leftarrow> paystack_ref reference;
     i \<leftarrow> randint 100000 max_id;
     channel \<leftarrow> choice PAYSTACK_CHANNELS;
     account \<leftarrow> random_account;
     text \<leftarrow> note;
     State_Monad.return \<lparr>pd_bank = bank, pd_name = name, pd_ref = ref, pd_id = i, pd_channel = channel,
       pd_account = account, pd_note = text\<rparr> }"

definition paystack_data :: "int \<Rightarrow> string \<Rightarrow> string \<Rightarrow> int \<Rightarrow> paystack_draw \<Rightarrow> (string \<times> json) list" where
  "paystack_data ngn currency paid_at fees d = [
     (''id'', JInt (pd_id d)),
     (''reference'', JStr (pd_ref d)),
     (''amount'', JInt (ngn * 100)),
     (''currency'', JStr currency),
     (''status'', JStr ''success''),
     (''paid_at'', JStr paid_at),
     (''channel'', JStr (pd_channel d)),
     (''fees'', JInt fees),
     (''authorization'', JObj [
       (''account_number'', JStr (pd_account d)),
       (''account_name'', JStr (py_upper (pd_name d))),
       (''bank'', JStr (bk_name (pd_bank d))),
       (''bank_code'', JStr (bk_code (pd_bank d)))]),
     (''customer'', JObj [(''email'', JStr (customer_email (pd_name d)))]),
     (''metadata'', JObj [(''custom_fields'', JList [JObj [(''value'', JStr (pd_note d))]])])]"

definition paystack_payload :: "string \<Rightarrow> int \<Rightarrow> string \<Rightarrow> string \<Rightarrow> int \<Rightarrow> paystack_draw \<Rightarrow> (string \<times> json) list" where
  "paystack_payload event ngn currency paid_at fees d =
     [(''event'', JStr event), (''data'', JObj (paystack_data ngn currency paid_at fees d))]"

record flutterwave_draw =
  fd_bank :: bank
  fd_name :: string
  fd_ref :: string
  fd_id :: int
  fd_flw_ref :: string
  fd_account :: string
  fd_app_fee :: int
  fd_merchant_fee :: int
  fd_narration :: string

definition flutterwave_ref :: "string option \<Rightarrow> (seed, string) state" where
  "flutterwave_ref tx_ref = (if tx_ref = None \<or> tx_ref = Some []
     then do { h \<leftarrow> uuid_hex 8; State_Monad.return (''FLW-TXN-'' @ py_upper h) } else State_Monad.return (the tx_ref))"

definition draw_flutterwave :: "string list \<Rightarrow> int \<Rightarrow> string option \<Rightarrow> (seed, string) state \<Rightarrow> (seed, flutterwave_draw) state" where
  "draw_flutterwave names max_id tx_ref note = do {
     bank \<leftarrow> choice NIGERIAN_BANKS;
     name \<leftarrow> choice names;
     ref \<leftarrow> flutterwave_ref tx_ref;
     i \<leftarrow> randint 100000 max_id;
     flw \<leftarrow> uuid_hex 12;
     account \<leftarrow> random_account;
     app \<leftarrow> choice [100, 150, 200, 250];
     merchant \<leftarrow> randint 500 2000;
     text \<leftarrow> note;
     State_Monad.return \<lparr>fd_bank = bank, fd_name = name, fd_ref = ref, fd_id = i, fd_flw_ref = ''FLW-MOCK-'' @ flw,
       fd_account = account, fd_app_fee = app, fd_merchant_fee = merchant, fd_narration = text\<rparr> }"

definition flutterwave_data :: "int \<Rightarrow> string \<Rightarrow> string \<Rightarrow> flutterwave_draw \<Rightarrow> (string \<times> json) list" where
  "flutterwave_data ngn currency created_at d = [
     (''id'', JInt (fd_id d)),
     (''tx_ref'', JStr (fd_ref d)),
     (''flw_ref'', JStr (fd_flw_ref d)),
     (''amount'', JInt ngn),
     (''currency'', JStr currency),
     (''status'', JStr ''successful''),
     (''created_at'', JStr created_at),
     (''customer'', JObj [
       (''name'', JStr (fd_name d)),
       (''email'', JStr (customer_email (fd_name d)))]),
     (''account'', JObj [
       (''account_number'', JStr (fd_account d)),
       (''account_name'', JStr (py_upper (fd_name d))),
       (''bank_code'', JStr (bk_code (fd_bank d))),
       (''bank'', JStr (bk_name (fd_bank d)))]),
     (''app_fee'', JInt (fd_app_fee d)),
     (''merchant_fee'', JInt (fd_merchant_fee d)),
     (''narration'', JStr (fd_narration d))]"

definition flutterwave_payload :: "string \<Rightarrow> int \<Rightarrow> string \<Rightarrow> string \<Rightarrow> flutterwave_draw \<Rightarrow> (string \<times> json) list" where
  "flutterwave_payload event ngn currency created_at d =
     [(''event'', JStr event), (''data'', JObj (flutterwave_data ngn currency created_at d))]"

subsection \<open>What the normalisers read from them\<close>

lemma paystack_fields:
  "event_of (paystack_payload event ngn currency paid_at fees d) = Inr event"
  "dict_get (paystack_payload event ngn currency paid_at fees d) ''data'' = JObj (paystack_data ngn currency paid_at fees d)"
  "dict_get (paystack_data ngn currency paid_at fees d) ''reference'' = JStr (pd_ref d)"
  "dict_get (paystack_data ngn currency paid_at fees d) ''amount'' = JInt (ngn * 100)"
  "dict_get (paystack_data ngn currency paid_at fees d) ''paid_at'' = JStr paid_at"
  "dict_get (paystack_data ngn currency paid_at fees d) ''currency'' = JStr currency"
  by (simp_all add: paystack_payload_def paystack_data_def event_of_def dict_item_def dict_get_def)

lemma paystack_payer_runs:
  "\<exists>cp n a. paystack_payer (paystack_data ngn currency paid_at fees d) = Inr cp \<and>
     as_opt_str (cp_name cp) = Inr n \<and> as_opt_str (cp_account cp) = Inr a"
  by (simp add: paystack_payer_def paystack_data_def dict_get_def or_dict_def jor_def join_names_def)

lemma paystack_recipient_runs:
  "\<exists>cp n a. paystack_recipient (paystack_data ngn currency paid_at fees d) = Inr cp \<and>
     as_opt_str (cp_name cp) = Inr n \<and> as_opt_str (cp_account cp) = Inr a"
  by (simp add: paystack_recipient_def paystack_data_def dict_get_def or_dict_def jor_def)

lemma paystack_note: "extract_paystack_narration (paystack_data ngn currency paid_at fees d) = Some (pd_note d)"
  by (simp add: extract_paystack_narration_def paystack_data_def dict_get_def)

lemma flutterwave_fields:
  "event_of (flutterwave_payload event ngn currency created_at d) = Inr event"
  "dict_get (flutterwave_payload event ngn currency created_at d) ''data'' = JObj (flutterwave_data ngn currency created_at d)"
  "dict_get (flutterwave_data ngn currency created_at d) ''tx_ref'' = JStr (fd_ref d)"
  "dict_get (flutterwave_data ngn currency created_at d) ''amount'' = JInt ngn"
  "dict_get (flutterwave_data ngn currency created_at d) ''created_at'' = JStr created_at"
  "dict_get (flutterwave_data ngn currency created_at d) ''currency'' = JStr currency"
  "map_of (flutterwave_data ngn currency created_at d) ''status'' = Some (JStr ''successful'')"
  "dict_get (flutterwave_data ngn currency created_at d) ''narration'' = JStr (fd_narration d)"
  by (simp_all add: flutterwave_payload_def flutterwave_data_def event_of_def dict_item_def dict_get_def)

lemma flutterwave_counterparty_runs:
  "\<exists>cp n a. flutterwave_counterparty (flutterwave_data ngn currency created_at d) = Inr cp \<and>
     as_opt_str (cp_name cp) = Inr n \<and> as_opt_str (cp_account cp) = Inr a"
  by (simp add: flutterwave_counterparty_def flutterwave_data_def dict_get_def or_dict_def jor_def)

text \<open>What reconciliation sees of an event: the fields of its canonical record that matching reads.\<close>

definition seen_as :: "canonical \<Rightarrow> norm_env \<Rightarrow> string \<Rightarrow> string \<Rightarrow> string \<Rightarrow> int \<Rightarrow> time \<Rightarrow> bool" where
  "seen_as r env psp reference ty ngn t \<longleftrightarrow> tx_id r = e_new_id env \<and> psp_name r = psp \<and> psp_transaction_ref r = reference \<and>
     transaction_type r = ty \<and> settlement_status r = ''settled'' \<and> settled_at r = Some t \<and> initiated_at r = t \<and>
     amount_ngn r = of_int ngn \<and> currency_raw r = ''NGN'' \<and> fx_rate_applied r = None"

definition clean_ref :: "string \<Rightarrow> bool" where
  "clean_ref s \<longleftrightarrow> s \<noteq> [] \<and> py_strip s = s"

lemma paystack_seen:
  assumes "map_of PAYSTACK_EVENTS event = Some (ty, ''settled'')" and "0 < ngn" "ngn \<le> 10 ^ 20"
    and "clean_ref (pd_ref d)" and "paid_at \<noteq> []" "parse_timestamp (JStr paid_at) = Inr t"
  shows "\<exists>r. normalise_paystack_event env (paystack_payload event ngn ''NGN'' paid_at fees d) = Inr r \<and>
    seen_as r env ''paystack'' (pd_ref d) ty ngn t"
proof -
  let ?p = "paystack_payload event ngn ''NGN'' paid_at fees d" and ?data = "paystack_data ngn ''NGN'' paid_at fees d"
  have disp: "classify_event ''paystack'' event ?p = accept ty ''settled''"
    using assms(1) by (simp add: classify_event_def paystack_fields)
  have ref: "require_str ?data ''reference'' = Inr (pd_ref d)"
    using assms(4) by (simp add: require_str_def paystack_fields clean_ref_def)
  have "dec (of_int (ngn * 100) / 100) = of_int ngn"
    using dec_scaled [of "ngn * 100" 2] assms(2,3) by simp
  then have amount: "dec (of_int ngn) = (of_int ngn :: rat)" by simp
  have cur: "currency_of ?data = ''NGN''" by (simp add: currency_of_def paystack_fields jor_def) code_simp
  obtain cp n a where cp: "(if ty = ''credit'' then paystack_payer ?data else paystack_recipient ?data) = Inr cp"
    "as_opt_str (cp_name cp) = Inr n" "as_opt_str (cp_account cp) = Inr a"
    using paystack_payer_runs [of ngn "''NGN''" paid_at fees d] paystack_recipient_runs [of ngn "''NGN''" paid_at fees d]
    by (cases "ty = ''credit''") auto
  show ?thesis
    using assms(2,5,6) cp
    by (simp add: normalise_paystack_event_def paystack_fields disp accept_def Let_def the_dict_def ref decimal_field_int
      amount cur to_ngn_def jor_def paystack_note canonical_record_def settled_time_def seen_as_def)
qed

lemma flutterwave_seen:
  assumes "map_of FLUTTERWAVE_EVENTS event = Some ty" and "0 < ngn"
    and "clean_ref (fd_ref d)" and "parse_timestamp (JStr created_at) = Inr t"
  shows "\<exists>r. normalise_flutterwave_event env (flutterwave_payload event ngn ''NGN'' created_at d) = Inr r \<and>
    seen_as r env ''flutterwave'' (fd_ref d) ty ngn t"
proof -
  let ?p = "flutterwave_payload event ngn ''NGN'' created_at d" and ?data = "flutterwave_data ngn ''NGN'' created_at d"
  have st: "map_of FLUTTERWAVE_STATUS (py_lower ''successful'') = Some ''settled''" by code_simp
  have disp: "classify_event ''flutterwave'' event ?p = accept ty ''settled''"
    using assms(1) st by (simp add: classify_event_def flutterwave_fields Let_def)
  have ref: "flutterwave_reference ?data = fd_ref d"
    using assms(3) by (simp add: flutterwave_reference_def flutterwave_fields clean_ref_def jor_def)
  have cur: "currency_of ?data = ''NGN''" by (simp add: currency_of_def flutterwave_fields jor_def) code_simp
  obtain cp n a where cp: "flutterwave_counterparty ?data = Inr cp" "as_opt_str (cp_name cp) = Inr n"
    "as_opt_str (cp_account cp) = Inr a"
    using flutterwave_counterparty_runs by blast
  show ?thesis
    using assms(2,3,4) cp
    by (simp add: normalise_flutterwave_event_def flutterwave_fields disp accept_def Let_def the_dict_def ref decimal_field_int
      cur to_ngn_def canonical_record_def settled_time_def seen_as_def clean_ref_def)
qed

text \<open>
  A credit and a debit of the same amount seen from different PSPs within the primary window are
  paired by the first tier, whichever of the two is the source, when no third transaction is
  pending.
\<close>

lemma pair_matches:
  assumes "config_ok config" and "seen_as r env ''paystack'' ref1 ''credit'' ngn t"
    and "seen_as r' env' ''flutterwave'' ref2 ''debit'' ngn t'" and "e_new_id env \<noteq> e_new_id env'"
    and "\<bar>t - t'\<bar> \<le> primary_time_window config"
  shows "\<exists>m. match_all [to_candidate r, to_candidate r'] config = Inr [m] \<and> source_transaction_id m = e_new_id env \<and>
    matched_transaction_id m = Some (e_new_id env') \<and> mr_strategy m = EXACT_PRIMARY"
proof -
  let ?a = "to_candidate r" and ?b = "to_candidate r'" and ?cs = "[to_candidate r, to_candidate r']"
  have f: "c_id ?a = e_new_id env" "c_id ?b = e_new_id env'" "c_psp ?a = ''paystack''" "c_psp ?b = ''flutterwave''"
    "c_type ?a = ''credit''" "c_type ?b = ''debit''" "c_amount ?a = of_int ngn" "c_amount ?b = of_int ngn"
    "c_initiated ?a = t" "c_initiated ?b = t'" "\<not> already_matched ?a" "\<not> already_matched ?b"
    using assms(2,3) by (simp_all add: to_candidate_def seen_as_def)
  have d: "distinct ?cs" using f assms(4) by auto
  have td: "time_delta ?a ?b \<le> total_seconds (primary_time_window config)"
  proof -
    have neg: "total_seconds (t' - t) = - total_seconds (t - t')"
      using fl.odd [of "of_int (t - t') / 10 ^ 6"] by (simp add: total_seconds_def diff_divide_distrib)
    have "time_delta ?a ?b = total_seconds \<bar>t - t'\<bar>"
    proof (cases "t \<le> t'")
      case True
      then show ?thesis using neg total_seconds_nonneg [of "t' - t"] f by (simp add: time_delta_def)
    next
      case False
      then show ?thesis using total_seconds_nonneg [of "t - t'"] f by (simp add: time_delta_def)
    qed
    then show ?thesis using total_seconds_mono [OF assms(5)] by simp
  qed
  have e: "exact_match ?a ?cs config ?b"
    using f assms(4) td by (auto simp: exact_match_def eligible_def are_complementary_types_def)
  obtain m where m: "run_matching ?a ?cs config = Inr m" "matched_transaction_id m = Some (e_new_id env')" "mr_strategy m = EXACT_PRIMARY"
    using primary_match_complete [OF assms(1) d e] f by auto
  have src: "source_transaction_id m = e_new_id env" using run_matching_source [OF assms(1) m(1)] f by simp
  show ?thesis using m src f by (simp add: match_all_def)
qed

subsection \<open>Running the random source\<close>

text \<open>A computation returns only values of a set.\<close>

definition yields :: "('s, 'a) state \<Rightarrow> ('a \<Rightarrow> bool) \<Rightarrow> bool" where
  "yields m P \<longleftrightarrow> (\<forall>f. P (fst (run_state m f)))"

named_theorems yields_intro

lemma yields_return [yields_intro]: "P x \<Longrightarrow> yields (State_Monad.return x) P"
  by (simp add: yields_def State_Monad.return_def)

lemma yields_bind: "yields m Q \<Longrightarrow> (\<And>x. Q x \<Longrightarrow> yields (k x) P) \<Longrightarrow> yields (State_Monad.bind m k) P"
  by (simp add: yields_def State_Monad.bind_def split_def)

lemma yields_mono: "yields m Q \<Longrightarrow> (\<And>x. Q x \<Longrightarrow> P x) \<Longrightarrow> yields m P"
  by (simp add: yields_def)

lemma yields_any: "yields m (\<lambda>x. True)"
  by (simp add: yields_def)

lemma yields_randint:
  assumes "lo \<le> hi"
  shows "yields (randint lo hi) (\<lambda>i. lo \<le> i \<and> i \<le> hi)"
proof -
  have "lo \<le> lo + int n mod (hi - lo + 1) \<and> lo + int n mod (hi - lo + 1) \<le> hi" for n
    using assms pos_mod_bound [of "hi - lo + 1" "int n"] pos_mod_sign [of "hi - lo + 1" "int n"] by linarith
  then show ?thesis unfolding randint_def by (intro yields_bind [OF yields_any] yields_return)
qed

lemma yields_choice: "xs \<noteq> [] \<Longrightarrow> yields (choice xs) (\<lambda>x. x \<in> set xs)"
  unfolding choice_def by (rule yields_bind [OF yields_any], rule yields_return) simp

lemma yields_repeated: "yields m P \<Longrightarrow> yields (repeated n m) (\<lambda>xs. length xs = n \<and> list_all P xs)"
proof (induction n)
  case (Suc n)
  show ?case unfolding repeated.simps
    by (rule yields_bind [OF Suc.prems], rule yields_bind [OF Suc.IH [OF Suc.prems]], rule yields_return) simp
qed (simp add: yields_return)

text \<open>Generated references are never empty and have no blanks around them.\<close>

lemma hex_char_cases: "hex_char n \<in> set hex_digits"
  unfolding hex_char_def by (rule nth_mem) (simp add: hex_digits_def)

lemma yields_hex: "yields (uuid_hex n) (\<lambda>h. length h = n \<and> set h \<subseteq> set hex_digits)"
proof -
  have "yields (uuid_hex n) (\<lambda>h. length h = n \<and> list_all (\<lambda>c. c \<in> set hex_digits) h)"
    unfolding uuid_hex_def by (intro yields_repeated yields_bind [OF yields_any] yields_return hex_char_cases)
  then show ?thesis by (rule yields_mono) (auto simp: list_all_iff)
qed

lemma clean_refI: "c \<noteq> [] \<Longrightarrow> \<forall>x \<in> set c. \<not> is_space x \<Longrightarrow> clean_ref c"
  unfolding clean_ref_def using py_strip_fixed [of c] by (cases c) auto

lemma hex_blank_free: "c \<in> set hex_digits \<Longrightarrow> \<not> is_space c"
  by (auto simp: hex_digits_def is_space_def code_def)

lemma is_space_to_upper: "is_space (to_upper c) \<longleftrightarrow> is_space c"
  by (auto simp: is_space_def code_to_upper is_lower_def)

lemma yields_paystack_ref: "yields (paystack_ref None) clean_ref"
proof -
  have b: "\<forall>x \<in> set ''T_''. \<not> is_space x" by (simp add: is_space_def code_def)
  have "clean_ref (''T_'' @ h)" if "set h \<subseteq> set hex_digits" for h
  proof (rule clean_refI)
    show "\<forall>x \<in> set (''T_'' @ h). \<not> is_space x" unfolding set_append using b that hex_blank_free by blast
  qed simp
  then have "yields (do { h \<leftarrow> uuid_hex 12; State_Monad.return (''T_'' @ h) }) clean_ref"
    by (intro yields_bind [OF yields_hex] yields_return) blast
  then show ?thesis by (simp only: paystack_ref_def simp_thms if_True)
qed

lemma yields_flutterwave_ref: "yields (flutterwave_ref None) clean_ref"
proof -
  have b: "\<forall>x \<in> set ''FLW-TXN-''. \<not> is_space x" by (simp add: is_space_def code_def)
  have "clean_ref (''FLW-TXN-'' @ py_upper h)" if "set h \<subseteq> set hex_digits" for h
  proof (rule clean_refI)
    have "\<forall>x \<in> set (py_upper h). \<not> is_space x" using that hex_blank_free by (auto simp: py_upper_def is_space_to_upper)
    then show "\<forall>x \<in> set (''FLW-TXN-'' @ py_upper h). \<not> is_space x" unfolding set_append using b by blast
  qed simp
  then have "yields (do { h \<leftarrow> uuid_hex 8; State_Monad.return (''FLW-TXN-'' @ py_upper h) }) clean_ref"
    by (intro yields_bind [OF yields_hex] yields_return) blast
  then show ?thesis by (simp only: flutterwave_ref_def simp_thms if_True)
qed

lemma yields_draw_paystack:
  assumes "yields (paystack_ref reference) P"
  shows "yields (draw_paystack names max_id reference note) (\<lambda>d. P (pd_ref d))"
proof -
  have "P (pd_ref \<lparr>pd_bank = b, pd_name = n, pd_ref = r, pd_id = i, pd_channel = c, pd_account = a, pd_note = t\<rparr>)" if "P r" for b n r i c a t
    using that by simp
  then show ?thesis unfolding draw_paystack_def
    by (intro yields_bind [OF yields_any] yields_bind [OF assms] yields_return)
qed

lemma yields_draw_flutterwave:
  assumes "yields (flutterwave_ref reference) P"
  shows "yields (draw_flutterwave names max_id reference note) (\<lambda>d. P (fd_ref d))"
proof -
  have "P (fd_ref \<lparr>fd_bank = b, fd_name = n, fd_ref = r, fd_id = i, fd_flw_ref = w, fd_account = a, fd_app_fee = p,
      fd_merchant_fee = m, fd_narration = t\<rparr>)" if "P r" for b n r i w a p m t
    using that by simp
  then show ?thesis unfolding draw_flutterwave_def
    by (intro yields_bind [OF yields_any] yields_bind [OF assms] yields_return)
qed

end
