(* ===== verification/Webhook_Client.thy ===== *)
theory Webhook_Client
  imports Sim_Events Ingestion "HOL-Library.Countable"
begin

text \<open>
  What \<open>scripts/simulate_webhooks.py\<close> and \<open>scripts/replay_demo_data.py\<close> share: the signed requests they
  send to the webhook endpoints, and the endpoints as the server they talk to.
\<close>

subsection \<open>Requests\<close>

text \<open>The body is the serialised payload, the credential the HMAC of the body or the shared secret hash.\<close>

definition sign_paystack :: "ingest_settings \<Rightarrow> string \<Rightarrow> string" where
  "sign_paystack keys body = hmac_sha512 keys (paystack_secret_key keys) body"

definition paystack_request :: "ingest_settings \<Rightarrow> string \<Rightarrow> webhook_request" where
  "paystack_request keys body = \<lparr>wr_psp = Paystack, wr_body = body, wr_signature = sign_paystack keys body\<rparr>"

definition flutterwave_request :: "ingest_settings \<Rightarrow> string \<Rightarrow> webhook_request" where
  "flutterwave_request keys body = \<lparr>wr_psp = Flutterwave, wr_body = body, wr_signature = flutterwave_secret_hash keys\<rparr>"

text \<open>The status and the body of a reply; a client call may also raise, which is \<open>None\<close> below.\<close>

type_synonym reply = "nat \<times> json"

type_synonym 's poster = "webhook_request \<Rightarrow> ('s, reply option) state"

fun each :: "('a \<Rightarrow> ('s, 'b) state) \<Rightarrow> 'a list \<Rightarrow> ('s, 'b list) state" where
  "each k [] = State_Monad.return []"
| "each k (x # xs) = do { y \<leftarrow> k x; ys \<leftarrow> each k xs; State_Monad.return (y # ys) }"

lemma yields_each:
  "(\<And>x. yields (k x) (\<lambda>y. f y = g x)) \<Longrightarrow> yields (each k xs) (\<lambda>ys. map f ys = map g xs)"
proof (induction xs)
  case (Cons x xs)
  show ?case unfolding each.simps
    by (rule yields_bind [OF Cons.prems], rule yields_bind [OF Cons.IH [OF Cons.prems]], rule yields_return) simp
qed (simp add: yields_return)

text \<open>A loop that extends a list \<open>n\<close> times.\<close>

definition extended :: "nat \<Rightarrow> ('s, 'a list) state \<Rightarrow> ('s, 'a list) state" where
  "extended n m = do { xss \<leftarrow> repeated n m; State_Monad.return (concat xss) }"

lemma yields_extended_all: "yields m (list_all P) \<Longrightarrow> yields (extended n m) (list_all P)"
  unfolding extended_def
  by (rule yields_bind [OF yields_repeated], assumption, rule yields_return) (auto simp: list_all_iff)

subsection \<open>The endpoints as a server\<close>

text \<open>
  The state of the server: the requests answered so far, the registry and the topic. What the environment
  does to the \<open>n\<close>-th request is the \<open>n\<close>-th entry of \<open>envs\<close>.
\<close>

record api =
  api_calls :: nat
  api_table :: idem_table
  api_topic :: kafka_log

definition webhook_reply :: "exc + bool \<times> string \<Rightarrow> reply" where
  "webhook_reply res = (case res of
     Inr (new, key) \<Rightarrow> (200, JObj [(''status'', JStr ''accepted''), (''is_new'', JBool new), (''idempotency_key'', JStr key)])
   | Inl (HTTPException status detail) \<Rightarrow> (status, JObj [(''detail'', JStr detail)])
   | Inl _ \<Rightarrow> (500, JObj [(''error'', JStr ''internal_server_error'')]))"

definition api_post ::
  "(string \<Rightarrow> json option) \<Rightarrow> ingest_settings \<Rightarrow> (nat \<Rightarrow> ingest_env) \<Rightarrow> (nat \<Rightarrow> string) \<Rightarrow> api poster" where
  "api_post loads cfg envs received r = State (\<lambda>s.
     case receive loads cfg (envs (api_calls s)) (received (api_calls s)) r (api_table s) (api_topic s) of
       (res, t, l) \<Rightarrow> (Some (webhook_reply res), \<lparr>api_calls = Suc (api_calls s), api_table = t, api_topic = l\<rparr>))"

text \<open>The database answers and commits, and the broker acknowledges.\<close>

definition healthy :: "ingest_env \<Rightarrow> bool" where
  "healthy env \<longleftrightarrow> ie_db_up env \<and> ie_commits env \<and> ie_broker env = acked"

text \<open>Signatures are lower-case hexadecimal and not empty, and so is the configured hash of the other PSP.\<close>

definition credentials_ok :: "ingest_settings \<Rightarrow> bool" where
  "credentials_ok cfg \<longleftrightarrow> (\<forall>k m. hmac_sha512 cfg k m \<noteq> [] \<and> py_lower (hmac_sha512 cfg k m) = hmac_sha512 cfg k m) \<and>
     flutterwave_secret_hash cfg \<noteq> []"

lemma requests_valid:
  assumes "credentials_ok cfg"
  shows "validate_signature cfg (wr_psp (paystack_request cfg b)) (wr_body (paystack_request cfg b)) (wr_signature (paystack_request cfg b))"
    "validate_signature cfg (wr_psp (flutterwave_request cfg b)) (wr_body (flutterwave_request cfg b))
      (wr_signature (flutterwave_request cfg b))"
  using assms by (simp_all add: credentials_ok_def paystack_request_def flutterwave_request_def sign_paystack_def
    paystack_signature_def flutterwave_signature_def)

text \<open>A request a server records under a key, whenever it is healthy.\<close>

definition recordable :: "(string \<Rightarrow> json option) \<Rightarrow> ingest_settings \<Rightarrow> webhook_request \<Rightarrow> string \<Rightarrow> bool" where
  "recordable loads cfg r key \<longleftrightarrow> validate_signature cfg (wr_psp r) (wr_body r) (wr_signature r) \<and> pg_text 200 key \<and>
     (\<exists>payload. loads (wr_body r) = Some (JObj payload) \<and>
       (\<forall>received. event_key (build_event cfg (wr_psp r) (wr_body r) payload received) = Inr key))"

lemma receive_recordable:
  assumes "healthy env" and "recordable loads cfg r key"
  shows "\<exists>t2 l2. receive loads cfg env received r t l = (Inr (key \<notin> dom t, key), t2, l2) \<and> dom t2 = insert key (dom t) \<and>
    map kr_key l2 = map kr_key l @ (if key \<in> dom t then [] else [key])"
proof -
  obtain payload where p: "loads (wr_body r) = Some (JObj payload)"
    "event_key (build_event cfg (wr_psp r) (wr_body r) payload received) = Inr key"
    using assms(2) unfolding recordable_def by blast
  have v: "validate_signature cfg (wr_psp r) (wr_body r) (wr_signature r)" "pg_text 200 key"
    using assms(2) unfolding recordable_def by blast+
  let ?e = "build_event cfg (wr_psp r) (wr_body r) payload received"
  obtain t1 new n where reg: "check_and_register_idempotency_key key (ie_now env) t = (t1, new, n)" by (metis prod_cases3)
  have t1: "dom t1 = insert key (dom t)" "new \<longleftrightarrow> key \<notin> dom t"
    using register_dom [of key "ie_now env" t] register_new [of key "ie_now env" t] by (auto simp: reg)
  have pub: "publish acked m klog = (Inr (), klog @ [m])" for m klog
    by (simp add: publish_def acked_def)
  have "ingest_event cfg env ?e t l = (Inr \<lparr>is_new = new, ir_key = key, ir_topic = (if new then Some (topic_of cfg (we_psp ?e)) else None)\<rparr>,
      t1, l @ (if new then [event_message cfg ?e key] else []))"
    using assms(1) p(2) v(2) by (simp add: ingest_event_def session_def register_and_publish_def healthy_def reg pub)
  then have "receive loads cfg env received r t l = (Inr (new, key), t1, l @ (if new then [event_message cfg ?e key] else []))"
    using v(1) p(1) by (simp add: receive_def)
  then show ?thesis using t1 by (auto simp: event_message_key)
qed

text \<open>One request after another, to a server that stays healthy.\<close>

definition posted_keys :: "api \<Rightarrow> string list" where
  "posted_keys s = map kr_key (api_topic s)"

fun publish_order :: "string set \<Rightarrow> string list \<Rightarrow> string list" where
  "publish_order seen [] = []"
| "publish_order seen (k # ks) = (if k \<in> seen then publish_order seen ks else k # publish_order (insert k seen) ks)"

lemma publish_order_props:
  "distinct (publish_order seen ks) \<and> set (publish_order seen ks) = set ks - seen"
  by (induction ks arbitrary: seen) auto

lemma api_post_recordable:
  assumes "\<forall>n. healthy (envs n)" and "recordable loads cfg r key"
  shows "\<exists>s2. run_state (api_post loads cfg envs received r) s =
      (Some (webhook_reply (Inr (key \<notin> dom (api_table s), key))), s2) \<and> dom (api_table s2) = insert key (dom (api_table s)) \<and>
    posted_keys s2 = posted_keys s @ publish_order (dom (api_table s)) [key]"
proof -
  obtain t2 l2 where "receive loads cfg (envs (api_calls s)) (received (api_calls s)) r (api_table s) (api_topic s) =
      (Inr (key \<notin> dom (api_table s), key), t2, l2)" "dom t2 = insert key (dom (api_table s))"
    "map kr_key l2 = map kr_key (api_topic s) @ (if key \<in> dom (api_table s) then [] else [key])"
    using receive_recordable [OF assms(1) [rule_format] assms(2)] by blast
  then show ?thesis by (auto simp: api_post_def posted_keys_def)
qed

lemma publish_order_Cons: "publish_order seen (k # ks) = publish_order seen [k] @ publish_order (insert k seen) ks"
  by (simp add: insert_absorb)

text \<open>
  A client that posts a list of recordable requests and keeps of each reply what \<open>f\<close> makes of it: all keys end
  up in the registry, and each key that was not there is published once, in the order of the requests.
\<close>

lemma each_recordable:
  assumes "\<forall>n. healthy (envs n)" and "list_all2 (\<lambda>x key. recordable loads cfg (req x) key) xs keys"
    and "\<forall>x new key. f x (Some (webhook_reply (Inr (new, key))))"
    and "\<forall>x \<in> set xs. step x = do { reply \<leftarrow> api_post loads cfg envs received (req x); State_Monad.return (f x reply) }"
  shows "\<exists>s2 bs. run_state (each step xs) s = (bs, s2) \<and> bs = replicate (length xs) True \<and>
    dom (api_table s2) = dom (api_table s) \<union> set keys \<and>
    posted_keys s2 = posted_keys s @ publish_order (dom (api_table s)) keys"
  using assms(2,4)
proof (induction xs keys arbitrary: s rule: list_all2_induct)
  case Nil
  then show ?case by (simp add: State_Monad.return_def)
next
  case (Cons x xs key keys)
  obtain s1 where s1: "run_state (api_post loads cfg envs received (req x)) s =
      (Some (webhook_reply (Inr (key \<notin> dom (api_table s), key))), s1)" "dom (api_table s1) = insert key (dom (api_table s))"
    "posted_keys s1 = posted_keys s @ publish_order (dom (api_table s)) [key]"
    using api_post_recordable [OF assms(1) Cons.hyps(1)] by blast
  have "run_state (step x) s = (True, s1)"
    using Cons.prems s1(1) assms(3) by (simp add: State_Monad.bind_def State_Monad.return_def)
  moreover obtain s2 where "run_state (each step xs) s1 = (replicate (length xs) True, s2)"
    "dom (api_table s2) = dom (api_table s1) \<union> set keys"
    "posted_keys s2 = posted_keys s1 @ publish_order (dom (api_table s1)) keys"
    using Cons.IH [of s1] Cons.prems by auto
  ultimately show ?case
    unfolding publish_order_Cons [of _ key keys] using s1(2,3) by (simp add: State_Monad.bind_def State_Monad.return_def)
qed

subsection \<open>The events of the scripts are recordable\<close>

definition short_ref :: "string \<Rightarrow> bool" where
  "short_ref s \<longleftrightarrow> clean_ref s \<and> length s \<le> 100 \<and> CHR 0x00 \<notin> set s"

definition sent_events :: "string list" where
  "sent_events = [''charge.success'', ''transfer.success'', ''charge.completed'', ''transfer.completed'']"

lemma short_key:
  assumes "p \<in> {''paystack'', ''flutterwave''}" and "short_ref ref" and "event \<in> set sent_events"
  shows "pg_text 200 (build_idempotency_key p ref event)"
proof -
  have e: "py_strip (py_lower e) = e \<and> length e \<le> 18 \<and> CHR 0x00 \<notin> set e" if "e \<in> set (''paystack'' # ''flutterwave'' # sent_events)" for e
  proof -
    have "list_all (\<lambda>e. py_strip (py_lower e) = e \<and> length e \<le> 18 \<and> CHR 0x00 \<notin> set e) (''paystack'' # ''flutterwave'' # sent_events)"
      by code_simp
    then show ?thesis unfolding list_all_iff using that by (rule bspec)
  qed
  have "py_strip (py_lower p) = p" "length p \<le> 18" "CHR 0x00 \<notin> set p" using e [of p] assms(1) by auto
  moreover have "py_strip (py_lower event) = event" "length event \<le> 18" "CHR 0x00 \<notin> set event" using e [of event] assms(3) by auto
  moreover have "py_strip ref = ref" "length ref \<le> 100" "CHR 0x00 \<notin> set ref" using assms(2) by (simp_all add: short_ref_def clean_ref_def)
  ultimately show ?thesis by (simp add: pg_text_def build_key_append)
qed

lemma sent_events_nonempty: "event \<in> set sent_events \<Longrightarrow> event \<noteq> []"
  by (auto simp: sent_events_def)

lemma paystack_event_key:
  assumes "short_ref (pd_ref d)" and "event \<in> set sent_events"
  shows "event_key (build_event cfg Paystack body (paystack_payload event ngn currency paid_at fees d) received) =
    Inr (build_idempotency_key ''paystack'' (pd_ref d) event)"
  using assms sent_events_nonempty
  by (simp add: event_key_def build_event_def extract_transaction_ref_def extract_event_type_def paystack_payload_def
    paystack_data_def dict_get_def or_dict_def jor_def short_ref_def clean_ref_def)

lemma flutterwave_event_key:
  assumes "short_ref (fd_ref d)" and "event \<in> set sent_events"
  shows "event_key (build_event cfg Flutterwave body (flutterwave_payload event ngn currency created_at d) received) =
    Inr (build_idempotency_key ''flutterwave'' (fd_ref d) event)"
  using assms sent_events_nonempty
  by (simp add: event_key_def build_event_def extract_transaction_ref_def extract_event_type_def flutterwave_payload_def
    flutterwave_data_def dict_get_def or_dict_def jor_def short_ref_def clean_ref_def)

text \<open>Serialising and parsing a payload gives it back.\<close>

definition json_kept :: "(json \<Rightarrow> string) \<Rightarrow> (string \<Rightarrow> json option) \<Rightarrow> (string \<times> json) list \<Rightarrow> bool" where
  "json_kept dumps loads payload \<longleftrightarrow> loads (dumps (JObj payload)) = Some (JObj payload)"

lemma paystack_recordable:
  assumes "credentials_ok cfg" and "json_kept dumps loads (paystack_payload event ngn currency paid_at fees d)" and "short_ref (pd_ref d)" and "event \<in> set sent_events"
  shows "recordable loads cfg (paystack_request cfg (dumps (JObj (paystack_payload event ngn currency paid_at fees d))))
    (build_idempotency_key ''paystack'' (pd_ref d) event)"
  using assms short_key [of "''paystack''" "pd_ref d" event] requests_valid(1) [OF assms(1)]
    paystack_event_key [OF assms(3,4)]
  by (simp add: recordable_def json_kept_def paystack_request_def)

lemma flutterwave_recordable:
  assumes "credentials_ok cfg" and "json_kept dumps loads (flutterwave_payload event ngn currency created_at d)" and "short_ref (fd_ref d)" and "event \<in> set sent_events"
  shows "recordable loads cfg (flutterwave_request cfg (dumps (JObj (flutterwave_payload event ngn currency created_at d))))
    (build_idempotency_key ''flutterwave'' (fd_ref d) event)"
  using assms short_key [of "''flutterwave''" "fd_ref d" event] requests_valid(2) [OF assms(1)]
    flutterwave_event_key [OF assms(3,4)]
  by (simp add: recordable_def json_kept_def flutterwave_request_def)

text \<open>Generated references are short.\<close>

lemma hex_no_nul: "set h \<subseteq> set hex_digits \<Longrightarrow> CHR 0x00 \<notin> set h \<and> CHR 0x00 \<notin> set (py_upper h)"
proof -
  assume h: "set h \<subseteq> set hex_digits"
  have "list_all (\<lambda>c. c \<noteq> CHR 0x00 \<and> to_upper c \<noteq> CHR 0x00) hex_digits" by code_simp
  then have "c \<noteq> CHR 0x00 \<and> to_upper c \<noteq> CHR 0x00" if "c \<in> set h" for c
    using h that by (auto simp: list_all_iff)
  then show ?thesis unfolding py_upper_def by (metis imageE list.set_map)
qed

lemma yields_and: "yields m P \<Longrightarrow> yields m Q \<Longrightarrow> yields m (\<lambda>x. P x \<and> Q x)"
  by (simp add: yields_def)

lemma yields_short_paystack: "yields (paystack_ref None) short_ref"
proof -
  have "yields (paystack_ref None) (\<lambda>s. length s \<le> 100 \<and> CHR 0x00 \<notin> set s)"
    unfolding paystack_ref_def simp_thms if_True
    by (rule yields_bind [OF yields_hex], rule yields_return) (use hex_no_nul in auto)
  then show ?thesis by (rule yields_mono [OF yields_and [OF yields_paystack_ref]]) (simp add: short_ref_def)
qed

lemma yields_short_flutterwave: "yields (flutterwave_ref None) short_ref"
proof -
  have "yields (flutterwave_ref None) (\<lambda>s. length s \<le> 100 \<and> CHR 0x00 \<notin> set s)"
    unfolding flutterwave_ref_def simp_thms if_True
    by (rule yields_bind [OF yields_hex], rule yields_return) (use hex_no_nul in \<open>auto simp: py_upper_def\<close>)
  then show ?thesis by (rule yields_mono [OF yields_and [OF yields_flutterwave_ref]]) (simp add: short_ref_def)
qed

lemma yields_kept_ref: "reference \<noteq> [] \<Longrightarrow> P reference \<Longrightarrow> yields (paystack_ref (Some reference)) P"
  "reference \<noteq> [] \<Longrightarrow> P reference \<Longrightarrow> yields (flutterwave_ref (Some reference)) P"
  by (simp_all add: paystack_ref_def flutterwave_ref_def yields_return)

subsection \<open>Times in the payloads\<close>

text \<open>The texts of the PSPs name whole seconds: an event drawn at a time is read at that time cut to the second.\<close>

lemma cut_to_second_alt: "cut_to_second t = t - t mod us_second"
proof -
  have e: "us_day * date_of t + clock_of t = t" by (rule date_clock)
  have "(us_day * date_of t + clock_of t) mod us_second = clock_of t mod us_second"
    by (simp add: mod_add_eq [symmetric])
  then have "t mod us_second = clock_of t mod us_second" by (simp only: e)
  then show ?thesis using e div_mult_mod_eq [of "clock_of t" us_second] unfolding cut_to_second_def by linarith
qed

lemma cut_to_second_shift: "cut_to_second (t + k * us_second) = cut_to_second t + k * us_second"
  by (simp add: cut_to_second_alt)

lemma psp_texts_read:
  assumes "min_time \<le> t" and "t \<le> max_time"
  shows "strftime_millis t \<noteq> []" "parse_timestamp (JStr (strftime_millis t)) = Inr (cut_to_second t)"
    "parse_timestamp (JStr (strftime_zulu t)) = Inr (cut_to_second t)"
proof -
  have v: "valid_date (date_of t)" using assms valid_date_range by simp
  then have r: "min_time \<le> cut_to_second t" "cut_to_second t \<le> max_time"
    using valid_date_range [of "cut_to_second t"] cut_to_second_date by simp_all
  show ne: "strftime_millis t \<noteq> []" by (simp add: strftime_millis_def Let_def)
  have ne': "strftime_zulu t \<noteq> []" by (simp add: strftime_zulu_def Let_def)
  show "parse_timestamp (JStr (strftime_millis t)) = Inr (cut_to_second t)"
    using parse_timestamp_at [OF r ne zulu_roundtrip(2) [OF v]] by simp
  show "parse_timestamp (JStr (strftime_zulu t)) = Inr (cut_to_second t)"
    using parse_timestamp_at [OF r ne' zulu_roundtrip(1) [OF v]] by simp
qed

text \<open>A serialisation that can be read back exists: JSON values can be counted.\<close>

instance json :: countable
  by countable_datatype

definition numbered :: "json \<Rightarrow> string" where
  "numbered v = replicate (to_nat v) (CHR ''x'')"

definition read_numbered :: "string \<Rightarrow> json option" where
  "read_numbered s = Some (from_nat (length s))"

lemma numbered_kept: "json_kept numbered read_numbered payload"
  by (simp add: json_kept_def numbered_def read_numbered_def)

end
