(* ===== verification/Demo_Data.thy ===== *)
theory Demo_Data
  imports Webhook_Client Chronology
begin

text \<open>
  \<open>scripts/generate_demo_data.py\<close> and \<open>scripts/replay_demo_data.py\<close>: amounts, times and events of a
  synthetic day, the scenarios, the files written, and their replay to the webhook endpoints.
\<close>

subsection \<open>Amounts and times\<close>

definition DEMO_NAMES :: "string list" where
  "DEMO_NAMES = NIGERIAN_NAMES @ [''Chiamaka Nwosu'', ''Dauda Musa'', ''Folasade Ogun'',
     ''Ibrahim Yakubu'', ''Jumoke Fasola'', ''Kingsley Obi'']"

definition AMOUNT_DISTRIBUTION :: "(int \<times> int \<times> rat) list" where
  "AMOUNT_DISTRIBUTION = [(1000, 10000, fl (30 / 100)), (10000, 100000, fl (45 / 100)),
     (100000, 500000, fl (20 / 100)), (500000, 5000000, fl (5 / 100))]"

definition NARRATIONS :: "string list" where
  "NARRATIONS = [''Monthly subscription'', ''Invoice payment'', ''Airtime purchase'',
     ''Utility bill payment'', ''Product purchase'', ''Service fee'',
     ''Marketplace settlement'', ''Vendor payment'', ''Salary advance'',
     ''Loan repayment'', ''Insurance premium'', ''School fees'',
     ''Rent payment'', ''Transportation fee'', ''Food delivery'']"

text \<open>\<open>round(raw / n) * n\<close>: the float quotient rounded half to even.\<close>

definition round_to :: "int \<Rightarrow> int \<Rightarrow> int" where
  "round_to n raw = rhe (fl (of_int raw / of_int n)) * n"

definition clean_amount :: "int \<Rightarrow> int" where
  "clean_amount raw = (if raw < 5000 then round_to 100 raw else if raw < 100000 then round_to 1000 raw else round_to 10000 raw)"

fun pick_amount :: "rat \<Rightarrow> rat \<Rightarrow> (int \<times> int \<times> rat) list \<Rightarrow> (seed, int) state" where
  "pick_amount r cumulative [] = State_Monad.return 50000"
| "pick_amount r cumulative ((low, high, weight) # ds) = (let c = fl (cumulative + weight) in
     if r \<le> c then do { raw \<leftarrow> randint low high; State_Monad.return (clean_amount raw) } else pick_amount r c ds)"

definition weighted_amount :: "(seed, int) state" where
  "weighted_amount = do { r \<leftarrow> random_unit; pick_amount r 0 AMOUNT_DISTRIBUTION }"

text \<open>\<open>base_date.replace(hour=h, minute=m, second=s)\<close> keeps the microsecond.\<close>

definition replace_clock :: "time \<Rightarrow> int \<Rightarrow> int \<Rightarrow> int \<Rightarrow> time" where
  "replace_clock base h m s = us_day * date_of base + h * us_hour + m * us_minute + s * us_second + clock_of base mod us_second"

definition random_hour :: "bool \<Rightarrow> (seed, int) state" where
  "random_hour business_hours = (if business_hours
     then do { r \<leftarrow> random_unit; if r < fl (80 / 100) then randint 8 17 else choice ([0..7] @ [18..23]) }
     else randint 0 23)"

definition random_timestamp :: "time \<Rightarrow> bool \<Rightarrow> (seed, time) state" where
  "random_timestamp base business_hours = do {
     h \<leftarrow> random_hour business_hours;
     m \<leftarrow> randint 0 59;
     s \<leftarrow> randint 0 59;
     State_Monad.return (replace_clock base h m s) }"

subsection \<open>Events\<close>

record demo_event =
  de_psp :: string
  de_event :: string
  de_timestamp :: string
  de_payload :: "(string \<times> json) list"
  de_late_hours :: "int option"

text \<open>\<open>int(amount_ngn * 0.015) * 100\<close>\<close>

definition demo_fees :: "int \<Rightarrow> int" where
  "demo_fees ngn = py_trunc (fl (of_int ngn * fl (15 / 1000))) * 100"

definition build_paystack_event ::
  "string \<Rightarrow> int \<Rightarrow> time \<Rightarrow> string option \<Rightarrow> string \<Rightarrow> (seed, demo_event) state" where
  "build_paystack_event event ngn ts reference currency = do {
     d \<leftarrow> draw_paystack DEMO_NAMES 9999999 reference (choice NARRATIONS);
     State_Monad.return \<lparr>de_psp = ''paystack'', de_event = event, de_timestamp = isoformat ts,
       de_payload = paystack_payload event ngn currency (strftime_millis ts) (demo_fees ngn) d, de_late_hours = None\<rparr> }"

definition build_flutterwave_event ::
  "string \<Rightarrow> int \<Rightarrow> time \<Rightarrow> string option \<Rightarrow> string \<Rightarrow> (seed, demo_event) state" where
  "build_flutterwave_event event ngn ts reference currency = do {
     d \<leftarrow> draw_flutterwave DEMO_NAMES 9999999 reference (choice NARRATIONS);
     State_Monad.return \<lparr>de_psp = ''flutterwave'', de_event = event, de_timestamp = isoformat ts,
       de_payload = flutterwave_payload event ngn currency (strftime_zulu ts) d, de_late_hours = None\<rparr> }"

subsection \<open>Scenarios\<close>

definition generate_matched_pair :: "time \<Rightarrow> (seed, demo_event list) state" where
  "generate_matched_pair base = do {
     amount \<leftarrow> weighted_amount;
     ts1 \<leftarrow> random_timestamp base True;
     k \<leftarrow> randint 30 300;
     a \<leftarrow> build_paystack_event ''charge.success'' amount ts1 None ''NGN'';
     b \<leftarrow> build_flutterwave_event ''transfer.completed'' amount (ts1 + k * us_second) None ''NGN'';
     State_Monad.return [a, b] }"

definition generate_unmatched :: "time \<Rightarrow> string \<Rightarrow> (seed, demo_event list) state" where
  "generate_unmatched base psp = do {
     amount \<leftarrow> weighted_amount;
     ts \<leftarrow> random_timestamp base True;
     e \<leftarrow> (if psp = ''paystack'' then build_paystack_event ''charge.success'' amount ts None ''NGN''
       else build_flutterwave_event ''charge.completed'' amount ts None ''NGN'');
     State_Monad.return [e] }"

text \<open>\<open>int(amount * (1 + variance))\<close>\<close>

definition varied_amount :: "int \<Rightarrow> rat \<Rightarrow> int" where
  "varied_amount amount variance = py_trunc (fl (of_int amount * fl (1 + variance)))"

definition generate_fx_variance :: "time \<Rightarrow> (seed, demo_event list) state" where
  "generate_fx_variance base = do {
     amount \<leftarrow> weighted_amount;
     variance \<leftarrow> uniform (fl (2 / 1000)) (fl (8 / 1000));
     ts1 \<leftarrow> random_timestamp base True;
     k \<leftarrow> randint 60 600;
     a \<leftarrow> build_paystack_event ''charge.success'' amount ts1 None ''NGN'';
     b \<leftarrow> build_flutterwave_event ''transfer.completed'' (varied_amount amount variance) (ts1 + k * us_second) None ''NGN'';
     State_Monad.return [a, b] }"

definition generate_duplicate :: "time \<Rightarrow> (seed, demo_event list) state" where
  "generate_duplicate base = do {
     amount \<leftarrow> weighted_amount;
     ts \<leftarrow> random_timestamp base True;
     ref \<leftarrow> paystack_ref None;
     e \<leftarrow> build_paystack_event ''charge.success'' amount ts (Some ref) ''NGN'';
     State_Monad.return [e, e] }"

definition generate_cross_border :: "time \<Rightarrow> (seed, demo_event list) state" where
  "generate_cross_border base = do {
     currency \<leftarrow> choice [''USD'', ''GBP'', ''EUR''];
     amount \<leftarrow> choice (if currency = ''USD'' then [10, 25, 50, 100, 250, 500]
       else if currency = ''GBP'' then [10, 20, 50, 100, 200] else [10, 25, 50, 100, 250]);
     ts \<leftarrow> random_timestamp base True;
     e \<leftarrow> build_paystack_event ''charge.success'' amount ts None currency;
     State_Monad.return [e] }"

text \<open>The settlement time computed from the delay is used nowhere; the delay is noted outside the payload.\<close>

definition generate_late_settlement :: "time \<Rightarrow> (seed, demo_event list) state" where
  "generate_late_settlement base = do {
     amount \<leftarrow> weighted_amount;
     ts1 \<leftarrow> random_timestamp base True;
     delay_hours \<leftarrow> randint 48 120;
     e \<leftarrow> build_paystack_event ''transfer.success'' amount ts1 None ''NGN'';
     State_Monad.return [e\<lparr>de_late_hours := Some delay_hours\<rparr>] }"

subsection \<open>A day\<close>

definition multiplier :: "time \<Rightarrow> rat" where
  "multiplier d = (if 5 \<le> weekday (date_of d) then fl (3 / 10) else 1)"

definition times_of :: "int \<Rightarrow> time \<Rightarrow> nat" where
  "times_of n d = nat (py_trunc (fl (of_int n * multiplier d)))"

definition generate_day :: "time \<Rightarrow> (seed, demo_event list) state" where
  "generate_day d = do {
     matched \<leftarrow> extended (times_of 70 d) (generate_matched_pair d);
     paystack \<leftarrow> extended (times_of 10 d) (generate_unmatched d ''paystack'');
     flutterwave \<leftarrow> extended (times_of 5 d) (generate_unmatched d ''flutterwave'');
     fx \<leftarrow> extended (times_of 5 d) (generate_fx_variance d);
     late \<leftarrow> extended (times_of 3 d) (generate_late_settlement d);
     duplicates \<leftarrow> extended (times_of 2 d) (generate_duplicate d);
     cross \<leftarrow> extended (times_of 5 d) (generate_cross_border d);
     State_Monad.return (sort_key de_timestamp (matched @ paystack @ flutterwave @ fx @ late @ duplicates @ cross)) }"

subsection \<open>Exchange rates\<close>

record rate_snapshot =
  rs_pair :: string
  rs_rate :: rat
  rs_provider :: string
  rs_captured :: string

definition FX_RATES :: "(string \<times> rat) list" where
  "FX_RATES = [(''NGN/USD'', 63 / 100000), (''NGN/GBP'', 50 / 100000), (''NGN/EUR'', 58 / 100000)]"

text \<open>
  \<open>decimal_str\<close> is \<open>Decimal(str(x))\<close>, the shortest decimal that denotes the float; \<open>now\<close> is the clock each
  time it is read.
\<close>

definition snapshot :: "(rat \<Rightarrow> rat) \<Rightarrow> time \<Rightarrow> string \<times> rat \<Rightarrow> (seed, rate_snapshot) state" where
  "snapshot decimal_str d pr = do {
     v \<leftarrow> uniform (- fl (5 / 1000)) (fl (5 / 1000));
     State_Monad.return \<lparr>rs_pair = fst pr, rs_rate = quant 7 (dec (snd pr * dec (1 + decimal_str v))),
       rs_provider = ''exchangerate-api'',
       rs_captured = isoformat (us_day * date_of d + 2 * us_hour + clock_of d mod us_minute)\<rparr> }"

definition day_offsets :: "int \<Rightarrow> int list" where
  "day_offsets days = rev [0..days]"

definition generate_fx_history :: "(rat \<Rightarrow> rat) \<Rightarrow> (int \<Rightarrow> time) \<Rightarrow> int \<Rightarrow> (seed, rate_snapshot list) state" where
  "generate_fx_history decimal_str now days = do {
     xss \<leftarrow> each (\<lambda>k. each (snapshot decimal_str (now k - k * us_day)) FX_RATES) (day_offsets days);
     State_Monad.return (concat xss) }"

subsection \<open>Files\<close>

datatype demo_file =
    DayFile "demo_event list"
  | RatesFile "rate_snapshot list"
  | SummaryFile string int nat nat nat nat
  | OtherFile string

type_synonym directory = "string \<rightharpoonup> demo_file"

text \<open>\<open>glob("day_*.json")\<close>\<close>

definition is_day_file :: "string \<Rightarrow> bool" where
  "is_day_file f \<longleftrightarrow> 9 \<le> length f \<and> take 4 f = ''day_'' \<and> drop (length f - 5) f = ''.json''"

definition day_file :: "time \<Rightarrow> string" where
  "day_file d = ''day_'' @ iso_date_text (date_of d) @ ''.json''"

definition midnight :: "time \<Rightarrow> time" where
  "midnight t = us_day * date_of t"

definition remove_stale :: "directory \<Rightarrow> directory" where
  "remove_stale dir = (\<lambda>f. if is_day_file f then None else dir f)"

definition generate_days :: "time \<Rightarrow> int \<Rightarrow> (seed, (time \<times> demo_event list) list) state" where
  "generate_days now days = each (\<lambda>k. do {
     let d = midnight (now - k * us_day);
     es \<leftarrow> generate_day d;
     State_Monad.return (d, es) }) (day_offsets days)"

definition write_days :: "(time \<times> demo_event list) list \<Rightarrow> directory \<Rightarrow> directory" where
  "write_days ds dir = fold (\<lambda>(d, es) dir. dir(day_file d \<mapsto> DayFile es)) ds dir"

definition of_psp :: "string \<Rightarrow> demo_event list \<Rightarrow> nat" where
  "of_psp psp es = length (filter (\<lambda>e. de_psp e = psp) es)"

definition generate :: "(rat \<Rightarrow> rat) \<Rightarrow> time \<Rightarrow> (int \<Rightarrow> time) \<Rightarrow> int \<Rightarrow> directory \<Rightarrow> (seed, directory) state" where
  "generate decimal_str now later days dir = do {
     ds \<leftarrow> generate_days now days;
     fx \<leftarrow> generate_fx_history decimal_str later days;
     let all = concat (map snd ds);
     State_Monad.return ((write_days ds (remove_stale dir))
       (''fx_rates.json'' \<mapsto> RatesFile fx,
        ''summary.json'' \<mapsto> SummaryFile (isoformat now) days (length all) (length fx) (of_psp ''paystack'' all)
          (of_psp ''flutterwave'' all))) }"

subsection \<open>Replay\<close>

text \<open>
  A replayed event is posted when its PSP is known, and counts as replayed when the reply says so; a client
  call that raised is a failure. \<open>dumps\<close> is \<open>json.dumps\<close>, \<open>post\<close> the HTTP client and what is behind it.
\<close>

definition replay_request :: "(json \<Rightarrow> string) \<Rightarrow> ingest_settings \<Rightarrow> demo_event \<Rightarrow> webhook_request option" where
  "replay_request dumps keys e = (let body = dumps (JObj (de_payload e)) in
     if de_psp e = ''paystack'' then Some (paystack_request keys body)
     else if de_psp e = ''flutterwave'' then Some (flutterwave_request keys body)
     else None)"

definition replayed :: "reply option \<Rightarrow> bool" where
  "replayed reply = (case reply of None \<Rightarrow> False | Some (status, body) \<Rightarrow> status \<in> {200, 201, 202})"

definition replay_event :: "(json \<Rightarrow> string) \<Rightarrow> ingest_settings \<Rightarrow> 's poster \<Rightarrow> demo_event \<Rightarrow> ('s, bool) state" where
  "replay_event dumps keys post e = (case replay_request dumps keys e of
     None \<Rightarrow> State_Monad.return False
   | Some r \<Rightarrow> do { reply \<leftarrow> post r; State_Monad.return (replayed reply) })"

text \<open>
  The day files in the order of their names, one without a list of events skipped, and the totals printed at
  the end.
\<close>

definition day_events :: "directory \<Rightarrow> string list \<Rightarrow> demo_event list" where
  "day_events dir names = concat (map (\<lambda>f. case dir f of Some (DayFile es) \<Rightarrow> es | _ \<Rightarrow> []) (sort (filter is_day_file names)))"

definition replay :: "(json \<Rightarrow> string) \<Rightarrow> ingest_settings \<Rightarrow> 's poster \<Rightarrow> directory \<Rightarrow> string list \<Rightarrow> ('s, nat \<times> nat) state" where
  "replay dumps keys post dir names = do {
     oks \<leftarrow> each (replay_event dumps keys post) (day_events dir names);
     State_Monad.return (length (filter id oks), length (filter Not oks)) }"

subsection \<open>Bounds of what is drawn\<close>

lemma round_to_bounds:
  assumes "lo * n \<le> raw" and "raw \<le> hi * n" and "0 < n" and "0 \<le> lo" "hi \<le> 10 ^ 15"
  shows "lo * n \<le> round_to n raw \<and> round_to n raw \<le> hi * n"
proof -
  let ?q = "of_int raw / of_int n :: rat"
  have "of_int (lo * n) \<le> (of_int raw :: rat)" "of_int raw \<le> (of_int (hi * n) :: rat)" using assms(1,2) by (simp_all only: of_int_le_iff)
  then have q: "of_int lo \<le> ?q" "?q \<le> of_int hi" using assms(3) by (simp_all add: field_simps)
  then have "(of_int lo :: rat) \<le> of_int hi" by linarith
  then have "lo \<le> hi" by simp
  then have b: "\<bar>lo\<bar> \<le> 2 ^ 53" "\<bar>hi\<bar> \<le> 2 ^ 53" using assms(4,5) by simp_all
  have "lo \<le> rhe (fl ?q)" "rhe (fl ?q) \<le> hi"
    using fl.ge_fixed [OF q(1) fl_int [OF b(1)]] fl.le_fixed [OF q(2) fl_int [OF b(2)]]
    by (simp_all add: rhe_ge_of_int rhe_le_of_int)
  then show ?thesis using assms(3) by (simp add: round_to_def mult_right_mono)
qed

lemma clean_amount_bounds:
  assumes "1000 \<le> raw" and "raw \<le> 5000000"
  shows "0 < clean_amount raw \<and> clean_amount raw \<le> 5000000"
proof -
  consider "raw < 5000" | "5000 \<le> raw" "raw < 100000" | "100000 \<le> raw" by linarith
  then show ?thesis
  proof cases
    case 1
    then show ?thesis using round_to_bounds [of 10 100 raw 50] assms by (simp add: clean_amount_def)
  next
    case 2
    then show ?thesis using round_to_bounds [of 5 1000 raw 100] by (simp add: clean_amount_def)
  next
    case 3
    then show ?thesis using round_to_bounds [of 10 10000 raw 500] assms by (simp add: clean_amount_def)
  qed
qed

definition good_amount :: "int \<Rightarrow> bool" where
  "good_amount n \<longleftrightarrow> 0 < n \<and> n \<le> 5000000"

lemma yields_pick_amount:
  "\<forall>(low, high, w) \<in> set ds. 1000 \<le> low \<and> low \<le> high \<and> high \<le> 5000000 \<Longrightarrow> yields (pick_amount r c ds) good_amount"
proof (induction ds arbitrary: c)
  case (Cons x ds)
  obtain low high w where x: "x = (low, high, w)" by (metis prod_cases3)
  have b: "1000 \<le> low" "low \<le> high" "high \<le> 5000000" using Cons.prems by (simp_all add: x)
  have "good_amount (clean_amount raw)" if "low \<le> raw \<and> raw \<le> high" for raw
    using clean_amount_bounds [of raw] that b by (simp add: good_amount_def)
  then have "yields (do { raw \<leftarrow> randint low high; State_Monad.return (clean_amount raw) }) good_amount"
    by (intro yields_bind [OF yields_randint [OF b(2)]] yields_return)
  moreover have "yields (pick_amount r (fl (c + w)) ds) good_amount" using Cons by simp
  ultimately show ?case by (simp add: x Let_def)
qed (simp add: yields_return good_amount_def)

lemma yields_weighted_amount: "yields weighted_amount good_amount"
  unfolding weighted_amount_def
  by (intro yields_bind [OF yields_any] yields_pick_amount) (simp add: AMOUNT_DISTRIBUTION_def)

lemma replace_clock_bounds:
  assumes "0 \<le> h" "h \<le> 23" "0 \<le> m" "m \<le> 59" "0 \<le> s" "s \<le> 59"
  shows "midnight base \<le> replace_clock base h m s \<and> replace_clock base h m s < midnight base + us_day"
proof -
  have "0 \<le> clock_of base mod us_second" "clock_of base mod us_second < us_second" by simp_all
  then show ?thesis using assms unfolding replace_clock_def midnight_def by linarith
qed

lemma yields_random_timestamp:
  "yields (random_timestamp base business) (\<lambda>t. midnight base \<le> t \<and> t < midnight base + us_day)"
proof -
  have "set ([0..7] @ [18..23]) \<subseteq> {0..23 :: int}" by auto
  then have "yields (choice ([0..7] @ [18..23])) (\<lambda>h. 0 \<le> h \<and> h \<le> 23)"
    by (intro yields_mono [OF yields_choice]) auto
  moreover have "yields (randint 8 17) (\<lambda>h. 0 \<le> h \<and> h \<le> 23)" by (rule yields_mono [OF yields_randint]) auto
  ultimately have "yields (if r < fl (80 / 100) then randint 8 17 else choice ([0..7] @ [18..23])) (\<lambda>h. 0 \<le> h \<and> h \<le> 23)" for r
    by simp
  moreover have "yields (randint 0 23) (\<lambda>h. 0 \<le> h \<and> h \<le> 23)" by (rule yields_randint) simp
  ultimately have h: "yields (random_hour business) (\<lambda>h. 0 \<le> h \<and> h \<le> 23)"
    unfolding random_hour_def by (auto intro: yields_bind [OF yields_any])
  have n: "yields (randint 0 59) (\<lambda>i. 0 \<le> i \<and> i \<le> 59)" by (rule yields_randint) simp
  show ?thesis
    unfolding random_timestamp_def
    by (intro yields_bind [OF h] yields_bind [OF n] yields_return replace_clock_bounds) auto
qed

subsection \<open>A matched pair\<close>

text \<open>What is generated of one event.\<close>

definition paystack_event_at :: "string \<Rightarrow> int \<Rightarrow> time \<Rightarrow> demo_event \<Rightarrow> bool" where
  "paystack_event_at event ngn ts e \<longleftrightarrow> de_psp e = ''paystack'' \<and> (\<exists>fees d. clean_ref (pd_ref d) \<and>
     de_payload e = paystack_payload event ngn ''NGN'' (strftime_millis ts) fees d)"

definition flutterwave_event_at :: "string \<Rightarrow> int \<Rightarrow> time \<Rightarrow> demo_event \<Rightarrow> bool" where
  "flutterwave_event_at event ngn ts e \<longleftrightarrow> de_psp e = ''flutterwave'' \<and> (\<exists>d. clean_ref (fd_ref d) \<and>
     de_payload e = flutterwave_payload event ngn ''NGN'' (strftime_zulu ts) d)"

lemma yields_paystack_event: "yields (build_paystack_event event ngn ts None ''NGN'') (paystack_event_at event ngn ts)"
  unfolding build_paystack_event_def
  by (intro yields_bind [OF yields_draw_paystack [OF yields_paystack_ref]] yields_return) (auto simp: paystack_event_at_def)

lemma yields_flutterwave_event:
  "yields (build_flutterwave_event event ngn ts None ''NGN'') (flutterwave_event_at event ngn ts)"
  unfolding build_flutterwave_event_def
  by (intro yields_bind [OF yields_draw_flutterwave [OF yields_flutterwave_ref]] yields_return)
    (auto simp: flutterwave_event_at_def)

lemma yields_matched_pair:
  "yields (generate_matched_pair base) (\<lambda>es. \<exists>a b ngn ts k. es = [a, b] \<and> good_amount ngn \<and>
     midnight base \<le> ts \<and> ts < midnight base + us_day \<and> 30 \<le> k \<and> k \<le> 300 \<and>
     paystack_event_at ''charge.success'' ngn ts a \<and> flutterwave_event_at ''transfer.completed'' ngn (ts + k * us_second) b)"
  unfolding generate_matched_pair_def
  by (intro yields_bind [OF yields_weighted_amount] yields_bind [OF yields_random_timestamp] yields_bind [OF yields_randint]
    yields_bind [OF yields_paystack_event] yields_bind [OF yields_flutterwave_event] yields_return) auto

text \<open>
  A generated pair reconciles: whatever the random source, the credit and the debit that
  generate_matched_pair makes for a day normalise without error to records of the same amount whose
  times differ by at most five minutes, and matching pairs them in its first tier whenever the
  configured window is at least that wide.
\<close>

theorem demo_pair_reconciles:
  assumes "config_ok config" and "300 * us_second \<le> primary_time_window config"
    and "min_time \<le> midnight base" and "midnight base + 2 * us_day \<le> max_time" and "e_new_id env \<noteq> e_new_id env'"
  shows "\<exists>a b r r' m. fst (run_state (generate_matched_pair base) s) = [a, b] \<and>
    normalise_paystack_event env (de_payload a) = Inr r \<and> normalise_flutterwave_event env' (de_payload b) = Inr r' \<and>
    0 < amount_ngn r \<and> amount_ngn r' = amount_ngn r \<and> \<bar>initiated_at r' - initiated_at r\<bar> \<le> 300 * us_second \<and>
    match_all [to_candidate r, to_candidate r'] config = Inr [m] \<and> source_transaction_id m = tx_id r \<and>
    matched_transaction_id m = Some (tx_id r') \<and> mr_strategy m = EXACT_PRIMARY"
proof -
  obtain a b ngn ts k where g: "fst (run_state (generate_matched_pair base) s) = [a, b]" "good_amount ngn"
    "midnight base \<le> ts" "ts < midnight base + us_day" "30 \<le> k" "k \<le> 300"
    "paystack_event_at ''charge.success'' ngn ts a" "flutterwave_event_at ''transfer.completed'' ngn (ts + k * us_second) b"
    using yields_matched_pair [of base] unfolding yields_def by blast
  have n: "0 < ngn" "ngn \<le> 10 ^ 20" using g(2) by (simp_all add: good_amount_def)
  have t: "min_time \<le> ts" "ts \<le> max_time" "min_time \<le> ts + k * us_second" "ts + k * us_second \<le> max_time"
    using assms(3,4) g(3-6) by linarith+
  have ev: "map_of PAYSTACK_EVENTS ''charge.success'' = Some (''credit'', ''settled'')"
    "map_of FLUTTERWAVE_EVENTS ''transfer.completed'' = Some ''debit''" by code_simp+
  obtain d fees where d: "clean_ref (pd_ref d)" "de_payload a = paystack_payload ''charge.success'' ngn ''NGN'' (strftime_millis ts) fees d"
    using g(7) unfolding paystack_event_at_def by blast
  obtain d' where d': "clean_ref (fd_ref d')"
    "de_payload b = flutterwave_payload ''transfer.completed'' ngn ''NGN'' (strftime_zulu (ts + k * us_second)) d'"
    using g(8) unfolding flutterwave_event_at_def by blast
  obtain r where r: "normalise_paystack_event env (de_payload a) = Inr r"
    "seen_as r env ''paystack'' (pd_ref d) ''credit'' ngn (cut_to_second ts)"
    using paystack_seen [OF ev(1) n d(1) psp_texts_read(1,2) [OF t(1,2)], of env fees] d(2) by metis
  obtain r' where r': "normalise_flutterwave_event env' (de_payload b) = Inr r'"
    "seen_as r' env' ''flutterwave'' (fd_ref d') ''debit'' ngn (cut_to_second ts + k * us_second)"
    using flutterwave_seen [OF ev(2) n(1) d'(1) psp_texts_read(3) [OF t(3,4)], of env'] d'(2) cut_to_second_shift by metis
  have "\<bar>cut_to_second ts - (cut_to_second ts + k * us_second)\<bar> \<le> primary_time_window config" using g(5,6) assms(2) by linarith
  from pair_matches [OF assms(1) r(2) r'(2) assms(5) this]
  obtain m where m: "match_all [to_candidate r, to_candidate r'] config = Inr [m]" "source_transaction_id m = e_new_id env"
    "matched_transaction_id m = Some (e_new_id env')" "mr_strategy m = EXACT_PRIMARY" by blast
  have "0 < amount_ngn r \<and> amount_ngn r' = amount_ngn r \<and> \<bar>initiated_at r' - initiated_at r\<bar> \<le> 300 * us_second"
    "tx_id r = e_new_id env" "tx_id r' = e_new_id env'"
    using r(2) r'(2) n g(5,6) by (simp_all add: seen_as_def)
  then show ?thesis using g(1) r(1) r'(1) m by metis
qed

theorem demo_pair_reconciles_witness:
  "\<exists>a b r r' m. fst (run_state (generate_matched_pair (20000 * us_day)) (\<lambda>i. i * i + 7)) = [a, b] \<and>
    normalise_paystack_event (Normaliser.example_env\<lparr>e_new_id := 1\<rparr>) (de_payload a) = Inr r \<and>
    normalise_flutterwave_event (Normaliser.example_env\<lparr>e_new_id := 2\<rparr>) (de_payload b) = Inr r' \<and>
    match_all [to_candidate r, to_candidate r'] DEFAULT_CONFIG = Inr [m] \<and> mr_strategy m = EXACT_PRIMARY"
proof -
  have r: "300 * us_second \<le> primary_time_window DEFAULT_CONFIG" by (simp add: DEFAULT_CONFIG_def)
  have m: "min_time \<le> midnight (20000 * us_day)" "midnight (20000 * us_day) + 2 * us_day \<le> max_time" by code_simp+
  show ?thesis
    using demo_pair_reconciles [OF default_config_ok r m, of "Normaliser.example_env\<lparr>e_new_id := 1\<rparr>" "Normaliser.example_env\<lparr>e_new_id := 2\<rparr>"
      "\<lambda>i. i * i + 7"] by auto
qed

subsection \<open>A generated day\<close>

text \<open>A list of events of a day: how many of each PSP, each named by a time of the day or shortly after it.\<close>

definition time_of_day :: "time \<Rightarrow> time \<Rightarrow> bool" where
  "time_of_day d t \<longleftrightarrow> midnight d \<le> t \<and> t < midnight d + us_day + 600 * us_second"

definition scenario :: "time \<Rightarrow> nat \<Rightarrow> nat \<Rightarrow> demo_event list \<Rightarrow> bool" where
  "scenario d p q es \<longleftrightarrow> length es = p + q \<and> of_psp ''paystack'' es = p \<and> of_psp ''flutterwave'' es = q \<and>
     (\<exists>ts. map de_timestamp es = map isoformat ts \<and> list_all (time_of_day d) ts)"

lemma scenario_Nil: "scenario d 0 0 []"
  by (simp add: scenario_def of_psp_def)

lemma scenario_append: 
  assumes "scenario d p q xs" and "scenario d p' q' ys"
  shows "scenario d (p + p') (q + q') (xs @ ys)"
proof -
  obtain ts us where "map de_timestamp xs = map isoformat ts" "list_all (time_of_day d) ts"
    "map de_timestamp ys = map isoformat us" "list_all (time_of_day d) us" using assms unfolding scenario_def by blast
  then have "map de_timestamp (xs @ ys) = map isoformat (ts @ us) \<and> list_all (time_of_day d) (ts @ us)" by simp
  then have "\<exists>ts. map de_timestamp (xs @ ys) = map isoformat ts \<and> list_all (time_of_day d) ts" by blast
  moreover have "of_psp psp (xs @ ys) = of_psp psp xs + of_psp psp ys" for psp by (simp add: of_psp_def)
  ultimately show ?thesis using assms unfolding scenario_def by simp
qed

lemma scenario_concat: "list_all (scenario d p q) xss \<Longrightarrow> scenario d (length xss * p) (length xss * q) (concat xss)"
  by (induction xss) (auto simp: scenario_Nil intro: scenario_append)

definition event_seen :: "string \<Rightarrow> time \<Rightarrow> demo_event \<Rightarrow> bool" where
  "event_seen psp t e \<longleftrightarrow> de_psp e = psp \<and> de_timestamp e = isoformat t"

lemma scenario_Cons:
  assumes "event_seen psp t e" and "time_of_day d t" and "scenario d p q es"
  shows "psp = ''paystack'' \<Longrightarrow> scenario d (Suc p) q (e # es)" "psp = ''flutterwave'' \<Longrightarrow> scenario d p (Suc q) (e # es)"
proof -
  obtain ts where "map de_timestamp es = map isoformat ts" "list_all (time_of_day d) ts" using assms(3) unfolding scenario_def by blast
  then have "map de_timestamp (e # es) = map isoformat (t # ts) \<and> list_all (time_of_day d) (t # ts)"
    using assms(1,2) by (simp add: event_seen_def)
  then have t: "\<exists>ts. map de_timestamp (e # es) = map isoformat ts \<and> list_all (time_of_day d) ts" by blast
  show "scenario d (Suc p) q (e # es)" if "psp = ''paystack''"
    using t that assms(1,3) unfolding scenario_def of_psp_def event_seen_def by simp
  show "scenario d p (Suc q) (e # es)" if "psp = ''flutterwave''"
    using t that assms(1,3) unfolding scenario_def of_psp_def event_seen_def by simp
qed

lemma yields_paystack_seen: "yields (build_paystack_event event ngn ts reference currency) (event_seen ''paystack'' ts)"
  unfolding build_paystack_event_def by (intro yields_bind [OF yields_any] yields_return) (simp add: event_seen_def)

lemma yields_flutterwave_seen: "yields (build_flutterwave_event event ngn ts reference currency) (event_seen ''flutterwave'' ts)"
  unfolding build_flutterwave_event_def by (intro yields_bind [OF yields_any] yields_return) (simp add: event_seen_def)

lemma yields_time_of_day: "yields (random_timestamp d business) (time_of_day d)"
  by (rule yields_mono [OF yields_random_timestamp]) (auto simp: time_of_day_def)

lemma yields_extended:
  assumes "yields m (scenario d p q)"
  shows "yields (extended n m) (scenario d (n * p) (n * q))"
  unfolding extended_def
  by (rule yields_bind [OF yields_repeated [OF assms]], rule yields_return) (metis scenario_concat)

lemma scenario_pair:
  assumes "event_seen ''paystack'' t a" "event_seen ''flutterwave'' t' b" "time_of_day d t" "time_of_day d t'"
  shows "scenario d 1 1 [a, b]"
  using scenario_Cons(1) [OF assms(1,3) scenario_Cons(2) [OF assms(2,4) scenario_Nil]] by simp

lemma scenario_one:
  "event_seen ''paystack'' t a \<Longrightarrow> time_of_day d t \<Longrightarrow> scenario d 1 0 [a]"
  "event_seen ''flutterwave'' t a \<Longrightarrow> time_of_day d t \<Longrightarrow> scenario d 0 1 [a]"
  "event_seen ''paystack'' t a \<Longrightarrow> time_of_day d t \<Longrightarrow> scenario d 2 0 [a, a]"
  using scenario_Cons [OF _ _ scenario_Nil] scenario_Cons(1) [OF _ _ scenario_Cons(1) [OF _ _ scenario_Nil]]
  by (simp_all add: numeral_2_eq_2)

lemma time_of_day_later:
  "midnight d \<le> t \<and> t < midnight d + us_day \<Longrightarrow> 0 \<le> k \<Longrightarrow> k \<le> 600 \<Longrightarrow> time_of_day d (t + k * us_second)"
  unfolding time_of_day_def by linarith

lemma yields_scenarios:
  "yields (generate_matched_pair d) (scenario d 1 1)"
  "yields (generate_fx_variance d) (scenario d 1 1)"
  "yields (generate_unmatched d ''paystack'') (scenario d 1 0)"
  "yields (generate_unmatched d ''flutterwave'') (scenario d 0 1)"
  "yields (generate_late_settlement d) (scenario d 1 0)"
  "yields (generate_duplicate d) (scenario d 2 0)"
  "yields (generate_cross_border d) (scenario d 1 0)"
proof -
  note s = yields_bind [OF yields_any] yields_return yields_bind [OF yields_paystack_seen]
    yields_bind [OF yields_flutterwave_seen]
  note rt = yields_random_timestamp [of d True]
  show "yields (generate_matched_pair d) (scenario d 1 1)"
    unfolding generate_matched_pair_def
    by (intro yields_bind [OF yields_any [of weighted_amount]] yields_bind [OF rt] yields_bind [OF yields_randint]
      yields_bind [OF yields_paystack_seen] yields_bind [OF yields_flutterwave_seen] yields_return scenario_pair
      time_of_day_later) (auto simp: time_of_day_def)
  show "yields (generate_fx_variance d) (scenario d 1 1)"
    unfolding generate_fx_variance_def
    by (intro yields_bind [OF yields_any [of weighted_amount]] yields_bind [OF yields_any [of "uniform _ _"]] yields_bind [OF rt]
      yields_bind [OF yields_randint] yields_bind [OF yields_paystack_seen] yields_bind [OF yields_flutterwave_seen]
      yields_return scenario_pair time_of_day_later) (auto simp: time_of_day_def)
  note td = yields_bind [OF yields_time_of_day]
  show "yields (generate_unmatched d ''paystack'') (scenario d 1 0)"
    "yields (generate_unmatched d ''flutterwave'') (scenario d 0 1)"
    unfolding generate_unmatched_def
    by (intro yields_bind [OF yields_any [of weighted_amount]] td yields_bind [of _ "event_seen ''paystack'' _"]
      yields_return scenario_one(1); simp add: yields_paystack_seen)
      (intro yields_bind [OF yields_any [of weighted_amount]] td yields_bind [of _ "event_seen ''flutterwave'' _"]
      yields_return scenario_one(2); simp add: yields_flutterwave_seen)
  show "yields (generate_late_settlement d) (scenario d 1 0)"
    unfolding generate_late_settlement_def
    by (intro yields_bind [OF yields_any [of weighted_amount]] td yields_bind [OF yields_any [of "randint _ _"]]
      yields_bind [OF yields_paystack_seen] yields_return scenario_one(1)) (simp_all add: event_seen_def)
  show "yields (generate_duplicate d) (scenario d 2 0)"
    unfolding generate_duplicate_def
    by (intro yields_bind [OF yields_any [of weighted_amount]] td yields_bind [OF yields_any [of "paystack_ref _"]]
      yields_bind [OF yields_paystack_seen] yields_return scenario_one(3)) simp_all
  show "yields (generate_cross_border d) (scenario d 1 0)"
    unfolding generate_cross_border_def
    by (intro yields_bind [OF yields_any [of "choice _"]] td yields_bind [OF yields_paystack_seen] yields_return
      scenario_one(1)) simp_all
qed

definition weekend_times :: "rat \<Rightarrow> nat" where
  "weekend_times x = nat (py_trunc (fl (x * fl (3 / 10))))"

lemma times_of_values: "times_of n d = (if 5 \<le> weekday (date_of d) then weekend_times (of_int n) else nat (py_trunc (fl (of_int n))))"
  by (simp add: times_of_def multiplier_def weekend_times_def)

lemma weekend_counts: "weekend_times 70 = 21" "weekend_times 10 = 3" "weekend_times 5 = 1" "weekend_times 3 = 0" "weekend_times 2 = 0"
  by code_simp+

lemma times_of_day_counts:
  "map (\<lambda>n. times_of n d) [70, 10, 5, 5, 3, 2, 5] =
     (if 5 \<le> weekday (date_of d) then [21, 3, 1, 1, 0, 0, 1] else [70, 10, 5, 5, 3, 2, 5])"
proof -
  have "nat (py_trunc (fl (of_int n))) = nat n" if "0 \<le> n" "n \<le> 2 ^ 53" for n
    using that by (simp add: fl_int py_trunc_def)
  from this [of 70] this [of 10] this [of 5] this [of 3] this [of 2] show ?thesis by (simp add: times_of_values weekend_counts)
qed

lemma sort_by_text: "map f (sort_key f xs) = sort (map f xs :: string list)"
  by (rule properties_for_sort [symmetric]) (simp_all add: mset_map)

lemma scenario_sorted:
  assumes "scenario d p q es" and "min_time \<le> midnight d" "midnight d + 2 * us_day \<le> max_time"
  shows "scenario d p q (sort_key de_timestamp es) \<and>
    (\<exists>ts. map de_timestamp (sort_key de_timestamp es) = map isoformat ts \<and> sorted ts \<and> list_all (time_of_day d) ts)"
proof -
  obtain ts where t: "map de_timestamp es = map isoformat ts" "list_all (time_of_day d) ts" using assms(1) unfolding scenario_def by blast
  have "\<forall>t \<in> set ts. min_time \<le> t \<and> t \<le> max_time" using t(2) assms(2,3) by (fastforce simp: list_all_iff time_of_day_def)
  then have "map de_timestamp (sort_key de_timestamp es) = map isoformat (sort ts)"
    by (simp add: sort_by_text t(1) sort_texts)
  moreover have "list_all (time_of_day d) (sort ts)" using t(2) by (simp add: list_all_iff)
  moreover have "of_psp psp (sort_key de_timestamp es) = of_psp psp es" for psp by (simp add: of_psp_def filter_sort)
  ultimately show ?thesis using assms(1) unfolding scenario_def by (metis length_sort sorted_sort)
qed

text \<open>
  A generated day has a known shape: whatever the random source, generate_day makes 177 events on
  a weekday (97 of Paystack, 80 of Flutterwave) and 49 at the weekend (26 and 23), all of the day
  or of its first ten minutes after midnight, and the order of their timestamp texts, which the
  sort uses, is the order of the times they name.
\<close>

theorem demo_day_shape:
  assumes "min_time \<le> midnight d" and "midnight d + 2 * us_day \<le> max_time"
  shows "let es = fst (run_state (generate_day d) s); weekend = 5 \<le> weekday (date_of d) in
    of_psp ''paystack'' es = (if weekend then 26 else 97) \<and> of_psp ''flutterwave'' es = (if weekend then 23 else 80) \<and>
    length es = (if weekend then 49 else 177) \<and>
    (\<exists>ts. map de_timestamp es = map isoformat ts \<and> sorted ts \<and>
      (\<forall>t \<in> set ts. midnight d \<le> t \<and> t < midnight d + us_day + 600 * us_second))"
proof -
  let ?n = "\<lambda>n. times_of n d"
  let ?p = "?n 70 * 1 + (?n 10 * 1 + (?n 5 * 0 + (?n 5 * 1 + (?n 3 * 1 + (?n 2 * 2 + ?n 5 * 1)))))"
    and ?q = "?n 70 * 1 + (?n 10 * 0 + (?n 5 * 1 + (?n 5 * 1 + (?n 3 * 0 + (?n 2 * 0 + ?n 5 * 0)))))"
  note bind = yields_scenarios [THEN yields_extended, THEN yields_bind]
  have "yields (generate_day d) (\<lambda>es. \<exists>xs. scenario d ?p ?q xs \<and> es = sort_key de_timestamp xs)"
    unfolding generate_day_def
    by (rule bind(1), rule bind(3), rule bind(4), rule bind(2), rule bind(5), rule bind(6), rule bind(7), rule yields_return)
      (metis scenario_append)
  then obtain xs where x: "scenario d ?p ?q xs" "fst (run_state (generate_day d) s) = sort_key de_timestamp xs"
    unfolding yields_def by blast
  have pq: "?p = (if 5 \<le> weekday (date_of d) then 26 else 97)" "?q = (if 5 \<le> weekday (date_of d) then 23 else 80)"
    using times_of_day_counts [of d] by (simp_all split: if_splits)
  show ?thesis
    using scenario_sorted [OF x(1) assms] pq unfolding x(2) Let_def scenario_def time_of_day_def list_all_iff
    by (simp split: if_splits)
qed

theorem demo_day_shape_witness:
  "length (fst (run_state (generate_day (20000 * us_day)) (\<lambda>i. i * i + 7))) = 177 \<and>
   length (fst (run_state (generate_day (20001 * us_day)) (\<lambda>i. i * i + 7))) = 49"
proof -
  have m: "min_time \<le> midnight (20000 * us_day)" "midnight (20000 * us_day) + 2 * us_day \<le> max_time"
    "min_time \<le> midnight (20001 * us_day)" "midnight (20001 * us_day) + 2 * us_day \<le> max_time"
    "\<not> 5 \<le> weekday (date_of (20000 * us_day))" "5 \<le> weekday (date_of (20001 * us_day))" by code_simp+
  show ?thesis
    using demo_day_shape [OF m(1,2), of "\<lambda>i. i * i + 7"] demo_day_shape [OF m(3,4), of "\<lambda>i. i * i + 7"] m(5,6)
    by (simp add: Let_def split: if_splits)
qed

subsection \<open>Files and replay\<close>

definition day_times :: "time \<Rightarrow> int \<Rightarrow> time list" where
  "day_times now days = map (\<lambda>k. midnight (now - k * us_day)) (day_offsets days)"

lemma yields_generate_days: "yields (generate_days now days) (\<lambda>ds. map fst ds = day_times now days)"
  unfolding generate_days_def day_times_def Let_def
  by (intro yields_each yields_bind [OF yields_any] yields_return) simp

lemma midnight_back: "midnight (now - k * us_day) = midnight now - k * us_day"
  using div_mult_self1 [of us_day "now" "- k"] by (simp add: midnight_def date_of_def)

lemma midnight_date: "date_of (midnight (now - k * us_day)) = date_of now - k"
  using div_mult_self1 [of us_day "now" "- k"] by (simp add: midnight_def date_of_def)

lemma day_file_order:
  assumes "valid_date (date_of d)" and "valid_date (date_of e)" and "date_of d < date_of e"
  shows "day_file d < day_file e"
  using append_less [of "iso_date_text (date_of d)" "iso_date_text (date_of e)" "''.json''" "''.json''"]
    append_less [of "''day_''" "''day_''"] date_text_order [OF assms(1,2)] date_text_length [OF assms(1)] date_text_length [OF assms(2)]
    assms(3) by (simp add: day_file_def)

lemma day_file_is_day: "valid_date (date_of d) \<Longrightarrow> is_day_file (day_file d)"
  by (simp add: is_day_file_def day_file_def date_text_length)

lemma fixed_files_are_no_day: "\<not> is_day_file ''fx_rates.json''" "\<not> is_day_file ''summary.json''"
  by (simp_all add: is_day_file_def)

lemma day_times_valid:
  assumes "0 \<le> days" and "min_time \<le> midnight now - days * us_day" and "now \<le> max_time" and "d \<in> set (day_times now days)"
  shows "valid_date (date_of d)"
proof -
  obtain k where k: "d = midnight (now - k * us_day)" "0 \<le> k" "k \<le> days"
    using assms(4) by (auto simp: day_times_def day_offsets_def)
  have "d = midnight now - k * us_day" by (simp only: k(1) midnight_back)
  moreover have "midnight now \<le> now" using date_clock [of now] clock_range [of now] unfolding midnight_def by linarith
  moreover have "k * us_day \<le> days * us_day" "0 \<le> k * us_day" using k by simp_all
  ultimately show ?thesis using assms(2,3) by (intro valid_date_range [THEN iffD2]) linarith
qed

lemma day_files_sorted:
  assumes "0 \<le> days" and "min_time \<le> midnight now - days * us_day" and "now \<le> max_time"
  shows "sorted_wrt (<) (map day_file (day_times now days))"
proof -
  have "sorted_wrt (\<lambda>j k :: int. k < j) (day_offsets days)"
    unfolding day_offsets_def sorted_wrt_rev by (simp add: sorted_wrt_upto)
  then have "sorted_wrt (\<lambda>d e. date_of d < date_of e) (day_times now days)"
    unfolding day_times_def sorted_wrt_map midnight_date by (rule sorted_wrt_mono_rel [rotated]) simp
  then show ?thesis unfolding sorted_wrt_map
    by (rule sorted_wrt_mono_rel [rotated]) (blast intro: day_file_order day_times_valid [OF assms])
qed

lemma write_days_other: "f \<notin> set (map (day_file \<circ> fst) ds) \<Longrightarrow> write_days ds dir f = dir f"
  unfolding write_days_def by (induction ds arbitrary: dir) (auto simp: split_def)

lemma write_days_at:
  "distinct (map (day_file \<circ> fst) ds) \<Longrightarrow> (d, es) \<in> set ds \<Longrightarrow> write_days ds dir (day_file d) = Some (DayFile es)"
proof (induction ds arbitrary: dir)
  case (Cons x ds)
  have step: "write_days (x # ds) dir = write_days ds (dir(day_file (fst x) \<mapsto> DayFile (snd x)))" by (simp add: write_days_def split_def)
  show ?case
  proof (cases "(d, es) \<in> set ds")
    case True
    then show ?thesis using Cons.IH [OF _ True] Cons.prems(1) by (simp add: step)
  next
    case False
    then have "x = (d, es)" using Cons.prems(2) by auto
    then show ?thesis using Cons.prems(1) write_days_other [of "day_file d" ds] unfolding step by simp
  qed
qed simp

text \<open>After a run the directory holds one file for each generated day and no other day file.\<close>

lemma generated_files:
  fixes s :: seed and dir :: directory and decimal_str :: "rat \<Rightarrow> rat" and later :: "int \<Rightarrow> time" and now :: time
  assumes "0 \<le> days" and "min_time \<le> midnight now - days * us_day" and "now \<le> max_time"
  defines "ds \<equiv> fst (run_state (generate_days now days) s)" and "dir' \<equiv> fst (run_state (generate decimal_str now later days dir) s)"
  shows "{f. is_day_file f \<and> dir' f \<noteq> None} = set (map (day_file \<circ> fst) ds)"
    "\<forall>(d, es) \<in> set ds. dir' (day_file d) = Some (DayFile es)" "sorted_wrt (<) (map (day_file \<circ> fst) ds)"
    "\<exists>g n p f. dir' ''summary.json'' = Some (SummaryFile g days (length (concat (map snd ds))) n p f)"
proof -
  obtain fx p f where dir': "dir' = (write_days ds (remove_stale dir))(''fx_rates.json'' \<mapsto> RatesFile fx,
    ''summary.json'' \<mapsto> SummaryFile (isoformat now) days (length (concat (map snd ds))) (length fx) p f)"
    unfolding dir'_def ds_def generate_def by (simp add: State_Monad.bind_def State_Monad.return_def Let_def split_def)
  have times: "map fst ds = day_times now days" using yields_generate_days [of now days] unfolding yields_def ds_def by blast
  show srt: "sorted_wrt (<) (map (day_file \<circ> fst) ds)"
    using day_files_sorted [OF assms(1-3)] by (simp only: map_map [symmetric] times)
  then have dis: "distinct (map (day_file \<circ> fst) ds)" by (metis strict_sorted_iff)
  have day: "is_day_file (day_file d)" if "d \<in> set (map fst ds)" for d
    using that day_times_valid [OF assms(1-3)] day_file_is_day by (simp only: times)
  have eq: "dir' f = write_days ds (remove_stale dir) f" if "is_day_file f" for f
    using that fixed_files_are_no_day unfolding dir' by (metis fun_upd_other)
  have out: "dir' f = None" if "is_day_file f" "f \<notin> set (map (day_file \<circ> fst) ds)" for f
    using that eq write_days_other [OF that(2), of "remove_stale dir"] by (simp add: remove_stale_def)
  have into: "dir' (day_file d) = Some (DayFile es)" if "(d, es) \<in> set ds" for d es
    using eq [OF day] write_days_at [OF dis that] that by (metis fst_conv image_eqI set_map)
  then show "\<forall>(d, es) \<in> set ds. dir' (day_file d) = Some (DayFile es)" by blast
  show "{f. is_day_file f \<and> dir' f \<noteq> None} = set (map (day_file \<circ> fst) ds)"
  proof (intro equalityI subsetI)
    fix f assume "f \<in> {f. is_day_file f \<and> dir' f \<noteq> None}"
    then have "is_day_file f" "dir' f \<noteq> None" by simp_all
    then show "f \<in> set (map (day_file \<circ> fst) ds)" using out [of f] by metis
  next
    fix f assume "f \<in> set (map (day_file \<circ> fst) ds)"
    then obtain d es where d: "(d, es) \<in> set ds" "f = day_file d" by auto
    then have "d \<in> set (map fst ds)" by force
    then have "is_day_file f" using day d(2) by simp
    then show "f \<in> {f. is_day_file f \<and> dir' f \<noteq> None}" using d(2) into [OF d(1)] by simp
  qed
  show "\<exists>g n p f. dir' ''summary.json'' = Some (SummaryFile g days (length (concat (map snd ds))) n p f)"
    unfolding dir' by simp
qed

lemma write_days_finite: "finite (dom dir) \<Longrightarrow> finite (dom (write_days ds dir))"
  unfolding write_days_def by (induction ds arbitrary: dir) (simp_all add: split_def)

lemma generate_finite:
  assumes "finite (dom dir)"
  shows "finite (dom (fst (run_state (generate decimal_str now later days dir) s)))"
proof -
  have "dom (remove_stale dir) \<subseteq> dom dir" by (auto simp: remove_stale_def split: if_splits)
  then have "finite (dom (remove_stale dir))" using assms by (rule finite_subset)
  then show ?thesis
    by (simp add: generate_def State_Monad.bind_def State_Monad.return_def Let_def split_def write_days_finite)
qed

lemma replay_reads_generated:
  assumes "0 \<le> days" and "min_time \<le> midnight now - days * us_day" and "now \<le> max_time"
    and "dir' = fst (run_state (generate decimal_str now later days dir) s)" and "distinct names" and "set names = dom dir'"
  shows "day_events dir' names = concat (map snd (fst (run_state (generate_days now days) s)))"
    "\<exists>g n p f. dir' ''summary.json'' =
      Some (SummaryFile g days (length (concat (map snd (fst (run_state (generate_days now days) s))))) n p f)"
proof -
  let ?ds = "fst (run_state (generate_days now days) s)"
  note g = generated_files(1,2,4) [where s = s and decimal_str = decimal_str and later = later and dir = dir, OF assms(1-3), folded assms(4)]
  have "sorted (map (day_file \<circ> fst) ?ds)" "distinct (map (day_file \<circ> fst) ?ds)"
    using generated_files(3) [where s = s, OF assms(1-3)] by (metis strict_sorted_iff)+
  moreover have "set (sort (filter is_day_file names)) = set (map (day_file \<circ> fst) ?ds)"
    unfolding g(1) [symmetric] using assms(6) by auto
  ultimately have names: "sort (filter is_day_file names) = map (day_file \<circ> fst) ?ds"
    using assms(5) by (metis sorted_distinct_set_unique sorted_sort distinct_sort distinct_filter)
  have contents: "map ((\<lambda>f. case dir' f of Some (DayFile es) \<Rightarrow> es | _ \<Rightarrow> []) \<circ> (day_file \<circ> fst)) ?ds = map snd ?ds"
    using g(2) by (intro map_cong) auto
  show "day_events dir' names = concat (map snd ?ds)" unfolding day_events_def names map_map contents by (rule refl)
  show "\<exists>g n p f. dir' ''summary.json'' = Some (SummaryFile g days (length (concat (map snd ?ds))) n p f)" by (rule g(3))
qed

text \<open>What every generated event is: a payload of one of the two builders, with a short reference.\<close>

definition built :: "demo_event \<Rightarrow> bool" where
  "built e \<longleftrightarrow> (\<exists>event ngn currency t. event \<in> set sent_events \<and> de_event e = event \<and>
     (de_psp e = ''paystack'' \<and> (\<exists>fees d. short_ref (pd_ref d) \<and> de_payload e = paystack_payload event ngn currency t fees d) \<or>
      de_psp e = ''flutterwave'' \<and> (\<exists>d. short_ref (fd_ref d) \<and> de_payload e = flutterwave_payload event ngn currency t d)))"

lemma built_paystack:
  "event \<in> set sent_events \<Longrightarrow> short_ref (pd_ref d) \<Longrightarrow>
    built \<lparr>de_psp = ''paystack'', de_event = event, de_timestamp = ts,
      de_payload = paystack_payload event ngn currency t fees d, de_late_hours = h\<rparr>"
  unfolding built_def demo_event.simps by blast

lemma built_flutterwave:
  "event \<in> set sent_events \<Longrightarrow> short_ref (fd_ref d) \<Longrightarrow>
    built \<lparr>de_psp = ''flutterwave'', de_event = event, de_timestamp = ts,
      de_payload = flutterwave_payload event ngn currency t d, de_late_hours = h\<rparr>"
  unfolding built_def demo_event.simps by blast

lemma yields_paystack_built:
  "event \<in> set sent_events \<Longrightarrow> yields (build_paystack_event event ngn ts None currency) built"
  unfolding build_paystack_event_def
  by (intro yields_bind [OF yields_draw_paystack [OF yields_short_paystack]] yields_return built_paystack)

lemma yields_flutterwave_built:
  "event \<in> set sent_events \<Longrightarrow> yields (build_flutterwave_event event ngn ts None currency) built"
  unfolding build_flutterwave_event_def
  by (intro yields_bind [OF yields_draw_flutterwave [OF yields_short_flutterwave]] yields_return built_flutterwave)

lemma yields_kept_built:
  assumes "event \<in> set sent_events" and "short_ref ref"
  shows "yields (build_paystack_event event ngn ts (Some ref) currency) built"
proof -
  have r: "yields (paystack_ref (Some ref)) short_ref"
    using assms(2) by (intro yields_kept_ref(1)) (simp_all add: short_ref_def clean_ref_def)
  show ?thesis unfolding build_paystack_event_def
    by (intro yields_bind [OF yields_draw_paystack [OF r]] yields_return built_paystack assms(1))
qed

lemma yields_built:
  "yields (generate_matched_pair d) (list_all built)" "yields (generate_fx_variance d) (list_all built)"
  "yields (generate_unmatched d psp) (list_all built)" "yields (generate_late_settlement d) (list_all built)"
  "yields (generate_duplicate d) (list_all built)" "yields (generate_cross_border d) (list_all built)"
proof -
  have s: "''charge.success'' \<in> set sent_events" "''transfer.completed'' \<in> set sent_events"
    "''charge.completed'' \<in> set sent_events" "''transfer.success'' \<in> set sent_events" by (simp_all add: sent_events_def)
  note p = s [THEN yields_paystack_built] and f = s [THEN yields_flutterwave_built]
  note w = yields_bind [OF yields_any [of weighted_amount]] and t = yields_bind [OF yields_any [of "random_timestamp _ _"]]
    and i = yields_bind [OF yields_any [of "randint _ _"]] and u = yields_bind [OF yields_any [of "uniform _ _"]]
    and c = yields_bind [OF yields_any [of "choice _"]]
  show "yields (generate_matched_pair d) (list_all built)" unfolding generate_matched_pair_def
    by (intro w t i yields_bind [OF p(1)] yields_bind [OF f(2)] yields_return) simp
  show "yields (generate_fx_variance d) (list_all built)" unfolding generate_fx_variance_def
    by (intro w t i u yields_bind [OF p(1)] yields_bind [OF f(2)] yields_return) simp
  have "yields (if psp = ''paystack'' then build_paystack_event ''charge.success'' amount ts None ''NGN''
      else build_flutterwave_event ''charge.completed'' amount ts None ''NGN'') built" for amount ts
    using p(1) f(3) by simp
  then show "yields (generate_unmatched d psp) (list_all built)" unfolding generate_unmatched_def
    by (intro w t yields_bind [of _ built] yields_return) simp_all
  have "yields (build_paystack_event ''transfer.success'' amount ts None ''NGN'') (\<lambda>e. built (e\<lparr>de_late_hours := h\<rparr>))" for amount ts h
    by (rule yields_mono [OF p(4)]) (simp add: built_def)
  then show "yields (generate_late_settlement d) (list_all built)" unfolding generate_late_settlement_def
    by (intro w t i yields_bind [of "build_paystack_event _ _ _ _ _"] yields_return) simp_all
  show "yields (generate_duplicate d) (list_all built)" unfolding generate_duplicate_def
    by (intro w t yields_bind [OF yields_short_paystack] yields_bind [OF yields_kept_built [OF s(1)]] yields_return) simp_all
  show "yields (generate_cross_border d) (list_all built)" unfolding generate_cross_border_def
    by (intro c t yields_bind [OF p(1)] yields_return) simp
qed

lemma yields_day_built: "yields (generate_day d) (list_all built)"
proof -
  note bind = yields_built [THEN yields_extended_all, THEN yields_bind]
  show ?thesis unfolding generate_day_def
    by (rule bind(1), rule bind(3), rule bind(3), rule bind(2), rule bind(4), rule bind(5), rule bind(6), rule yields_return)
      (auto simp: list_all_iff)
qed

lemma yields_each_all: "(\<And>x. yields (k x) P) \<Longrightarrow> yields (each k xs) (list_all P)"
proof (induction xs)
  case (Cons x xs)
  show ?case unfolding each.simps
    by (rule yields_bind [OF Cons.prems], rule yields_bind [OF Cons.IH [OF Cons.prems]], rule yields_return) simp
qed (simp add: yields_return)

lemma yields_days_built: "yields (generate_days now days) (\<lambda>ds. list_all built (concat (map snd ds)))"
proof -
  have "yields (do { es \<leftarrow> generate_day d; State_Monad.return (d, es) }) (\<lambda>x. list_all built (snd x))" for d :: time
    by (rule yields_bind [OF yields_day_built], rule yields_return) simp
  then have "yields (generate_days now days) (list_all (\<lambda>x. list_all built (snd x)))"
    unfolding generate_days_def Let_def by (intro yields_each_all)
  then show ?thesis by (rule yields_mono) (auto simp: list_all_iff)
qed

text \<open>The key an event is registered under.\<close>

definition demo_key :: "demo_event \<Rightarrow> string" where
  "demo_key e = (case extract_transaction_ref (de_psp e) (de_payload e) [] of
     Inl ex \<Rightarrow> [] | Inr ref \<Rightarrow> build_idempotency_key (de_psp e) ref (de_event e))"

lemma built_recordable:
  assumes "credentials_ok cfg" and "built e" and "json_kept dumps loads (de_payload e)"
  shows "\<exists>r. replay_request dumps cfg e = Some r \<and> recordable loads cfg r (demo_key e)"
proof -
  obtain event ngn currency t where e: "event \<in> set sent_events" "de_event e = event"
    "de_psp e = ''paystack'' \<and> (\<exists>fees d. short_ref (pd_ref d) \<and> de_payload e = paystack_payload event ngn currency t fees d) \<or>
     de_psp e = ''flutterwave'' \<and> (\<exists>d. short_ref (fd_ref d) \<and> de_payload e = flutterwave_payload event ngn currency t d)"
    using assms(2) unfolding built_def by blast
  from e(3) show ?thesis
  proof (elim disjE conjE exE)
    fix fees d assume p: "de_psp e = ''paystack''" "short_ref (pd_ref d)" "de_payload e = paystack_payload event ngn currency t fees d"
    have "extract_transaction_ref ''paystack'' (de_payload e) [] = Inr (pd_ref d)"
      using p(2) by (simp add: p(3) extract_transaction_ref_def paystack_payload_def paystack_data_def dict_get_def or_dict_def
        jor_def short_ref_def clean_ref_def)
    then have "demo_key e = build_idempotency_key ''paystack'' (pd_ref d) event" using p e(2) by (simp add: demo_key_def)
    then show ?thesis
      using paystack_recordable [OF assms(1) assms(3) [unfolded p(3)] p(2) e(1)] p by (simp add: replay_request_def Let_def)
  next
    fix d assume p: "de_psp e = ''flutterwave''" "short_ref (fd_ref d)" "de_payload e = flutterwave_payload event ngn currency t d"
    have "extract_transaction_ref ''flutterwave'' (de_payload e) [] = Inr (fd_ref d)"
      using p(2) by (simp add: p(3) extract_transaction_ref_def flutterwave_payload_def flutterwave_data_def dict_get_def or_dict_def
        jor_def short_ref_def clean_ref_def)
    then have "demo_key e = build_idempotency_key ''flutterwave'' (fd_ref d) event" using p e(2) by (simp add: demo_key_def)
    then show ?thesis
      using flutterwave_recordable [OF assms(1) assms(3) [unfolded p(3)] p(2) e(1)] p by (simp add: replay_request_def Let_def)
  qed
qed

lemma replay_recorded:
  assumes "credentials_ok cfg" and "\<forall>n. healthy (envs n)" and "list_all built es" and "\<forall>e \<in> set es. json_kept dumps loads (de_payload e)"
  shows "\<exists>s2. run_state (each (replay_event dumps cfg (api_post loads cfg envs received)) es) s = (replicate (length es) True, s2) \<and>
    dom (api_table s2) = dom (api_table s) \<union> set (map demo_key es) \<and>
    posted_keys s2 = posted_keys s @ publish_order (dom (api_table s)) (map demo_key es)"
proof -
  let ?req = "\<lambda>e. the (replay_request dumps cfg e)"
  have r: "replay_request dumps cfg e = Some (?req e) \<and> recordable loads cfg (?req e) (demo_key e)" if "e \<in> set es" for e
  proof -
    have "built e" using assms(3) that by (simp add: list_all_iff)
    then show ?thesis using built_recordable [OF assms(1)] assms(4) that by fastforce
  qed
  have "list_all2 (\<lambda>e key. recordable loads cfg (?req e) key) es (map demo_key es)"
    using r by (auto simp: list_all2_conv_all_nth)
  moreover have "replay_event dumps cfg (api_post loads cfg envs received) e =
      do { reply \<leftarrow> api_post loads cfg envs received (?req e); State_Monad.return (replayed reply) }" if "e \<in> set es" for e
    using r [OF that] unfolding replay_event_def by (cases "replay_request dumps cfg e") simp_all
  moreover have "\<forall>x new key. replayed (Some (webhook_reply (Inr (new, key))))" by (simp add: replayed_def webhook_reply_def)
  ultimately show ?thesis
    using each_recordable [OF assms(2), where req = ?req and xs = es and keys = "map demo_key es" and f = "\<lambda>e. replayed"] by blast
qed

text \<open>
  C36 The replay records what was generated: after a run of the generator the replay reads the
  generated events of all days, in the order of the days, and no event of an earlier run; sent to the
  webhook endpoints while the database and the broker answer, every event is accepted, the registry
  gains exactly their keys, and each new key is published once, in the order of its first event,
  although duplicates are posted twice.
\<close>

theorem demo_replay_recorded:
  assumes "0 \<le> days" and "min_time \<le> midnight now - days * us_day" and "now \<le> max_time"
    and "dir' = fst (run_state (generate decimal_str now later days dir) seed)" and "distinct names" and "set names = dom dir'"
    and "events = concat (map snd (fst (run_state (generate_days now days) seed)))"
    and "credentials_ok cfg" and "\<forall>n. healthy (envs n)" and "\<forall>e \<in> set events. json_kept dumps loads (de_payload e)"
  shows "\<exists>s2. run_state (replay dumps cfg (api_post loads cfg envs received) dir' names) s = ((length events, 0), s2) \<and>
    dom (api_table s2) = dom (api_table s) \<union> set (map demo_key events) \<and>
    (\<exists>published. posted_keys s2 = posted_keys s @ published \<and> distinct published \<and>
      set published = set (map demo_key events) - dom (api_table s))"
proof -
  have ev: "day_events dir' names = events"
    using replay_reads_generated(1) [OF assms(1-6)] by (simp only: assms(7))
  have "list_all built events" unfolding assms(7) using yields_days_built [of now days] unfolding yields_def by blast
  from replay_recorded [OF assms(8,9) this assms(10), of received s]
  obtain s2 where s2: "run_state (each (replay_event dumps cfg (api_post loads cfg envs received)) events) s = (replicate (length events) True, s2)"
    "dom (api_table s2) = dom (api_table s) \<union> set (map demo_key events)"
    "posted_keys s2 = posted_keys s @ publish_order (dom (api_table s)) (map demo_key events)" by blast
  have "run_state (replay dumps cfg (api_post loads cfg envs received) dir' names) s = ((length events, 0), s2)"
    by (simp add: replay_def ev State_Monad.bind_def State_Monad.return_def s2(1))
  moreover have "\<exists>published. posted_keys s2 = posted_keys s @ published \<and> distinct published \<and>
      set published = set (map demo_key events) - dom (api_table s)"
    unfolding s2(3)
    by (intro exI conjI, rule refl, rule publish_order_props [THEN conjunct1], rule publish_order_props [THEN conjunct2])
  ultimately show ?thesis using s2(2) by (intro exI [of _ s2] conjI)
qed

theorem demo_replay_recorded_witness:
  "\<exists>dir' names events s2. dir' = fst (run_state (generate id (20003 * us_day + 5) (\<lambda>k. 20003 * us_day + 9) 1
       [''day_2020-01-01.json'' \<mapsto> DayFile [], ''notes.txt'' \<mapsto> OtherFile ''x'']) (\<lambda>i. i * i + 7)) \<and>
     distinct names \<and> set names = dom dir' \<and>
     events = concat (map snd (fst (run_state (generate_days (20003 * us_day + 5) 1) (\<lambda>i. i * i + 7)))) \<and>
     run_state (replay numbered (example_settings\<lparr>hmac_sha512 := \<lambda>k m. ''ab''\<rparr>) (api_post read_numbered
         (example_settings\<lparr>hmac_sha512 := \<lambda>k m. ''ab''\<rparr>) (\<lambda>n. example_ingest_env) (\<lambda>n. ''now'')) dir' names)
       \<lparr>api_calls = 0, api_table = Map.empty, api_topic = []\<rparr> = ((length events, 0), s2)"
proof -
  let ?cfg = "example_settings\<lparr>hmac_sha512 := \<lambda>k m. ''ab''\<rparr>"
  define events where "events = concat (map snd (fst (run_state (generate_days (20003 * us_day + 5) 1) (\<lambda>i. i * i + 7))))"
  define dir' where "dir' = fst (run_state (generate id (20003 * us_day + 5) (\<lambda>k. 20003 * us_day + 9) 1
    [''day_2020-01-01.json'' \<mapsto> DayFile [], ''notes.txt'' \<mapsto> OtherFile ''x'']) (\<lambda>i. i * i + 7))"
  have "finite (dom dir')" unfolding dir'_def by (rule generate_finite) simp
  then have n: "distinct (sorted_list_of_set (dom dir'))" "set (sorted_list_of_set (dom dir')) = dom dir'" by simp_all
  have r: "0 \<le> (1 :: int)" "min_time \<le> midnight (20003 * us_day + 5) - 1 * us_day" "20003 * us_day + 5 \<le> max_time" by code_simp+
  have c: "credentials_ok ?cfg" by (simp add: credentials_ok_def example_settings_def) code_simp
  have h: "\<forall>n :: nat. healthy example_ingest_env" by (simp add: healthy_def example_ingest_env_def)
  have k: "\<forall>e \<in> set events. json_kept numbered read_numbered (de_payload e)" using numbered_kept by blast
  obtain s2 where "run_state (replay numbered ?cfg (api_post read_numbered ?cfg (\<lambda>n. example_ingest_env) (\<lambda>n. ''now'')) dir'
      (sorted_list_of_set (dom dir'))) \<lparr>api_calls = 0, api_table = Map.empty, api_topic = []\<rparr> = ((length events, 0), s2)"
    using demo_replay_recorded [OF r dir'_def n events_def c h k] by blast
  then show ?thesis using dir'_def n events_def by blast
qed

end
