(* ===== verification/Simulator.thy ===== *)
theory Simulator
  imports Webhook_Client Timestamps
begin

text \<open>
  \<open>scripts/simulate_webhooks.py\<close>: the charges it builds, the scenarios it fires at the webhook endpoints and
  the batch. The world of a run is the random source, the readings of the clock and the server behind the
  HTTP client; \<open>dumps\<close> is \<open>json.dumps\<close> and \<open>encode\<close> the serialisation of the client's \<open>json\<close> argument.
\<close>

subsection \<open>The world of a run\<close>

record 's world =
  w_seed :: seed
  w_clock :: "nat \<Rightarrow> time"
  w_server :: 's

definition random :: "(seed, 'a) state \<Rightarrow> ('s world, 'a) state" where
  "random m = State (\<lambda>w. case run_state m (w_seed w) of (x, f) \<Rightarrow> (x, w\<lparr>w_seed := f\<rparr>))"

definition utc_now :: "('s world, time) state" where
  "utc_now = State (\<lambda>w. (w_clock w 0, w\<lparr>w_clock := \<lambda>i. w_clock w (Suc i)\<rparr>))"

definition send :: "('s, 'a) state \<Rightarrow> ('s world, 'a) state" where
  "send m = State (\<lambda>w. case run_state m (w_server w) of (x, s) \<Rightarrow> (x, w\<lparr>w_server := s\<rparr>))"

subsection \<open>Charges\<close>

definition COMMON_AMOUNTS_NGN :: "int list" where
  "COMMON_AMOUNTS_NGN = [5000, 10000, 15000, 20000, 25000, 30000, 50000, 75000, 100000, 150000, 200000, 250000, 500000,
     1000000, 2500000, 5000000]"

definition random_amount :: "(seed, int) state" where
  "random_amount = choice COMMON_AMOUNTS_NGN"

text \<open>\<open>amount_ngn or _random_amount()\<close>: no amount and zero both mean a random one.\<close>

definition chosen_amount :: "int option \<Rightarrow> ('s world, int) state" where
  "chosen_amount amount = (case amount of None \<Rightarrow> random random_amount
     | Some n \<Rightarrow> if n = 0 then random random_amount else State_Monad.return n)"

text \<open>\<open>int(amount_ngn * 100 * 0.015)\<close>\<close>

definition charge_fees :: "int \<Rightarrow> int" where
  "charge_fees ngn = py_trunc (fl (fl (of_int (ngn * 100)) * fl (15 / 1000)))"

definition numbered_note :: "string \<Rightarrow> (seed, string) state" where
  "numbered_note label = do { n \<leftarrow> randint 1000 9999; State_Monad.return (label @ show_int n) }"

definition build_paystack_charge :: "int \<Rightarrow> string option \<Rightarrow> string \<Rightarrow> ('s world, (string \<times> json) list) state" where
  "build_paystack_charge ngn reference currency = do {
     t \<leftarrow> utc_now;
     d \<leftarrow> random (draw_paystack NIGERIAN_NAMES 999999 reference (numbered_note ''Payment #''));
     State_Monad.return (paystack_payload ''charge.success'' ngn currency (strftime_millis t) (charge_fees ngn) d) }"

definition build_flutterwave_charge :: "int \<Rightarrow> string option \<Rightarrow> string \<Rightarrow> ('s world, (string \<times> json) list) state" where
  "build_flutterwave_charge ngn tx_ref currency = do {
     t \<leftarrow> utc_now;
     d \<leftarrow> random (draw_flutterwave NIGERIAN_NAMES 999999 tx_ref (numbered_note ''Payment for order #''));
     State_Monad.return (flutterwave_payload ''charge.completed'' ngn currency (strftime_zulu t) d) }"

subsection \<open>Firing\<close>

text \<open>A refused connection is status 0; its message is abridged to ASCII. Other errors of the client end the script.\<close>

definition connection_refused :: reply where
  "connection_refused = (0, JObj [(''error'', JStr ''Connection refused'')])"

record sent =
  sn_payload :: "(string \<times> json) list"
  sn_reply :: reply

definition fire_paystack :: "(json \<Rightarrow> string) \<Rightarrow> ingest_settings \<Rightarrow> 's poster \<Rightarrow> (string \<times> json) list \<Rightarrow> ('s world, sent) state" where
  "fire_paystack dumps keys post payload = do {
     reply \<leftarrow> send (post (paystack_request keys (dumps (JObj payload))));
     State_Monad.return \<lparr>sn_payload = payload, sn_reply = (case reply of None \<Rightarrow> connection_refused | Some r \<Rightarrow> r)\<rparr> }"

definition fire_flutterwave :: "(json \<Rightarrow> string) \<Rightarrow> ingest_settings \<Rightarrow> 's poster \<Rightarrow> (string \<times> json) list \<Rightarrow> ('s world, sent) state" where
  "fire_flutterwave encode keys post payload = do {
     reply \<leftarrow> send (post (flutterwave_request keys (encode (JObj payload))));
     State_Monad.return \<lparr>sn_payload = payload, sn_reply = (case reply of None \<Rightarrow> connection_refused | Some r \<Rightarrow> r)\<rparr> }"

text \<open>\<open>payload[key] = value\<close> for a key that is there.\<close>

definition set_item :: "string \<Rightarrow> json \<Rightarrow> (string \<times> json) list \<Rightarrow> (string \<times> json) list" where
  "set_item key value d = map (\<lambda>(k, v). if k = key then (k, value) else (k, v)) d"

definition as_transfer :: "(string \<times> json) list \<Rightarrow> (string \<times> json) list" where
  "as_transfer payload = (let p = set_item ''event'' (JStr ''transfer.completed'') payload in
     case dict_get p ''data'' of
       JObj data \<Rightarrow> set_item ''data'' (JObj (set_item ''status'' (JStr ''successful'') data)) p
     | _ \<Rightarrow> p)"

record 's client =
  cl_dumps :: "json \<Rightarrow> string"
  cl_encode :: "json \<Rightarrow> string"
  cl_keys :: ingest_settings
  cl_post :: "'s poster"

abbreviation paystack_fired :: "'s client \<Rightarrow> (string \<times> json) list \<Rightarrow> ('s world, sent) state" where
  "paystack_fired c \<equiv> fire_paystack (cl_dumps c) (cl_keys c) (cl_post c)"

abbreviation flutterwave_fired :: "'s client \<Rightarrow> (string \<times> json) list \<Rightarrow> ('s world, sent) state" where
  "flutterwave_fired c \<equiv> fire_flutterwave (cl_encode c) (cl_keys c) (cl_post c)"

subsection \<open>Scenarios\<close>

definition fire_matched_pair :: "'s client \<Rightarrow> int option \<Rightarrow> ('s world, sent list) state" where
  "fire_matched_pair c requested = do {
     amount \<leftarrow> chosen_amount requested;
     ps \<leftarrow> build_paystack_charge amount None ''NGN'';
     a \<leftarrow> paystack_fired c ps;
     flw \<leftarrow> build_flutterwave_charge amount None ''NGN'';
     b \<leftarrow> flutterwave_fired c (as_transfer flw);
     State_Monad.return [a, b] }"

definition fire_unmatched :: "'s client \<Rightarrow> string \<Rightarrow> int option \<Rightarrow> ('s world, sent list) state" where
  "fire_unmatched c psp requested = do {
     amount \<leftarrow> chosen_amount requested;
     a \<leftarrow> (if psp = ''paystack'' then do { p \<leftarrow> build_paystack_charge amount None ''NGN''; paystack_fired c p }
       else do { p \<leftarrow> build_flutterwave_charge amount None ''NGN''; flutterwave_fired c p });
     State_Monad.return [a] }"

text \<open>\<open>reference or f"T_dup_{uuid.uuid4().hex[:8]}"\<close>\<close>

definition duplicate_ref :: "string option \<Rightarrow> (seed, string) state" where
  "duplicate_ref reference = (if reference = None \<or> reference = Some []
     then do { h \<leftarrow> uuid_hex 8; State_Monad.return (''T_dup_'' @ h) } else State_Monad.return (the reference))"

definition fire_duplicate :: "'s client \<Rightarrow> string \<Rightarrow> string option \<Rightarrow> ('s world, sent list) state" where
  "fire_duplicate c psp reference = do {
     ref \<leftarrow> random (duplicate_ref reference);
     if psp = ''paystack'' then do {
       p \<leftarrow> build_paystack_charge 50000 (Some ref) ''NGN'';
       r1 \<leftarrow> paystack_fired c p;
       r2 \<leftarrow> paystack_fired c p;
       State_Monad.return [r1, r2] }
     else do {
       p \<leftarrow> build_flutterwave_charge 50000 (Some ref) ''NGN'';
       r1 \<leftarrow> flutterwave_fired c p;
       r2 \<leftarrow> flutterwave_fired c p;
       State_Monad.return [r1, r2] } }"

text \<open>\<open>int(amount * (1 + variance_pct))\<close>; the second event is the charge the builder makes, a credit too.\<close>

definition fx_varied :: "int \<Rightarrow> rat \<Rightarrow> int" where
  "fx_varied amount variance = py_trunc (fl (fl (of_int amount) * fl (1 + variance)))"

definition fire_fx_variance :: "'s client \<Rightarrow> int option \<Rightarrow> ('s world, sent list) state" where
  "fire_fx_variance c requested = do {
     let amount = (case requested of None \<Rightarrow> 50000 | Some n \<Rightarrow> if n = 0 then 50000 else n);
     variance \<leftarrow> random (uniform (fl (2 / 1000)) (fl (8 / 1000)));
     ps \<leftarrow> build_paystack_charge amount None ''NGN'';
     a \<leftarrow> paystack_fired c ps;
     flw \<leftarrow> build_flutterwave_charge (fx_varied amount variance) None ''NGN'';
     b \<leftarrow> flutterwave_fired c flw;
     State_Monad.return [a, b] }"

subsection \<open>The batch\<close>

text \<open>\<open>int(count * share)\<close>; a range over a negative number is empty.\<close>

definition portion :: "int \<Rightarrow> rat \<Rightarrow> int" where
  "portion scenarios share = py_trunc (fl (fl (of_int scenarios) * share))"

record shares =
  sh_matched :: int
  sh_unmatched :: int
  sh_duplicates :: int
  sh_fx :: int

definition batch_shares :: "int \<Rightarrow> shares" where
  "batch_shares scenarios = (let m = portion scenarios (fl (70 / 100)); u = portion scenarios (fl (15 / 100));
     d = portion scenarios (fl (10 / 100)) in
     \<lparr>sh_matched = m, sh_unmatched = u, sh_duplicates = d, sh_fx = scenarios - m - u - d\<rparr>)"

definition fire_batch :: "'s client \<Rightarrow> int \<Rightarrow> ('s world, sent list) state" where
  "fire_batch c scenarios = (let sh = batch_shares scenarios in do {
     ms \<leftarrow> extended (nat (sh_matched sh)) (fire_matched_pair c None);
     us \<leftarrow> extended (nat (sh_unmatched sh)) (do { psp \<leftarrow> random (choice [''paystack'', ''flutterwave'']); fire_unmatched c psp None });
     ds \<leftarrow> extended (nat (sh_duplicates sh)) (do { psp \<leftarrow> random (choice [''paystack'', ''flutterwave'']); fire_duplicate c psp None });
     fs \<leftarrow> extended (nat (sh_fx sh)) (fire_fx_variance c None);
     State_Monad.return (ms @ us @ ds @ fs) })"

datatype command =
    MatchedPair "int option"
  | Unmatched string "int option"
  | Duplicate string "string option"
  | FxVariance "int option"
  | Batch int

fun run_command :: "'s client \<Rightarrow> command \<Rightarrow> ('s world, sent list) state" where
  "run_command c (MatchedPair amount) = fire_matched_pair c amount"
| "run_command c (Unmatched psp amount) = fire_unmatched c psp amount"
| "run_command c (Duplicate psp reference) = fire_duplicate c psp reference"
| "run_command c (FxVariance amount) = fire_fx_variance c amount"
| "run_command c (Batch scenarios) = fire_batch c scenarios"

subsection \<open>What is sent\<close>

lemma as_transfer_flutterwave:
  "as_transfer (flutterwave_payload ''charge.completed'' ngn currency t d) = flutterwave_payload ''transfer.completed'' ngn currency t d"
  by (simp add: as_transfer_def set_item_def flutterwave_payload_def flutterwave_data_def dict_get_def)

lemma yields_random: "yields m P \<Longrightarrow> yields (random m) P"
  by (simp add: yields_def random_def split_def)

text \<open>A step of the script from a world: what it returns, and what it leaves of the clock.\<close>

definition steps :: "('s world, 'a) state \<Rightarrow> nat \<Rightarrow> ((nat \<Rightarrow> time) \<Rightarrow> 'a \<Rightarrow> bool) \<Rightarrow> bool" where
  "steps m n P \<longleftrightarrow> (\<forall>w. P (w_clock w) (fst (run_state m w)) \<and> w_clock (snd (run_state m w)) = (\<lambda>i. w_clock w (n + i)))"

lemma steps_return: "(\<And>clk. P clk x) \<Longrightarrow> steps (State_Monad.return x) 0 P"
  by (simp add: steps_def State_Monad.return_def)

lemma steps_bind:
  assumes "steps m i Q" and "\<And>x. steps (k x) j (R x)" and "\<And>clk x y. Q clk x \<Longrightarrow> R x (\<lambda>n. clk (i + n)) y \<Longrightarrow> P clk y"
  shows "steps (State_Monad.bind m k) (i + j) P"
  unfolding steps_def
proof (intro allI conjI)
  fix w
  obtain x w1 where m: "run_state m w = (x, w1)" by fastforce
  then have q: "Q (w_clock w) x" "w_clock w1 = (\<lambda>n. w_clock w (i + n))" using assms(1) unfolding steps_def by (metis fst_conv, metis snd_conv)
  have r: "R x (w_clock w1) (fst (run_state (k x) w1))" "w_clock (snd (run_state (k x) w1)) = (\<lambda>n. w_clock w1 (j + n))"
    using assms(2) unfolding steps_def by blast+
  show "P (w_clock w) (fst (run_state (State_Monad.bind m k) w))"
    using assms(3) [OF q(1)] r(1) q(2) by (simp add: State_Monad.bind_def m)
  show "w_clock (snd (run_state (State_Monad.bind m k) w)) = (\<lambda>n. w_clock w (i + j + n))"
    using r(2) q(2) by (simp add: State_Monad.bind_def m add.assoc)
qed

lemma steps_random: "yields m P \<Longrightarrow> steps (random m) 0 (\<lambda>clk. P)"
  by (simp add: steps_def random_def yields_def split_def)

lemma steps_send: "steps (send m) 0 (\<lambda>clk x. True)"
  by (simp add: steps_def send_def split_def)

lemma steps_now: "steps utc_now 1 (\<lambda>clk t. t = clk 0)"
  by (simp add: steps_def utc_now_def)

lemma steps_mono: "steps m n P \<Longrightarrow> (\<And>clk x. P clk x \<Longrightarrow> Q clk x) \<Longrightarrow> steps m n Q"
  by (simp add: steps_def)

definition charged :: "int option \<Rightarrow> int \<Rightarrow> bool" where
  "charged requested n \<longleftrightarrow> (if requested = None \<or> requested = Some 0 then n \<in> set COMMON_AMOUNTS_NGN else requested = Some n)"

lemma steps_chosen_amount: "steps (chosen_amount requested) 0 (\<lambda>clk. charged requested)"
proof -
  have "COMMON_AMOUNTS_NGN \<noteq> []" by (simp add: COMMON_AMOUNTS_NGN_def)
  then have "steps (random random_amount) 0 (\<lambda>clk n. n \<in> set COMMON_AMOUNTS_NGN)"
    unfolding random_amount_def by (intro steps_random yields_choice)
  then show ?thesis by (auto simp: chosen_amount_def charged_def intro!: steps_return split: option.splits elim!: steps_mono)
qed

definition paystack_charge_at :: "(string \<Rightarrow> bool) \<Rightarrow> int \<Rightarrow> time \<Rightarrow> (string \<times> json) list \<Rightarrow> bool" where
  "paystack_charge_at R ngn t p \<longleftrightarrow> (\<exists>fees d. R (pd_ref d) \<and> p = paystack_payload ''charge.success'' ngn ''NGN'' (strftime_millis t) fees d)"

definition flutterwave_charge_at :: "string \<Rightarrow> (string \<Rightarrow> bool) \<Rightarrow> int \<Rightarrow> time \<Rightarrow> (string \<times> json) list \<Rightarrow> bool" where
  "flutterwave_charge_at event R ngn t p \<longleftrightarrow> (\<exists>d. R (fd_ref d) \<and> p = flutterwave_payload event ngn ''NGN'' (strftime_zulu t) d)"

lemma steps_sp:
  "steps m i Q \<Longrightarrow> (\<And>x. steps (k x) j (R x)) \<Longrightarrow>
    steps (State_Monad.bind m k) (i + j) (\<lambda>clk y. \<exists>x. Q clk x \<and> R x (\<lambda>n. clk (i + n)) y)"
  by (rule steps_bind, assumption, assumption) blast

lemma steps_value: "steps (State_Monad.return x) 0 (\<lambda>clk y. y = x)"
  by (rule steps_return) simp

lemma steps_conseq: "steps m i Q \<Longrightarrow> i = j \<Longrightarrow> (\<And>clk x. Q clk x \<Longrightarrow> P clk x) \<Longrightarrow> steps m j P"
  by (simp add: steps_def)

lemma steps_run: "steps m n P \<Longrightarrow> P (w_clock w) (fst (run_state m w))"
  by (simp add: steps_def)

lemma steps_paystack_charge:
  assumes "yields (paystack_ref reference) R"
  shows "steps (build_paystack_charge ngn reference ''NGN'') 1 (\<lambda>clk. paystack_charge_at R ngn (clk 0))"
  unfolding build_paystack_charge_def
  by (rule steps_conseq, (rule steps_sp steps_now steps_random [OF yields_draw_paystack [OF assms]] steps_value)+)
    (auto simp: paystack_charge_at_def)

lemma steps_flutterwave_charge:
  assumes "yields (flutterwave_ref reference) R"
  shows "steps (build_flutterwave_charge ngn reference ''NGN'') 1 (\<lambda>clk. flutterwave_charge_at ''charge.completed'' R ngn (clk 0))"
  unfolding build_flutterwave_charge_def
  by (rule steps_conseq, (rule steps_sp steps_now steps_random [OF yields_draw_flutterwave [OF assms]] steps_value)+)
    (auto simp: flutterwave_charge_at_def)

lemma steps_fired:
  "steps (fire_paystack dumps keys post p) 0 (\<lambda>clk s. sn_payload s = p)"
  "steps (fire_flutterwave encode keys post p) 0 (\<lambda>clk s. sn_payload s = p)"
  unfolding fire_paystack_def fire_flutterwave_def
  by (rule steps_conseq, (rule steps_sp steps_send steps_value)+, simp, auto)+

lemma transfer_charge:
  "flutterwave_charge_at ''charge.completed'' R n t p \<Longrightarrow> flutterwave_charge_at ''transfer.completed'' R n t (as_transfer p)"
  unfolding flutterwave_charge_at_def using as_transfer_flutterwave by metis

lemma steps_matched_pair:
  "steps (fire_matched_pair c requested) 2 (\<lambda>clk sent. \<exists>n a b. charged requested n \<and> map sn_payload sent = [a, b] \<and>
     paystack_charge_at clean_ref n (clk 0) a \<and> flutterwave_charge_at ''transfer.completed'' clean_ref n (clk 1) b)"
  unfolding fire_matched_pair_def
  by (rule steps_conseq, (rule steps_sp steps_chosen_amount steps_paystack_charge [OF yields_paystack_ref]
      steps_flutterwave_charge [OF yields_flutterwave_ref] steps_fired steps_value)+)
    (auto, metis transfer_charge)

definition fx_amount :: "int option \<Rightarrow> int" where
  "fx_amount requested = (if requested = None \<or> requested = Some 0 then 50000 else the requested)"

lemma yields_variance: "yields (uniform (fl (2 / 1000)) (fl (8 / 1000))) (\<lambda>v. 0 \<le> v)"
proof -
  have pos: "0 \<le> fl (fl (2 / 1000) + fl (fl (fl (8 / 1000) - fl (2 / 1000)) * r))" if "0 \<le> r" for r
  proof -
    have "fl (2 / 1000) \<le> fl (8 / 1000)" by (rule fl.mono) simp
    then show ?thesis using that by (intro fl.nonneg add_nonneg_nonneg mult_nonneg_nonneg) simp_all
  qed
  have u: "yields random_unit (\<lambda>r. 0 \<le> r)"
    unfolding random_unit_def by (intro yields_bind [OF yields_any] yields_return) simp
  show ?thesis unfolding uniform_def by (rule yields_bind [OF u], rule yields_return, rule pos)
qed

lemma fx_varied_pos:
  assumes "0 < n" and "n \<le> 2 ^ 53" and "0 \<le> v"
  shows "n \<le> fx_varied n v"
proof -
  have "fl (of_int 1) = of_int 1" by (rule fl_int) simp
  then have one: "1 \<le> fl (1 + v)" using assms(3) fl.ge_fixed [of 1 "1 + v"] by simp
  have n: "fl (of_int n) = of_int n" using assms(1,2) by (intro fl_int) simp
  have "of_int n * 1 \<le> (of_int n :: rat) * fl (1 + v)" using assms(1) one by (intro mult_left_mono) simp_all
  then have "of_int n \<le> fl (fl (of_int n) * fl (1 + v))" using fl.ge_fixed [OF _ n] by (simp add: n)
  then show ?thesis using assms(1) by (simp add: fx_varied_def py_trunc_def le_floor_iff)
qed

lemma steps_fx_variance:
  "steps (fire_fx_variance c requested) 2 (\<lambda>clk sent. \<exists>v a b. 0 \<le> v \<and> map sn_payload sent = [a, b] \<and>
     paystack_charge_at clean_ref (fx_amount requested) (clk 0) a \<and>
     flutterwave_charge_at ''charge.completed'' clean_ref (fx_varied (fx_amount requested) v) (clk 1) b)"
proof -
  have "(case requested of None \<Rightarrow> 50000 | Some n \<Rightarrow> if n = 0 then 50000 else n) = fx_amount requested"
    by (simp add: fx_amount_def split: option.splits)
  then show ?thesis
    unfolding fire_fx_variance_def Let_def
    by (simp only:) (rule steps_conseq, (rule steps_sp steps_random [OF yields_variance] steps_paystack_charge [OF yields_paystack_ref]
        steps_flutterwave_charge [OF yields_flutterwave_ref] steps_fired steps_value)+, auto)
qed

subsection \<open>Scenarios and matching\<close>

lemma credits_never_pair:
  assumes "config_ok config" and "\<forall>c \<in> set cs. c_type c = ''credit''"
  shows "match_all cs config = Inr []"
proof -
  obtain ps where ps: "match_loop config cs {} cs = Inr ps" using match_loop_total [OF assms(1)] by blast
  have "sound_pair cs config r" if "r \<in> set ps" for r
    using match_loop_sound [OF assms(1) ps] that by auto
  then have "r \<notin> set ps" for r
    using assms(2) unfolding sound_pair_def eligible_def are_complementary_types_def by fastforce
  then have "ps = []" by (cases ps) auto
  then show ?thesis using ps by (simp add: match_all_def)
qed

lemma paystack_charge_seen:
  assumes "paystack_charge_at clean_ref n t p" and "0 < n" "n \<le> 10 ^ 20" and "min_time \<le> t" "t \<le> max_time"
  shows "\<exists>r ref. normalise_paystack_event env p = Inr r \<and> seen_as r env ''paystack'' ref ''credit'' n (cut_to_second t)"
proof -
  obtain fees d where p: "clean_ref (pd_ref d)" "p = paystack_payload ''charge.success'' n ''NGN'' (strftime_millis t) fees d"
    using assms(1) unfolding paystack_charge_at_def by blast
  have ev: "map_of PAYSTACK_EVENTS ''charge.success'' = Some (''credit'', ''settled'')" by code_simp
  show ?thesis using paystack_seen [OF ev assms(2,3) p(1) psp_texts_read(1,2) [OF assms(4,5)], of env fees] p(2) by metis
qed

lemma flutterwave_charge_seen:
  assumes "flutterwave_charge_at event clean_ref n t p" and "map_of FLUTTERWAVE_EVENTS event = Some ty" and "0 < n"
    and "min_time \<le> t" "t \<le> max_time"
  shows "\<exists>r ref. normalise_flutterwave_event env p = Inr r \<and> seen_as r env ''flutterwave'' ref ty n (cut_to_second t)"
proof -
  obtain d where p: "clean_ref (fd_ref d)" "p = flutterwave_payload event n ''NGN'' (strftime_zulu t) d"
    using assms(1) unfolding flutterwave_charge_at_def by blast
  show ?thesis using flutterwave_seen [OF assms(2,3) p(1) psp_texts_read(3) [OF assms(4,5)], of env] p(2) by metis
qed

lemma charged_range:
  assumes "charged requested n" and "\<forall>m. requested = Some m \<longrightarrow> 0 \<le> m \<and> m \<le> 10 ^ 15"
  shows "0 < n \<and> n \<le> 10 ^ 20"
  using assms by (auto simp: charged_def COMMON_AMOUNTS_NGN_def split: if_splits)

lemma cut_to_second_near:
  assumes "t \<le> t'"
  shows "\<bar>cut_to_second t - cut_to_second t'\<bar> \<le> t' - t + us_second"
proof -
  have "0 \<le> t mod us_second" "t mod us_second < us_second" "0 \<le> t' mod us_second" "t' mod us_second < us_second" by simp_all
  then show ?thesis using assms unfolding cut_to_second_alt by linarith
qed

text \<open>The clock of a scenario with two events: readings a datetime can hold, in order.\<close>

definition clock_ok :: "'s world \<Rightarrow> bool" where
  "clock_ok w \<longleftrightarrow> min_time \<le> w_clock w 0 \<and> w_clock w 0 \<le> w_clock w 1 \<and> w_clock w 1 \<le> max_time"

lemma matched_pair_seen:
  assumes "\<forall>m. requested = Some m \<longrightarrow> 0 \<le> m \<and> m \<le> 10 ^ 15" and "clock_ok w"
  shows "\<exists>a b r r' n ref ref'. map sn_payload (fst (run_state (fire_matched_pair c requested) w)) = [a, b] \<and>
    normalise_paystack_event env a = Inr r \<and> normalise_flutterwave_event env' b = Inr r' \<and>
    seen_as r env ''paystack'' ref ''credit'' n (cut_to_second (w_clock w 0)) \<and>
    seen_as r' env' ''flutterwave'' ref' ''debit'' n (cut_to_second (w_clock w 1))"
proof -
  have t: "min_time \<le> w_clock w 0" "w_clock w 0 \<le> max_time" "min_time \<le> w_clock w 1" "w_clock w 1 \<le> max_time"
    using assms(2) unfolding clock_ok_def by linarith+
  have ev: "map_of FLUTTERWAVE_EVENTS ''transfer.completed'' = Some ''debit''" by code_simp
  obtain n a b where p: "charged requested n" "map sn_payload (fst (run_state (fire_matched_pair c requested) w)) = [a, b]"
    "paystack_charge_at clean_ref n (w_clock w 0) a" "flutterwave_charge_at ''transfer.completed'' clean_ref n (w_clock w 1) b"
    using steps_run [OF steps_matched_pair [of c requested], of w] by (elim exE conjE)
  have n: "0 < n" "n \<le> 10 ^ 20" using charged_range [OF p(1) assms(1)] by simp_all
  show ?thesis
    using p(2) paystack_charge_seen [OF p(3) n t(1,2), of env] flutterwave_charge_seen [OF p(4) ev n(1) t(3,4), of env']
    by metis
qed

lemma fx_variance_seen:
  assumes "\<forall>m. requested = Some m \<longrightarrow> 0 \<le> m \<and> m \<le> 10 ^ 15" and "clock_ok w"
  shows "\<exists>a b r r' n n' ref ref'. map sn_payload (fst (run_state (fire_fx_variance c requested) w)) = [a, b] \<and>
    normalise_paystack_event env a = Inr r \<and> normalise_flutterwave_event env' b = Inr r' \<and>
    seen_as r env ''paystack'' ref ''credit'' n (cut_to_second (w_clock w 0)) \<and>
    seen_as r' env' ''flutterwave'' ref' ''credit'' n' (cut_to_second (w_clock w 1))"
proof -
  have t: "min_time \<le> w_clock w 0" "w_clock w 0 \<le> max_time" "min_time \<le> w_clock w 1" "w_clock w 1 \<le> max_time"
    using assms(2) unfolding clock_ok_def by linarith+
  have ev: "map_of FLUTTERWAVE_EVENTS ''charge.completed'' = Some ''credit''" by code_simp
  obtain v a b where q: "0 \<le> v" "map sn_payload (fst (run_state (fire_fx_variance c requested) w)) = [a, b]"
    "paystack_charge_at clean_ref (fx_amount requested) (w_clock w 0) a"
    "flutterwave_charge_at ''charge.completed'' clean_ref (fx_varied (fx_amount requested) v) (w_clock w 1) b"
    using steps_run [OF steps_fx_variance [of c requested], of w] by (elim exE conjE)
  have f: "0 < fx_amount requested" "fx_amount requested \<le> 10 ^ 15"
    using assms(1) by (auto simp: fx_amount_def order_le_less)
  then have b: "fx_amount requested \<le> 10 ^ 20" "fx_amount requested \<le> 2 ^ 53" by simp_all
  have f': "0 < fx_varied (fx_amount requested) v" using fx_varied_pos [OF f(1) b(2) q(1)] f(1) by linarith
  show ?thesis
    using q(2) paystack_charge_seen [OF q(3) f(1) b(1) t(1,2), of env] flutterwave_charge_seen [OF q(4) ev f' t(3,4), of env']
    by metis
qed

text \<open>
  C37 What the simulated scenarios show of the engine: for every seed, the two events of the
  matched-pair scenario normalise and are paired by the first tier when the clock advances by less
  than the configured window between them, while the two events of the fx-variance scenario are
  both credits, so that matching never pairs them, whatever the variance.
\<close>

theorem simulator_pairing:
  assumes "config_ok config" and "e_new_id env \<noteq> e_new_id env'"
    and "\<forall>m. requested = Some m \<longrightarrow> 0 \<le> m \<and> m \<le> 10 ^ 15" and "clock_ok w"
    and "w_clock w 1 - w_clock w 0 + us_second \<le> primary_time_window config"
  shows "(\<exists>a b r r' m. map sn_payload (fst (run_state (fire_matched_pair c requested) w)) = [a, b] \<and>
      normalise_paystack_event env a = Inr r \<and> normalise_flutterwave_event env' b = Inr r' \<and>
      match_all [to_candidate r, to_candidate r'] config = Inr [m] \<and> source_transaction_id m = tx_id r \<and>
      matched_transaction_id m = Some (tx_id r') \<and> mr_strategy m = EXACT_PRIMARY) \<and>
    (\<exists>a b r r'. map sn_payload (fst (run_state (fire_fx_variance c requested) w)) = [a, b] \<and>
      normalise_paystack_event env a = Inr r \<and> normalise_flutterwave_event env' b = Inr r' \<and>
      transaction_type r = ''credit'' \<and> transaction_type r' = ''credit'' \<and>
      match_all [to_candidate r, to_candidate r'] config = Inr [])"
proof (rule conjI)
  obtain a b r r' n ref ref' where p: "map sn_payload (fst (run_state (fire_matched_pair c requested) w)) = [a, b]"
    "normalise_paystack_event env a = Inr r" "normalise_flutterwave_event env' b = Inr r'"
    "seen_as r env ''paystack'' ref ''credit'' n (cut_to_second (w_clock w 0))"
    "seen_as r' env' ''flutterwave'' ref' ''debit'' n (cut_to_second (w_clock w 1))"
    using matched_pair_seen [OF assms(3,4), of c env env'] by (elim exE conjE)
  have "\<bar>cut_to_second (w_clock w 0) - cut_to_second (w_clock w 1)\<bar> \<le> primary_time_window config"
    using cut_to_second_near [of "w_clock w 0" "w_clock w 1"] assms(4,5) unfolding clock_ok_def by linarith
  from pair_matches [OF assms(1) p(4,5) assms(2) this]
  obtain m where m: "match_all [to_candidate r, to_candidate r'] config = Inr [m]" "source_transaction_id m = tx_id r"
    "matched_transaction_id m = Some (tx_id r')" "mr_strategy m = EXACT_PRIMARY" using p(4,5) by (auto simp: seen_as_def)
  show "\<exists>a b r r' m. map sn_payload (fst (run_state (fire_matched_pair c requested) w)) = [a, b] \<and>
      normalise_paystack_event env a = Inr r \<and> normalise_flutterwave_event env' b = Inr r' \<and>
      match_all [to_candidate r, to_candidate r'] config = Inr [m] \<and> source_transaction_id m = tx_id r \<and>
      matched_transaction_id m = Some (tx_id r') \<and> mr_strategy m = EXACT_PRIMARY"
    by (intro exI conjI) (rule p(1-3) m)+
next
  obtain a b r r' n n' ref ref' where q: "map sn_payload (fst (run_state (fire_fx_variance c requested) w)) = [a, b]"
    "normalise_paystack_event env a = Inr r" "normalise_flutterwave_event env' b = Inr r'"
    "seen_as r env ''paystack'' ref ''credit'' n (cut_to_second (w_clock w 0))"
    "seen_as r' env' ''flutterwave'' ref' ''credit'' n' (cut_to_second (w_clock w 1))"
    using fx_variance_seen [OF assms(3,4), of c env env'] by (elim exE conjE)
  have ty: "transaction_type r = ''credit''" "transaction_type r' = ''credit''" using q(4,5) by (simp_all add: seen_as_def)
  then have "match_all [to_candidate r, to_candidate r'] config = Inr []"
    by (intro credits_never_pair [OF assms(1)]) (simp add: to_candidate_def)
  then show "\<exists>a b r r'. map sn_payload (fst (run_state (fire_fx_variance c requested) w)) = [a, b] \<and>
      normalise_paystack_event env a = Inr r \<and> normalise_flutterwave_event env' b = Inr r' \<and>
      transaction_type r = ''credit'' \<and> transaction_type r' = ''credit'' \<and>
      match_all [to_candidate r, to_candidate r'] config = Inr []"
    using ty by (intro exI conjI) (rule q(1-3) | assumption)+
qed

definition example_world :: "unit world" where
  "example_world = \<lparr>w_seed = (\<lambda>i. i * i + 7), w_clock = (\<lambda>i. 20000 * us_day + int i * us_second), w_server = ()\<rparr>"

definition refusing_client :: "unit client" where
  "refusing_client = \<lparr>cl_dumps = (\<lambda>v. ''{}''), cl_encode = (\<lambda>v. ''{}''), cl_keys = example_settings,
     cl_post = (\<lambda>r. State_Monad.return None)\<rparr>"

theorem simulator_pairing_witness:
  "\<exists>a b r r' m. map sn_payload (fst (run_state (fire_matched_pair refusing_client (Some 50000)) example_world)) = [a, b] \<and>
    normalise_paystack_event (Normaliser.example_env\<lparr>e_new_id := 1\<rparr>) a = Inr r \<and>
    normalise_flutterwave_event (Normaliser.example_env\<lparr>e_new_id := 2\<rparr>) b = Inr r' \<and>
    match_all [to_candidate r, to_candidate r'] DEFAULT_CONFIG = Inr [m] \<and> mr_strategy m = EXACT_PRIMARY"
proof -
  have c: "clock_ok example_world" unfolding clock_ok_def example_world_def by code_simp
  have w: "w_clock example_world 1 - w_clock example_world 0 + us_second \<le> primary_time_window DEFAULT_CONFIG"
    unfolding example_world_def by code_simp
  have e: "e_new_id (Normaliser.example_env\<lparr>e_new_id := 1\<rparr>) \<noteq> e_new_id (Normaliser.example_env\<lparr>e_new_id := 2\<rparr>)" by simp
  have r: "\<forall>m. Some 50000 = Some m \<longrightarrow> 0 \<le> m \<and> m \<le> (10 ^ 15 :: int)" by simp
  from simulator_pairing [OF default_config_ok e r c w, of refusing_client] show ?thesis
    by (elim conjE exE) (intro exI conjI, assumption+)
qed

subsection \<open>Duplicates\<close>

text \<open>A step that does not talk to the server.\<close>

definition quiet :: "('s world, 'a) state \<Rightarrow> bool" where
  "quiet m \<longleftrightarrow> (\<forall>w. w_server (snd (run_state m w)) = w_server w)"

lemma quiet_intros:
  "quiet (State_Monad.return x)" "quiet (random r)" "quiet utc_now"
  "quiet m \<Longrightarrow> (\<And>x. quiet (k x)) \<Longrightarrow> quiet (State_Monad.bind m k)"
  by (simp_all add: quiet_def State_Monad.return_def State_Monad.bind_def random_def utc_now_def split_def)

lemma quiet_builders: "quiet (build_paystack_charge n r cur)" "quiet (build_flutterwave_charge n r cur)"
  unfolding build_paystack_charge_def build_flutterwave_charge_def by (intro quiet_intros)+

lemma run_quiet:
  assumes "quiet m" and "steps m n P"
  obtains x w1 where "run_state m w = (x, w1)" "P (w_clock w) x" "w_server w1 = w_server w"
  using assms unfolding quiet_def steps_def by (metis prod.collapse)

text \<open>Firing a recordable payload twice at endpoints that stay healthy.\<close>

definition fired_twice :: "api world \<Rightarrow> string \<Rightarrow> (string \<times> json) list \<Rightarrow> sent list \<Rightarrow> api world \<Rightarrow> bool" where
  "fired_twice w key p out w2 \<longleftrightarrow> (let new = key \<notin> dom (api_table (w_server w)) in
     out = [\<lparr>sn_payload = p, sn_reply = webhook_reply (Inr (new, key))\<rparr>, \<lparr>sn_payload = p, sn_reply = webhook_reply (Inr (False, key))\<rparr>] \<and>
     dom (api_table (w_server w2)) = insert key (dom (api_table (w_server w))) \<and>
     posted_keys (w_server w2) = posted_keys (w_server w) @ (if new then [key] else []))"

lemma fire_recordable:
  assumes "\<forall>n. healthy (envs n)" and "recordable loads cfg r key"
  shows "\<exists>w2. run_state (do { reply \<leftarrow> send (api_post loads cfg envs received r);
      State_Monad.return \<lparr>sn_payload = p, sn_reply = (case reply of None \<Rightarrow> connection_refused | Some r \<Rightarrow> r)\<rparr> }) w =
      (\<lparr>sn_payload = p, sn_reply = webhook_reply (Inr (key \<notin> dom (api_table (w_server w)), key))\<rparr>, w2) \<and>
    dom (api_table (w_server w2)) = insert key (dom (api_table (w_server w))) \<and>
    posted_keys (w_server w2) = posted_keys (w_server w) @ (if key \<in> dom (api_table (w_server w)) then [] else [key])"
proof -
  obtain s2 where "run_state (api_post loads cfg envs received r) (w_server w) =
      (Some (webhook_reply (Inr (key \<notin> dom (api_table (w_server w)), key))), s2)"
    "dom (api_table s2) = insert key (dom (api_table (w_server w)))"
    "posted_keys s2 = posted_keys (w_server w) @ publish_order (dom (api_table (w_server w))) [key]"
    using api_post_recordable [OF assms, of received "w_server w"] by (elim exE conjE)
  then show ?thesis by (simp add: send_def State_Monad.bind_def State_Monad.return_def)
qed

lemma fire_twice_recordable:
  assumes "\<forall>n. healthy (envs n)" and "recordable loads cfg r key"
    and "fire = do { reply \<leftarrow> send (api_post loads cfg envs received r);
      State_Monad.return \<lparr>sn_payload = p, sn_reply = (case reply of None \<Rightarrow> connection_refused | Some r \<Rightarrow> r)\<rparr> }"
  shows "\<exists>out w2. run_state (do { r1 \<leftarrow> fire; r2 \<leftarrow> fire; State_Monad.return [r1, r2] }) w = (out, w2) \<and> fired_twice w key p out w2"
proof -
  obtain w1 where w1: "run_state fire w = (\<lparr>sn_payload = p, sn_reply = webhook_reply (Inr (key \<notin> dom (api_table (w_server w)), key))\<rparr>, w1)"
    "dom (api_table (w_server w1)) = insert key (dom (api_table (w_server w)))"
    "posted_keys (w_server w1) = posted_keys (w_server w) @ (if key \<in> dom (api_table (w_server w)) then [] else [key])"
    using fire_recordable [OF assms(1,2), of received p w] unfolding assms(3) by (elim exE conjE)
  obtain w2 where w2: "run_state fire w1 = (\<lparr>sn_payload = p, sn_reply = webhook_reply (Inr (key \<notin> dom (api_table (w_server w1)), key))\<rparr>, w2)"
    "dom (api_table (w_server w2)) = insert key (dom (api_table (w_server w1)))"
    "posted_keys (w_server w2) = posted_keys (w_server w1) @ (if key \<in> dom (api_table (w_server w1)) then [] else [key])"
    using fire_recordable [OF assms(1,2), of received p w1] unfolding assms(3) by (elim exE conjE)
  show ?thesis
    by (simp add: State_Monad.bind_def State_Monad.return_def w1 w2 fired_twice_def Let_def)
qed

lemma yields_duplicate_ref:
  assumes "\<forall>r. reference = Some r \<longrightarrow> r = [] \<or> short_ref r"
  shows "yields (duplicate_ref reference) short_ref"
proof (cases "reference = None \<or> reference = Some []")
  case True
  have "short_ref (''T_dup_'' @ h)" if h: "length h = 8" "set h \<subseteq> set hex_digits" for h
  proof -
    have "\<forall>x \<in> set ''T_dup_''. \<not> is_space x" by (simp add: is_space_def code_def)
    then have "\<forall>x \<in> set (''T_dup_'' @ h). \<not> is_space x" unfolding set_append using h(2) hex_blank_free by blast
    then have "clean_ref (''T_dup_'' @ h)" by (intro clean_refI) simp
    then show ?thesis using h hex_no_nul [OF h(2)] by (simp add: short_ref_def)
  qed
  then show ?thesis unfolding duplicate_ref_def using True
    by (simp only: if_True) (rule yields_bind [OF yields_hex], rule yields_return, blast)
next
  case False
  then show ?thesis using assms by (auto simp: duplicate_ref_def intro: yields_return)
qed

definition keeps_charges :: "(json \<Rightarrow> string) \<Rightarrow> (string \<Rightarrow> json option) \<Rightarrow> bool" where
  "keeps_charges dumps loads \<longleftrightarrow> (\<forall>event ngn t fees d. json_kept dumps loads (paystack_payload event ngn ''NGN'' t fees d)) \<and>
     (\<forall>event ngn t d. json_kept dumps loads (flutterwave_payload event ngn ''NGN'' t d))"

lemma bind_at: "run_state m w = (x, w1) \<Longrightarrow> run_state (State_Monad.bind m k) w = run_state (k x) w1"
  by (simp add: State_Monad.bind_def)

lemma fired_twice_server: "fired_twice w key p out w2 \<Longrightarrow> w_server w = w_server w' \<Longrightarrow> fired_twice w' key p out w2"
  by (simp add: fired_twice_def)

text \<open>One branch of the scenario: a payload built with the reference, posted twice.\<close>

lemma paystack_twice:
  assumes "\<forall>n. healthy (envs n)" and "credentials_ok cfg" and "keeps_charges dumps loads" and "short_ref ref"
  shows "\<exists>p out w2. run_state (do { p \<leftarrow> build_paystack_charge 50000 (Some ref) ''NGN'';
      r1 \<leftarrow> fire_paystack dumps cfg (api_post loads cfg envs received) p;
      r2 \<leftarrow> fire_paystack dumps cfg (api_post loads cfg envs received) p; State_Monad.return [r1, r2] }) w = (out, w2) \<and>
    fired_twice w (build_idempotency_key ''paystack'' ref ''charge.success'') p out w2"
proof -
  have y: "yields (paystack_ref (Some ref)) (\<lambda>r. r = ref)"
    using assms(4) by (intro yields_kept_ref(1)) (simp_all add: short_ref_def clean_ref_def)
  obtain p w1 where w1: "run_state (build_paystack_charge 50000 (Some ref) ''NGN'') w = (p, w1)"
    "paystack_charge_at (\<lambda>r. r = ref) 50000 (w_clock w 0) p" "w_server w1 = w_server w"
    using run_quiet [OF quiet_builders(1) steps_paystack_charge [OF y]] by metis
  obtain fees d where p: "pd_ref d = ref" "p = paystack_payload ''charge.success'' 50000 ''NGN'' (strftime_millis (w_clock w 0)) fees d"
    using w1(2) unfolding paystack_charge_at_def by blast
  have e: "''charge.success'' \<in> set sent_events" by (simp add: sent_events_def)
  have "short_ref (pd_ref d)" using assms(4) p(1) by simp
  then have "recordable loads cfg (paystack_request cfg (dumps (JObj p))) (build_idempotency_key ''paystack'' ref ''charge.success'')"
    using paystack_recordable [OF assms(2) _ _ e] assms(3) unfolding p(2) keeps_charges_def p(1) [symmetric] by blast
  from fire_twice_recordable [OF assms(1) this refl, of received p w1]
  show ?thesis unfolding bind_at [OF w1(1)] fire_paystack_def using fired_twice_server [OF _ w1(3)] by blast
qed

lemma flutterwave_twice:
  assumes "\<forall>n. healthy (envs n)" and "credentials_ok cfg" and "keeps_charges encode loads" and "short_ref ref"
  shows "\<exists>p out w2. run_state (do { p \<leftarrow> build_flutterwave_charge 50000 (Some ref) ''NGN'';
      r1 \<leftarrow> fire_flutterwave encode cfg (api_post loads cfg envs received) p;
      r2 \<leftarrow> fire_flutterwave encode cfg (api_post loads cfg envs received) p; State_Monad.return [r1, r2] }) w = (out, w2) \<and>
    fired_twice w (build_idempotency_key ''flutterwave'' ref ''charge.completed'') p out w2"
proof -
  have y: "yields (flutterwave_ref (Some ref)) (\<lambda>r. r = ref)"
    using assms(4) by (intro yields_kept_ref(2)) (simp_all add: short_ref_def clean_ref_def)
  obtain p w1 where w1: "run_state (build_flutterwave_charge 50000 (Some ref) ''NGN'') w = (p, w1)"
    "flutterwave_charge_at ''charge.completed'' (\<lambda>r. r = ref) 50000 (w_clock w 0) p" "w_server w1 = w_server w"
    using run_quiet [OF quiet_builders(2) steps_flutterwave_charge [OF y]] by metis
  obtain d where p: "fd_ref d = ref" "p = flutterwave_payload ''charge.completed'' 50000 ''NGN'' (strftime_zulu (w_clock w 0)) d"
    using w1(2) unfolding flutterwave_charge_at_def by blast
  have e: "''charge.completed'' \<in> set sent_events" by (simp add: sent_events_def)
  have "short_ref (fd_ref d)" using assms(4) p(1) by simp
  then have "recordable loads cfg (flutterwave_request cfg (encode (JObj p))) (build_idempotency_key ''flutterwave'' ref ''charge.completed'')"
    using flutterwave_recordable [OF assms(2) _ _ e] assms(3) unfolding p(2) keeps_charges_def p(1) [symmetric] by blast
  from fire_twice_recordable [OF assms(1) this refl, of received p w1]
  show ?thesis unfolding bind_at [OF w1(1)] fire_flutterwave_def using fired_twice_server [OF _ w1(3)] by blast
qed

text \<open>
  A duplicate is recorded once: whatever its reference, new or replayed from an earlier run, the
  duplicate scenario posts one payload twice, both posts are acknowledged with the same key, the
  second is never new, the first is new exactly when the key was not registered, and the topic
  gains one message or none accordingly.
\<close>

theorem simulator_duplicate_once:
  assumes "\<forall>n. healthy (envs n)" and "credentials_ok cfg" and "keeps_charges dumps loads" and "keeps_charges encode loads"
    and "\<forall>r. reference = Some r \<longrightarrow> r = [] \<or> short_ref r"
    and "c = \<lparr>cl_dumps = dumps, cl_encode = encode, cl_keys = cfg, cl_post = api_post loads cfg envs received\<rparr>"
  shows "\<exists>key p w2. let new = key \<notin> dom (api_table (w_server w)) in
    run_state (fire_duplicate c psp reference) w =
      ([\<lparr>sn_payload = p, sn_reply = webhook_reply (Inr (new, key))\<rparr>, \<lparr>sn_payload = p, sn_reply = webhook_reply (Inr (False, key))\<rparr>], w2) \<and>
    dom (api_table (w_server w2)) = insert key (dom (api_table (w_server w))) \<and>
    posted_keys (w_server w2) = posted_keys (w_server w) @ (if new then [key] else [])"
proof -
  obtain ref w1 where r: "run_state (random (duplicate_ref reference)) w = (ref, w1)" "short_ref ref" "w_server w1 = w_server w"
    using run_quiet [OF quiet_intros(2) steps_random [OF yields_duplicate_ref [OF assms(5)]]] by metis
  have "\<exists>key p out w2. run_state (fire_duplicate c psp reference) w = (out, w2) \<and> fired_twice w key p out w2"
    unfolding fire_duplicate_def bind_at [OF r(1)] assms(6) client.simps
    using paystack_twice [OF assms(1,2,3) r(2), of received w1] flutterwave_twice [OF assms(1,2,4) r(2), of received w1]
      fired_twice_server [OF _ r(3)] by (cases "psp = ''paystack''") (simp_all, blast+)
  then show ?thesis unfolding fired_twice_def Let_def by metis
qed

definition lower_settings :: ingest_settings where
  "lower_settings = example_settings\<lparr>hmac_sha512 := \<lambda>k m. ''ab''\<rparr>"

lemma lower_settings_ok: "credentials_ok lower_settings"
  by (simp add: credentials_ok_def lower_settings_def example_settings_def) code_simp

theorem simulator_duplicate_once_witness:
  "\<exists>key p w2. run_state (fire_duplicate \<lparr>cl_dumps = numbered, cl_encode = numbered, cl_keys = lower_settings,
        cl_post = api_post read_numbered lower_settings (\<lambda>n. example_ingest_env) (\<lambda>n. ''now'')\<rparr> ''paystack'' (Some ''T_abc123''))
      \<lparr>w_seed = (\<lambda>i. i * i + 7), w_clock = (\<lambda>i. 20000 * us_day), w_server = \<lparr>api_calls = 0, api_table = Map.empty, api_topic = []\<rparr>\<rparr> =
      ([\<lparr>sn_payload = p, sn_reply = webhook_reply (Inr (True, key))\<rparr>, \<lparr>sn_payload = p, sn_reply = webhook_reply (Inr (False, key))\<rparr>], w2) \<and>
    posted_keys (w_server w2) = [key]"
proof -
  let ?c = "\<lparr>cl_dumps = numbered, cl_encode = numbered, cl_keys = lower_settings,
    cl_post = api_post read_numbered lower_settings (\<lambda>n. example_ingest_env) (\<lambda>n. ''now'')\<rparr>"
  let ?w = "\<lparr>w_seed = (\<lambda>i. i * i + 7), w_clock = (\<lambda>i. 20000 * us_day), w_server = \<lparr>api_calls = 0, api_table = Map.empty, api_topic = []\<rparr>\<rparr>"
  have h: "\<forall>n :: nat. healthy example_ingest_env" by (simp add: healthy_def example_ingest_env_def)
  have k: "keeps_charges numbered read_numbered" by (simp add: keeps_charges_def numbered_kept)
  have "short_ref ''T_abc123''" unfolding short_ref_def clean_ref_def by code_simp
  then have r: "\<forall>r. Some ''T_abc123'' = Some r \<longrightarrow> r = [] \<or> short_ref r" by simp
  obtain key p w2 where e: "let new = key \<notin> dom (api_table (w_server ?w)) in
      run_state (fire_duplicate ?c ''paystack'' (Some ''T_abc123'')) ?w =
        ([\<lparr>sn_payload = p, sn_reply = webhook_reply (Inr (new, key))\<rparr>, \<lparr>sn_payload = p, sn_reply = webhook_reply (Inr (False, key))\<rparr>], w2) \<and>
      dom (api_table (w_server w2)) = insert key (dom (api_table (w_server ?w))) \<and>
      posted_keys (w_server w2) = posted_keys (w_server ?w) @ (if new then [key] else [])"
    using simulator_duplicate_once [where received = "\<lambda>n. ''now''" and w = ?w and psp = "''paystack''",
      OF h lower_settings_ok k k r refl] by (elim exE)
  have n: "key \<notin> dom (api_table (w_server ?w)) \<longleftrightarrow> True" "posted_keys (w_server ?w) = []" by (simp_all add: posted_keys_def)
  have "run_state (fire_duplicate ?c ''paystack'' (Some ''T_abc123'')) ?w =
        ([\<lparr>sn_payload = p, sn_reply = webhook_reply (Inr (True, key))\<rparr>, \<lparr>sn_payload = p, sn_reply = webhook_reply (Inr (False, key))\<rparr>], w2)"
    "posted_keys (w_server w2) = [key]"
    using e unfolding Let_def n if_True append_Nil by (rule conjunct1, elim conjE)
  then show ?thesis by (intro exI conjI)
qed

subsection \<open>The shares of a batch\<close>

lemma portion_bounds:
  assumes "0 \<le> n" and "n \<le> 2 ^ 40" and "0 \<le> s" and "s \<le> of_int k / 2 ^ 6" and "0 \<le> k" "k \<le> 64"
  shows "0 \<le> portion n s \<and> 64 * portion n s \<le> k * n"
proof -
  have n: "fl (of_int n) = of_int n" using assms(1,2) by (intro fl_int) simp
  have "k * n \<le> 64 * 2 ^ 40" using assms by (intro mult_mono) simp_all
  then have b: "\<bar>k * n\<bar> \<le> 2 ^ 53" using assms by (simp add: abs_le_iff)
  have "of_int n * s \<le> of_int n * (of_int k / 2 ^ 6)" using assms by (intro mult_left_mono) simp_all
  then have "fl (of_int n * s) \<le> of_int (k * n) / 2 ^ 6"
    using fl.le_fixed [OF _ fl_dyadic [OF b, of 6]] by (simp add: mult.commute)
  moreover have "0 \<le> fl (of_int n * s)" using assms by (intro fl.nonneg mult_nonneg_nonneg) simp_all
  ultimately have p: "portion n s = \<lfloor>fl (of_int n * s)\<rfloor>" "of_int (portion n s) \<le> (of_int (k * n) / 64 :: rat)" "0 \<le> portion n s"
    by (simp_all add: portion_def n py_trunc_def) linarith
  then have "of_int (64 * portion n s) \<le> (of_int (k * n) :: rat)" by simp
  then show ?thesis using p(3) by (simp only: of_int_le_iff)
qed

lemma share_bounds: "0 \<le> fl (70 / 100) \<and> fl (70 / 100) \<le> of_int 45 / 2 ^ 6" "0 \<le> fl (15 / 100) \<and> fl (15 / 100) \<le> of_int 10 / 2 ^ 6"
  "0 \<le> fl (10 / 100) \<and> fl (10 / 100) \<le> of_int 7 / 2 ^ 6"
  using fl.le_fixed [OF _ fl_dyadic [of 45 6], of "70 / 100"] fl.le_fixed [OF _ fl_dyadic [of 10 6], of "15 / 100"]
    fl.le_fixed [OF _ fl_dyadic [of 7 6], of "10 / 100"] by (simp_all add: fl.nonneg)

lemma batch_shares_bounds:
  assumes "0 \<le> n" and "n \<le> 2 ^ 40"
  shows "let sh = batch_shares n in 0 \<le> sh_matched sh \<and> 0 \<le> sh_unmatched sh \<and> 0 \<le> sh_duplicates sh \<and> 0 \<le> sh_fx sh \<and>
    sh_matched sh + sh_unmatched sh + sh_duplicates sh + sh_fx sh = n"
proof -
  have "0 \<le> portion n (fl (70 / 100)) \<and> 64 * portion n (fl (70 / 100)) \<le> 45 * n"
    "0 \<le> portion n (fl (15 / 100)) \<and> 64 * portion n (fl (15 / 100)) \<le> 10 * n"
    "0 \<le> portion n (fl (10 / 100)) \<and> 64 * portion n (fl (10 / 100)) \<le> 7 * n"
    using portion_bounds [OF assms share_bounds(1) [THEN conjunct1] share_bounds(1) [THEN conjunct2]]
      portion_bounds [OF assms share_bounds(2) [THEN conjunct1] share_bounds(2) [THEN conjunct2]]
      portion_bounds [OF assms share_bounds(3) [THEN conjunct1] share_bounds(3) [THEN conjunct2]]
    by simp_all
  then show ?thesis using assms(1) unfolding batch_shares_def Let_def by simp
qed

text \<open>The events a batch sends: two of each scenario but the unmatched ones.\<close>

lemma yields_scenario_lengths:
  "yields (fire_matched_pair c requested) (\<lambda>xs. length xs = 2)" "yields (fire_fx_variance c requested) (\<lambda>xs. length xs = 2)"
  "yields (fire_unmatched c psp requested) (\<lambda>xs. length xs = 1)" "yields (fire_duplicate c psp reference) (\<lambda>xs. length xs = 2)"
proof -
  have r: "yields (State_Monad.return xs) (\<lambda>ys. length ys = length xs)" for xs :: "sent list" by (rule yields_return) simp
  show "yields (fire_matched_pair c requested) (\<lambda>xs. length xs = 2)"
    unfolding fire_matched_pair_def by (rule yields_bind [OF yields_any])+ (rule yields_mono [OF r], simp)
  show "yields (fire_fx_variance c requested) (\<lambda>xs. length xs = 2)"
    unfolding fire_fx_variance_def Let_def by (rule yields_bind [OF yields_any])+ (rule yields_mono [OF r], simp)
  show "yields (fire_unmatched c psp requested) (\<lambda>xs. length xs = 1)"
    unfolding fire_unmatched_def by (rule yields_bind [OF yields_any])+ (rule yields_mono [OF r], simp)
  have "yields (do { p \<leftarrow> b; r1 \<leftarrow> f p; r2 \<leftarrow> g p; State_Monad.return [r1, r2] }) (\<lambda>xs. length xs = 2)"
    for b :: "('a world, (string \<times> json) list) state" and f g :: "(string \<times> json) list \<Rightarrow> ('a world, sent) state"
    by (rule yields_bind [OF yields_any])+ (rule yields_mono [OF r], simp)
  then show "yields (fire_duplicate c psp reference) (\<lambda>xs. length xs = 2)"
    unfolding fire_duplicate_def by (intro yields_bind [OF yields_any [of "random _"]]) simp
qed

lemma yields_extended_length:
  assumes "yields m (\<lambda>xs. length xs = k)"
  shows "yields (extended n m) (\<lambda>xs. length xs = n * k)"
proof -
  have "length (concat xss) = length xss * k" if "list_all (\<lambda>xs. length xs = k) xss" for xss :: "'b list list"
    using that by (induction xss) simp_all
  then show ?thesis unfolding extended_def
    by (intro yields_bind [OF yields_repeated [OF assms]] yields_return) metis
qed

lemma batch_sends:
  assumes "0 \<le> n" and "n \<le> 2 ^ 40"
  shows "int (length (fst (run_state (fire_batch c n) w))) = 2 * n - sh_unmatched (batch_shares n)"
proof -
  define sh where "sh = batch_shares n"
  have b: "0 \<le> sh_matched sh" "0 \<le> sh_unmatched sh" "0 \<le> sh_duplicates sh" "0 \<le> sh_fx sh"
    "sh_matched sh + sh_unmatched sh + sh_duplicates sh + sh_fx sh = n"
    using batch_shares_bounds [OF assms] unfolding Let_def sh_def by simp_all
  let ?choose = "random (choice [''paystack'', ''flutterwave''])"
  have u: "yields (do { psp \<leftarrow> ?choose; fire_unmatched c psp None }) (\<lambda>xs. length xs = 1)"
    by (rule yields_bind [OF yields_any]) (rule yields_scenario_lengths)
  have d: "yields (do { psp \<leftarrow> ?choose; fire_duplicate c psp None }) (\<lambda>xs. length xs = 2)"
    by (rule yields_bind [OF yields_any]) (rule yields_scenario_lengths)
  have "yields (fire_batch c n) (\<lambda>xs. length xs =
      nat (sh_matched sh) * 2 + nat (sh_unmatched sh) * 1 + nat (sh_duplicates sh) * 2 + nat (sh_fx sh) * 2)"
    unfolding fire_batch_def Let_def sh_def [symmetric]
    by (rule yields_bind [OF yields_extended_length [OF yields_scenario_lengths(1)]],
      rule yields_bind [OF yields_extended_length [OF u]], rule yields_bind [OF yields_extended_length [OF d]],
      rule yields_bind [OF yields_extended_length [OF yields_scenario_lengths(2)]], rule yields_return) simp
  then show ?thesis using b unfolding yields_def sh_def [symmetric] by simp
qed

end
