(* ===== verification/Polling_Client.thy ===== *)
theory Polling_Client
  imports Scheduler Timestamps
begin

text \<open>
  \<open>src/connectors/paystack_polling.py\<close> and \<open>src/connectors/flutterwave_polling.py\<close>: the requests the two API
  clients send and what they make of the answers. The HTTP client and the PSP behind it are the
  parameter \<open>http\<close>; a call that raises is \<open>Inl\<close>.
\<close>

subsection \<open>Requests and answers\<close>

record get_request =
  gq_url :: string
  gq_params :: "(string \<times> json) list"
  gq_bearer :: string

text \<open>A body that is not JSON is \<open>None\<close>.\<close>

record http_response =
  hr_status :: nat
  hr_json :: "json option"

type_synonym http_client = "get_request \<Rightarrow> exc + http_response"

text \<open>\<open>raise_for_status\<close> lets only the 2xx statuses pass.\<close>

definition checked_json :: "http_response \<Rightarrow> exc + json" where
  "checked_json response = (if hr_status response < 200 \<or> 300 \<le> hr_status response then Inl (RuntimeError ''HTTPStatusError'')
     else case hr_json response of None \<Rightarrow> Inl (ValueError ''JSONDecodeError'') | Some v \<Rightarrow> Inr v)"

definition get_json :: "http_client \<Rightarrow> get_request \<Rightarrow> exc + json" where
  "get_json http request = sbind (http request) checked_json"

text \<open>\<open>d.get(k, default)\<close> and \<open>len\<close>.\<close>

definition get_default :: "json \<Rightarrow> string \<Rightarrow> json \<Rightarrow> exc + json" where
  "get_default v k absent = (case v of
     JObj kvs \<Rightarrow> Inr (case map_of kvs k of None \<Rightarrow> absent | Some x \<Rightarrow> x)
   | _ \<Rightarrow> Inl AttributeError)"

definition json_len :: "json \<Rightarrow> exc + nat" where
  "json_len v = (case v of JList xs \<Rightarrow> Inr (length xs) | JObj kvs \<Rightarrow> Inr (length kvs) | JStr s \<Rightarrow> Inr (length s)
     | _ \<Rightarrow> Inl TypeError)"

text \<open>An optional date is a parameter only when it is given and not empty.\<close>

definition date_param :: "string \<Rightarrow> string option \<Rightarrow> (string \<times> json) list" where
  "date_param name value = (case value of None \<Rightarrow> [] | Some s \<Rightarrow> if s = [] then [] else [(name, JStr s)])"

text \<open>The status that a verification logs before it returns: reading it raises when the data is no dictionary.\<close>

definition verified_data :: "json \<Rightarrow> exc + json" where
  "verified_data body = sbind (get_default body ''data'' (JObj [])) (\<lambda>data.
     sbind (get_default data ''status'' JNull) (\<lambda>status. json_item body ''data''))"

text \<open>The count that a listing logs before it returns.\<close>

definition listed_data :: "json \<Rightarrow> exc + json" where
  "listed_data body = sbind (get_default body ''data'' (JList [])) (\<lambda>data.
     sbind (json_len data) (\<lambda>n. json_item body ''data''))"

subsection \<open>Paystack\<close>

definition paystack_base :: string where
  "paystack_base = ''https://api.paystack.co''"

definition paystack_verify_transaction :: "http_client \<Rightarrow> string \<Rightarrow> string \<Rightarrow> exc + json" where
  "paystack_verify_transaction http key reference =
     sbind (get_json http \<lparr>gq_url = paystack_base @ ''/transaction/verify/'' @ reference, gq_params = [], gq_bearer = key\<rparr>)
       verified_data"

definition paystack_list_request :: "string \<Rightarrow> string option \<Rightarrow> string option \<Rightarrow> string \<Rightarrow> nat \<Rightarrow> nat \<Rightarrow> get_request" where
  "paystack_list_request key from_date to_date status per_page page = \<lparr>gq_url = paystack_base @ ''/transaction'',
     gq_params = [(''status'', JStr status), (''perPage'', JInt (int per_page)), (''page'', JInt (int page))] @
       date_param ''from'' from_date @ date_param ''to'' to_date,
     gq_bearer = key\<rparr>"

definition paystack_list_transactions ::
  "http_client \<Rightarrow> string \<Rightarrow> string option \<Rightarrow> string option \<Rightarrow> string \<Rightarrow> nat \<Rightarrow> nat \<Rightarrow> exc + json" where
  "paystack_list_transactions http key from_date to_date status per_page page =
     sbind (get_json http (paystack_list_request key from_date to_date status per_page page)) listed_data"

definition paystack_list_settlements :: "http_client \<Rightarrow> string \<Rightarrow> string option \<Rightarrow> string option \<Rightarrow> nat \<Rightarrow> exc + json" where
  "paystack_list_settlements http key from_date to_date per_page =
     sbind (get_json http \<lparr>gq_url = paystack_base @ ''/settlement'',
       gq_params = (''perPage'', JInt (int per_page)) # date_param ''from'' from_date @ date_param ''to'' to_date, gq_bearer = key\<rparr>)
       listed_data"

definition paystack_settlement_transactions :: "http_client \<Rightarrow> string \<Rightarrow> int \<Rightarrow> nat \<Rightarrow> exc + json" where
  "paystack_settlement_transactions http key settlement_id per_page =
     sbind (get_json http \<lparr>gq_url = paystack_base @ ''/settlement/'' @ show_int settlement_id @ ''/transactions'',
       gq_params = [(''perPage'', JInt (int per_page))], gq_bearer = key\<rparr>)
       (\<lambda>body. json_item body ''data'')"

text \<open>One page of \<open>list_all_successful\<close>: the results are extended by what iterating the batch gives.\<close>

definition paystack_page :: "http_client \<Rightarrow> string \<Rightarrow> time \<Rightarrow> time \<Rightarrow> nat \<Rightarrow> exc + json list" where
  "paystack_page http key since until page =
     sbind (paystack_list_transactions http key (Some (strftime_millis since)) (Some (strftime_millis until)) ''success''
       paystack_page_size page) iterate"

definition paystack_list_all_successful :: "http_client \<Rightarrow> string \<Rightarrow> time \<Rightarrow> time \<Rightarrow> exc + json list" where
  "paystack_list_all_successful http key since until = paystack_list_all (paystack_page http key since until)"

subsection \<open>Flutterwave\<close>

definition flutterwave_base :: string where
  "flutterwave_base = ''https://api.flutterwave.com/v3''"

definition flutterwave_verify_transaction :: "http_client \<Rightarrow> string \<Rightarrow> int \<Rightarrow> exc + json" where
  "flutterwave_verify_transaction http key transaction_id =
     sbind (get_json http \<lparr>gq_url = flutterwave_base @ ''/transactions/'' @ show_int transaction_id @ ''/verify'',
       gq_params = [], gq_bearer = key\<rparr>) verified_data"

definition flutterwave_verify_by_ref :: "http_client \<Rightarrow> string \<Rightarrow> string \<Rightarrow> exc + json" where
  "flutterwave_verify_by_ref http key tx_ref =
     sbind (get_json http \<lparr>gq_url = flutterwave_base @ ''/transactions/verify_by_reference'',
       gq_params = [(''tx_ref'', JStr tx_ref)], gq_bearer = key\<rparr>) verified_data"

definition flutterwave_list_transactions ::
  "http_client \<Rightarrow> string \<Rightarrow> string option \<Rightarrow> string option \<Rightarrow> string \<Rightarrow> nat \<Rightarrow> exc + json" where
  "flutterwave_list_transactions http key from_date to_date status page =
     sbind (get_json http \<lparr>gq_url = flutterwave_base @ ''/transactions'',
       gq_params = [(''status'', JStr status), (''page'', JInt (int page))] @ date_param ''from'' from_date @ date_param ''to'' to_date,
       gq_bearer = key\<rparr>)
       (\<lambda>body. sbind (get_default body ''data'' (JList [])) (\<lambda>data. sbind (json_len data) (\<lambda>n. Inr data)))"

definition flutterwave_list_settlements :: "http_client \<Rightarrow> string \<Rightarrow> string option \<Rightarrow> string option \<Rightarrow> nat \<Rightarrow> exc + json" where
  "flutterwave_list_settlements http key from_date to_date page =
     sbind (get_json http \<lparr>gq_url = flutterwave_base @ ''/settlements'',
       gq_params = (''page'', JInt (int page)) # date_param ''from'' from_date @ date_param ''to'' to_date, gq_bearer = key\<rparr>)
       (\<lambda>body. sbind (get_default body ''data'' (JObj [])) (\<lambda>outer.
         sbind (get_default outer ''data'' (JList [])) (\<lambda>data. sbind (json_len data) (\<lambda>n. Inr data))))"

definition flutterwave_page_request :: "string \<Rightarrow> date \<Rightarrow> date \<Rightarrow> nat \<Rightarrow> get_request" where
  "flutterwave_page_request key since_date until_date page = \<lparr>gq_url = flutterwave_base @ ''/transactions'',
     gq_params = [(''status'', JStr ''successful''), (''from'', JStr (iso_date_text since_date)),
       (''to'', JStr (iso_date_text until_date)), (''page'', JInt (int page))],
     gq_bearer = key\<rparr>"

definition flutterwave_list_all_successful :: "http_client \<Rightarrow> string \<Rightarrow> time \<Rightarrow> time \<Rightarrow> exc + json list" where
  "flutterwave_list_all_successful http key since until =
     flutterwave_list_all (\<lambda>page. get_json http (flutterwave_page_request key (date_of since) (date_of until) page)) since until"

subsection \<open>The clients behind the scheduled polls\<close>

text \<open>The two clients as the API that \<open>fetch_successful_transactions\<close> of the polling flows is called with.\<close>

definition http_api :: "http_client \<Rightarrow> string \<Rightarrow> string \<Rightarrow> psp_api" where
  "http_api http paystack_key flutterwave_key = \<lparr>api_paystack = paystack_page http paystack_key,
     api_flutterwave = (\<lambda>since until page. get_json http (flutterwave_page_request flutterwave_key since until page))\<rparr>"

lemma whole_second_clock: "date_of (whole_second t) = date_of t \<and> clock_of (whole_second t) div us_second = clock_of t div us_second"
proof -
  have "whole_second t = cut_to_second t"
  proof -
    have e: "us_day * date_of t + clock_of t = t" by (rule date_clock)
    have "(us_day * date_of t + clock_of t) mod us_second = clock_of t mod us_second" by (simp add: mod_add_eq [symmetric])
    then have "t mod us_second = clock_of t mod us_second" by (simp only: e)
    then show ?thesis
      using e div_mult_mod_eq [of "clock_of t" us_second] div_mult_mod_eq [of t us_second]
      unfolding cut_to_second_def whole_second_def by linarith
  qed
  moreover have "us_day * date_of t + clock_of (cut_to_second t) = cut_to_second t"
    using date_clock [of "cut_to_second t"] unfolding cut_to_second_date .
  then have "clock_of (cut_to_second t) = clock_of t div us_second * us_second" using cut_to_second_def [of t] by linarith
  ultimately show ?thesis by (simp add: cut_to_second_date)
qed

lemma strftime_millis_whole: "strftime_millis (whole_second t) = strftime_millis t"
  using whole_second_clock [of t] by (simp add: strftime_millis_def clock_text_def)

lemma fetch_over_http:
  "fetch_successful_transactions (http_api http pk fk) Paystack since until = paystack_list_all_successful http pk since until"
  "fetch_successful_transactions (http_api http pk fk) Flutterwave since until = flutterwave_list_all_successful http fk since until"
proof -
  have "paystack_page http pk (whole_second since) (whole_second until) = paystack_page http pk since until"
    by (rule ext) (simp add: paystack_page_def strftime_millis_whole)
  then show "fetch_successful_transactions (http_api http pk fk) Paystack since until = paystack_list_all_successful http pk since until"
    by (simp add: http_api_def paystack_list_all_successful_def)
  show "fetch_successful_transactions (http_api http pk fk) Flutterwave since until = flutterwave_list_all_successful http fk since until"
    by (simp add: http_api_def flutterwave_list_all_successful_def)
qed

text \<open>What a page is worth: a refused, failed or malformed answer is an error of the whole listing.\<close>

lemma paystack_page_answer:
  assumes "http (paystack_list_request key (Some (strftime_millis since)) (Some (strftime_millis until)) ''success'' paystack_page_size page) =
      Inr \<lparr>hr_status = st, hr_json = Some (JObj ((''data'', JList txs) # rest))\<rparr>"
    and "200 \<le> st" "st < 300"
  shows "paystack_page http key since until page = Inr txs"
  using assms by (simp add: paystack_page_def paystack_list_transactions_def get_json_def checked_json_def listed_data_def
    get_default_def json_len_def json_item_def dict_item_def iterate_def)

lemma paystack_pages_error: "page k = Inl e \<Longrightarrow> 0 < left \<Longrightarrow> paystack_pages page k left = Inl e"
  by (cases left) simp_all

lemma paystack_pages_cong: "(\<And>j. k \<le> j \<Longrightarrow> p j = q j) \<Longrightarrow> paystack_pages p k left = paystack_pages q k left"
proof (induction left arbitrary: k)
  case (Suc left)
  have e: "p k = q k" "paystack_pages p (Suc k) left = paystack_pages q (Suc k) left"
    using Suc.prems Suc.IH [of "Suc k"] by simp_all
  show ?case unfolding paystack_pages.simps e by (rule refl)
qed simp

lemma paystack_pages_fail:
  "(\<forall>i < n. \<exists>ts. page (k + i) = Inr ts \<and> paystack_page_size \<le> length ts) \<Longrightarrow> page (k + n) = Inl e \<Longrightarrow> n < left \<Longrightarrow>
    paystack_pages page k left = Inl e"
proof (induction n arbitrary: k left)
  case 0
  then show ?case using paystack_pages_error by simp
next
  case (Suc n)
  obtain left' where l: "left = Suc left'" using Suc.prems(3) by (cases left) simp_all
  obtain ts where ts: "page k = Inr ts" "paystack_page_size \<le> length ts" using Suc.prems(1) by (metis add_0_right zero_less_Suc)
  have "paystack_pages page (Suc k) left' = Inl e"
    by (rule Suc.IH) (use Suc.prems l in \<open>auto simp: add.commute\<close>)
  then show ?case using ts by (simp add: l not_less)
qed

text \<open>
  The PSP's answer to a request of one window: its transactions in pages, each in a 2xx reply with more members
  beside the data.
\<close>

definition serves :: "http_client \<Rightarrow> string \<Rightarrow> time \<Rightarrow> time \<Rightarrow> json list \<Rightarrow> bool" where
  "serves http key since until txs \<longleftrightarrow> (\<forall>page \<ge> 1. \<exists>st rest.
     http (paystack_list_request key (Some (strftime_millis since)) (Some (strftime_millis until)) ''success'' paystack_page_size page) =
       Inr \<lparr>hr_status = st, hr_json = Some (JObj ((''data'', JList (paged txs page)) # rest))\<rparr> \<and> 200 \<le> st \<and> st < 300)"



end
