(* ===== verification/Object_Store.thy ===== *)
theory Object_Store
  imports Chronology
begin

text \<open>
  \<open>src/storage/minio_client.py\<close>: the Bronze bucket and its partitioned object names. The MinIO server is the
  state, \<open>None\<close> the S3 error of a call it refuses; \<open>encode\<close> and \<open>decode\<close> are the Parquet writer and reader.
\<close>

subsection \<open>The server\<close>

type_synonym bucket = "(string \<times> string) list"

record minio =
  mn_buckets :: "string \<rightharpoonup> bucket"
  mn_up :: bool

definition S3Error :: exc where
  "S3Error = RuntimeError ''S3Error''"

definition bucket_exists :: "string \<Rightarrow> minio \<Rightarrow> exc + bool" where
  "bucket_exists b s = (if mn_up s then Inr (mn_buckets s b \<noteq> None) else Inl S3Error)"

definition make_bucket :: "string \<Rightarrow> minio \<Rightarrow> exc + minio" where
  "make_bucket b s = (if mn_up s then Inr (s\<lparr>mn_buckets := (mn_buckets s)(b \<mapsto> [])\<rparr>) else Inl S3Error)"

definition put_object :: "string \<Rightarrow> string \<Rightarrow> string \<Rightarrow> minio \<Rightarrow> exc + minio" where
  "put_object b name data s = (case mn_buckets s b of
     Some objs \<Rightarrow> if mn_up s then Inr (s\<lparr>mn_buckets := (mn_buckets s)(b \<mapsto> (name, data) # filter (\<lambda>p. fst p \<noteq> name) objs)\<rparr>) else Inl S3Error
   | None \<Rightarrow> Inl S3Error)"

definition get_object :: "string \<Rightarrow> string \<Rightarrow> minio \<Rightarrow> exc + string" where
  "get_object b name s = (case mn_buckets s b of None \<Rightarrow> Inl S3Error
     | Some objs \<Rightarrow> (case map_of objs name of None \<Rightarrow> Inl S3Error | Some d \<Rightarrow> if mn_up s then Inr d else Inl S3Error))"

definition server_list :: "string \<Rightarrow> string \<Rightarrow> bool \<Rightarrow> minio \<Rightarrow> exc + string list" where
  "server_list b prefix recursive s = (case mn_buckets s b of None \<Rightarrow> Inl S3Error
     | Some objs \<Rightarrow> if \<not> mn_up s then Inl S3Error else
         let names = filter (\<lambda>n. take (length prefix) n = prefix) (sort (map fst objs)) in
         Inr (if recursive then names else remdups (map (\<lambda>n. let rest = drop (length prefix) n in
           if CHR ''/'' \<in> set rest then prefix @ takeWhile (\<lambda>c. c \<noteq> CHR ''/'') rest @ ''/'' else n) names)))"

subsection \<open>The client\<close>

definition ensure_bucket :: "string \<Rightarrow> minio \<Rightarrow> exc + minio" where
  "ensure_bucket b s = sbind (bucket_exists b s) (\<lambda>there. if there then Inr s else make_bucket b s)"

definition object_path :: "string \<Rightarrow> time \<Rightarrow> string \<Rightarrow> nat \<Rightarrow> string" where
  "object_path psp event_date run_id part = psp @ ''/event_date='' @ iso_date_text (date_of event_date) @ ''/hour='' @
     show_padded 2 (clock_of event_date div us_hour) @ ''/'' @ run_id @ ''-part-'' @ show_padded 4 (int part) @ ''.parquet''"

definition s3_prefix :: "string \<Rightarrow> string" where
  "s3_prefix b = ''s3://'' @ b @ ''/''"

definition write_parquet ::
  "('t \<Rightarrow> string) \<Rightarrow> string \<Rightarrow> 't \<Rightarrow> string \<Rightarrow> time \<Rightarrow> string \<Rightarrow> nat \<Rightarrow> minio \<Rightarrow> exc + string \<times> minio" where
  "write_parquet encode b table psp event_date run_id part s = (let name = object_path psp event_date run_id part in
     sbind (put_object b name (encode table) s) (\<lambda>s'. Inr (s3_prefix b @ name, s')))"

text \<open>\<open>s.replace(old, "")\<close>: every occurrence from left to right.\<close>

function remove_all :: "string \<Rightarrow> string \<Rightarrow> string" where
  "remove_all old [] = []"
| "remove_all old (c # s) = (if old \<noteq> [] \<and> take (length old) (c # s) = old then remove_all old (drop (length old) (c # s))
     else c # remove_all old s)"
  by pat_completeness auto
termination by (relation "measure (\<lambda>(old, s). length s)") (auto simp: neq_Nil_conv)

definition read_parquet :: "(string \<Rightarrow> 't option) \<Rightarrow> string \<Rightarrow> string \<Rightarrow> minio \<Rightarrow> exc + 't" where
  "read_parquet decode b path s = sbind (get_object b (remove_all (s3_prefix b) path) s) (\<lambda>data.
     case decode data of None \<Rightarrow> Inl (ValueError ''ArrowInvalid'') | Some t \<Rightarrow> Inr t)"

definition list_objects :: "string \<Rightarrow> string \<Rightarrow> bool \<Rightarrow> minio \<Rightarrow> exc + string list" where
  "list_objects b prefix recursive s = server_list b prefix recursive s"

subsection \<open>Names\<close>

lemma remove_all_free: "c \<in> set old \<Longrightarrow> c \<notin> set s \<Longrightarrow> remove_all old s = s"
proof (induction old s rule: remove_all.induct)
  case (2 old d s)
  have "take (length old) (d # s) \<noteq> old" using 2(3,4) by (metis in_set_takeD)
  then show ?case using 2 by simp
qed simp

lemma remove_prefix: "old \<noteq> [] \<Longrightarrow> remove_all old (old @ s) = remove_all old s"
  by (cases old) simp_all

text \<open>The parts of an object name: digits, dashes and what the caller gave.\<close>

lemma split_last:
  assumes "c \<notin> set x" "c \<notin> set y" "a @ c # x = b @ c # y"
  shows "a = b \<and> x = y"
proof -
  have "rev x @ c # rev a = rev y @ c # rev b" using arg_cong [OF assms(3), of rev] by simp
  then show ?thesis using split_at_first [of c "rev x" "rev y" "rev a" "rev b"] assms(1,2) by simp
qed

lemma padded_digits: "0 \<le> n \<Longrightarrow> list_all is_digit (show_padded w n)"
  using show_nat_digits [of n] by (auto simp: show_padded_def pad_left_def list_all_iff is_digit_def code_def)

lemma padded_inj: "0 \<le> m \<Longrightarrow> 0 \<le> n \<Longrightarrow> show_padded w m = show_padded w n \<Longrightarrow> m = n"
  using read_show_padded by metis

definition plain_name :: "string \<Rightarrow> bool" where
  "plain_name s \<longleftrightarrow> CHR '':'' \<notin> set s \<and> CHR ''/'' \<notin> set s"

lemma date_text_plain: "valid_date d \<Longrightarrow> plain_name (iso_date_text d)"
proof -
  assume "valid_date d"
  then obtain y1 y2 y3 y4 m1 m2 d1 d2 where t: "iso_date_text d = [y1, y2, y3, y4, CHR ''-'', m1, m2, CHR ''-'', d1, d2]"
    "list_all is_digit [y1, y2, y3, y4, m1, m2, d1, d2]" by (rule date_text_shape)
  have "x \<noteq> CHR '':'' \<and> x \<noteq> CHR ''/''" if "is_digit x" for x using that by (auto simp: is_digit_def code_def)
  then show ?thesis using t(2) unfolding t(1) plain_name_def by auto
qed

lemma digits_plain: "list_all is_digit s \<Longrightarrow> plain_name s"
  by (auto simp: plain_name_def list_all_iff is_digit_def code_def)

lemma object_path_name:
  assumes "plain_name psp" and "plain_name run_id" and "valid_date (date_of t)"
  shows "CHR '':'' \<notin> set (object_path psp t run_id part)"
proof -
  have "plain_name (show_padded 2 (clock_of t div us_hour))" "plain_name (show_padded 4 (int part))"
    using clock_range [of t] by (simp_all add: digits_plain padded_digits pos_imp_zdiv_nonneg_iff)
  moreover have "CHR '':'' \<notin> set ''/event_date=''" "CHR '':'' \<notin> set ''/hour=''" "CHR '':'' \<notin> set ''/''"
    "CHR '':'' \<notin> set ''-part-''" "CHR '':'' \<notin> set ''.parquet''" by simp_all
  ultimately show ?thesis
    using assms date_text_plain [OF assms(3)] unfolding object_path_def set_append plain_name_def Un_iff by blast
qed

text \<open>The name determines the PSP and the run.\<close>

lemma object_path_run:
  assumes "plain_name psp" "plain_name psp'" "plain_name run_id" "plain_name run_id'"
    and "valid_date (date_of t)" "valid_date (date_of t')" and "object_path psp t run_id part = object_path psp' t' run_id' part'"
  shows "psp = psp' \<and> run_id = run_id' \<and> part = part'"
proof -
  let ?tail = "\<lambda>run part. run @ ''-part-'' @ show_padded 4 (int part) @ ''.parquet''"
  let ?h = "\<lambda>t. show_padded 2 (clock_of t div us_hour)"
  have dg: "list_all is_digit (?h t)" "list_all is_digit (?h t')" "list_all is_digit (show_padded 4 (int n))" for n
    using clock_range [of t] clock_range [of t'] by (simp_all add: padded_digits pos_imp_zdiv_nonneg_iff)
  note pl = dg [THEN digits_plain]
  have d: "CHR ''/'' \<notin> set (''event_date='' @ iso_date_text (date_of t))" "CHR ''/'' \<notin> set (''event_date='' @ iso_date_text (date_of t'))"
    "CHR ''/'' \<notin> set (''hour='' @ ?h t)" "CHR ''/'' \<notin> set (''hour='' @ ?h t')"
    using date_text_plain [OF assms(5)] date_text_plain [OF assms(6)] pl by (simp_all add: plain_name_def)
  have e: "psp @ CHR ''/'' # (''event_date='' @ iso_date_text (date_of t)) @ CHR ''/'' # (''hour='' @ ?h t) @ CHR ''/'' # ?tail run_id part =
      psp' @ CHR ''/'' # (''event_date='' @ iso_date_text (date_of t')) @ CHR ''/'' # (''hour='' @ ?h t') @ CHR ''/'' # ?tail run_id' part'"
    using assms(7) by (simp add: object_path_def)
  have p: "CHR ''/'' \<notin> set psp" "CHR ''/'' \<notin> set psp'" using assms(1,2) by (simp_all add: plain_name_def)
  note e1 = split_at_first [OF p e, THEN conjunct2]
  note e2 = split_at_first [OF d(1,2) e1, THEN conjunct2]
  note e3 = split_at_first [OF d(3,4) e2, THEN conjunct2]
  have "(run_id @ ''-part'') @ CHR ''-'' # show_padded 4 (int part) = (run_id' @ ''-part'') @ CHR ''-'' # show_padded 4 (int part')"
    using e3 by simp
  moreover have "CHR ''-'' \<notin> set (show_padded 4 (int n))" for n
    using dg(3) [of n] by (auto simp: list_all_iff is_digit_def code_def)
  ultimately have "run_id @ ''-part'' = run_id' @ ''-part'' \<and> show_padded 4 (int part) = show_padded 4 (int part')"
    by (intro split_last)
  then have "run_id = run_id'" "int part = int part'" using padded_inj [of "int part" "int part'" 4] by simp_all
  then show ?thesis using split_at_first [OF p e] by simp
qed

text \<open>\<open>run_id\<close> of a message: topic, partition and offset.\<close>

definition message_run_id :: "string \<Rightarrow> nat \<Rightarrow> nat \<Rightarrow> string" where
  "message_run_id topic p offset = topic @ ''-p'' @ show_nat (int p) @ ''-o'' @ show_nat (int offset)"

lemma message_run_id_inj:
  assumes "message_run_id topic p off = message_run_id topic' p' off'"
  shows "topic = topic' \<and> p = p' \<and> off = off'"
proof -
  have dg: "c \<notin> set (show_nat (int n))" if "\<not> is_digit c" for c n using show_nat_digits [of "int n"] that by (auto simp: list_all_iff)
  have o: "\<not> is_digit (CHR ''o'')" "\<not> is_digit (CHR ''p'')" by (simp_all add: is_digit_def code_def)
  have 1: "(topic @ ''-p'' @ show_nat (int p) @ ''-'') @ CHR ''o'' # show_nat (int off) =
      (topic' @ ''-p'' @ show_nat (int p') @ ''-'') @ CHR ''o'' # show_nat (int off')"
    using assms by (simp add: message_run_id_def)
  have 2: "topic @ ''-p'' @ show_nat (int p) @ ''-'' = topic' @ ''-p'' @ show_nat (int p') @ ''-'' \<and> show_nat (int off) = show_nat (int off')"
    by (rule split_last [OF dg dg 1]) (rule o)+
  then have 3: "(topic @ ''-'') @ CHR ''p'' # show_nat (int p) = (topic' @ ''-'') @ CHR ''p'' # show_nat (int p')" by simp
  have 4: "topic @ ''-'' = topic' @ ''-'' \<and> show_nat (int p) = show_nat (int p')"
    by (rule split_last [OF dg dg 3]) (rule o)+
  have inj: "m = n" if "show_nat (int m) = show_nat (int n)" for m n
  proof -
    have "int m = read_nat (show_nat (int m))" by (rule read_show_nat [symmetric]) (rule of_nat_0_le_iff)
    also have "\<dots> = read_nat (show_nat (int n))" by (rule arg_cong [OF that])
    also have "\<dots> = int n" by (rule read_show_nat) (rule of_nat_0_le_iff)
    finally show ?thesis by (rule of_nat_eq_iff [THEN iffD1])
  qed
  show ?thesis using 2 4 inj [of p p'] inj [of off off'] unfolding append_same_eq by iprover
qed

subsection \<open>Written objects\<close>

lemma put_then_get:
  assumes "put_object b name data s = Inr s'"
  shows "get_object b name s' = Inr data" "other \<noteq> name \<Longrightarrow> get_object b other s' = get_object b other s" "mn_up s'"
proof -
  obtain objs where o: "mn_buckets s b = Some objs" "mn_up s"
    "s' = s\<lparr>mn_buckets := (mn_buckets s)(b \<mapsto> (name, data) # filter (\<lambda>p. fst p \<noteq> name) objs)\<rparr>"
    using assms by (auto simp: put_object_def split: option.splits if_splits)
  show "get_object b name s' = Inr data" "mn_up s'" using o by (simp_all add: get_object_def)
  have "map_of (filter (\<lambda>p. fst p \<noteq> name) objs) other = map_of objs other" if "other \<noteq> name"
    using that by (induction objs) auto
  then show "other \<noteq> name \<Longrightarrow> get_object b other s' = get_object b other s" using o by (simp add: get_object_def split: option.split)
qed

lemma read_written:
  assumes "plain_name psp" "plain_name run_id" "valid_date (date_of t)"
  shows "read_parquet decode b (s3_prefix b @ object_path psp t run_id part) s =
    sbind (get_object b (object_path psp t run_id part) s) (\<lambda>data.
      case decode data of None \<Rightarrow> Inl (ValueError ''ArrowInvalid'') | Some x \<Rightarrow> Inr x)"
proof -
  have "remove_all (s3_prefix b) (object_path psp t run_id part) = object_path psp t run_id part"
    by (rule remove_all_free [OF _ object_path_name [OF assms]]) (simp add: s3_prefix_def)
  then show ?thesis by (simp add: read_parquet_def remove_prefix s3_prefix_def)
qed


definition example_store :: minio where
  "example_store = \<lparr>mn_buckets = [''bronze'' \<mapsto> []], mn_up = True\<rparr>"


end
