(* ===== verification/Security_Scan.thy ===== *)
theory Security_Scan
  imports PyStr Prelude
begin

text \<open>
  \<open>scripts/security_check.py\<close>: the scanner of prohibited patterns that gates the build. The part of \<open>re\<close> its
  patterns use is modelled as a backtracking matcher that tries the alternatives in the order of the
  engine, ignoring the case of ASCII letters; the explanations of the rules are left out.
\<close>

subsection \<open>Patterns\<close>

text \<open>\<open>Many P n\<close> is a character class repeated \<open>n\<close> times or more, greedily; \<open>Boundary\<close> is \<open>\b\<close>.\<close>

datatype re =
    Eps
  | Cls "char \<Rightarrow> bool"
  | Many "char \<Rightarrow> bool" nat
  | Boundary
  | Cat re re
  | Either re re

definition is_letter :: "char \<Rightarrow> bool" where
  "is_letter c \<longleftrightarrow> is_upper c \<or> is_lower c"

definition is_alnum :: "char \<Rightarrow> bool" where
  "is_alnum c \<longleftrightarrow> is_letter c \<or> is_digit c"

definition is_word :: "char \<Rightarrow> bool" where
  "is_word c \<longleftrightarrow> is_alnum c \<or> c = CHR ''_''"

definition word_at :: "string \<Rightarrow> bool" where
  "word_at s = (case s of [] \<Rightarrow> False | c # t \<Rightarrow> is_word c)"

text \<open>A place in a line: what is before it, reversed, and what is after it.\<close>

type_synonym place = "string \<times> string"

text \<open>Where a match that starts at a place can end, in the order in which the engine tries.\<close>

fun runs :: "re \<Rightarrow> place \<Rightarrow> place list" where
  "runs Eps x = [x]"
| "runs (Cls P) x = (case snd x of [] \<Rightarrow> [] | c # t \<Rightarrow> if P c then [(c # fst x, t)] else [])"
| "runs (Many P n) x = map (\<lambda>i. (rev (take i (snd x)) @ fst x, drop i (snd x))) (rev [n..<Suc (length (takeWhile P (snd x)))])"
| "runs Boundary x = (if word_at (fst x) \<noteq> word_at (snd x) then [x] else [])"
| "runs (Cat a b) x = concat (map (runs b) (runs a x))"
| "runs (Either a b) x = runs a x @ runs b x"

text \<open>\<open>re.search(...).group(0)\<close>: the first place with a match, and its first match there.\<close>

definition matched_text :: "place \<Rightarrow> place \<Rightarrow> string" where
  "matched_text x y = take (length (snd x) - length (snd y)) (snd x)"

definition place_at :: "string \<Rightarrow> nat \<Rightarrow> place" where
  "place_at line i = (rev (take i line), drop i line)"

fun search_from :: "re \<Rightarrow> place list \<Rightarrow> string option" where
  "search_from r [] = None"
| "search_from r (x # xs) = (case runs r x of [] \<Rightarrow> search_from r xs | y # ys \<Rightarrow> Some (matched_text x y))"

definition re_search :: "re \<Rightarrow> string \<Rightarrow> string option" where
  "re_search r line = search_from r (map (place_at line) [0..<Suc (length line)])"

subsection \<open>The rules\<close>

definition same_letter :: "char \<Rightarrow> char \<Rightarrow> bool" where
  "same_letter c d \<longleftrightarrow> to_lower c = to_lower d"

fun lit :: "string \<Rightarrow> re" where
  "lit [] = Eps"
| "lit (c # s) = Cat (Cls (same_letter c)) (lit s)"

fun cat :: "re list \<Rightarrow> re" where
  "cat [] = Eps"
| "cat (r # rs) = Cat r (cat rs)"

fun one_of :: "re list \<Rightarrow> re" where
  "one_of [] = Eps"
| "one_of [r] = r"
| "one_of (r # q # rs) = Either r (one_of (q # rs))"

definition optional :: "re \<Rightarrow> re" where
  "optional r = Either r Eps"

definition is_quote :: "char \<Rightarrow> bool" where
  "is_quote c \<longleftrightarrow> c = CHR 0x22 \<or> c = CHR 0x27"

abbreviation spaces :: re where
  "spaces \<equiv> Many is_space 0"

definition assigned :: "re \<Rightarrow> re \<Rightarrow> re" where
  "assigned name value = cat [name, spaces, lit ''='', spaces, value]"

definition log_call :: "re \<Rightarrow> re" where
  "log_call arg = cat [lit ''log'', optional (lit ''ger''), lit ''.'',
     one_of [lit ''info'', lit ''debug'', lit ''warning'', lit ''error''], lit ''('', Many (\<lambda>c. c \<noteq> CHR 0x0A) 0, arg]"

datatype severity = CRITICAL | HIGH | MEDIUM

record rule =
  rl_pattern :: re
  rl_name :: string
  rl_severity :: severity

definition RULES :: "rule list" where
  "RULES = [
     \<lparr>rl_pattern = assigned (lit ''ssl'') (lit ''False''), rl_name = ''TLS_DISABLED'', rl_severity = HIGH\<rparr>,
     \<lparr>rl_pattern = assigned (lit ''verify'') (lit ''False''), rl_name = ''CERT_VERIFY_DISABLED'', rl_severity = CRITICAL\<rparr>,
     \<lparr>rl_pattern = assigned (lit ''MINIO_USE_SSL'') (cat [optional (Cls is_quote), lit ''false'']),
      rl_name = ''MINIO_SSL_DISABLED'', rl_severity = HIGH\<rparr>,
     \<lparr>rl_pattern = cat [lit ''sk_live_'', Many is_alnum 20], rl_name = ''LIVE_PAYSTACK_KEY'', rl_severity = CRITICAL\<rparr>,
     \<lparr>rl_pattern = cat [lit ''FLWSECK-'', Many is_alnum 20], rl_name = ''LIVE_FLUTTERWAVE_KEY'', rl_severity = CRITICAL\<rparr>,
     \<lparr>rl_pattern = assigned (one_of [lit ''password'', lit ''secret'', lit ''api_key''])
        (cat [Cls is_quote, Many (\<lambda>c. \<not> is_quote c) 8, Cls is_quote]),
      rl_name = ''HARDCODED_SECRET'', rl_severity = HIGH\<rparr>,
     \<lparr>rl_pattern = cat [lit ''PASSWORD'', Many is_space 1, Cls (\<lambda>c. c = CHR 0x27), Many (\<lambda>c. c \<noteq> CHR 0x27) 1, Cls (\<lambda>c. c = CHR 0x27)],
      rl_name = ''SQL_LITERAL_PASSWORD'', rl_severity = HIGH\<rparr>,
     \<lparr>rl_pattern = cat [lit ''-----BEGIN '', optional (one_of [lit ''RSA '', lit ''EC '', lit ''OPENSSH '']), lit ''PRIVATE KEY-----''],
      rl_name = ''PRIVATE_KEY'', rl_severity = CRITICAL\<rparr>,
     \<lparr>rl_pattern = cat (lit ''AKIA'' # replicate 16 (Cls is_alnum)), rl_name = ''AWS_ACCESS_KEY'', rl_severity = CRITICAL\<rparr>,
     \<lparr>rl_pattern = cat [lit ''hooks.slack.com/services/T'', Many is_alnum 1, lit ''/B'', Many is_alnum 1, lit ''/'', Many is_alnum 1],
      rl_name = ''SLACK_WEBHOOK'', rl_severity = HIGH\<rparr>,
     \<lparr>rl_pattern = assigned (lit ''LOG_LEVEL'') (cat [optional (Cls is_quote), lit ''DEBUG'']),
      rl_name = ''DEBUG_LOG_LEVEL'', rl_severity = MEDIUM\<rparr>,
     \<lparr>rl_pattern = log_call (lit ''account_number''), rl_name = ''PII_IN_LOG_ACCOUNT'', rl_severity = HIGH\<rparr>,
     \<lparr>rl_pattern = log_call (cat [Boundary, lit ''bvn'', Boundary]), rl_name = ''PII_IN_LOG_BVN'', rl_severity = CRITICAL\<rparr>]"

subsection \<open>Scanning\<close>

definition SKIP_DIRS :: "string list" where
  "SKIP_DIRS = [''.git'', ''.venv'', ''venv'', ''__pycache__'', ''node_modules'', ''.next'', ''.mypy_cache'', ''.pytest_cache'',
     ''.ruff_cache'', ''htmlcov'', ''.gemini'', ''.claude'', ''docs'']"

definition SKIP_FILES :: "string list" where
  "SKIP_FILES = [''security_check.py'']"

definition SCAN_EXTENSIONS :: "string list" where
  "SCAN_EXTENSIONS = [''.py'', ''.yml'', ''.yaml'', ''.toml'', ''.cfg'', ''.ini'', ''.env'', ''.sql'', ''.sh'', ''.json'', ''.ts'',
     ''.tsx'', ''.js'', ''.mjs'']"

definition SCAN_NAMES :: "string list" where
  "SCAN_NAMES = [''Dockerfile'', ''Makefile'']"

definition PLACEHOLDER_MARKERS :: "string list" where
  "PLACEHOLDER_MARKERS = [''test'', ''dummy'', ''replace-me'', ''replace_me'', ''example'', ''your_'', ''<'']"

definition starts_with :: "string \<Rightarrow> string \<Rightarrow> bool" where
  "starts_with p s \<longleftrightarrow> take (length p) s = p"

definition contains :: "string \<Rightarrow> string \<Rightarrow> bool" where
  "contains needle s \<longleftrightarrow> list_ex (\<lambda>i. starts_with needle (drop i s)) [0..<Suc (length s)]"

record violation =
  vi_file :: "string list"
  vi_line :: nat
  vi_content :: string
  vi_rule :: string
  vi_severity :: severity

definition is_placeholder :: "string \<Rightarrow> bool" where
  "is_placeholder text \<longleftrightarrow> list_ex (\<lambda>m. contains m (py_lower text)) PLACEHOLDER_MARKERS"

definition is_comment :: "string \<Rightarrow> bool" where
  "is_comment line \<longleftrightarrow> starts_with ''#'' (py_strip line) \<or> starts_with ''//'' (py_strip line)"

definition breaks_rule :: "rule \<Rightarrow> string \<Rightarrow> bool" where
  "breaks_rule r line \<longleftrightarrow> (case re_search (rl_pattern r) line of None \<Rightarrow> False
     | Some text \<Rightarrow> \<not> (rl_name r = ''HARDCODED_SECRET'' \<and> is_placeholder text))"

definition scan_line :: "string list \<Rightarrow> nat \<times> string \<Rightarrow> violation list" where
  "scan_line file nl = (case nl of (n, line) \<Rightarrow> if is_comment line then [] else
     map (\<lambda>r. \<lparr>vi_file = file, vi_line = n, vi_content = take 120 (py_strip line), vi_rule = rl_name r, vi_severity = rl_severity r\<rparr>)
       (filter (\<lambda>r. breaks_rule r line) RULES))"

text \<open>\<open>str.splitlines\<close> for the line ends ASCII has; CR LF is one.\<close>

definition ends_line :: "char \<Rightarrow> bool" where
  "ends_line c \<longleftrightarrow> code c \<in> {10, 11, 12, 13, 28, 29, 30}"

fun lines_from :: "string \<Rightarrow> string \<Rightarrow> string list" where
  "lines_from w [] = (if w = [] then [] else [rev w])"
| "lines_from w [c] = (if ends_line c then [rev w] else [rev (c # w)])"
| "lines_from w (c # d # s) = (if ends_line c
     then rev w # (if code c = 13 \<and> code d = 10 then lines_from [] s else lines_from [] (d # s))
     else lines_from (c # w) (d # s))"

definition splitlines :: "string \<Rightarrow> string list" where
  "splitlines s = lines_from [] s"

text \<open>A file that cannot be read has no violations.\<close>

definition scan_file :: "string list \<Rightarrow> string option \<Rightarrow> violation list" where
  "scan_file file content = (case content of None \<Rightarrow> []
     | Some text \<Rightarrow> concat (map (scan_line file) (List.enumerate 1 (splitlines text))))"

text \<open>An entry below the root: the parts of its path, with those of the root, and its content.\<close>

record entry =
  en_parts :: "string list"
  en_is_file :: bool
  en_content :: "string option"

definition entry_name :: "entry \<Rightarrow> string" where
  "entry_name e = (if en_parts e = [] then [] else last (en_parts e))"

text \<open>\<open>Path.suffix\<close>: from the last dot, unless that is the first or the last character.\<close>

definition suffix_of :: "string \<Rightarrow> string" where
  "suffix_of name = (let ext = takeWhile (\<lambda>c. c \<noteq> CHR ''.'') (rev name); i = length name - length ext in
     if length ext < length name \<and> 1 < i \<and> ext \<noteq> [] then CHR ''.'' # rev ext else [])"

definition should_scan :: "entry \<Rightarrow> bool" where
  "should_scan e \<longleftrightarrow> suffix_of (entry_name e) \<in> set SCAN_EXTENSIONS \<or> entry_name e \<in> set SCAN_NAMES \<or> starts_with ''.env'' (entry_name e)"

definition scanned :: "entry \<Rightarrow> bool" where
  "scanned e \<longleftrightarrow> \<not> list_ex (\<lambda>d. d \<in> set (en_parts e)) SKIP_DIRS \<and> entry_name e \<notin> set SKIP_FILES \<and> should_scan e \<and> en_is_file e"

definition scan_directory :: "entry list \<Rightarrow> violation list" where
  "scan_directory entries = concat (map (\<lambda>e. scan_file (en_parts e) (en_content e)) (filter scanned (sort_key en_parts entries)))"

definition of_severity :: "severity \<Rightarrow> violation list \<Rightarrow> violation list" where
  "of_severity s vs = filter (\<lambda>v. vi_severity v = s) vs"

text \<open>The exit code.\<close>

definition scan_main :: "entry list \<Rightarrow> nat" where
  "scan_main entries = (let vs = scan_directory entries in
     if vs = [] then 0 else if 0 < length (of_severity CRITICAL vs) + length (of_severity HIGH vs) then 1 else 0)"

subsection \<open>Patterns as a relation\<close>

text \<open>What it means that a pattern matches from one place to another, without the order of the engine.\<close>

inductive consumes :: "re \<Rightarrow> place \<Rightarrow> place \<Rightarrow> bool" where
  Eps: "consumes Eps x x"
| Cls: "P c \<Longrightarrow> consumes (Cls P) (u, c # t) (c # u, t)"
| Many: "list_all P w \<Longrightarrow> n \<le> length w \<Longrightarrow> consumes (Many P n) (u, w @ t) (rev w @ u, t)"
| Boundary: "word_at u \<noteq> word_at t \<Longrightarrow> consumes Boundary (u, t) (u, t)"
| Cat: "consumes a x y \<Longrightarrow> consumes b y z \<Longrightarrow> consumes (Cat a b) x z"
| Left: "consumes a x y \<Longrightarrow> consumes (Either a b) x y"
| Right: "consumes b x y \<Longrightarrow> consumes (Either a b) x y"

inductive_cases consumes_elims: "consumes Eps x y" "consumes (Cls P) x y" "consumes (Many P n) x y" "consumes Boundary x y"
  "consumes (Cat a b) x y" "consumes (Either a b) x y"

lemma many_iff:
  "y \<in> set (runs (Many P n) (u, s)) \<longleftrightarrow> (\<exists>w t. s = w @ t \<and> list_all P w \<and> n \<le> length w \<and> y = (rev w @ u, t))"
proof
  assume "y \<in> set (runs (Many P n) (u, s))"
  then obtain i where i: "n \<le> i" "i \<le> length (takeWhile P s)" "y = (rev (take i s) @ u, drop i s)" by auto
  have "length (takeWhile P s) \<le> length s" by (rule length_takeWhile_le)
  moreover have "list_all P (take i s)"
    using i(2) set_takeWhileD [of _ P s] by (metis list_all_iff set_take_subset subsetD takeWhile_eq_take take_take min.absorb1)
  ultimately show "\<exists>w t. s = w @ t \<and> list_all P w \<and> n \<le> length w \<and> y = (rev w @ u, t)"
    using i by (intro exI [of _ "take i s"] exI [of _ "drop i s"]) simp
next
  assume "\<exists>w t. s = w @ t \<and> list_all P w \<and> n \<le> length w \<and> y = (rev w @ u, t)"
  then obtain w t where w: "s = w @ t" "list_all P w" "n \<le> length w" "y = (rev w @ u, t)" by blast
  have "takeWhile P s = w @ takeWhile P t" using w(1,2) by (simp add: takeWhile_append2 list_all_iff)
  then have "length w \<le> length (takeWhile P s)" by simp
  then show "y \<in> set (runs (Many P n) (u, s))" using w by (auto intro!: image_eqI [of _ _ "length w"])
qed

lemma runs_iff: "y \<in> set (runs r x) \<longleftrightarrow> consumes r x y"
proof (induction r arbitrary: x y)
  case (Many P n)
  obtain u s where x: "x = (u, s)" by fastforce
  show ?case unfolding x many_iff by (auto elim!: consumes_elims intro: consumes.Many)
next
  case (Cls P)
  obtain u s where x: "x = (u, s)" by fastforce
  show ?case by (cases s) (auto simp: x elim!: consumes_elims intro: consumes.Cls)
next
  case Boundary
  obtain u s where x: "x = (u, s)" by fastforce
  show ?case by (auto simp: x elim!: consumes_elims intro: consumes.Boundary)
qed (auto elim!: consumes_elims intro: consumes.intros)

definition prohibited :: "re \<Rightarrow> string \<Rightarrow> bool" where
  "prohibited r line \<longleftrightarrow> (\<exists>i \<le> length line. \<exists>y. consumes r (place_at line i) y)"

lemma search_from_None: "search_from r xs = None \<longleftrightarrow> (\<forall>x \<in> set xs. runs r x = [])"
  by (induction xs) (auto split: list.splits)

lemma re_search_iff: "re_search r line \<noteq> None \<longleftrightarrow> prohibited r line"
proof -
  have "runs r x \<noteq> [] \<longleftrightarrow> (\<exists>y. consumes r x y)" for x
    unfolding runs_iff [symmetric] by (cases "runs r x") auto
  moreover have "set [0..<Suc (length line)] = {i. i \<le> length line}" by auto
  ultimately show ?thesis unfolding re_search_def search_from_None prohibited_def set_map by blast
qed

lemma breaks_rule_iff:
  "breaks_rule r line \<longleftrightarrow> prohibited (rl_pattern r) line \<and>
     \<not> (rl_name r = ''HARDCODED_SECRET'' \<and> is_placeholder (the (re_search (rl_pattern r) line)))"
  using re_search_iff [of "rl_pattern r" line] by (auto simp: breaks_rule_def split: option.splits)

lemma scan_line_severities:
  "(\<exists>v \<in> set (scan_line file nl). vi_severity v = sev) \<longleftrightarrow>
     \<not> is_comment (snd nl) \<and> (\<exists>r \<in> set RULES. rl_severity r = sev \<and> breaks_rule r (snd nl))"
  by (cases nl) (auto simp: scan_line_def)

lemma scan_file_severities:
  "(\<exists>v \<in> set (scan_file file content). vi_severity v = sev) \<longleftrightarrow> (\<exists>body. content = Some body \<and>
     (\<exists>line \<in> set (splitlines body). \<not> is_comment line \<and> (\<exists>r \<in> set RULES. rl_severity r = sev \<and> breaks_rule r line)))"
proof (cases content)
  case (Some body)
  have "(\<exists>v \<in> set (scan_file file content). vi_severity v = sev) \<longleftrightarrow>
      (\<exists>nl \<in> set (List.enumerate 1 (splitlines body)). \<exists>v \<in> set (scan_line file nl). vi_severity v = sev)"
    by (simp add: scan_file_def Some)
  also have "\<dots> \<longleftrightarrow> (\<exists>line \<in> snd ` set (List.enumerate 1 (splitlines body)).
      \<not> is_comment line \<and> (\<exists>r \<in> set RULES. rl_severity r = sev \<and> breaks_rule r line))"
    unfolding scan_line_severities by blast
  also have "snd ` set (List.enumerate 1 (splitlines body)) = set (splitlines body)"
    by (metis list.set_map map_snd_enumerate)
  finally show ?thesis by (simp add: Some)
qed (simp add: scan_file_def)


text \<open>Only the first match on a line is looked at: a placeholder hides a real secret behind it.\<close>

lemma second_secret_missed:
  "breaks_rule (RULES ! 5) ''secret='' \<longleftrightarrow> False"
  "\<not> breaks_rule (RULES ! 5) (''password='' @ [CHR 0x22] @ ''example-1'' @ [CHR 0x22] @ '', secret='' @ [CHR 0x22] @ ''Xk29dk20s'' @ [CHR 0x22])"
  "breaks_rule (RULES ! 5) (''secret='' @ [CHR 0x22] @ ''Xk29dk20s'' @ [CHR 0x22])"
  by code_simp+

text \<open>A checkout below a directory of one of the skipped names is not scanned at all.\<close>

lemma skipped_checkout: "scan_main [\<lparr>en_parts = [''docs'', ''mmr'', ''a.py''], en_is_file = True, en_content = Some ''verify=False''\<rparr>] = 0"
  "scan_main [\<lparr>en_parts = [''mmr'', ''a.py''], en_is_file = True, en_content = Some ''verify=False''\<rparr>] = 1"
  by code_simp+


end
