(* ===== verification/Demo_Rates.thy ===== *)
theory Demo_Rates
  imports Demo_Data Fx
begin

text \<open>
  \<open>load_fx_snapshots\<close> of \<open>scripts/demo_full.py\<close>: the synthetic rate history of the generator becomes the rows of
  \<open>silver_fx_rate_snapshots\<close>, each valid until the next of its pair. A row is kept with its source provider.
  How PostgreSQL reads a timestamp text and the generated row identifiers are parameters.
\<close>

type_synonym provided = "(fx_row \<times> string) list"

subsection \<open>The snapshots of each pair\<close>

text \<open>\<open>by_pair.setdefault(pair, []).append(snap)\<close>\<close>

fun add_snapshot :: "rate_snapshot \<Rightarrow> (string \<times> rate_snapshot list) list \<Rightarrow> (string \<times> rate_snapshot list) list" where
  "add_snapshot s [] = [(rs_pair s, [s])]"
| "add_snapshot s ((p, ss) # groups) = (if p = rs_pair s then (p, ss @ [s]) # groups else (p, ss) # add_snapshot s groups)"

definition by_pair :: "rate_snapshot list \<Rightarrow> (string \<times> rate_snapshot list) list" where
  "by_pair snapshots = fold add_snapshot snapshots []"

text \<open>Each snapshot with the time the next one of its pair was captured at.\<close>

fun chain :: "rate_snapshot list \<Rightarrow> (rate_snapshot \<times> string option) list" where
  "chain [] = []"
| "chain [s] = [(s, None)]"
| "chain (s # t # ss) = (s, Some (rs_captured t)) # chain (t # ss)"

definition demo_values :: "rate_snapshot list \<Rightarrow> (rate_snapshot \<times> string option) list" where
  "demo_values snapshots = concat (map (\<lambda>(pair, ss). chain (sort_key rs_captured ss)) (by_pair snapshots))"

subsection \<open>The transaction\<close>

definition demo_provider :: string where
  "demo_provider = ''demo-synthetic''"

text \<open>\<open>used\<close> are the snapshots that canonical transactions refer to.\<close>

definition delete_unused :: "nat set \<Rightarrow> provided \<Rightarrow> provided" where
  "delete_unused used t = filter (\<lambda>(r, p). p \<noteq> demo_provider \<or> fx_id r \<in> used) t"

definition end_current :: "time \<Rightarrow> provided \<Rightarrow> exc + provided" where
  "end_current now t = (if list_all (\<lambda>(r, p). valid_until r = None \<longrightarrow> valid_from r < now) t
     then Inr (map (\<lambda>(r, p). (if valid_until r = None then r\<lparr>valid_until := Some now\<rparr> else r, p)) t)
     else Inl IntegrityError)"

definition value_row :: "(string \<Rightarrow> time) \<Rightarrow> nat \<Rightarrow> rate_snapshot \<times> string option \<Rightarrow> fx_row" where
  "value_row pg_time i v = \<lparr>fx_id = i, fx_pair = rs_pair (fst v), fx_rate = pg_round 8 (rs_rate (fst v)),
     captured_at = pg_time (rs_captured (fst v)), valid_from = pg_time (rs_captured (fst v)),
     valid_until = map_option pg_time (snd v)\<rparr>"

definition upper_letter :: "char \<Rightarrow> bool" where
  "upper_letter c \<longleftrightarrow> is_upper c"

definition pair_format :: "string \<Rightarrow> bool" where
  "pair_format p \<longleftrightarrow> length p = 7 \<and> list_all upper_letter (take 3 p) \<and> p ! 3 = CHR ''/'' \<and> list_all upper_letter (drop 4 p)"

definition rate_row_ok :: "fx_row \<Rightarrow> bool" where
  "rate_row_ok r \<longleftrightarrow> 0 < fx_rate r \<and> fx_rate r < 10 ^ 12 \<and> pair_format (fx_pair r) \<and>
     (case valid_until r of None \<Rightarrow> True | Some u \<Rightarrow> valid_from r < u)"

text \<open>One statement inserts all rows; the unique index is on the pairs of the current ones.\<close>

definition insert_values :: "fx_row list \<Rightarrow> provided \<Rightarrow> exc + provided" where
  "insert_values rows t = (if rows = [] then Inl DatabaseError
     else if list_all rate_row_ok rows \<and> distinct (map fx_pair (filter (\<lambda>r. valid_until r = None) (map fst t @ rows)))
     then Inr (t @ map (\<lambda>r. (r, demo_provider)) rows) else Inl IntegrityError)"

definition demo_rows :: "(string \<Rightarrow> time) \<Rightarrow> (nat \<Rightarrow> nat) \<Rightarrow> rate_snapshot list \<Rightarrow> fx_row list" where
  "demo_rows pg_time new_id snapshots = map (\<lambda>(i, v). value_row pg_time (new_id i) v) (List.enumerate 0 (demo_values snapshots))"

definition load_transaction ::
  "(string \<Rightarrow> time) \<Rightarrow> (nat \<Rightarrow> nat) \<Rightarrow> time \<Rightarrow> nat set \<Rightarrow> rate_snapshot list \<Rightarrow> provided \<Rightarrow> exc + provided" where
  "load_transaction pg_time new_id now used snapshots t =
     sbind (end_current now (delete_unused used t)) (insert_values (demo_rows pg_time new_id snapshots))"

text \<open>
  \<open>client\<close> is the start of \<open>psql\<close> in the container: an exception when there is no docker, or whether the statements
  reach the server. A failed transaction leaves the table as it was.
\<close>

definition load_fx_snapshots ::
  "exc + bool \<Rightarrow> (string \<Rightarrow> time) \<Rightarrow> (nat \<Rightarrow> nat) \<Rightarrow> time \<Rightarrow> nat set \<Rightarrow> rate_snapshot list \<Rightarrow> provided \<Rightarrow> (exc + unit) \<times> provided" where
  "load_fx_snapshots client pg_time new_id now used snapshots t = (
     let failed = (Inl (RuntimeError ''Loading FX snapshots failed''), t) in
     case client of Inl e \<Rightarrow> (Inl e, t)
     | Inr False \<Rightarrow> failed
     | Inr True \<Rightarrow> (case load_transaction pg_time new_id now used snapshots t of Inl e \<Rightarrow> failed | Inr t' \<Rightarrow> (Inr (), t')))"

subsection \<open>Groups and chains\<close>

lemma add_snapshot_keys:
  "map fst (add_snapshot s groups) = (if rs_pair s \<in> fst ` set groups then map fst groups else map fst groups @ [rs_pair s])"
  by (induction s groups rule: add_snapshot.induct) auto

lemma add_snapshot_at:
  "map_of (add_snapshot s groups) p =
     (if p = rs_pair s then Some ((case map_of groups p of None \<Rightarrow> [] | Some ss \<Rightarrow> ss) @ [s]) else map_of groups p)"
  by (induction s groups rule: add_snapshot.induct) auto

lemma by_pair_keys: "distinct (map fst (by_pair snapshots)) \<and> fst ` set (by_pair snapshots) = rs_pair ` set snapshots"
proof (induction snapshots rule: rev_induct)
  case (snoc s ss)
  have e: "by_pair (ss @ [s]) = add_snapshot s (by_pair ss)" by (simp add: by_pair_def)
  have k: "map fst (by_pair (ss @ [s])) = (if rs_pair s \<in> rs_pair ` set ss then map fst (by_pair ss) else map fst (by_pair ss) @ [rs_pair s])"
    unfolding e add_snapshot_keys using snoc.IH by simp
  have d: "distinct (map fst (by_pair ss))" "set (map fst (by_pair ss)) = rs_pair ` set ss" using snoc.IH by simp_all
  have "distinct (map fst (by_pair (ss @ [s]))) \<and> set (map fst (by_pair (ss @ [s]))) = rs_pair ` set (ss @ [s])"
    unfolding k using d by (auto simp del: set_map simp: insert_absorb)
  then show ?case by simp
qed (simp add: by_pair_def)

lemma by_pair_at:
  "map_of (by_pair snapshots) p = (if p \<in> rs_pair ` set snapshots then Some (filter (\<lambda>s. rs_pair s = p) snapshots) else None)"
proof (induction snapshots rule: rev_induct)
  case (snoc s ss)
  have "filter (\<lambda>x. rs_pair x = p) ss = []" if "p \<notin> rs_pair ` set ss" using that by (auto simp: filter_empty_conv)
  then show ?case using snoc by (auto simp: by_pair_def add_snapshot_at)
qed (simp add: by_pair_def)

lemma chain_fst: "map fst (chain ss) = ss"
  by (induction ss rule: chain.induct) simp_all

lemma chain_last: "ss \<noteq> [] \<Longrightarrow> filter (\<lambda>v. snd v = None) (chain ss) = [(last ss, None)]"
  by (induction ss rule: chain.induct) simp_all

lemma chain_next: "sorted_wrt R ss \<Longrightarrow> (s, Some u) \<in> set (chain ss) \<Longrightarrow> \<exists>t \<in> set ss. u = rs_captured t \<and> R s t"
  by (induction ss rule: chain.induct) auto

lemma current_of_values:
  "map fx_pair (filter (\<lambda>r. valid_until r = None) (map (\<lambda>(i, v). value_row pg_time (new_id i) v) (List.enumerate n vs))) =
     map (\<lambda>v. rs_pair (fst v)) (filter (\<lambda>v. snd v = None) vs)"
  by (induction vs arbitrary: n) (simp_all add: value_row_def)

lemma current_of_groups:
  "\<forall>(p, ss) \<in> set groups. ss \<noteq> [] \<and> (\<forall>s \<in> set ss. rs_pair s = p) \<Longrightarrow>
    map (\<lambda>v. rs_pair (fst v)) (filter (\<lambda>v. snd v = None) (concat (map (\<lambda>(p, ss). chain (sort_key rs_captured ss)) groups))) = map fst groups"
proof (induction groups)
  case (Cons g groups)
  obtain p ss where g: "g = (p, ss)" by fastforce
  have ne: "sort_key rs_captured ss \<noteq> []" using Cons.prems by (simp add: g sort_key_Nil_iff)
  then have "last (sort_key rs_captured ss) \<in> set ss" using last_in_set [OF ne] by simp
  then have "rs_pair (last (sort_key rs_captured ss)) = p" using Cons.prems by (auto simp: g)
  then show ?case using Cons chain_last [OF ne] by (simp add: g)
qed simp

lemma by_pair_member:
  assumes "(p, ss) \<in> set (by_pair snapshots)"
  shows "ss = filter (\<lambda>s. rs_pair s = p) snapshots \<and> ss \<noteq> []"
proof -
  have m: "map_of (by_pair snapshots) p = Some ss" using assms by_pair_keys by (intro map_of_is_SomeI) simp_all
  then have "p \<in> rs_pair ` set snapshots" "ss = filter (\<lambda>s. rs_pair s = p) snapshots"
    unfolding by_pair_at by (auto split: if_splits)
  then show ?thesis by (auto simp: filter_empty_conv)
qed

lemma value_member:
  assumes "v \<in> set (demo_values snapshots)"
  shows "fst v \<in> set snapshots \<and> v \<in> set (chain (sort_key rs_captured (filter (\<lambda>s. rs_pair s = rs_pair (fst v)) snapshots)))"
proof -
  obtain p ss where g: "(p, ss) \<in> set (by_pair snapshots)" "v \<in> set (chain (sort_key rs_captured ss))"
    using assms by (auto simp: demo_values_def)
  have ss: "ss = filter (\<lambda>s. rs_pair s = p) snapshots" using by_pair_member [OF g(1)] by simp
  have "fst v \<in> set (sort_key rs_captured ss)" using arg_cong [OF chain_fst [of "sort_key rs_captured ss"], of set] g(2) by auto
  then show ?thesis using g(2) ss by auto
qed

lemma value_exists:
  assumes "s \<in> set snapshots"
  shows "\<exists>u. (s, u) \<in> set (demo_values snapshots)"
proof -
  let ?ss = "filter (\<lambda>x. rs_pair x = rs_pair s) snapshots"
  have "map_of (by_pair snapshots) (rs_pair s) = Some ?ss" using assms by (simp add: by_pair_at)
  then have "(rs_pair s, ?ss) \<in> set (by_pair snapshots)" by (rule map_of_SomeD)
  moreover have "s \<in> fst ` set (chain (sort_key rs_captured ?ss))"
    unfolding set_map [symmetric] chain_fst using assms by simp
  then obtain u where "(s, u) \<in> set (chain (sort_key rs_captured ?ss))" by auto
  ultimately show ?thesis unfolding demo_values_def by (intro exI [of _ u]) auto
qed

lemma demo_row_value:
  "r \<in> set (demo_rows pg_time new_id snapshots) \<Longrightarrow> \<exists>i v. v \<in> set (demo_values snapshots) \<and> r = value_row pg_time (new_id i) v"
  by (auto simp: demo_rows_def in_set_enumerate_eq) (metis nth_mem)

lemma demo_row_exists:
  assumes "v \<in> set (demo_values snapshots)"
  shows "\<exists>i. value_row pg_time (new_id i) v \<in> set (demo_rows pg_time new_id snapshots)"
proof -
  obtain i where i: "i < length (demo_values snapshots)" "demo_values snapshots ! i = v" using assms by (auto simp: in_set_conv_nth)
  then have "(i, v) \<in> set (List.enumerate 0 (demo_values snapshots))" by (auto simp: in_set_enumerate_eq)
  then show ?thesis unfolding demo_rows_def by (intro exI [of _ i]) force
qed

subsection \<open>When the load succeeds\<close>

definition closed_at :: "time \<Rightarrow> fx_row \<Rightarrow> fx_row" where
  "closed_at now r = (if valid_until r = None then r\<lparr>valid_until := Some now\<rparr> else r)"

lemma closed_at_keeps [simp]:
  "fx_id (closed_at now r) = fx_id r" "fx_pair (closed_at now r) = fx_pair r" "fx_rate (closed_at now r) = fx_rate r"
  "captured_at (closed_at now r) = captured_at r" "valid_until (closed_at now r) \<noteq> None"
  by (simp_all add: closed_at_def)

definition kept_rows :: "time \<Rightarrow> nat set \<Rightarrow> provided \<Rightarrow> provided" where
  "kept_rows now used t = map (\<lambda>(r, p). (closed_at now r, p)) (delete_unused used t)"

definition good_snapshots :: "(string \<Rightarrow> time) \<Rightarrow> rate_snapshot list \<Rightarrow> bool" where
  "good_snapshots pg_time snapshots \<longleftrightarrow> snapshots \<noteq> [] \<and>
     (\<forall>s \<in> set snapshots. 0 < pg_round 8 (rs_rate s) \<and> pg_round 8 (rs_rate s) < 10 ^ 12 \<and> pair_format (rs_pair s)) \<and>
     (\<forall>p. sorted_wrt (\<lambda>s s'. pg_time (rs_captured s) < pg_time (rs_captured s'))
        (sort_key rs_captured (filter (\<lambda>s. rs_pair s = p) snapshots)))"

lemma demo_rows_ok:
  assumes "good_snapshots pg_time snapshots"
  shows "list_all rate_row_ok (demo_rows pg_time new_id snapshots)"
proof (unfold list_all_iff, rule ballI)
  fix r assume "r \<in> set (demo_rows pg_time new_id snapshots)"
  then obtain i v where v: "v \<in> set (demo_values snapshots)" "r = value_row pg_time (new_id i) v" using demo_row_value by blast
  obtain s u where su: "v = (s, u)" by fastforce
  have s: "s \<in> set snapshots" "(s, u) \<in> set (chain (sort_key rs_captured (filter (\<lambda>x. rs_pair x = rs_pair s) snapshots)))"
    using value_member [OF v(1)] by (simp_all add: su)
  have "pg_time (rs_captured s) < pg_time w" if "u = Some w" for w
    using chain_next [OF _ s(2) [unfolded that]] assms unfolding good_snapshots_def by blast
  then show "rate_row_ok r" using assms s(1) by (auto simp: v(2) su rate_row_ok_def value_row_def good_snapshots_def split: option.split)
qed

lemma load_succeeds:
  assumes "good_snapshots pg_time snapshots" and "\<forall>(r, p) \<in> set t. valid_until r = None \<longrightarrow> valid_from r < now"
  shows "load_transaction pg_time new_id now used snapshots t =
    Inr (kept_rows now used t @ map (\<lambda>r. (r, demo_provider)) (demo_rows pg_time new_id snapshots))"
proof -
  have e: "end_current now (delete_unused used t) = Inr (kept_rows now used t)"
    using assms(2) by (auto simp: end_current_def kept_rows_def closed_at_def delete_unused_def list_all_iff)
  have old: "filter (\<lambda>r. valid_until r = None) (map fst (kept_rows now used t)) = []"
    unfolding filter_empty_conv kept_rows_def by (auto simp: closed_at_def)
  have "\<forall>(p, ss) \<in> set (by_pair snapshots). ss \<noteq> [] \<and> (\<forall>s \<in> set ss. rs_pair s = p)"
    using by_pair_member by fastforce
  then have "map fx_pair (filter (\<lambda>r. valid_until r = None) (demo_rows pg_time new_id snapshots)) = map fst (by_pair snapshots)"
    unfolding demo_rows_def current_of_values demo_values_def by (rule current_of_groups)
  then have d: "distinct (map fx_pair (filter (\<lambda>r. valid_until r = None) (map fst (kept_rows now used t) @ demo_rows pg_time new_id snapshots)))"
    unfolding filter_append old using by_pair_keys by simp
  obtain s where s: "s \<in> set snapshots" using assms(1) by (metis good_snapshots_def last_in_set)
  obtain u where u: "(s, u) \<in> set (demo_values snapshots)" using value_exists [OF s] ..
  have ne: "demo_rows pg_time new_id snapshots \<noteq> []" using demo_row_exists [OF u, of pg_time new_id] by auto
  show ?thesis unfolding load_transaction_def e insert_values_def using d demo_rows_ok [OF assms(1)] ne by simp
qed

lemma distinct_one_current:
  assumes "distinct (map fx_pair (filter (\<lambda>r. valid_until r = None) t))"
  shows "one_current t"
proof -
  have "length (filter (\<lambda>r. fx_pair r = p) xs) \<le> 1" if "distinct (map fx_pair xs)" for p xs
    using that by (induction xs) (auto simp: filter_empty_conv image_iff)
  from this [OF assms] show ?thesis by (auto simp: one_current_def current_def conj_commute)
qed

lemma insert_values_current: "insert_values rows t = Inr t' \<Longrightarrow> one_current (map fst t')"
  by (auto simp: insert_values_def comp_def intro!: distinct_one_current split: if_splits)

subsection \<open>The generated history\<close>

definition capture_time :: "(int \<Rightarrow> time) \<Rightarrow> int \<Rightarrow> time" where
  "capture_time now k = us_day * date_of (now k - k * us_day) + 2 * us_hour + clock_of (now k - k * us_day) mod us_minute"

definition good_rate :: "rat \<Rightarrow> bool" where
  "good_rate x \<longleftrightarrow> 0 < x \<and> x \<le> 1 \<and> pg_round 8 x = x"

lemma uniform_small: "yields (uniform (- fl (5 / 1000)) (fl (5 / 1000))) (\<lambda>v. \<bar>v\<bar> \<le> 1 / 64 \<and> fl v = v)"
proof -
  define b where "b = fl (5 / 1000)"
  have fx: "fl (1 / 2 ^ k) = 1 / 2 ^ k" for k using fl_dyadic [of 1 k] by simp
  have b: "0 \<le> b" "b \<le> 1 / 128" using fl.nonneg [of "5 / 1000"] fl.le_fixed [OF _ fx [of 7], of "5 / 1000"] by (simp_all add: b_def)
  have w: "0 \<le> fl (b - - b)" "fl (b - - b) \<le> 1 / 64" using b fl.nonneg [of "b - - b"] fl.le_fixed [OF _ fx [of 6], of "b - - b"] by simp_all
  have small: "\<bar>fl (- b + fl (fl (b - - b) * r))\<bar> \<le> 1 / 64" if r: "0 \<le> r" "r \<le> 1" for r
  proof -
    have "0 \<le> fl (b - - b) * r" "fl (b - - b) * r \<le> 1 / 64" using w r mult_left_le [of r "fl (b - - b)"] by (simp_all add: mult.commute)
    then have "0 \<le> fl (fl (b - - b) * r)" "fl (fl (b - - b) * r) \<le> 1 / 64" using fl.nonneg fl.le_fixed [OF _ fx [of 6]] by simp_all
    then have "- (1 / 128) \<le> - b + fl (fl (b - - b) * r)" "- b + fl (fl (b - - b) * r) \<le> 1 / 64" using b by linarith+
    moreover have "fl (- (1 / 128)) = - (1 / 128)" using fx [of 7] by (simp add: fl.odd)
    ultimately have "- (1 / 128) \<le> fl (- b + fl (fl (b - - b) * r))" "fl (- b + fl (fl (b - - b) * r)) \<le> 1 / 64"
      using fl.ge_fixed fl.le_fixed [OF _ fx [of 6]] by simp_all
    then show ?thesis by linarith
  qed
  have unit: "yields random_unit (\<lambda>r. 0 \<le> r \<and> r \<le> 1)"
  proof -
    have "(of_nat (n mod 2 ^ 53) :: rat) \<le> of_nat (2 ^ 53)" for n by (rule of_nat_mono) simp
    then have "0 \<le> (of_nat (n mod 2 ^ 53) / 2 ^ 53 :: rat) \<and> (of_nat (n mod 2 ^ 53) / 2 ^ 53 :: rat) \<le> 1" for n by simp
    then show ?thesis unfolding random_unit_def by (intro yields_bind [OF yields_any] yields_return)
  qed
  show ?thesis unfolding uniform_def b_def [symmetric]
    by (rule yields_bind [OF unit], rule yields_return) (simp only: fl.idem simp_thms small)
qed

lemma rate_good:
  assumes "\<forall>x. fl x = x \<longrightarrow> fl (decimal_str x) = x" and "fl v = v" "\<bar>v\<bar> \<le> 1 / 64" and "base \<in> {63 / 100000, 50 / 100000, 58 / 100000}"
  shows "good_rate (quant 7 (dec (base * dec (1 + decimal_str v))))"
proof -
  let ?d = "decimal_str v"
  have fd: "fl ?d = v" using assms(1,2) by blast
  have fx: "fl (1 / 32) = 1 / 32" using fl_dyadic [of 1 5] by simp
  have "\<bar>?d\<bar> \<le> 1 / 32"
  proof (rule ccontr)
    assume "\<not> \<bar>?d\<bar> \<le> 1 / 32"
    then have "1 / 32 \<le> ?d \<or> ?d \<le> - (1 / 32)" by linarith
    moreover have "fl (- (1 / 32)) = - (1 / 32)" using fx by (simp add: fl.odd)
    ultimately have "1 / 32 \<le> fl ?d \<or> fl ?d \<le> - (1 / 32)" using fl.ge_fixed [OF _ fx] fl.le_fixed by metis
    then show False using assms(3) unfolding fd by linarith
  qed
  then have s: "31 / 32 \<le> 1 + ?d" "1 + ?d \<le> 33 / 32" by linarith+
  have "dec (31 / 32) = 31 / 32" "dec (33 / 32) = 33 / 32" using dec_scaled [of 96875 5] dec_scaled [of 103125 5] by simp_all
  then have f: "31 / 32 \<le> dec (1 + ?d)" "dec (1 + ?d) \<le> 33 / 32" using dec.ge_fixed [OF s(1)] dec.le_fixed [OF s(2)] by simp_all
  have bs: "50 / 100000 \<le> base" "base \<le> 63 / 100000" "0 \<le> base" using assms(4) by auto
  have "50 / 100000 * (31 / 32) \<le> base * dec (1 + ?d)" "base * dec (1 + ?d) \<le> 63 / 100000 * (33 / 32)"
    using mult_mono [OF bs(1) f(1) bs(3)] mult_mono [OF bs(2) f(2)] f(1) by (simp_all only:)
  then have p: "484375 / 10 ^ 9 \<le> base * dec (1 + ?d)" "base * dec (1 + ?d) \<le> 1" by simp_all
  have "dec (484375 / 10 ^ 9) = 484375 / 10 ^ 9" using dec_scaled [of 484375 9] by simp
  then have q: "484375 / 10 ^ 9 \<le> dec (base * dec (1 + ?d))" "dec (base * dec (1 + ?d)) \<le> 1"
    using dec.ge_fixed [OF p(1)] dec.le_one [OF p(2)] by simp_all
  have "0 < quant 7 (484375 / 10 ^ 9)" by code_simp
  then have "0 < quant 7 (dec (base * dec (1 + ?d)))" using quant.mono [OF q(1), of 7] by linarith
  moreover have "pg_round 8 (quant 7 x) = quant 7 x" for x
    using pg_round_scaled [of 8 "rhe (x * 10 ^ 7) * 10"] by (simp add: quant_def)
  ultimately show ?thesis using quant.le_one [OF q(2), of 7] by (simp add: good_rate_def)
qed

lemma yields_each_in:
  "\<forall>x \<in> set xs. yields (k x) (\<lambda>y. f y = g x) \<Longrightarrow> yields (each k xs) (\<lambda>ys. map f ys = map g xs)"
proof (induction xs)
  case (Cons x xs)
  have h: "yields (k x) (\<lambda>y. f y = g x)" and t: "yields (each k xs) (\<lambda>ys. map f ys = map g xs)" using Cons by simp_all
  show ?case unfolding each.simps by (rule yields_bind [OF h], rule yields_bind [OF t], rule yields_return) simp
qed (simp add: yields_return)

lemma history_shape:
  assumes "\<forall>x. fl x = x \<longrightarrow> fl (decimal_str x) = x"
  shows "yields (generate_fx_history decimal_str now days) (\<lambda>snaps. list_all (\<lambda>s. good_rate (rs_rate s)) snaps \<and>
    map (\<lambda>s. (rs_pair s, rs_captured s)) snaps =
      concat (map (\<lambda>k. map (\<lambda>pr. (fst pr, isoformat (capture_time now k))) FX_RATES) (day_offsets days)))"
proof -
  let ?f = "\<lambda>s. (good_rate (rs_rate s), rs_pair s, rs_captured s)"
  let ?g = "\<lambda>k pr. (True, fst pr, isoformat (capture_time now k))"
  have "yields (snapshot decimal_str (now k - k * us_day) pr) (\<lambda>s. ?f s = ?g k pr)" if "pr \<in> set FX_RATES" for k pr
  proof -
    have "snd pr \<in> {63 / 100000, 50 / 100000, 58 / 100000}" using that by (auto simp: FX_RATES_def)
    then show ?thesis unfolding snapshot_def
      by (intro yields_bind [OF uniform_small] yields_return) (use rate_good [OF assms] in \<open>auto simp: capture_time_def\<close>)
  qed
  then have "yields (each (snapshot decimal_str (now k - k * us_day)) FX_RATES) (\<lambda>ss. map ?f ss = map (?g k) FX_RATES)" for k
    by (intro yields_each_in) blast
  then have all: "yields (each (\<lambda>k. each (snapshot decimal_str (now k - k * us_day)) FX_RATES) (day_offsets days))
      (\<lambda>xss. map (map ?f) xss = map (\<lambda>k. map (?g k) FX_RATES) (day_offsets days))"
    by (rule yields_each)
  have "list_all (\<lambda>s. good_rate (rs_rate s)) (concat xss) \<and>
      map (\<lambda>s. (rs_pair s, rs_captured s)) (concat xss) =
        concat (map (\<lambda>k. map (\<lambda>pr. (fst pr, isoformat (capture_time now k))) FX_RATES) (day_offsets days))"
    if e: "map (map ?f) xss = map (\<lambda>k. map (?g k) FX_RATES) (day_offsets days)" for xss :: "rate_snapshot list list"
  proof -
    have m: "map ?f (concat xss) = concat (map (\<lambda>k. map (?g k) FX_RATES) (day_offsets days))"
      unfolding map_concat e ..
    have s: "map snd (map ?f (concat xss)) = concat (map (\<lambda>k. map (\<lambda>pr. (fst pr, isoformat (capture_time now k))) FX_RATES) (day_offsets days))"
      unfolding m by (simp add: map_concat comp_def)
    have c: "map (\<lambda>s. (rs_pair s, rs_captured s)) ys = map snd (map ?f ys)" for ys :: "rate_snapshot list" by simp
    have "x" if "x \<in> set (map fst (map ?f (concat xss)))" for x using that unfolding m by auto
    then have "list_all (\<lambda>s. good_rate (rs_rate s)) (concat xss)" by (auto simp: list_all_iff)
    then show ?thesis using trans [OF c s] by (rule conjI)
  qed
  then show ?thesis unfolding generate_fx_history_def by (intro yields_bind [OF all] yields_return)
qed

definition history :: "(int \<Rightarrow> time) \<Rightarrow> int \<Rightarrow> rate_snapshot list \<Rightarrow> bool" where
  "history now days snaps \<longleftrightarrow> list_all (\<lambda>s. good_rate (rs_rate s)) snaps \<and> map (\<lambda>s. (rs_pair s, rs_captured s)) snaps =
     concat (map (\<lambda>k. map (\<lambda>pr. (fst pr, isoformat (capture_time now k))) FX_RATES) (day_offsets days))"

definition demo_pairs :: "string list" where
  "demo_pairs = map fst FX_RATES"

lemma history_pairs:
  assumes "history now days snaps" "s \<in> set snaps"
  shows "rs_pair s \<in> set demo_pairs" "\<exists>k \<in> {0..days}. rs_captured s = isoformat (capture_time now k)" "good_rate (rs_rate s)"
proof -
  have "(rs_pair s, rs_captured s) \<in> set (map (\<lambda>s. (rs_pair s, rs_captured s)) snaps)" using assms(2) by auto
  then have "(rs_pair s, rs_captured s) \<in> set (concat (map (\<lambda>k. map (\<lambda>pr. (fst pr, isoformat (capture_time now k))) FX_RATES) (day_offsets days)))"
    using assms(1) by (simp only: history_def)
  then show "rs_pair s \<in> set demo_pairs" "\<exists>k \<in> {0..days}. rs_captured s = isoformat (capture_time now k)"
    by (auto simp: day_offsets_def demo_pairs_def)
  show "good_rate (rs_rate s)" using assms by (simp add: history_def list_all_iff)
qed

lemma history_of_pair:
  assumes "history now days snaps" "p \<in> set demo_pairs"
  shows "map rs_captured (filter (\<lambda>s. rs_pair s = p) snaps) = map (\<lambda>k. isoformat (capture_time now k)) (day_offsets days)"
proof -
  let ?c = "\<lambda>k. isoformat (capture_time now k)"
  have "map snd (filter (\<lambda>x. fst x = p) (map (\<lambda>pr. (fst pr, ?c k)) FX_RATES)) = [?c k]" for k
    using assms(2) by (auto simp: demo_pairs_def FX_RATES_def)
  then have "map snd (filter (\<lambda>x. fst x = p) (concat (map (\<lambda>k. map (\<lambda>pr. (fst pr, ?c k)) FX_RATES) ks))) = map ?c ks" for ks
    by (induction ks) simp_all
  then have "map snd (filter (\<lambda>x. fst x = p) (map (\<lambda>s. (rs_pair s, rs_captured s)) snaps)) = map ?c (day_offsets days)"
    using assms(1) by (simp only: history_def)
  then show ?thesis by (simp add: filter_map comp_def)
qed

text \<open>The readings of the clock, the earliest for the most distant day, and the timestamps they give.\<close>

definition clock_ok :: "(int \<Rightarrow> time) \<Rightarrow> int \<Rightarrow> bool" where
  "clock_ok now days \<longleftrightarrow> (\<forall>j k. 0 \<le> j \<and> j \<le> k \<and> k \<le> days \<longrightarrow> now k \<le> now j) \<and>
     min_time \<le> now days - days * us_day \<and> now 0 \<le> max_time"

lemma capture_date: "date_of (capture_time now k) = date_of (now k) - k"
proof -
  have "0 \<le> clock_of t mod us_minute" "clock_of t mod us_minute < us_minute" for t by simp_all
  then have "date_of (capture_time now k) = date_of (now k - k * us_day)"
    unfolding capture_time_def add.assoc by (intro date_of_eq) (simp_all add: add_nonneg_nonneg less_le_trans)
  also have "\<dots> = date_of (now k) - k" using div_mult_self1 [of us_day "now k" "- k"] by (simp add: date_of_def)
  finally show ?thesis .
qed

lemma capture_bounds:
  "us_day * (date_of (now k) - k) + 2 * us_hour \<le> capture_time now k \<and>
   capture_time now k < us_day * (date_of (now k) - k) + 2 * us_hour + us_minute"
proof -
  have "date_of (now k - k * us_day) = date_of (now k) - k" using div_mult_self1 [of us_day "now k" "- k"] by (simp add: date_of_def)
  moreover have "0 \<le> clock_of t mod us_minute" "clock_of t mod us_minute < us_minute" for t by simp_all
  ultimately show ?thesis by (simp add: capture_time_def)
qed

lemma capture_less:
  assumes "clock_ok now days" "0 \<le> j" "j < k" "k \<le> days"
  shows "capture_time now k < capture_time now j"
proof -
  have "now k \<le> now j" using assms by (simp add: clock_ok_def)
  then have "date_of (now k) \<le> date_of (now j)" by (simp add: date_of_def zdiv_mono1)
  then have "date_of (now k) - k + 1 \<le> date_of (now j) - j" using assms(3) by linarith
  then have "us_day * (date_of (now k) - k + 1) \<le> us_day * (date_of (now j) - j)" by (rule mult_left_mono) simp
  then have "us_day * (date_of (now k) - k) + us_day \<le> us_day * (date_of (now j) - j)" by (simp only: distrib_left mult_1_right)
  moreover have "a < b" if "a < A + 2 * us_hour + us_minute" "A + us_day \<le> B" "B + 2 * us_hour \<le> b" for a b A B using that by simp
  ultimately show ?thesis using capture_bounds [of now k] capture_bounds [of now j] by blast
qed

lemma capture_valid:
  assumes "clock_ok now days" "0 \<le> k" "k \<le> days"
  shows "valid_date (date_of (capture_time now k))" "min_time \<le> capture_time now k" "capture_time now k \<le> max_time"
proof -
  have "now days \<le> now k" "now k \<le> now 0" "k * us_day \<le> days * us_day" "0 \<le> k * us_day" using assms by (simp_all add: clock_ok_def)
  then have "min_time \<le> now k - k * us_day" "now k - k * us_day \<le> max_time" using assms(1) unfolding clock_ok_def by linarith+
  then have "valid_date (date_of (now k - k * us_day))" using valid_date_range by blast
  moreover have "date_of (capture_time now k) = date_of (now k - k * us_day)"
    unfolding capture_date using div_mult_self1 [of us_day "now k" "- k"] by (simp add: date_of_def)
  ultimately show v: "valid_date (date_of (capture_time now k))" by simp
  then show "min_time \<le> capture_time now k" "capture_time now k \<le> max_time" using valid_date_range by blast+
qed

lemma history_sorted:
  assumes "history now days snaps" "clock_ok now days"
    and "\<forall>t. min_time \<le> t \<and> t \<le> max_time \<longrightarrow> pg_time (isoformat t) = t"
  shows "sorted_wrt (\<lambda>s s'. pg_time (rs_captured s) < pg_time (rs_captured s')) (sort_key rs_captured (filter (\<lambda>s. rs_pair s = p) snaps))"
proof (cases "p \<in> set demo_pairs")
  case False
  then have "filter (\<lambda>s. rs_pair s = p) snaps = []" using history_pairs(1) [OF assms(1)] by (auto simp: filter_empty_conv)
  then show ?thesis by simp
next
  case True
  let ?ss = "filter (\<lambda>s. rs_pair s = p) snaps" and ?c = "\<lambda>k. isoformat (capture_time now k)"
  note m = history_of_pair [OF assms(1) True]
  have desc: "sorted_wrt (>) (day_offsets days)"
    unfolding day_offsets_def sorted_wrt_rev using sorted_wrt_upto [of 0 days] by simp
  have d: "sorted_wrt (\<lambda>k j. 0 \<le> j \<and> j < k \<and> k \<le> days) (day_offsets days)"
    by (rule sorted_wrt_mono_rel [OF _ desc]) (auto simp: day_offsets_def)
  have "sorted_wrt (\<lambda>a b. a < b \<and> pg_time a < pg_time b) (map ?c (day_offsets days))"
    unfolding sorted_wrt_map
  proof (rule sorted_wrt_mono_rel [OF _ d])
    fix k j assume "0 \<le> j \<and> j < k \<and> k \<le> days"
    then show "?c k < ?c j \<and> pg_time (?c k) < pg_time (?c j)"
      using isoformat_less [OF capture_valid(1) [OF assms(2)] capture_valid(1) [OF assms(2)], of k j] capture_less [OF assms(2), of j k]
        capture_valid(2,3) [OF assms(2)] assms(3) by simp
  qed
  then have s: "sorted_wrt (\<lambda>a b. a < b \<and> pg_time a < pg_time b) (map rs_captured ?ss)" unfolding m .
  then have "sorted (map rs_captured ?ss)" by (rule sorted_wrt_mono_rel [rotated]) (elim conjE, rule less_imp_le)
  then have "sort_key rs_captured ?ss = ?ss" by (rule sort_key_id_if_sorted)
  then show ?thesis using s unfolding sorted_wrt_map by (auto elim: sorted_wrt_mono_rel [rotated])
qed

lemma history_good:
  assumes "history now days snaps" "clock_ok now days" "0 \<le> days"
    and "\<forall>t. min_time \<le> t \<and> t \<le> max_time \<longrightarrow> pg_time (isoformat t) = t"
  shows "good_snapshots pg_time snaps"
proof -
  have f: "pair_format p" if "p \<in> set demo_pairs" for p using that by (auto simp: demo_pairs_def FX_RATES_def) code_simp+
  have "''NGN/USD'' \<in> set demo_pairs" by (simp add: demo_pairs_def FX_RATES_def)
  from history_of_pair [OF assms(1) this] have "filter (\<lambda>s. rs_pair s = ''NGN/USD'') snaps \<noteq> []"
    using assms(3) by (auto simp: day_offsets_def)
  then have "snaps \<noteq> []" by auto
  moreover have "0 < pg_round 8 (rs_rate s) \<and> pg_round 8 (rs_rate s) < 10 ^ 12 \<and> pair_format (rs_pair s)" if "s \<in> set snaps" for s
    using history_pairs(3) [OF assms(1) that] f [OF history_pairs(1) [OF assms(1) that]] by (simp add: good_rate_def)
  ultimately show ?thesis using history_sorted [OF assms(1,2,4)] by (simp add: good_snapshots_def)
qed

lemma demo_row_shape:
  assumes "history now days snaps" "clock_ok now days" "r \<in> set (demo_rows pg_time new_id snaps)"
    and "\<forall>t. min_time \<le> t \<and> t \<le> max_time \<longrightarrow> pg_time (isoformat t) = t"
  shows "\<exists>s \<in> set snaps. \<exists>k \<in> {0..days}. rs_pair s = fx_pair r \<and> rs_captured s = isoformat (capture_time now k) \<and>
    captured_at r = capture_time now k \<and> fx_rate r = rs_rate s"
proof -
  obtain i v where v: "v \<in> set (demo_values snaps)" "r = value_row pg_time (new_id i) v" using demo_row_value [OF assms(3)] by blast
  then have s: "fst v \<in> set snaps" using value_member by blast
  obtain k where k: "k \<in> {0..days}" "rs_captured (fst v) = isoformat (capture_time now k)"
    using history_pairs(2) [OF assms(1) s] by blast
  have "pg_time (isoformat (capture_time now k)) = capture_time now k" using assms(4) capture_valid [OF assms(2)] k(1) by simp
  then show ?thesis using s k history_pairs(3) [OF assms(1) s]
    by (intro bexI [of _ "fst v"] bexI [of _ k]) (simp_all add: v(2) value_row_def good_rate_def)
qed

lemma demo_row_of_day:
  assumes "history now days snaps" "clock_ok now days" "pair \<in> set demo_pairs" "0 \<le> k" "k \<le> days"
    and "\<forall>t. min_time \<le> t \<and> t \<le> max_time \<longrightarrow> pg_time (isoformat t) = t"
  shows "\<exists>r \<in> set (demo_rows pg_time new_id snaps). fx_pair r = pair \<and> captured_at r = capture_time now k"
proof -
  have "isoformat (capture_time now k) \<in> set (map rs_captured (filter (\<lambda>s. rs_pair s = pair) snaps))"
    unfolding history_of_pair [OF assms(1,3)] using assms(4,5) by (auto simp: day_offsets_def)
  then obtain s where s: "s \<in> set snaps" "rs_pair s = pair" "rs_captured s = isoformat (capture_time now k)" by auto
  obtain u where u: "(s, u) \<in> set (demo_values snaps)" using value_exists [OF s(1)] by blast
  obtain i where "value_row pg_time (new_id i) (s, u) \<in> set (demo_rows pg_time new_id snaps)"
    using demo_row_exists [OF u, of pg_time new_id] by blast
  moreover have "pg_time (isoformat (capture_time now k)) = capture_time now k"
    using assms(6) capture_valid [OF assms(2,4,5)] by blast
  ultimately show ?thesis using s(2,3) by (intro bexI) (simp_all add: value_row_def)
qed

lemma found_before:
  assumes "q \<in> set t" "fx_pair q = pair" "captured_at q \<le> tm"
  shows "\<exists>r \<in> set t. fx_pair r = pair \<and> captured_at r \<le> tm \<and> captured_at q \<le> captured_at r \<and>
    get_fx_rate_at t pair tm = Some (fx_id r, fx_rate r)"
proof -
  have "get_fx_rate_at t pair tm \<noteq> None" using assms by (auto simp: get_fx_rate_None rows_before_def filter_empty_conv)
  then obtain i x where e: "get_fx_rate_at t pair tm = Some (i, x)" by auto
  from get_fx_rate_Some [OF e] show ?thesis using assms e by fastforce
qed

lemma demo_rows_loaded: "r \<in> set (demo_rows pg_time new_id snaps) \<Longrightarrow>
    r \<in> set (map fst (kept_rows now used t @ map (\<lambda>r. (r, demo_provider)) (demo_rows pg_time new_id snaps)))"
  by force

lemma rate_found:
  assumes "history later days snaps" "clock_ok later days" "0 \<le> days" "pair \<in> set demo_pairs"
    and pg: "\<forall>t. min_time \<le> t \<and> t \<le> max_time \<longrightarrow> pg_time (isoformat t) = t"
    and tm: "us_day * (date_of (later days) - days) + us_minute \<le> tm"
  shows "get_fx_rate_at (map fst (kept_rows now used t @ map (\<lambda>r. (r, demo_provider)) (demo_rows pg_time new_id snaps))) pair tm \<noteq> None"
proof -
  obtain r where r: "r \<in> set (demo_rows pg_time new_id snaps)" "fx_pair r = pair" "captured_at r = capture_time later days"
    using demo_row_of_day [OF assms(1,2,4,3) order_refl pg] by blast
  have "c \<le> tm + FORWARD_RATE_TOLERANCE" if "c < A + 2 * us_hour + us_minute" "A + us_minute \<le> tm" for c A :: int
    using that by (simp add: FORWARD_RATE_TOLERANCE_def)
  then have "captured_at r \<le> tm + FORWARD_RATE_TOLERANCE" using capture_bounds [of later days] tm unfolding r(3) by blast
  then show ?thesis unfolding get_fx_rate_None rows_before_def rows_later_def filter_empty_conv
    using demo_rows_loaded [OF r(1)] r(2) by (metis not_le)
qed

lemma rate_of_day:
  assumes h: "history later days snaps" and clock: "clock_ok later days" and p: "pair \<in> set demo_pairs"
    and pg: "\<forall>t. min_time \<le> t \<and> t \<le> max_time \<longrightarrow> pg_time (isoformat t) = t"
    and k: "k \<in> {0..days}" and tm: "capture_time later k \<le> tm" "k = 0 \<or> tm < capture_time later (k - 1)"
    and other: "\<forall>(r, p) \<in> set t. fx_pair r = pair \<longrightarrow> p = demo_provider \<and> fx_id r \<notin> used"
  shows "\<exists>s \<in> set snaps. \<exists>i. rs_pair s = pair \<and> rs_captured s = isoformat (capture_time later k) \<and>
    get_fx_rate_at (map fst (kept_rows now used t @ map (\<lambda>r. (r, demo_provider)) (demo_rows pg_time new_id snaps))) pair tm =
      Some (i, rs_rate s)"
proof -
  let ?rows = "demo_rows pg_time new_id snaps"
  let ?t' = "kept_rows now used t @ map (\<lambda>r. (r, demo_provider)) ?rows"
  obtain q where q: "q \<in> set ?rows" "fx_pair q = pair" "captured_at q = capture_time later k"
    using demo_row_of_day [OF h clock p _ _ pg, of k] k by auto
  obtain r where r: "r \<in> set (map fst ?t')" "fx_pair r = pair" "captured_at r \<le> tm" "capture_time later k \<le> captured_at r"
    "get_fx_rate_at (map fst ?t') pair tm = Some (fx_id r, fx_rate r)"
    using found_before [OF demo_rows_loaded [OF q(1)] q(2)] tm(1) unfolding q(3) by blast
  have "r \<notin> fst ` set (kept_rows now used t)" using other r(2) by (force simp: kept_rows_def delete_unused_def)
  then have "r \<in> set ?rows" using r(1) by (auto simp: image_iff)
  then obtain s j where s: "s \<in> set snaps" "j \<in> {0..days}" "rs_pair s = fx_pair r" "rs_captured s = isoformat (capture_time later j)"
    "captured_at r = capture_time later j" "fx_rate r = rs_rate s" using demo_row_shape [OF h clock _ pg] by blast
  have "\<not> k < j" using capture_less [OF clock, of k j] r(4) s(2,5) k by auto
  moreover have "\<not> j < k"
  proof
    assume "j < k"
    then have "capture_time later (k - 1) \<le> capture_time later j"
      using capture_less [OF clock, of j "k - 1"] s(2) k by (cases "j = k - 1") auto
    then show False using r(3) s(2,5) tm(2) \<open>j < k\<close> by auto
  qed
  ultimately have "j = k" by simp
  then show ?thesis using s r(2,5) by auto
qed

text \<open>
  The demo's rates are loaded completely: whatever the random source, a history generated for some days
  is accepted by every constraint of the table and leaves one current rate per pair; a snapshot that a
  transaction refers to keeps its rate; from one minute after the first midnight on every lookup finds a
  rate, so every foreign event of the demo can be converted; and when no other snapshots of a pair
  remain, a time between two captures is converted with the rate of the earlier one.
\<close>

theorem demo_rates_loaded:
  assumes "0 \<le> days" "clock_ok later days" and "\<forall>x. fl x = x \<longrightarrow> fl (decimal_str x) = x"
    and pg: "\<forall>t. min_time \<le> t \<and> t \<le> max_time \<longrightarrow> pg_time (isoformat t) = t"
    and "\<forall>(r, p) \<in> set t. valid_until r = None \<longrightarrow> valid_from r < now"
    and "snaps = fst (run_state (generate_fx_history decimal_str later days) seed)"
  shows "\<exists>t'. load_fx_snapshots (Inr True) pg_time new_id now used snaps t = (Inr (), t') \<and> one_current (map fst t') \<and>
    (\<forall>(r, p) \<in> set t. fx_id r \<in> used \<longrightarrow>
       (\<exists>r'. (r', p) \<in> set t' \<and> fx_id r' = fx_id r \<and> fx_pair r' = fx_pair r \<and> fx_rate r' = fx_rate r)) \<and>
    (\<forall>pair \<in> set demo_pairs. \<forall>tm. us_day * (date_of (later days) - days) + us_minute \<le> tm \<longrightarrow>
       get_fx_rate_at (map fst t') pair tm \<noteq> None) \<and>
    (\<forall>pair \<in> set demo_pairs. \<forall>k \<in> {0..days}. \<forall>tm. capture_time later k \<le> tm \<and> (k = 0 \<or> tm < capture_time later (k - 1)) \<and>
       (\<forall>(r, p) \<in> set t. fx_pair r = pair \<longrightarrow> p = demo_provider \<and> fx_id r \<notin> used) \<longrightarrow>
       (\<exists>s \<in> set snaps. \<exists>i. rs_pair s = pair \<and> rs_captured s = isoformat (capture_time later k) \<and>
          get_fx_rate_at (map fst t') pair tm = Some (i, rs_rate s)))"
proof -
  let ?rows = "demo_rows pg_time new_id snaps"
  let ?t' = "kept_rows now used t @ map (\<lambda>r. (r, demo_provider)) ?rows"
  have h: "history later days snaps"
    using history_shape [OF assms(3), of later days] by (simp only: yields_def history_def assms(6))
  have load: "load_transaction pg_time new_id now used snaps t = Inr ?t'"
    by (rule load_succeeds [OF history_good [OF h assms(2,1) pg] assms(5)])
  then have 1: "load_fx_snapshots (Inr True) pg_time new_id now used snaps t = (Inr (), ?t')"
    by (simp add: load_fx_snapshots_def)
  have 2: "one_current (map fst ?t')"
    using load unfolding load_transaction_def sbind_Inr_iff by (auto dest!: insert_values_current)
  have 3: "\<exists>r'. (r', p) \<in> set ?t' \<and> fx_id r' = fx_id r \<and> fx_pair r' = fx_pair r \<and> fx_rate r' = fx_rate r"
    if "(r, p) \<in> set t" "fx_id r \<in> used" for r p
    using that by (intro exI [of _ "closed_at now r"]) (force simp: kept_rows_def delete_unused_def)
  show ?thesis
    using 1 2 3 rate_found [OF h assms(2,1) _ pg] rate_of_day [OF h assms(2) _ pg] by (intro exI [of _ ?t']) auto
qed

text \<open>An instant as PostgreSQL reads its text, and a first run.\<close>

definition example_pg_time :: "string \<Rightarrow> time" where
  "example_pg_time s = (case from_isoformat s of None \<Rightarrow> 0 | Some (t, offset) \<Rightarrow> t)"

theorem demo_rates_loaded_witness:
  "\<exists>t' s i. load_fx_snapshots (Inr True) example_pg_time id 1709210096000000 {}
      (fst (run_state (generate_fx_history id (\<lambda>k. 1709210096000000) 0) (\<lambda>n. 0))) [] = (Inr (), t') \<and>
    get_fx_rate_at (map fst t') ''NGN/USD'' 1709210096000000 = Some (i, rs_rate (s :: rate_snapshot))"
proof -
  let ?now = "1709210096000000 :: int"
  have pg: "\<forall>t. min_time \<le> t \<and> t \<le> max_time \<longrightarrow> example_pg_time (isoformat t) = t"
    using isoformat_roundtrip valid_date_range by (simp add: example_pg_time_def)
  have "min_time \<le> ?now" "?now \<le> max_time" by code_simp+
  then have c: "clock_ok (\<lambda>k. ?now) 0" by (simp add: clock_ok_def)
  have p: "''NGN/USD'' \<in> set demo_pairs" by (simp add: demo_pairs_def FX_RATES_def)
  have tm: "capture_time (\<lambda>k. ?now) 0 \<le> ?now" by code_simp
  let ?snaps = "fst (run_state (generate_fx_history id (\<lambda>k. ?now) 0) (\<lambda>n. 0))"
  have i: "\<forall>x. fl x = x \<longrightarrow> fl (id x) = x" by simp
  have n: "\<forall>(r, p) \<in> set ([] :: provided). valid_until r = None \<longrightarrow> valid_from r < ?now" by simp
  obtain t' where t: "load_fx_snapshots (Inr True) example_pg_time id ?now {} ?snaps [] = (Inr (), t')"
    and day: "\<forall>pair \<in> set demo_pairs. \<forall>k \<in> {0..0}. \<forall>tm. capture_time (\<lambda>k. ?now) k \<le> tm \<and> (k = 0 \<or> tm < capture_time (\<lambda>k. ?now) (k - 1)) \<and>
       (\<forall>(r, p) \<in> set ([] :: provided). fx_pair r = pair \<longrightarrow> p = demo_provider \<and> fx_id r \<notin> {}) \<longrightarrow>
       (\<exists>s \<in> set ?snaps. \<exists>i. rs_pair s = pair \<and> rs_captured s = isoformat (capture_time (\<lambda>k. ?now) k) \<and>
          get_fx_rate_at (map fst t') pair tm = Some (i, rs_rate s))"
    using demo_rates_loaded [OF order_refl c i pg n refl, of id "{}" "\<lambda>n. 0"]
    by (elim exE conjE) (rule that, assumption, assumption)
  have "\<exists>s \<in> set ?snaps. \<exists>i. rs_pair s = ''NGN/USD'' \<and> rs_captured s = isoformat (capture_time (\<lambda>k. ?now) 0) \<and>
      get_fx_rate_at (map fst t') ''NGN/USD'' ?now = Some (i, rs_rate s)"
    by (rule day [rule_format, OF p]) (use tm in simp_all)
  then show ?thesis using t by blast
qed

end
