(* ===== verification/Operator_Scripts.thy ===== *)
theory Operator_Scripts
  imports Security_Scan Demo_Rates Monitoring
begin

text \<open>
  The scripts an operator runs: \<open>scripts/doctor.py\<close>, \<open>wait_for_postgres.py\<close>, \<open>smoke_test.py\<close>, \<open>clean_project.py\<close>
  and \<open>demo_full.py\<close>. The programs they start, the clock and the file system are parameters or the state; what is
  modelled is what the scripts make of them, up to the exit code. Printing is left out.
\<close>

subsection \<open>Programs and numbers\<close>

text \<open>How \<open>subprocess.run\<close> ends.\<close>

datatype outcome =
    Exited int string
  | NoProgram
  | Expired
  | Interrupted

datatype script_error =
    FileNotFoundError
  | TimeoutExpired
  | KeyboardInterrupt
  | CommandFailed
  | BadNumber
  | DividedByZero

text \<open>\<open>int(s)\<close>: a sign, and digits with single underscores between them.\<close>

fun digit_groups :: "string \<Rightarrow> bool" where
  "digit_groups [] = False"
| "digit_groups [c] = is_digit c"
| "digit_groups (c # d # s) = (is_digit c \<and> (if d = CHR ''_'' then digit_groups s else digit_groups (d # s)))"

definition unsigned :: "string \<Rightarrow> int option" where
  "unsigned s = (if digit_groups s then Some (read_nat (filter is_digit s)) else None)"

definition py_int :: "string \<Rightarrow> int option" where
  "py_int s = (case py_strip s of [] \<Rightarrow> None
     | c # t \<Rightarrow> if c = CHR ''-'' then map_option uminus (unsigned t)
         else if c = CHR ''+'' then unsigned t else unsigned (c # t))"

subsection \<open>Waiting for PostgreSQL\<close>

definition TIMEOUT_SECONDS :: rat where "TIMEOUT_SECONDS = 60"
definition POLL_INTERVAL :: rat where "POLL_INTERVAL = 2"

definition pg_is_ready :: "outcome \<Rightarrow> script_error + bool" where
  "pg_is_ready o' = (case o' of Exited c out \<Rightarrow> Inr (c = 0) | NoProgram \<Rightarrow> Inl FileNotFoundError
     | Expired \<Rightarrow> Inl TimeoutExpired | Interrupted \<Rightarrow> Inl KeyboardInterrupt)"

text \<open>
  \<open>clock n\<close> is the \<open>n\<close>-th reading of \<open>time.time()\<close>, the start being the first, \<open>probe n\<close> the \<open>n\<close>-th run of \<open>pg_isready\<close>.
  The loop has no end of its own: it relies on the clock.
\<close>

partial_function (option) wait_loop ::
  "rat \<Rightarrow> (nat \<Rightarrow> rat) \<Rightarrow> (nat \<Rightarrow> outcome) \<Rightarrow> nat \<Rightarrow> (script_error + bool) option" where
  "wait_loop limit clock probe n = (if fl (clock (Suc n) - clock 0) < limit
     then (case pg_is_ready (probe n) of Inl e \<Rightarrow> Some (Inl e)
       | Inr ready \<Rightarrow> if ready then Some (Inr True) else wait_loop limit clock probe (Suc n))
     else Some (Inr False))"

definition wait_for_postgres :: "rat \<Rightarrow> (nat \<Rightarrow> rat) \<Rightarrow> (nat \<Rightarrow> outcome) \<Rightarrow> (script_error + bool) option" where
  "wait_for_postgres timeout clock probe = wait_loop timeout clock probe 0"

definition wait_main :: "(nat \<Rightarrow> rat) \<Rightarrow> (nat \<Rightarrow> outcome) \<Rightarrow> (script_error + nat) option" where
  "wait_main clock probe = map_option (\<lambda>r. case r of Inl e \<Rightarrow> Inl e | Inr ready \<Rightarrow> Inr (if ready then 0 else 1))
     (wait_for_postgres TIMEOUT_SECONDS clock probe)"

text \<open>Sleeping advances the clock, so the loop ends.\<close>

definition in_time :: "rat \<Rightarrow> (nat \<Rightarrow> rat) \<Rightarrow> nat \<Rightarrow> bool" where
  "in_time limit clock n \<longleftrightarrow> fl (clock (Suc n) - clock 0) < limit"

definition goes_on :: "rat \<Rightarrow> (nat \<Rightarrow> rat) \<Rightarrow> (nat \<Rightarrow> outcome) \<Rightarrow> nat \<Rightarrow> bool" where
  "goes_on limit clock probe n \<longleftrightarrow> in_time limit clock n \<and> pg_is_ready (probe n) = Inr False"

lemma wait_skip: "\<forall>j < k. goes_on limit clock probe (n + j) \<Longrightarrow> wait_loop limit clock probe n = wait_loop limit clock probe (n + k)"
proof (induction k arbitrary: n)
  case (Suc k)
  have "goes_on limit clock probe n" using Suc.prems by (metis add_0_right zero_less_Suc)
  then have "wait_loop limit clock probe n = wait_loop limit clock probe (Suc n)"
    by (subst wait_loop.simps) (simp add: goes_on_def in_time_def)
  also have "\<dots> = wait_loop limit clock probe (Suc n + k)"
    by (rule Suc.IH) (use Suc.prems in \<open>auto simp: add_Suc_shift [symmetric] simp del: add_Suc_shift\<close>)
  finally show ?case by simp
qed simp

lemma wait_stops:
  assumes "\<not> goes_on limit clock probe n"
  shows "wait_loop limit clock probe n = Some (if \<not> in_time limit clock n then Inr False
    else case pg_is_ready (probe n) of Inl e \<Rightarrow> Inl e | Inr ready \<Rightarrow> Inr True)"
  using assms by (subst wait_loop.simps) (auto simp: goes_on_def in_time_def split: sum.split)

lemma clock_grows:
  assumes "clock 0 \<le> clock 1" and "\<forall>n \<ge> 1. clock n + d \<le> clock (Suc n)"
  shows "of_nat n * d \<le> clock (Suc n) - (clock 0 :: rat)"
proof (induction n)
  case (Suc n)
  have "clock (Suc n) + d \<le> clock (Suc (Suc n))" using assms(2) by simp
  then show ?case using Suc by (simp add: algebra_simps)
qed (use assms(1) in simp)

text \<open>
  Waiting ends: when the clock does not go back and each sleep takes its two seconds, the script runs
  \<open>pg_isready\<close> at most thirty times; it exits with 0 exactly when a run within the sixty seconds found the
  database ready, none before it having done so, and otherwise exits with 1 or with the exception of a
  run that could not be started.
\<close>

theorem waiting_ends:
  assumes "clock 0 \<le> clock 1" and "\<forall>n \<ge> 1. clock n + POLL_INTERVAL \<le> clock (Suc n)"
  shows "\<exists>k \<le> 30. (\<forall>j < k. in_time TIMEOUT_SECONDS clock j \<and> pg_is_ready (probe j) = Inr False) \<and>
    wait_main clock probe = Some (if \<not> in_time TIMEOUT_SECONDS clock k then Inr 1
      else case pg_is_ready (probe k) of Inl e \<Rightarrow> Inl e | Inr ready \<Rightarrow> Inr 0) \<and>
    \<not> (in_time TIMEOUT_SECONDS clock k \<and> pg_is_ready (probe k) = Inr False)"
proof -
  let ?on = "goes_on TIMEOUT_SECONDS clock probe"
  have "60 \<le> clock 31 - clock 0" using clock_grows [OF assms, of 30] by (simp add: POLL_INTERVAL_def)
  then have "60 \<le> fl (clock 31 - clock 0)" using fl_int [of 60] by (intro fl.ge_fixed) simp_all
  then have last: "\<not> ?on 30" by (simp add: goes_on_def in_time_def TIMEOUT_SECONDS_def)
  define k where "k = (LEAST n. \<not> ?on n)"
  have stop: "\<not> ?on k" "k \<le> 30" unfolding k_def using last by (rule LeastI, rule Least_le)
  have on: "?on j" if "j < k" for j using that not_less_Least [of j "\<lambda>n. \<not> ?on n"] unfolding k_def by blast
  have "wait_for_postgres TIMEOUT_SECONDS clock probe = Some (if \<not> in_time TIMEOUT_SECONDS clock k then Inr False
      else case pg_is_ready (probe k) of Inl e \<Rightarrow> Inl e | Inr ready \<Rightarrow> Inr True)"
    using wait_skip [of k TIMEOUT_SECONDS clock probe 0] on wait_stops [OF stop(1)] by (simp add: wait_for_postgres_def)
  then have "wait_main clock probe = Some (if \<not> in_time TIMEOUT_SECONDS clock k then Inr 1
      else case pg_is_ready (probe k) of Inl e \<Rightarrow> Inl e | Inr ready \<Rightarrow> Inr 0)"
    by (simp add: wait_main_def split: sum.split)
  then show ?thesis using stop on by (intro exI [of _ k]) (auto simp: goes_on_def)
qed

theorem waiting_ends_witness:
  "\<exists>k \<le> 30. wait_main (\<lambda>n. of_nat n * 2) (\<lambda>n. Exited (if n < 3 then 2 else 0) []) =
    Some (if \<not> in_time TIMEOUT_SECONDS (\<lambda>n. of_nat n * 2) k then Inr 1
      else case pg_is_ready (Exited (if k < 3 then 2 else 0) []) of Inl e \<Rightarrow> Inl e | Inr ready \<Rightarrow> Inr 0)"
proof -
  have "(0 :: rat) \<le> of_nat 1 * 2" "\<forall>n \<ge> 1. of_nat n * 2 + POLL_INTERVAL \<le> (of_nat (Suc n) * 2 :: rat)"
    by (simp_all add: POLL_INTERVAL_def)
  then show ?thesis using waiting_ends [of "\<lambda>n. of_nat n * 2" "\<lambda>n. Exited (if n < 3 then 2 else 0) []"] by auto
qed

subsection \<open>The pre-flight checks\<close>

definition check_docker :: "outcome \<Rightarrow> script_error + bool" where
  "check_docker info = (case info of Exited c out \<Rightarrow> Inr (c = 0) | NoProgram \<Rightarrow> Inr False | Expired \<Rightarrow> Inr False
     | Interrupted \<Rightarrow> Inl KeyboardInterrupt)"

definition check_docker_compose :: "outcome \<Rightarrow> script_error + bool" where
  "check_docker_compose version = (case version of Exited c out \<Rightarrow> Inr (c = 0) | Interrupted \<Rightarrow> Inl KeyboardInterrupt | _ \<Rightarrow> Inr False)"

text \<open>A placeholder in the file is a warning only.\<close>

definition check_env_file :: "string option \<Rightarrow> bool" where
  "check_env_file content = (content \<noteq> None)"

definition env_placeholders :: "string \<Rightarrow> string list" where
  "env_placeholders content = filter (\<lambda>p. contains (py_lower p) (py_lower content))
     [''your-secret-here'', ''changeme'', ''xxx'', ''REPLACE_ME'', ''your_password'', ''secret_key_here'']"

text \<open>Tuples are compared from the left.\<close>

definition at_least :: "int \<times> int \<Rightarrow> int \<times> int \<Rightarrow> bool" where
  "at_least v least \<longleftrightarrow> fst least < fst v \<or> fst least = fst v \<and> snd least \<le> snd v"

definition check_python :: "int \<times> int \<Rightarrow> bool" where
  "check_python v = (if at_least v (3, 11) then True else at_least v (3, 9))"

text \<open>
  A version that is not a number raises; when the program fails the function falls off its end, and \<open>None\<close> counts as a
  failed check.
\<close>

definition check_node :: "outcome \<Rightarrow> script_error + bool" where
  "check_node version = (case version of
     Exited c out \<Rightarrow> if c = 0
       then (case py_int (takeWhile (\<lambda>c. c \<noteq> CHR ''.'') (dropWhile (\<lambda>c. c = CHR ''v'') (py_strip out))) of
           None \<Rightarrow> Inl BadNumber | Some major \<Rightarrow> Inr True)
       else Inr False
   | NoProgram \<Rightarrow> Inr True
   | Expired \<Rightarrow> Inl TimeoutExpired
   | Interrupted \<Rightarrow> Inl KeyboardInterrupt)"

text \<open>A port in use is a warning only.\<close>

definition required_ports :: "nat list" where
  "required_ports = [3000, 8000, 5432, 9092, 4200]"

definition ports_in_use :: "(nat \<Rightarrow> bool) \<Rightarrow> nat list" where
  "ports_in_use connects = filter connects required_ports"

definition check_ports :: "(nat \<Rightarrow> bool) \<Rightarrow> bool" where
  "check_ports connects = True"

definition required_files :: "string list" where
  "required_files = [''scripts/generate_demo_data.py'', ''scripts/simulate_webhooks.py'', ''scripts/demo_full.py'',
     ''scripts/wait_for_postgres.py'', ''docker-compose.yml'']"

definition check_scripts :: "(string \<Rightarrow> bool) \<Rightarrow> bool" where
  "check_scripts there = (filter (\<lambda>f. \<not> there f) required_files = [])"

text \<open>What the checks find in the environment.\<close>

record environment =
  ev_docker :: outcome
  ev_compose :: outcome
  ev_env_file :: "string option"
  ev_python :: "int \<times> int"
  ev_node :: outcome
  ev_port :: "nat \<Rightarrow> bool"
  ev_file :: "string \<Rightarrow> bool"

definition doctor_checks :: "environment \<Rightarrow> (string \<times> (script_error + bool)) list" where
  "doctor_checks e = [(''Docker daemon'', check_docker (ev_docker e)), (''Docker Compose'', check_docker_compose (ev_compose e)),
     (''Environment file'', Inr (check_env_file (ev_env_file e))), (''Python version'', Inr (check_python (ev_python e))),
     (''Node.js'', check_node (ev_node e)), (''Port availability'', Inr (check_ports (ev_port e))),
     (''Required files'', Inr (check_scripts (ev_file e)))]"

fun run_checks :: "(string \<times> (script_error + bool)) list \<Rightarrow> script_error + (string \<times> bool) list" where
  "run_checks [] = Inr []"
| "run_checks ((label, check) # cs) = sbind check (\<lambda>passed. sbind (run_checks cs) (\<lambda>rs. Inr ((label, passed) # rs)))"

text \<open>The exit code, unless a check raises.\<close>

definition doctor_main :: "environment \<Rightarrow> script_error + nat" where
  "doctor_main e = sbind (run_checks (doctor_checks e)) (\<lambda>results.
     Inr (if filter (\<lambda>r. \<not> snd r) results = [] then 0 else 1))"

lemma run_checks_passed:
  "(\<exists>rs. run_checks cs = Inr rs \<and> filter (\<lambda>r. \<not> snd r) rs = []) \<longleftrightarrow> (\<forall>c \<in> set cs. snd c = Inr True)"
proof (induction cs)
  case (Cons c cs)
  obtain label check where c: "c = (label, check)" by fastforce
  show ?case
  proof (cases check)
    case (Inr passed)
    have "(\<exists>rs. run_checks (c # cs) = Inr rs \<and> filter (\<lambda>r. \<not> snd r) rs = []) \<longleftrightarrow>
        passed \<and> (\<exists>rs. run_checks cs = Inr rs \<and> filter (\<lambda>r. \<not> snd r) rs = [])" by (auto simp: c Inr split: if_splits)
    then show ?thesis using Cons.IH by (simp add: c Inr)
  qed (simp add: c)
qed simp

text \<open>
  A clean bill of health means what it says for docker, the environment file, Python and the files; Node may be missing
  or old, but must not fail, and neither placeholders nor busy ports matter.
\<close>

lemma doctor_passes:
  "doctor_main e = Inr 0 \<longleftrightarrow> (\<exists>out. ev_docker e = Exited 0 out) \<and> (\<exists>out. ev_compose e = Exited 0 out) \<and>
    ev_env_file e \<noteq> None \<and> at_least (ev_python e) (3, 9) \<and> (\<forall>f \<in> set required_files. ev_file e f) \<and>
    (ev_node e = NoProgram \<or> (\<exists>out. ev_node e = Exited 0 out \<and>
       py_int (takeWhile (\<lambda>c. c \<noteq> CHR ''.'') (dropWhile (\<lambda>c. c = CHR ''v'') (py_strip out))) \<noteq> None))"
proof -
  have "doctor_main e = Inr 0 \<longleftrightarrow> (\<forall>c \<in> set (doctor_checks e). snd c = Inr True)"
    unfolding run_checks_passed [symmetric] doctor_main_def by (cases "run_checks (doctor_checks e)") auto
  also have "\<dots> \<longleftrightarrow> check_docker (ev_docker e) = Inr True \<and> check_docker_compose (ev_compose e) = Inr True \<and>
      ev_env_file e \<noteq> None \<and> at_least (ev_python e) (3, 9) \<and> check_node (ev_node e) = Inr True \<and> (\<forall>f \<in> set required_files. ev_file e f)"
    by (auto simp: doctor_checks_def check_env_file_def check_python_def check_ports_def check_scripts_def filter_empty_conv
      at_least_def)
  also have "check_docker (ev_docker e) = Inr True \<longleftrightarrow> (\<exists>out. ev_docker e = Exited 0 out)"
    by (auto simp: check_docker_def split: outcome.splits)
  also have "check_docker_compose (ev_compose e) = Inr True \<longleftrightarrow> (\<exists>out. ev_compose e = Exited 0 out)"
    by (auto simp: check_docker_compose_def split: outcome.splits)
  also have "check_node (ev_node e) = Inr True \<longleftrightarrow> (ev_node e = NoProgram \<or> (\<exists>out. ev_node e = Exited 0 out \<and>
       py_int (takeWhile (\<lambda>c. c \<noteq> CHR ''.'') (dropWhile (\<lambda>c. c = CHR ''v'') (py_strip out))) \<noteq> None))"
    by (auto simp: check_node_def split: outcome.splits option.splits if_splits)
  finally show ?thesis by blast
qed

text \<open>A Node that fails blocks, although a missing one does not.\<close>

lemma failing_node_blocks: "check_node (Exited 1 out) = Inr False" "check_node NoProgram = Inr True"
  by (simp_all add: check_node_def)

subsection \<open>The smoke test\<close>

text \<open>What \<open>urlopen\<close> returns, or \<open>None\<close> when it or reading the body raises; the body is only printed.\<close>

type_synonym opener = "string \<Rightarrow> (nat \<times> string) option"

definition check_endpoint :: "opener \<Rightarrow> string \<Rightarrow> bool" where
  "check_endpoint urlopen url = (case urlopen url of None \<Rightarrow> False | Some (st, body) \<Rightarrow> st = 200)"

definition smoke_test :: "opener \<Rightarrow> nat" where
  "smoke_test urlopen = (let shallow = check_endpoint urlopen ''http://127.0.0.1:8000/health'';
       deep = check_endpoint urlopen ''http://127.0.0.1:8000/health/ready'' in if shallow \<and> deep then 0 else 1)"

text \<open>The API behind the two addresses: \<open>urlopen\<close> raises for every status that is not a success.\<close>

definition opened :: "(json \<Rightarrow> string) \<Rightarrow> nat \<times> json \<Rightarrow> (nat \<times> string) option" where
  "opened dumps answer = (if 200 \<le> fst answer \<and> fst answer < 300 then Some (fst answer, dumps (snd answer)) else None)"

definition running_api :: "(json \<Rightarrow> string) \<Rightarrow> string \<Rightarrow> probe \<Rightarrow> opener" where
  "running_api dumps version p url = (if url = ''http://127.0.0.1:8000/health'' then opened dumps (health version)
     else if url = ''http://127.0.0.1:8000/health/ready'' then opened dumps (health_ready version p) else None)"

lemma smoke_test_of_api:
  "smoke_test (running_api dumps version p) = (if snd (pr_postgres p) = Some (Inr ()) \<and>
     (\<exists>topics. snd (pr_redpanda p) = Some (Inr topics)) \<and> snd (pr_minio p) = Some (Inr True) then 0 else 1)"
  using readiness_contract [of version p]
  by (simp add: smoke_test_def check_endpoint_def running_api_def opened_def health_def)

subsection \<open>Cleaning the project\<close>

text \<open>
  The tree below the root: the parts of each path, and whether it is a directory. What a removal that raises has left
  is given by \<open>fails\<close>; \<open>None\<close> is a removal that succeeds. The listing is the order in which \<open>rglob\<close> visits the tree.
\<close>

type_synonym path = "string list"
type_synonym tree = "(path \<times> bool) list"
type_synonym failures = "path \<Rightarrow> (path \<Rightarrow> bool) option"

definition below :: "path \<Rightarrow> path \<Rightarrow> bool" where
  "below p q \<longleftrightarrow> take (length p) q = p"

definition rmtree :: "failures \<Rightarrow> path \<Rightarrow> tree \<Rightarrow> tree" where
  "rmtree fails p t = filter (\<lambda>e. below p (fst e) \<longrightarrow> (case fails p of None \<Rightarrow> False | Some left \<Rightarrow> left (fst e))) t"

definition unlink :: "failures \<Rightarrow> path \<Rightarrow> tree \<Rightarrow> tree" where
  "unlink fails p t = (if fails p = None then filter (\<lambda>e. fst e \<noteq> p) t else t)"

definition clean_cache :: "failures \<Rightarrow> path \<Rightarrow> tree \<Rightarrow> tree" where
  "clean_cache fails p t = (if map_of t p = Some True \<and> p \<noteq> [] \<and> last p = ''__pycache__'' then rmtree fails p t
     else if map_of t p = Some False \<and> p \<noteq> [] \<and> suffix_of (last p) = ''.pyc'' then unlink fails p t else t)"

definition clean_target :: "failures \<Rightarrow> path \<Rightarrow> tree \<Rightarrow> tree" where
  "clean_target fails p t = (case map_of t p of None \<Rightarrow> t | Some True \<Rightarrow> rmtree fails p t | Some False \<Rightarrow> unlink fails p t)"

definition clean_dashboard_target :: "failures \<Rightarrow> path \<Rightarrow> tree \<Rightarrow> tree" where
  "clean_dashboard_target fails p t = (if map_of t p = Some True then rmtree fails p t else t)"

definition clean_targets :: "path list" where
  "clean_targets = [[''.coverage''], [''htmlcov''], [''.pytest_cache''], [''scripts'', ''demo_data''], [''.ruff_cache''], [''.mypy_cache'']]"

definition dashboard_targets :: "path list" where
  "dashboard_targets = [[''dashboard'', ''node_modules''], [''dashboard'', ''.next'']]"

definition clean_project :: "failures \<Rightarrow> path list \<Rightarrow> bool \<Rightarrow> tree \<Rightarrow> tree" where
  "clean_project fails listing clean_dashboard t = (
     let t1 = fold (clean_cache fails) listing t;
         t2 = fold (clean_target fails) clean_targets t1
     in if clean_dashboard then fold (clean_dashboard_target fails) dashboard_targets t2 else t2)"

text \<open>What may go: caches, byte code and the targets.\<close>

definition disposable :: "bool \<Rightarrow> path \<times> bool \<Rightarrow> bool" where
  "disposable clean_dashboard e \<longleftrightarrow> ''__pycache__'' \<in> set (fst e) \<or> (\<not> snd e \<and> fst e \<noteq> [] \<and> suffix_of (last (fst e)) = ''.pyc'') \<or>
     (\<exists>p \<in> set (clean_targets @ (if clean_dashboard then dashboard_targets else [])). below p (fst e))"

lemma below_last: "below p q \<Longrightarrow> p \<noteq> [] \<Longrightarrow> last p \<in> set q"
  unfolding below_def by (metis in_set_takeD last_in_set)

lemma below_self [simp]: "below p p"
  by (simp add: below_def)

lemma rmtree_keeps: "e \<in> set t \<Longrightarrow> \<not> below p (fst e) \<Longrightarrow> e \<in> set (rmtree fails p t)"
  by (simp add: rmtree_def)

lemma unlink_keeps: "e \<in> set t \<Longrightarrow> fst e \<noteq> p \<Longrightarrow> e \<in> set (unlink fails p t)"
  by (simp add: unlink_def)

lemma removals_shrink: "set (rmtree fails p t) \<subseteq> set t" "set (unlink fails p t) \<subseteq> set t"
  by (auto simp: rmtree_def unlink_def)

definition one_entry :: "tree \<Rightarrow> bool" where
  "one_entry t \<longleftrightarrow> distinct (map fst t)"

lemma one_entry_kept [simp]: "one_entry t \<Longrightarrow> one_entry (rmtree fails p t)" "one_entry t \<Longrightarrow> one_entry (unlink fails p t)"
  by (auto simp: one_entry_def rmtree_def unlink_def distinct_map_filter)

lemma entry_at: "one_entry t \<Longrightarrow> e \<in> set t \<Longrightarrow> map_of t (fst e) = Some (snd e)"
  by (simp add: one_entry_def)

text \<open>One step keeps what is not disposable.\<close>

lemma clean_steps_keep:
  assumes "one_entry t" "e \<in> set t" "\<not> disposable dash e"
  shows "one_entry (clean_cache fails p t) \<and> e \<in> set (clean_cache fails p t)"
    and "p \<in> set clean_targets \<Longrightarrow> one_entry (clean_target fails p t) \<and> e \<in> set (clean_target fails p t)"
    and "dash \<Longrightarrow> p \<in> set dashboard_targets \<Longrightarrow>
      one_entry (clean_dashboard_target fails p t) \<and> e \<in> set (clean_dashboard_target fails p t)"
proof -
  have "\<not> below p (fst e)" if "p \<noteq> []" "last p = ''__pycache__''"
    using below_last [of p "fst e"] that assms(3) by (auto simp: disposable_def)
  moreover have "fst e \<noteq> p" if "map_of t p = Some False" "p \<noteq> []" "suffix_of (last p) = ''.pyc''"
    using entry_at [OF assms(1,2)] that assms(3) by (auto simp: disposable_def)
  ultimately show "one_entry (clean_cache fails p t) \<and> e \<in> set (clean_cache fails p t)"
    using assms(1,2) by (auto simp: clean_cache_def intro: rmtree_keeps unlink_keeps)
  have b: "\<not> below p (fst e)" if "p \<in> set clean_targets \<or> dash \<and> p \<in> set dashboard_targets"
    using that assms(3) unfolding disposable_def by auto
  moreover have "fst e \<noteq> p" if "\<not> below p (fst e)" using that by auto
  ultimately have t: "\<not> below p (fst e)" "fst e \<noteq> p" if "p \<in> set clean_targets \<or> dash \<and> p \<in> set dashboard_targets"
    using that by blast+
  show "p \<in> set clean_targets \<Longrightarrow> one_entry (clean_target fails p t) \<and> e \<in> set (clean_target fails p t)"
    using t assms(1,2) by (auto simp: clean_target_def intro: rmtree_keeps unlink_keeps split: option.split bool.split)
  show "dash \<Longrightarrow> p \<in> set dashboard_targets \<Longrightarrow>
      one_entry (clean_dashboard_target fails p t) \<and> e \<in> set (clean_dashboard_target fails p t)"
    using t assms(1,2) by (auto simp: clean_dashboard_target_def intro: rmtree_keeps)
qed

lemma fold_keeps: "(\<And>p t. p \<in> set ps \<Longrightarrow> P t \<Longrightarrow> P (f p t)) \<Longrightarrow> P t \<Longrightarrow> P (fold f ps t)"
  by (induction ps arbitrary: t) auto

text \<open>
  Cleaning is safe: whatever fails, an entry that is no cache, no byte code and not below a target is still there.
\<close>

lemma clean_project_safe:
  assumes "one_entry t" "e \<in> set t" "\<not> disposable dash e"
  shows "e \<in> set (clean_project fails listing dash t)"
proof -
  let ?P = "\<lambda>t. one_entry t \<and> e \<in> set t"
  have 1: "?P (fold (clean_cache fails) listing t)"
    by (rule fold_keeps [of _ ?P]) (use clean_steps_keep(1) assms in blast)+
  have 2: "?P (fold (clean_target fails) clean_targets (fold (clean_cache fails) listing t))"
    by (rule fold_keeps [of _ ?P]) (use clean_steps_keep(2) assms(3) 1 in blast)+
  have "?P (fold (clean_dashboard_target fails) dashboard_targets
      (fold (clean_target fails) clean_targets (fold (clean_cache fails) listing t)))" if dash
    by (rule fold_keeps [of _ ?P]) (use clean_steps_keep(3) assms(3) 2 that in blast)+
  then show ?thesis using 2 by (simp add: clean_project_def Let_def)
qed

subsection \<open>The full demo\<close>

text \<open>
  \<open>shell\<close> starts a program in the world of the demo, which also moves on while the script sleeps; \<open>load\<close> is
  \<open>load_fx_snapshots\<close>, whose failure is that of a command.
\<close>

type_synonym 'w shell = "string list \<Rightarrow> ('w, outcome) state"

definition attempt :: "('w, 'e + 'a) state \<Rightarrow> ('a \<Rightarrow> ('w, 'e + 'b) state) \<Rightarrow> ('w, 'e + 'b) state" where
  "attempt m k = do { r \<leftarrow> m; case r of Inl e \<Rightarrow> State_Monad.return (Inl e) | Inr x \<Rightarrow> k x }"

definition run_command :: "'w shell \<Rightarrow> string list \<Rightarrow> bool \<Rightarrow> ('w, script_error + int \<times> string) state" where
  "run_command shell cmd check = do { result \<leftarrow> shell cmd;
     State_Monad.return (case result of
       Exited c out \<Rightarrow> if check \<and> c \<noteq> 0 then Inl CommandFailed else Inr (c, out)
     | NoProgram \<Rightarrow> Inl FileNotFoundError | Expired \<Rightarrow> Inl TimeoutExpired | Interrupted \<Rightarrow> Inl KeyboardInterrupt) }"

definition pg_query :: "'w shell \<Rightarrow> string \<Rightarrow> ('w, script_error + string) state" where
  "pg_query shell sql = attempt (run_command shell
       [''docker'', ''compose'', ''exec'', ''-T'', ''postgres'', ''psql'', ''-U'', ''postgres'', ''-d'', ''reconciliation'', ''-t'', ''-c'', sql] False)
     (\<lambda>(c, out). State_Monad.return (Inr (py_strip out)))"

definition count_of :: "string \<Rightarrow> int" where
  "count_of raw = (case py_int (takeWhile (\<lambda>c. c \<noteq> CHR 0x0A) raw) of None \<Rightarrow> - 1 | Some n \<Rightarrow> n)"

definition table_count :: "'w shell \<Rightarrow> string \<Rightarrow> ('w, script_error + int) state" where
  "table_count shell table = attempt (pg_query shell (''SELECT count(*) FROM '' @ table @ '';''))
     (\<lambda>raw. State_Monad.return (Inr (count_of raw)))"

text \<open>Until the count of Silver has been the same for four readings, or sixty readings were taken.\<close>

fun drain :: "'w shell \<Rightarrow> nat \<Rightarrow> int \<Rightarrow> nat \<Rightarrow> ('w, script_error + int) state" where
  "drain shell 0 previous stable_for = State_Monad.return (Inr previous)"
| "drain shell (Suc left) previous stable_for = attempt (table_count shell ''silver_canonical_transactions'') (\<lambda>current.
     let stable = (if current = previous \<and> 0 < current then stable_for + 1 else 0) in
     if 3 \<le> stable then State_Monad.return (Inr current) else drain shell left current stable)"

fun table_counts :: "'w shell \<Rightarrow> string list \<Rightarrow> ('w, script_error + (string \<times> int) list) state" where
  "table_counts shell [] = State_Monad.return (Inr [])"
| "table_counts shell (t # ts) = attempt (table_count shell t) (\<lambda>n. attempt (table_counts shell ts) (\<lambda>ns.
     State_Monad.return (Inr ((t, n) # ns))))"

definition demo_tables :: "string list" where
  "demo_tables = [''bronze_ingestion_log'', ''silver_canonical_transactions'', ''gold_reconciliation_pairs'',
     ''gold_matched_transactions'', ''gold_discrepancies'']"

definition verified_tables :: "string list" where
  "verified_tables = [''bronze_ingestion_log'', ''silver_canonical_transactions'', ''gold_reconciliation_pairs'']"

definition compose_up :: "bool \<Rightarrow> string list" where
  "compose_up monitoring = [''docker'', ''compose'', ''-f'', ''docker-compose.yml''] @
     (if monitoring then [''-f'', ''docker-compose.monitoring.yml''] else []) @ [''up'', ''-d'', ''--build'', ''--wait'']"

definition run_matching_flow :: "string list" where
  "run_matching_flow = [''docker'', ''compose'', ''exec'', ''-T'', ''scheduler'', ''python'', ''-c'',
     ''import asyncio; from src.flows.matching_flow import silver_to_gold_matching_flow; '' @
     ''print(asyncio.run(silver_to_gold_matching_flow()))'']"

definition demo_steps ::
  "'w shell \<Rightarrow> ('w, script_error + unit) state \<Rightarrow> string \<Rightarrow> int \<Rightarrow> bool \<Rightarrow> ('w, script_error + (string \<times> int) list) state" where
  "demo_steps shell load python days monitoring =
     attempt (run_command shell (compose_up monitoring) True) (\<lambda>r.
     attempt (run_command shell [python, ''scripts/generate_demo_data.py'', ''--days'', show_int days] True) (\<lambda>r.
     attempt load (\<lambda>r.
     attempt (run_command shell [python, ''scripts/replay_demo_data.py'', ''--delay'', ''0''] True) (\<lambda>r.
     attempt (drain shell 60 (- 1) 0) (\<lambda>silver.
     attempt (run_command shell run_matching_flow True) (\<lambda>r.
     table_counts shell demo_tables))))))"

text \<open>The exit code; the match rate at the end divides by the count of Silver.\<close>

definition demo_main ::
  "'w shell \<Rightarrow> ('w, script_error + unit) state \<Rightarrow> string \<Rightarrow> int \<Rightarrow> bool \<Rightarrow> ('w, script_error + nat) state" where
  "demo_main shell load python days monitoring = do { result \<leftarrow> demo_steps shell load python days monitoring;
     State_Monad.return (case result of
       Inl e \<Rightarrow> if e = KeyboardInterrupt then Inr 130 else if e = CommandFailed then Inr 1 else Inl e
     | Inr found \<Rightarrow>
         if filter (\<lambda>t. the (map_of found t) \<le> 0) verified_tables \<noteq> [] then Inr 1
         else if the (map_of found ''silver_canonical_transactions'') = 0 then Inl DividedByZero else Inr 0) }"

lemma attempt_Inr:
  "run_state (attempt m k) w = (Inr x, w') \<longleftrightarrow> (\<exists>y v. run_state m w = (Inr y, v) \<and> run_state (k y) v = (Inr x, w'))"
  by (cases "run_state m w"; cases "fst (run_state m w)") (auto simp: attempt_def State_Monad.bind_def State_Monad.return_def)

lemma run_command_checked:
  "run_state (run_command shell cmd True) w = (Inr r, w') \<longleftrightarrow> (\<exists>out. run_state (shell cmd) w = (Exited 0 out, w') \<and> r = (0, out))"
  by (cases "run_state (shell cmd) w"; cases "fst (run_state (shell cmd) w)")
    (auto simp: run_command_def State_Monad.bind_def State_Monad.return_def)

text \<open>
  A demo that exits with 0 ran its five programs to success, one after the other, and then read a positive number of
  rows in Bronze, Silver and the pairs.
\<close>

lemma demo_success:
  assumes "run_state (demo_main shell load python days monitoring) w = (Inr 0, w')"
  shows "\<exists>w1 w2 w3 w4 w5 w6 o1 o2 o4 o6 n u found. run_state (shell (compose_up monitoring)) w = (Exited 0 o1, w1) \<and>
    run_state (shell [python, ''scripts/generate_demo_data.py'', ''--days'', show_int days]) w1 = (Exited 0 o2, w2) \<and>
    run_state load w2 = (Inr u, w3) \<and>
    run_state (shell [python, ''scripts/replay_demo_data.py'', ''--delay'', ''0'']) w3 = (Exited 0 o4, w4) \<and>
    run_state (drain shell 60 (- 1) 0) w4 = (Inr n, w5) \<and>
    run_state (shell run_matching_flow) w5 = (Exited 0 o6, w6) \<and>
    run_state (table_counts shell demo_tables) w6 = (Inr found, w') \<and>
    (\<forall>t \<in> set verified_tables. 0 < the (map_of found t))"
proof -
  obtain found where c: "run_state (demo_steps shell load python days monitoring) w = (Inr found, w')"
    "filter (\<lambda>t. the (map_of found t) \<le> 0) verified_tables = []"
    using assms by (cases "run_state (demo_steps shell load python days monitoring) w")
      (auto simp: demo_main_def State_Monad.bind_def State_Monad.return_def split: sum.splits if_splits)
  have "\<forall>t \<in> set verified_tables. 0 < the (map_of found t)" using c(2) by (auto simp: filter_empty_conv)
  then show ?thesis using c(1) unfolding demo_steps_def attempt_Inr run_command_checked
    by (elim exE conjE) (rule exI conjI | assumption)+
qed

text \<open>When every step returned, the match rate is printed without a division by zero.\<close>

lemma demo_rate_defined:
  assumes "run_state (demo_steps shell load python days monitoring) w = (Inr found, w')"
  shows "fst (run_state (demo_main shell load python days monitoring) w) \<in> {Inr 0, Inr 1}"
proof -
  have "''silver_canonical_transactions'' \<in> set verified_tables" by (simp add: verified_tables_def)
  then have "filter (\<lambda>t. the (map_of found t) \<le> 0) verified_tables \<noteq> []" if "the (map_of found ''silver_canonical_transactions'') = 0"
    using that unfolding filter_empty_conv by (metis order_refl)
  then show ?thesis using assms by (auto simp: demo_main_def State_Monad.bind_def State_Monad.return_def)
qed

end
