(* ===== verification/Spec2Isabelle.thy ===== *)
theory Spec2Isabelle
  imports Matching Settlement Discrepancy Fx Cbn_Report Silver Store Ingestion Transform Consumer Reconciliation
    Config Rate_Limit Access Scheduler Render Daily_Return Api_Read Pipeline Privileges Backfill Summary_View
    Key_Issue Timestamps Monitoring Chronology Demo_Data Simulator Polling_Client Object_Store Security_Scan
    Operator_Scripts
begin

text \<open>
  Verification of the multi-PSP reconciliation engine (Python, under \<open>src\<close>). Payment events of Paystack and
  Flutterwave enter by signed webhooks or by polling, pass through a topic into the Bronze and Silver
  layers of the lake, and are matched into the Gold tables, which the API, the alerts and the daily return
  read. Paths below are relative to the repository; a theory models the files named beside it, and keeps
  their names for functions, fields and constants. Every theory opens with what it holds and what its
  parameters stand for.

  \<^bold>\<open>== Parts, theories and sources ==\<close>

  \<^bold>\<open>Foundations.\<close> \<open>Prelude\<close>: the error monad \<open>exc + 'a\<close> in which everything that can raise is written, the named
  collections of facts, lists and stable sorting. \<open>PyNum\<close>: \<open>int\<close>, \<open>decimal\<close> and \<open>float\<close> with their rounding
  (the locale \<open>rounding\<close>, interpreted on binary64, the 28-digit decimal context and \<open>quantize\<close>). \<open>PyStr\<close>,
  \<open>PyJson\<close>: text and dynamically typed payloads. \<open>Clock\<close>, \<open>Timestamps\<close>, \<open>Chronology\<close>: instants, the calendar
  both ways, and the order of rendered timestamps. \<open>Render\<close>: what the API renders values with.

  \<^bold>\<open>Ingestion.\<close> \<open>Idempotency\<close> (\<open>src/engine/idempotency.py\<close>): the key and its registry; its locale
  \<open>dedup_store\<close>, the contract of every layer that deduplicates, is interpreted on the registry, the Bronze log,
  the Silver table and the discrepancies. \<open>Ingestion\<close> (\<open>src/flows/ingestion_flow.py\<close>,
  \<open>src/storage/kafka_producer.py\<close>, \<open>src/connectors\<close>, \<open>src/api/v1/routes/webhooks.py\<close>,
  \<open>src/flows/polling_backfill_flow.py\<close>): register, publish, commit; the webhook endpoint; polled transactions.
  \<open>Polling_Client\<close> (\<open>src/connectors/paystack_polling.py\<close>, \<open>flutterwave_polling.py\<close>): the requests of the API
  clients and what they make of the answers. \<open>Scheduler\<close> (\<open>src/flows/scheduler.py\<close>,
  \<open>gap_detection_flow.py\<close>, \<open>fx_capture_flow.py\<close>): the periodic and the daily loop with the flows they run.

  \<^bold>\<open>Transform.\<close> \<open>Pii\<close>, \<open>Normaliser\<close>, \<open>Fx\<close> (\<open>src/engine\<close>): masking, the canonical record, exchange rates.
  \<open>Silver\<close> (\<open>src/contracts/silver/canonical_schema.py\<close>, migrations 003 and 005), \<open>Store\<close>
  (\<open>src/storage/postgres.py\<close>, \<open>pipeline_runs.py\<close>), \<open>Object_Store\<close> (\<open>src/storage/minio_client.py\<close>),
  \<open>Transform\<close> (\<open>src/flows/transform_flow.py\<close>): one message into Bronze and Silver. \<open>Consumer\<close>
  (\<open>src/flows/consumer_worker.py\<close>, \<open>src/storage/kafka_consumer.py\<close>): retries, dead letters, committed offsets.
  \<open>Pipeline\<close> joins ingestion and consumer through the topic.

  \<^bold>\<open>Reconciliation.\<close> \<open>Matching\<close> (\<open>src/engine/matching.py\<close>; the locale \<open>guarded_choice\<close> is the contract of both
  tiers), \<open>Settlement\<close>, \<open>Discrepancy\<close> (\<open>src/engine\<close>), \<open>Gold\<close> (migrations 001, 007, 008, 013, 014, 015),
  \<open>Matching_Flow\<close> (\<open>src/flows/matching_flow.py\<close>), \<open>Resolution\<close> (the writing endpoints of
  \<open>src/api/v1/routes/reconciliation.py\<close>), \<open>Alerting\<close> (\<open>src/alerting/slack.py\<close>); \<open>Reconciliation\<close> is the system in
  which overlapping matching runs, analysts and alerts share these tables.

  \<^bold>\<open>Reporting.\<close> \<open>Cbn_Report\<close> (\<open>src/engine/cbn_report.py\<close>), \<open>Daily_Return\<close>
  (\<open>src/flows/daily_report_flow.py\<close>, \<open>src/api/v1/routes/reports.py\<close>, migration 009), \<open>Api_Read\<close> (the reading
  endpoints of \<open>src/api/v1/routes\<close>), \<open>Summary_View\<close> (the materialised view of migrations 010 and 015),
  \<open>Monitoring\<close> (\<open>src/observability/metrics.py\<close>, \<open>src/api/main.py\<close>).

  \<^bold>\<open>Operation.\<close> \<open>Config\<close> (\<open>src/config.py\<close>), \<open>Access\<close> (\<open>src/api/middleware/auth.py\<close>), \<open>Rate_Limit\<close>
  (\<open>src/api/middleware/rate_limit.py\<close>; the locale \<open>token_source\<close>), \<open>Key_Issue\<close> (\<open>scripts/create_api_key.py\<close>),
  \<open>Privileges\<close> (migrations 011 and 015), \<open>Backfill\<close> (the data part of migration 015), \<open>Security_Scan\<close>
  (\<open>scripts/security_check.py\<close>).

  \<^bold>\<open>Synthetic traffic.\<close> \<open>Sim_Events\<close>, \<open>Webhook_Client\<close>, \<open>Demo_Data\<close>, \<open>Simulator\<close>
  (\<open>scripts/generate_demo_data.py\<close>, \<open>replay_demo_data.py\<close>, \<open>simulate_webhooks.py\<close>): the events the scripts build,
  sent to the modelled endpoints. \<open>Demo_Rates\<close> (\<open>load_fx_snapshots\<close> of \<open>scripts/demo_full.py\<close>): the synthetic rates in the
  table. \<open>Operator_Scripts\<close> (\<open>doctor.py\<close>, \<open>wait_for_postgres.py\<close>, \<open>smoke_test.py\<close>, \<open>clean_project.py\<close>,
  \<open>demo_full.py\<close>): the exit codes of the scripts an operator runs.

  \<^bold>\<open>== How state and operations correspond to the code ==\<close>

  A table is a list of records in insertion order, or a map from its primary key; an insert or update checks
  the constraints of the migrations and raises as the driver does. A database session is a function of the
  tables and the outside world that commits or is rolled back as a whole; what it did to the world stays.
  A function of the code that can raise returns \<open>Inl\<close> the exception or \<open>Inr\<close> its result, with one branch for each
  raise, early return and handler. Concurrency is interleaving of committed transactions: the step
  relations of \<open>Consumer\<close>, \<open>Pipeline\<close> and \<open>Reconciliation\<close> allow any order, with failures and restarts in between.

  Parameters, with no definition here: hashes and the HMAC (injective only where a statement says so), the JSON
  printer and reader, the broker's choice of a partition and its failures, HTTP clients and the services
  behind them, the clock, generated identifiers, the Parquet format, Slack. Random numbers are a stream of naturals
  that the scripts consume in order, so that a statement for every stream covers every seed.

  \<^bold>\<open>== What the lemmas show ==\<close>

  \<^bold>\<open>Nothing is lost or doubled.\<close> A key is announced as new once, and a registered key has its message in the
  topic; a message below the committed offset is in Silver under that key or parked with its bytes, and the
  consumer drains every topic; processing a message again changes nothing; Bronze objects never collide; a poll
  returns all a PSP serves, or fails.

  \<^bold>\<open>Matching is sound.\<close> One-to-one, only complementary transactions within the tiers' bounds, independent of the
  order of candidates, scores in the unit interval with every rounding written out; the invariant survives
  overlapping runs, because the unique keys refuse the second writer.

  \<^bold>\<open>The workflow is a lifecycle.\<close> The detailed tables refine an abstract lifecycle of discrepancies (raised at most
  once, closed at most once); resolving, bulk resolving, overdue settlements and alerts are described on every branch.

  \<^bold>\<open>What is reported is what is stored.\<close> The exposure endpoint, the summary view, the metrics and the daily return
  agree with the tables and with each other; pages of a search are complete; the velocity flag is exact.

  \<^bold>\<open>Access and operation.\<close> Authentication fails closed, the rate limit bounds every client over any sequence of
  requests, every writing statement is granted and nothing beyond, settings that load are safe, the scheduler's
  windows leave no gap up to the interval stated, the backfill is one-to-one, the build gate is exact.

  \<^bold>\<open>== Bounds and fuel ==\<close>

  No definition needs fuel: every loop of the code is a recursion over a list, a page counter or an attempt counter,
  and \<open>termination\<close> is proved where the recursion is not structural; the wait for the database, which only the clock
  ends, is a partial function, proved to return after at most thirty probes. \<open>MAX_PAGES\<close> (200) bounds a poll as in the code, so
  a listing is complete up to 20000 transactions; \<open>MAX_TRANSIENT_ATTEMPTS\<close> (5) bounds the attempts for a message. The
  endless loops of the scheduler run against a finite list of what the event loop delivers, of any length.
  Text is ASCII. Decimals have 28 digits and floats 53 bits, with an unbounded exponent. The exact sums of
  exposures need amounts of the columns' type and a total below ten to the twenty-second, so that 28 digits hold it.
  Instants are those \<open>datetime\<close> represents (years 1 to 9999) wherever one is printed.

  \<^bold>\<open>== Not modelled ==\<close>

  Logging (\<open>src/observability/logging.py\<close>) configures a library and nothing reads its output. The Bronze schemas
  (\<open>src/contracts/bronze\<close>) are column declarations that no flow applies. Migrations 000, 002, 006 and 012 create
  extensions, columns and fixed rows; the rows the code writes are records of the theories that use them. Indexes,
  downgrades, connection pools, response models and routing are declarations of libraries. 
  The dashboard is a TypeScript program and no part of this development.
\<close>

end
